(* ===== verification/Prelude.thy ===== *)
theory Prelude
  imports Main "HOL-Library.Sublist" "HOL-Library.Multiset"
begin

text \<open>
  The shared ground of the development: the operations of Go's standard library that the program
  uses (strings, decimal numbers, stable sorting, times and durations), as executable functions,
  and the generic lemmas the component theories rewrite with.

  Go strings are byte strings, so they are HOL's \<^typ>\<open>string\<close> (lists of 8-bit characters).
  A \<^verbatim>\<open>time.Time\<close> is an instant: the number of nanoseconds since the Unix epoch, an
  unbounded \<^typ>\<open>int\<close>. A \<^verbatim>\<open>time.Duration\<close> is an \<^typ>\<open>int\<close> too; the places where Go
  keeps it inside 64 bits (\<open>time_sub\<close> saturates, \<open>wrap64\<close> wraps) are written out.
\<close>

named_theorems go_simps \<open>evaluation rules for the models of Go's standard library\<close>
named_theorems chain_simps \<open>rewrite rules about chains of backups\<close>

section \<open>Strings\<close>

definition hasPrefix :: "string \<Rightarrow> string \<Rightarrow> bool" where
  "hasPrefix s p \<longleftrightarrow> prefix p s"

definition hasSuffix :: "string \<Rightarrow> string \<Rightarrow> bool" where
  "hasSuffix s p \<longleftrightarrow> prefix (rev p) (rev s)"

definition trimPrefix :: "string \<Rightarrow> string \<Rightarrow> string" where
  "trimPrefix s p = (if hasPrefix s p then drop (length p) s else s)"

definition trimSuffix :: "string \<Rightarrow> string \<Rightarrow> string" where
  "trimSuffix s p = (if hasSuffix s p then take (length s - length p) s else s)"

text \<open>\<^verbatim>\<open>strings.CutPrefix\<close>: what follows the prefix, or \<open>None\<close>.\<close>

definition cutPrefix :: "string \<Rightarrow> string \<Rightarrow> string option" where
  "cutPrefix s p = (if hasPrefix s p then Some (drop (length p) s) else None)"

text \<open>\<^verbatim>\<open>strings.Index\<close> and \<^verbatim>\<open>strings.LastIndex\<close>, with \<open>None\<close> for -1.\<close>

fun indexOf :: "string \<Rightarrow> string \<Rightarrow> nat option" where
  "indexOf [] sub = (if sub = [] then Some 0 else None)"
| "indexOf (c # s) sub =
     (if prefix sub (c # s) then Some 0 else map_option Suc (indexOf s sub))"

fun lastIndexOf :: "string \<Rightarrow> string \<Rightarrow> nat option" where
  "lastIndexOf [] sub = (if sub = [] then Some 0 else None)"
| "lastIndexOf (c # s) sub =
     (case lastIndexOf s sub of
        Some i \<Rightarrow> Some (Suc i)
      | None \<Rightarrow> if prefix sub (c # s) then Some 0 else None)"

definition containsStr :: "string \<Rightarrow> string \<Rightarrow> bool" where
  "containsStr s sub \<longleftrightarrow> indexOf s sub \<noteq> None"

lemma indexOf_bound: "indexOf s sub = Some i \<Longrightarrow> i + length sub \<le> length s"
proof (induction s arbitrary: i)
  case Nil
  then show ?case by (auto split: if_splits)
next
  case (Cons c s)
  then show ?case by (fastforce split: if_splits dest: prefix_length_le)
qed

text \<open>
  \<^verbatim>\<open>strings.Split\<close>. With an empty separator Go splits after each UTF-8 sequence; the model
  splits after each byte, which is the same on ASCII text. (No caller relies on that case.)
\<close>

function splitOn :: "string \<Rightarrow> string \<Rightarrow> string list" where
  "splitOn s sep =
     (if sep = [] then map (\<lambda>c. [c]) s
      else case indexOf s sep of
             None \<Rightarrow> [s]
           | Some i \<Rightarrow> take i s # splitOn (drop (i + length sep) s) sep)"
  by pat_completeness auto
termination
proof (relation "measure (\<lambda>(s, sep). length s)", goal_cases)
  case 1
  show ?case by simp
next
  case (2 s sep i)
  then show ?case using indexOf_bound [of s sep i] by (cases sep) auto
qed

declare splitOn.simps [simp del]

fun joinWith :: "string list \<Rightarrow> string \<Rightarrow> string" where
  "joinWith [] sep = []"
| "joinWith [p] sep = p"
| "joinWith (p # q # ps) sep = p @ sep @ joinWith (q # ps) sep"

text \<open>
  \<^verbatim>\<open>strings.TrimSpace\<close>, \<^verbatim>\<open>strings.Fields\<close> and \<^verbatim>\<open>strings.Cut\<close>. White space is that of ASCII;
  Go also takes two non-ASCII characters and the Unicode spaces, which no input of the program uses.
\<close>

definition isSpace :: "char \<Rightarrow> bool" where
  "isSpace c \<longleftrightarrow> of_char c \<in> {9, 10, 11, 12, 13, 32 :: nat}"

definition trimSpace :: "string \<Rightarrow> string" where
  "trimSpace s = rev (dropWhile isSpace (rev (dropWhile isSpace s)))"

fun fieldsFrom :: "string \<Rightarrow> string \<Rightarrow> string list" where
  "fieldsFrom acc [] = (if acc = [] then [] else [rev acc])"
| "fieldsFrom acc (c # s) =
     (if isSpace c then (if acc = [] then fieldsFrom [] s else rev acc # fieldsFrom [] s)
      else fieldsFrom (c # acc) s)"

definition fields :: "string \<Rightarrow> string list" where
  "fields s = fieldsFrom [] s"

definition cutStr :: "string \<Rightarrow> string \<Rightarrow> (string \<times> string) option" where
  "cutStr s sep = map_option (\<lambda>i. (take i s, drop (i + length sep) s)) (indexOf s sep)"

lemma trimSpace_id:
  assumes "s \<noteq> []" "\<not> isSpace (hd s)" "\<not> isSpace (last s)"
  shows "trimSpace s = s"
proof -
  have "dropWhile isSpace s = s" using assms(1,2) by (cases s) simp_all
  moreover have "dropWhile isSpace (rev s) = rev s" using assms(1,3) by (cases s rule: rev_cases) simp_all
  ultimately show ?thesis by (simp add: trimSpace_def)
qed

lemma trimSpace_no_space: "list_all (\<lambda>c. \<not> isSpace c) s \<Longrightarrow> trimSpace s = s"
  by (cases "s = []") (auto simp: trimSpace_def [of "[]"] list_all_iff intro!: trimSpace_id)

lemma hasPrefix_append [simp]: "hasPrefix (p @ s) p"
  by (simp add: hasPrefix_def)

lemma hasPrefix_Nil [simp]: "hasPrefix s []"
  by (simp add: hasPrefix_def)

lemma hasPrefix_iff: "hasPrefix s p \<longleftrightarrow> (\<exists>r. s = p @ r)"
  by (auto simp: hasPrefix_def prefix_def)

lemma hasSuffix_iff: "hasSuffix s p \<longleftrightarrow> (\<exists>r. s = r @ p)"
  unfolding hasSuffix_def by (metis suffix_def suffix_to_prefix)

lemma trimPrefix_append [simp]: "trimPrefix (p @ s) p = s"
  by (simp add: trimPrefix_def)

lemma cutPrefix_Some_iff: "cutPrefix s p = Some r \<longleftrightarrow> s = p @ r"
  by (auto simp: cutPrefix_def hasPrefix_iff)

lemmas string_eval [go_simps] =
  hasPrefix_def hasSuffix_def trimPrefix_def trimSuffix_def cutPrefix_def containsStr_def

subsection \<open>Searching: what the two index functions promise\<close>

lemma indexOf_None: "indexOf s sub = None \<longleftrightarrow> (\<nexists>a b. s = a @ sub @ b)"
proof (induction s)
  case Nil
  then show ?case by auto
next
  case (Cons c s)
  have split: "(\<exists>a b. c # s = a @ sub @ b) \<longleftrightarrow> prefix sub (c # s) \<or> (\<exists>a b. s = a @ sub @ b)"
    by (metis append_Cons append_Nil list.exhaust list.inject prefix_def)
  show ?case
    using Cons.IH by (simp only: split) auto
qed

lemma indexOf_Some:
  "indexOf s sub = Some i \<Longrightarrow> s = take i s @ sub @ drop (i + length sub) s"
proof (induction s arbitrary: i)
  case Nil
  then show ?case by (auto split: if_splits)
next
  case (Cons c s)
  then show ?case by (auto split: if_splits simp: prefix_def)
qed

text \<open>
  A string that holds no character of \<open>sub\<close> in common with the left part cannot hold an earlier
  occurrence: the form in which the name parser needs the search.
\<close>

lemma indexOf_append_notin:
  assumes "\<And>c. c \<in> set a \<Longrightarrow> c \<noteq> hd sub" and "sub \<noteq> []"
  shows "indexOf (a @ sub @ b) sub = Some (length a)"
  using assms(1)
proof (induction a)
  case Nil
  then show ?case using assms(2) by (cases sub; cases b) auto
next
  case (Cons c a)
  have "\<not> prefix sub (c # a @ sub @ b)"
    using Cons.prems assms(2) by (cases sub) auto
  then show ?case using Cons by simp
qed

lemma lastIndexOf_None: "lastIndexOf s sub = None \<longleftrightarrow> (\<nexists>a b. s = a @ sub @ b)"
proof (induction s)
  case Nil
  then show ?case by auto
next
  case (Cons c s)
  have split: "(\<exists>a b. c # s = a @ sub @ b) \<longleftrightarrow> prefix sub (c # s) \<or> (\<exists>a b. s = a @ sub @ b)"
    by (metis append_Cons append_Nil list.exhaust list.inject prefix_def)
  show ?case
    using Cons.IH by (simp only: split) (auto split: option.splits)
qed

lemma lastIndexOf_Some:
  "lastIndexOf s sub = Some i \<Longrightarrow> i + length sub \<le> length s \<and> s = take i s @ sub @ drop (i + length sub) s"
proof (induction s arbitrary: i)
  case Nil
  then show ?case by (auto split: if_splits)
next
  case (Cons c s)
  show ?case
  proof (cases "lastIndexOf s sub")
    case None
    then have "prefix sub (c # s)" and "i = 0"
      using Cons.prems by (simp_all split: if_splits)
    then show ?thesis by (auto simp: prefix_def) (metis length_Cons length_append le_add1)
  next
    case (Some j)
    then have "i = Suc j" using Cons.prems by simp
    with Some Cons.IH [of j] show ?thesis by simp
  qed
qed

lemma lastIndexOf_append:
  assumes "\<nexists>x y. tl (sub @ b) = x @ sub @ y" and "sub \<noteq> []"
  shows "lastIndexOf (a @ sub @ b) sub = Some (length a)"
proof (induction a)
  case Nil
  obtain c r where sub: "sub = c # r" using assms(2) by (cases sub) auto
  have "lastIndexOf (r @ b) sub = None"
    using assms(1) by (subst lastIndexOf_None) (simp add: sub)
  then show ?case by (simp add: sub)
next
  case (Cons c a)
  then show ?case by simp
qed

section \<open>Decimal numbers\<close>

text \<open>\<^verbatim>\<open>strconv.FormatInt(n, 10)\<close> and \<^verbatim>\<open>%d\<close>.\<close>

definition digitChar :: "nat \<Rightarrow> char" where
  "digitChar d = char_of (48 + d)"

fun formatNat :: "nat \<Rightarrow> string" where
  "formatNat n = (if n < 10 then [digitChar n] else formatNat (n div 10) @ [digitChar (n mod 10)])"

declare formatNat.simps [simp del]

definition formatInt :: "int \<Rightarrow> string" where
  "formatInt i = (if i < 0 then CHR ''-'' # formatNat (nat (- i)) else formatNat (nat i))"

definition isDigit :: "char \<Rightarrow> bool" where
  "isDigit c \<longleftrightarrow> 48 \<le> (of_char c :: nat) \<and> (of_char c :: nat) \<le> 57"

definition digitVal :: "char \<Rightarrow> nat" where
  "digitVal c = of_char c - 48"

definition digitsVal :: "string \<Rightarrow> nat" where
  "digitsVal s = foldl (\<lambda>n c. 10 * n + digitVal c) 0 s"

text \<open>
  \<^verbatim>\<open>strconv.ParseInt(s, 10, 64)\<close>: an optional sign, then at least one decimal digit and
  nothing else; a value that does not fit into 64 bits is an error.
\<close>

definition parseDigits :: "string \<Rightarrow> nat option" where
  "parseDigits s = (if s \<noteq> [] \<and> list_all isDigit s then Some (digitsVal s) else None)"

definition parseInt64 :: "string \<Rightarrow> int option" where
  "parseInt64 s =
     (case s of
        [] \<Rightarrow> None
      | c # r \<Rightarrow>
          if c = CHR ''-'' then
            (case parseDigits r of
               None \<Rightarrow> None
             | Some n \<Rightarrow> if n \<le> 2 ^ 63 then Some (- int n) else None)
          else
            (case parseDigits (if c = CHR ''+'' then r else s) of
               None \<Rightarrow> None
             | Some n \<Rightarrow> if n < 2 ^ 63 then Some (int n) else None))"

lemma of_char_digitChar [simp]: "d < 10 \<Longrightarrow> (of_char (digitChar d) :: nat) = 48 + d"
  by (simp add: digitChar_def of_char_of)

lemma isDigit_digitChar [simp]: "d < 10 \<Longrightarrow> isDigit (digitChar d)"
  by (simp add: isDigit_def)

lemma digitVal_digitChar [simp]: "d < 10 \<Longrightarrow> digitVal (digitChar d) = d"
  by (simp add: digitVal_def)

lemma digitsVal_snoc [simp]: "digitsVal (s @ [c]) = 10 * digitsVal s + digitVal c"
  by (simp add: digitsVal_def)

lemma formatNat_digits: "list_all isDigit (formatNat n)"
proof (induction n rule: formatNat.induct)
  case (1 n)
  then show ?case by (subst formatNat.simps) auto
qed

lemma formatNat_nonempty [simp]: "formatNat n \<noteq> []"
  by (subst formatNat.simps) simp

lemma digitsVal_formatNat [simp]: "digitsVal (formatNat n) = n"
proof (induction n rule: formatNat.induct)
  case (1 n)
  show ?case
  proof (cases "n < 10")
    case True
    then show ?thesis by (subst formatNat.simps) (simp add: digitsVal_def)
  next
    case False
    then show ?thesis using 1 by (subst formatNat.simps) simp
  qed
qed

lemma parseDigits_formatNat [simp]: "parseDigits (formatNat n) = Some n"
  by (simp add: parseDigits_def formatNat_digits)

lemma formatNat_inj [simp]: "formatNat m = formatNat n \<longleftrightarrow> m = n"
  by (metis digitsVal_formatNat)

lemma not_isDigit_sign [simp]: "\<not> isDigit (CHR ''-'')" "\<not> isDigit (CHR ''+'')" "\<not> isDigit (CHR ''@'')"
    "\<not> isDigit (CHR ''.'')" "\<not> isDigit (CHR ''v'')"
  by (simp_all add: isDigit_def)

lemma formatNat_hd: "formatNat n = c # r \<Longrightarrow> isDigit c"
  using formatNat_digits [of n] by simp

lemma notin_formatNat: "\<not> isDigit c \<Longrightarrow> c \<notin> set (formatNat n)"
  using formatNat_digits [of n] by (auto simp: list_all_iff)

text \<open>The bounds as integers, for evaluation.\<close>

lemma parseInt64_code [code]:
  "parseInt64 s =
     (case s of
        [] \<Rightarrow> None
      | c # r \<Rightarrow>
          if c = CHR ''-'' then
            (case parseDigits r of
               None \<Rightarrow> None
             | Some n \<Rightarrow> if int n \<le> 9223372036854775808 then Some (- int n) else None)
          else
            (case parseDigits (if c = CHR ''+'' then r else s) of
               None \<Rightarrow> None
             | Some n \<Rightarrow> if int n < 9223372036854775808 then Some (int n) else None))"
proof -
  have limit: "int (2 ^ 63) = 9223372036854775808" by simp
  have "n \<le> 2 ^ 63 \<longleftrightarrow> int n \<le> 9223372036854775808" "n < 2 ^ 63 \<longleftrightarrow> int n < 9223372036854775808" for n
    unfolding limit [symmetric] by (simp_all only: of_nat_le_iff of_nat_less_iff)
  then show ?thesis by (simp only: parseInt64_def)
qed

lemma parseInt64_formatNat: "n < 2 ^ 63 \<Longrightarrow> parseInt64 (formatNat n) = Some (int n)"
proof -
  assume n: "n < 2 ^ 63"
  obtain c r where cr: "formatNat n = c # r" by (cases "formatNat n") auto
  then have "isDigit c" by (rule formatNat_hd)
  then have "c \<noteq> CHR ''-''" "c \<noteq> CHR ''+''" by (auto simp del: not_isDigit_sign simp: isDigit_def)
  with cr n parseDigits_formatNat [of n] show ?thesis by (simp add: parseInt64_def)
qed

lemma formatInt_inj [simp]: "formatInt i = formatInt j \<longleftrightarrow> i = j"
proof
  assume eq: "formatInt i = formatInt j"
  have neg: "formatNat m \<noteq> CHR ''-'' # r" for m r
    using formatNat_hd by fastforce
  show "i = j"
    using eq neg neg [symmetric] by (auto simp: formatInt_def split: if_splits)
qed simp

lemma notin_formatInt: "\<not> isDigit c \<Longrightarrow> c \<noteq> CHR ''-'' \<Longrightarrow> c \<notin> set (formatInt i)"
  by (auto simp: formatInt_def dest: notin_formatNat split: if_splits)

lemma fieldsFrom_word: "list_all (\<lambda>c. \<not> isSpace c) w \<Longrightarrow> fieldsFrom acc (w @ s) = fieldsFrom (rev w @ acc) s"
  by (induction w arbitrary: acc) auto

lemma isDigit_not_space: "isDigit c \<Longrightarrow> \<not> isSpace c"
  by (auto simp: isDigit_def isSpace_def)

lemma formatInt_no_space: "list_all (\<lambda>c. \<not> isSpace c) (formatInt i)" and formatInt_nonempty: "formatInt i \<noteq> []"
proof -
  have "list_all (\<lambda>c. \<not> isSpace c) (formatNat n)" for n
    using formatNat_digits [of n] isDigit_not_space by (auto simp: list_all_iff)
  moreover have "\<not> isSpace (CHR ''-'')" by (simp add: isSpace_def)
  ultimately show "list_all (\<lambda>c. \<not> isSpace c) (formatInt i)" "formatInt i \<noteq> []" by (simp_all add: formatInt_def)
qed

section \<open>Times and durations\<close>

type_synonym time = int
type_synonym duration = int

text \<open>The zero \<^verbatim>\<open>time.Time\<close> is midnight of January 1st of year 1, UTC.\<close>

definition zeroTime :: time where
  "zeroTime = - 62135596800 * 1000000000"

definition isZero :: "time \<Rightarrow> bool" where
  "isZero t \<longleftrightarrow> t = zeroTime"

definition maxInt64 :: int where
  "maxInt64 = 2 ^ 63 - 1"

definition minInt64 :: int where
  "minInt64 = - (2 ^ 63)"

definition wrap64 :: "int \<Rightarrow> int" where
  "wrap64 i = (i + 2 ^ 63) mod 2 ^ 64 - 2 ^ 63"

text \<open>\<^verbatim>\<open>t.Sub(u)\<close> saturates at the ends of \<^verbatim>\<open>time.Duration\<close>.\<close>

definition time_sub :: "time \<Rightarrow> time \<Rightarrow> duration" where
  "time_sub t u = max minInt64 (min maxInt64 (t - u))"

text \<open>\<^verbatim>\<open>t.Unix()\<close> and \<^verbatim>\<open>t.UnixNano()\<close>; the latter is reduced to 64 bits.\<close>

text \<open>Go's integer division truncates towards zero.\<close>

definition goQuot :: "int \<Rightarrow> int \<Rightarrow> int" where
  "goQuot a b = (if (a < 0) = (b < 0) then \<bar>a\<bar> div \<bar>b\<bar> else - (\<bar>a\<bar> div \<bar>b\<bar>))"

definition unix :: "time \<Rightarrow> int" where
  "unix t = t div 1000000000"

definition unixNano :: "time \<Rightarrow> int" where
  "unixNano t = wrap64 t"

definition second :: duration where "second = 1000000000"
definition minute :: duration where "minute = 60 * second"
definition hour :: duration where "hour = 60 * minute"
definition day :: duration where "day = 24 * hour"

lemmas duration_defs [go_simps] = second_def minute_def hour_def day_def

definition inInt64 :: "int \<Rightarrow> bool" where
  "inInt64 i \<longleftrightarrow> minInt64 \<le> i \<and> i \<le> maxInt64"

lemma parseInt64_formatInt: "inInt64 i \<Longrightarrow> parseInt64 (formatInt i) = Some i"
proof -
  assume i: "inInt64 i"
  show ?thesis
  proof (cases "i < 0")
    case True
    then have "nat (- i) \<le> 2 ^ 63" using i by (simp add: inInt64_def minInt64_def nat_le_iff)
    then show ?thesis using True by (simp add: formatInt_def parseInt64_def)
  next
    case False
    then have "nat i < 2 ^ 63" using i by (simp add: inInt64_def maxInt64_def nat_less_iff)
    then show ?thesis using False parseInt64_formatNat [of "nat i"] by (simp add: formatInt_def)
  qed
qed

lemma parseInt64_formatInt_nonneg: "0 \<le> n \<Longrightarrow> n \<le> maxInt64 \<Longrightarrow> parseInt64 (formatInt n) = Some n"
  by (rule parseInt64_formatInt) (simp add: inInt64_def minInt64_def)

lemma wrap64_id [simp]: "inInt64 i \<Longrightarrow> wrap64 i = i"
  by (simp add: wrap64_def inInt64_def minInt64_def maxInt64_def)

lemma wrap64_range: "inInt64 (wrap64 i)"
proof -
  have "0 \<le> (i + 2 ^ 63) mod (2 ^ 64 :: int)" and "(i + 2 ^ 63) mod (2 ^ 64 :: int) < 2 ^ 64"
    by simp_all
  then show ?thesis
    unfolding wrap64_def inInt64_def minInt64_def maxInt64_def by (intro conjI) (simp_all del: mod_less_divisor)
qed

lemma time_sub_range: "inInt64 (time_sub t u)"
  by (simp add: time_sub_def inInt64_def minInt64_def maxInt64_def)

lemma time_sub_exact: "inInt64 (t - u) \<Longrightarrow> time_sub t u = t - u"
  by (simp add: time_sub_def inInt64_def)

lemma time_sub_mono: "t \<le> t' \<Longrightarrow> time_sub t u \<le> time_sub t' u"
  by (simp add: time_sub_def)

section \<open>Stable sorting\<close>

text \<open>
  \<^verbatim>\<open>sort.SliceStable(xs, less)\<close>. Its result for a strict weak order is determined (sorted, and
  equivalent elements in their old order), so an insertion sort that keeps that order models it.
\<close>

fun insertStable :: "('a \<Rightarrow> 'a \<Rightarrow> bool) \<Rightarrow> 'a \<Rightarrow> 'a list \<Rightarrow> 'a list" where
  "insertStable lt x [] = [x]"
| "insertStable lt x (y # ys) = (if lt y x then y # insertStable lt x ys else x # y # ys)"

fun sliceStable :: "('a \<Rightarrow> 'a \<Rightarrow> bool) \<Rightarrow> 'a list \<Rightarrow> 'a list" where
  "sliceStable lt [] = []"
| "sliceStable lt (x # xs) = insertStable lt x (sliceStable lt xs)"

lemma mset_insertStable [simp]: "mset (insertStable lt x xs) = add_mset x (mset xs)"
  by (induction xs) auto

lemma mset_sliceStable [simp]: "mset (sliceStable lt xs) = mset xs"
  by (induction xs) auto

lemma set_insertStable [simp]: "set (insertStable lt x xs) = insert x (set xs)"
  using mset_insertStable [of lt x xs] by (metis set_mset_add_mset_insert set_mset_mset)

lemma set_sliceStable [simp]: "set (sliceStable lt xs) = set xs"
  using mset_sliceStable [of lt xs] by (metis set_mset_mset)

lemma length_sliceStable [simp]: "length (sliceStable lt xs) = length xs"
  using mset_sliceStable [of lt xs] by (metis size_mset)

text \<open>
  The contract of a comparison function handed to \<^verbatim>\<open>sort.SliceStable\<close>, and what the sort then
  promises. Every comparison of the program is an interpretation.
\<close>

locale strict_weak =
  fixes lt :: "'a \<Rightarrow> 'a \<Rightarrow> bool"
  assumes lt_asym: "lt x y \<Longrightarrow> \<not> lt y x"
    and lt_cotrans: "lt x z \<Longrightarrow> lt x y \<or> lt y z"
begin

definition ordered :: "'a list \<Rightarrow> bool" where
  "ordered xs \<longleftrightarrow> sorted_wrt (\<lambda>a b. \<not> lt b a) xs"

definition equiv :: "'a \<Rightarrow> 'a \<Rightarrow> bool" where
  "equiv x y \<longleftrightarrow> \<not> lt x y \<and> \<not> lt y x"

lemma not_lt_trans: "\<not> lt y x \<Longrightarrow> \<not> lt z y \<Longrightarrow> \<not> lt z x"
  using lt_cotrans by blast

lemma ordered_insertStable: "ordered xs \<Longrightarrow> ordered (insertStable lt x xs)"
proof (induction xs)
  case Nil
  then show ?case by (simp add: ordered_def)
next
  case (Cons y ys)
  show ?case
  proof (cases "lt y x")
    case True
    with Cons show ?thesis by (auto simp: ordered_def dest: lt_asym)
  next
    case False
    with Cons.prems show ?thesis by (auto simp: ordered_def dest: lt_cotrans [where y = y])
  qed
qed

lemma ordered_sliceStable: "ordered (sliceStable lt xs)"
  by (induction xs) (simp_all add: ordered_insertStable, simp add: ordered_def)

lemma insertStable_ordered: "ordered (x # xs) \<Longrightarrow> insertStable lt x xs = x # xs"
  by (cases xs) (auto simp: ordered_def)

lemma sliceStable_ordered: "ordered xs \<Longrightarrow> sliceStable lt xs = xs"
proof (induction xs)
  case Nil
  then show ?case by simp
next
  case (Cons x xs)
  then have "sliceStable lt xs = xs" by (simp add: ordered_def)
  then show ?case using Cons.prems insertStable_ordered by simp
qed

lemma filter_insertStable:
  "filter (equiv z) (insertStable lt x xs) = filter (equiv z) (x # xs)"
proof (induction xs)
  case Nil
  then show ?case by simp
next
  case (Cons y ys)
  then show ?case by (auto simp: equiv_def dest: lt_asym lt_cotrans [where y = z])
qed

lemma filter_sliceStable: "filter (equiv z) (sliceStable lt xs) = filter (equiv z) xs"
  by (induction xs) (simp_all add: filter_insertStable)

end

section \<open>Lists\<close>

lemma find_Some_set: "List.find P xs = Some x \<Longrightarrow> x \<in> set xs \<and> P x"
  by (auto simp: find_Some_iff)

lemma find_sorted_first:
  assumes "List.find P xs = Some x" and "sorted_wrt R xs" and "y \<in> set xs" and "P y" and "\<And>z. R z z"
  shows "R x y"
proof -
  obtain i where i: "i < length xs" "P (xs ! i)" "x = xs ! i" "\<forall>j<i. \<not> P (xs ! j)"
    using assms(1) by (auto simp: find_Some_iff)
  obtain k where k: "k < length xs" "y = xs ! k" using assms(3) by (auto simp: in_set_conv_nth)
  show ?thesis
  proof (cases "i < k")
    case True
    then show ?thesis using i k assms(2) by (simp add: sorted_wrt_iff_nth_less)
  next
    case False
    then have "i = k" using i k assms(4) by (metis linorder_neqE_nat)
    then show ?thesis using i k assms(5) by simp
  qed
qed

lemma append_first_occ_eq:
  "x \<notin> set xs \<Longrightarrow> x \<notin> set xs' \<Longrightarrow> xs @ x # ys = xs' @ x # ys' \<longleftrightarrow> xs = xs' \<and> ys = ys'"
proof (induction xs arbitrary: xs')
  case Nil
  then show ?case by (cases xs') auto
next
  case (Cons a xs)
  then show ?case by (cases xs') auto
qed

end
