(* ===== verification/JobInfo.thy ===== *)
theory JobInfo
  imports Prelude "HOL-Library.Word" "HOL-Library.Char_ord"
begin

text \<open>
  The data model of \<^verbatim>\<open>files/jobinfo.go\<close> and \<^verbatim>\<open>files/volumeinfo.go\<close>: snapshots, volumes and
  jobs. \<^verbatim>\<open>JobInfo\<close> plays two roles in the program: decoded from a manifest it describes a backup
  set, and on the command line it carries the options of a run. The fields a manifest stores are the
  record \<open>Manifest\<close>; the fields tagged \<^verbatim>\<open>json:"-"\<close> extend it to \<open>JobInfo\<close>. An OpenPGP entity
  is represented by its fingerprint, an absent one by \<open>None\<close>. The parent pointer
  (\<^verbatim>\<open>ParentSnap\<close>) is not a field: the links between manifests are a graph over the list of
  manifests (theory \<open>Listing\<close>).
\<close>

section \<open>Records\<close>

record SnapshotInfo =
  CreationTime :: time
  Name :: string
  Bookmark :: bool
  GUID :: string

record VolumeInfo =
  ObjectName :: string
  VolumeNumber :: int
  SHA256Sum :: string
  MD5Sum :: string
  CRC32CSum32 :: "32 word"
  VolSize :: "64 word"
  VolStreamBytes :: "64 word"
  StreamSHA256 :: string
  IsManifest :: bool
  IsFinalManifest :: bool

record Manifest =
  StartTime :: time
  EndTime :: time
  VolumeName :: string
  BaseSnapshot :: SnapshotInfo
  IncrementalSnapshot :: SnapshotInfo
  SnapshotPrefix :: string
  Raw :: bool
  Compressor :: string
  CompressionLevel :: int
  Separator :: string
  ZFSStreamBytes :: "64 word"
  Volumes :: "VolumeInfo list"
  EncryptTo :: string
  SignFrom :: string
  EncryptKeyFingerprint :: string
  SignKeyFingerprint :: string
  Replication :: bool
  SkipMissing :: bool
  Deduplication :: bool
  Properties :: bool
  IntermediaryIncremental :: bool
  SourceMountpoints :: "(string \<times> string) list"

record JobInfo = Manifest +
  Resume :: bool
  CompletePartial :: bool
  Full :: bool
  Incremental :: bool
  FullIfOlderThan :: duration
  FullSnapshotSuffix :: string
  IncrementalSnapshotSuffix :: string
  Force :: bool
  FullPath :: bool
  LastPath :: bool
  NotMounted :: bool
  Origin :: string
  LocalVolume :: string
  AutoRestoreOpt :: bool
  TrustedCompressor :: string
  AllowDestroy :: bool
  Destinations :: "string list"
  VolumeSize :: "64 word"
  ManifestPrefix :: string
  MaxBackoffTime :: duration
  MaxRetryTime :: duration
  MaxParallelUploads :: int
  MaxFileBuffer :: int
  EncryptKey :: "string option"
  SignKey :: "string option"
  UploadChunkSize :: int
  TrustedSignKeys :: "string list"

text \<open>Go's zero values.\<close>

definition zeroSnapshot :: SnapshotInfo where
  "zeroSnapshot = \<lparr>CreationTime = zeroTime, Name = [], Bookmark = False, GUID = []\<rparr>"

definition zeroManifest :: Manifest where
  "zeroManifest = \<lparr>StartTime = zeroTime, EndTime = zeroTime, VolumeName = [], BaseSnapshot = zeroSnapshot,
     IncrementalSnapshot = zeroSnapshot, SnapshotPrefix = [], Raw = False, Compressor = [],
     CompressionLevel = 0, Separator = [], ZFSStreamBytes = 0, Volumes = [], EncryptTo = [], SignFrom = [],
     EncryptKeyFingerprint = [], SignKeyFingerprint = [], Replication = False, SkipMissing = False,
     Deduplication = False, Properties = False, IntermediaryIncremental = False, SourceMountpoints = []\<rparr>"

definition zeroJobInfo :: JobInfo where
  "zeroJobInfo = Manifest.extend zeroManifest
     \<lparr>Resume = False, CompletePartial = False, Full = False, Incremental = False, FullIfOlderThan = 0,
      FullSnapshotSuffix = [], IncrementalSnapshotSuffix = [], Force = False, FullPath = False,
      LastPath = False, NotMounted = False, Origin = [], LocalVolume = [], AutoRestoreOpt = False,
      TrustedCompressor = [], AllowDestroy = False, Destinations = [], VolumeSize = 0,
      ManifestPrefix = [], MaxBackoffTime = 0, MaxRetryTime = 0, MaxParallelUploads = 0,
      MaxFileBuffer = 0, EncryptKey = None, SignKey = None, UploadChunkSize = 0, TrustedSignKeys = []\<rparr>"

section \<open>Snapshots\<close>

text \<open>\<^verbatim>\<open>SnapshotInfo.Equal\<close> on values, and on pointers that may be nil.\<close>

definition SnapshotInfo_Equal :: "SnapshotInfo \<Rightarrow> SnapshotInfo \<Rightarrow> bool" where
  "SnapshotInfo_Equal s t \<longleftrightarrow> Name s = Name t \<and> CreationTime s = CreationTime t"

fun SnapshotPtr_Equal :: "SnapshotInfo option \<Rightarrow> SnapshotInfo option \<Rightarrow> bool" where
  "SnapshotPtr_Equal (Some s) (Some t) = SnapshotInfo_Equal s t"
| "SnapshotPtr_Equal s t = (s = None \<and> t = None)"

lemma SnapshotInfo_Equal_refl [simp]: "SnapshotInfo_Equal s s"
  by (simp add: SnapshotInfo_Equal_def)

lemma SnapshotInfo_Equal_sym: "SnapshotInfo_Equal s t \<Longrightarrow> SnapshotInfo_Equal t s"
  by (simp add: SnapshotInfo_Equal_def)

lemma SnapshotInfo_Equal_trans:
  "SnapshotInfo_Equal s t \<Longrightarrow> SnapshotInfo_Equal t u \<Longrightarrow> SnapshotInfo_Equal s u"
  by (simp add: SnapshotInfo_Equal_def)

lemma SnapshotInfo_Equal_Bookmark [simp]:
  "SnapshotInfo_Equal (s\<lparr>Bookmark := b\<rparr>) t = SnapshotInfo_Equal s t"
  "SnapshotInfo_Equal s (t\<lparr>Bookmark := b\<rparr>) = SnapshotInfo_Equal s t"
  by (simp_all add: SnapshotInfo_Equal_def)

lemma SnapshotPtr_Equal_iff:
  "SnapshotPtr_Equal s t \<longleftrightarrow> rel_option SnapshotInfo_Equal s t"
  by (cases s; cases t) auto

section \<open>Jobs\<close>

text \<open>A full backup has no incremental source: the test the whole program makes.\<close>

abbreviation isFull :: "'a Manifest_scheme \<Rightarrow> bool" where
  "isFull m \<equiv> Name (IncrementalSnapshot m) = []"

definition RecordKeyFingerprints :: "JobInfo \<Rightarrow> JobInfo" where
  "RecordKeyFingerprints j = j\<lparr>
     EncryptKeyFingerprint := (case EncryptKey j of None \<Rightarrow> [] | Some f \<Rightarrow> f),
     SignKeyFingerprint := (case SignKey j of None \<Rightarrow> [] | Some f \<Rightarrow> f)\<rparr>"

definition TotalBytesWritten :: "'a Manifest_scheme \<Rightarrow> 64 word" where
  "TotalBytesWritten j = foldl (\<lambda>total vol. total + VolSize vol) 0 (Volumes j)"

text \<open>
  The loop of \<^verbatim>\<open>TotalBytesStreamedAndVols\<close>: it adds up volumes until one is out of order, and
  returns the total, the next volume number and the volumes it kept.
\<close>

fun streamedPrefix :: "VolumeInfo list \<Rightarrow> 64 word \<Rightarrow> int \<Rightarrow> 64 word \<times> int" where
  "streamedPrefix [] tot volnum = (tot, volnum)"
| "streamedPrefix (vol # vols) tot volnum =
     (if VolumeNumber vol \<noteq> volnum then (tot, volnum)
      else streamedPrefix vols (tot + VolStreamBytes vol) (volnum + 1))"

definition TotalBytesStreamedAndVols :: "'a Manifest_scheme \<Rightarrow> 64 word \<times> int \<times> 'a Manifest_scheme" where
  "TotalBytesStreamedAndVols j =
     (let (tot, volnum) = streamedPrefix (Volumes j) 0 1
      in (tot, volnum, j\<lparr>Volumes := take (nat (volnum - 1)) (Volumes j)\<rparr>))"

lemma streamedPrefix_spec:
  "\<exists>k\<le>length vols.
     streamedPrefix vols tot v
       = (tot + sum_list (map VolStreamBytes (take k vols)), v + int k)
     \<and> (\<forall>i<k. VolumeNumber (vols ! i) = v + int i)
     \<and> (k < length vols \<longrightarrow> VolumeNumber (vols ! k) \<noteq> v + int k)"
proof (induction vols arbitrary: tot v)
  case Nil
  then show ?case by simp
next
  case (Cons vol vols)
  show ?case
  proof (cases "VolumeNumber vol = v")
    case False
    then show ?thesis by (intro exI [of _ 0]) simp
  next
    case True
    obtain k where k: "k \<le> length vols"
        "streamedPrefix vols (tot + VolStreamBytes vol) (v + 1)
           = (tot + VolStreamBytes vol + sum_list (map VolStreamBytes (take k vols)), v + 1 + int k)"
        "\<forall>i<k. VolumeNumber (vols ! i) = v + 1 + int i"
        "k < length vols \<longrightarrow> VolumeNumber (vols ! k) \<noteq> v + 1 + int k"
      using Cons.IH by blast
    have "\<forall>i<Suc k. VolumeNumber ((vol # vols) ! i) = v + int i"
      using True k(3) by (auto simp: nth_Cons split: nat.split)
    with True k show ?thesis by (intro exI [of _ "Suc k"]) (auto simp: add.assoc)
  qed
qed

lemma TotalBytesStreamedAndVols_spec:
  assumes "TotalBytesStreamedAndVols j = (tot, volnum, j')"
  shows "\<exists>k\<le>length (Volumes j). volnum = int k + 1 \<and> Volumes j' = take k (Volumes j)
    \<and> tot = sum_list (map VolStreamBytes (Volumes j'))
    \<and> map VolumeNumber (Volumes j') = map int [1..<k + 1]
    \<and> (k < length (Volumes j) \<longrightarrow> VolumeNumber (Volumes j ! k) \<noteq> int k + 1)"
proof -
  obtain k where k: "k \<le> length (Volumes j)"
      "streamedPrefix (Volumes j) 0 1 = (sum_list (map VolStreamBytes (take k (Volumes j))), 1 + int k)"
      "\<forall>i<k. VolumeNumber (Volumes j ! i) = 1 + int i"
      "k < length (Volumes j) \<longrightarrow> VolumeNumber (Volumes j ! k) \<noteq> 1 + int k"
    using streamedPrefix_spec [of "Volumes j" 0 1] by auto
  have "map VolumeNumber (take k (Volumes j)) = map int [1..<k + 1]"
    using k(1,3) by (intro nth_equalityI) (auto simp: nth_append simp del: upt_Suc)
  with k assms show ?thesis
    by (intro exI [of _ k]) (auto simp: TotalBytesStreamedAndVols_def Let_def split_beta)
qed

section \<open>Validation of the options of a send\<close>

datatype flag_error =
    BadMaxFileBuffer int
  | BadMaxParallelUploads int
  | BadMaxRetryTime duration
  | BadMaxBackoffTime duration
  | BadCompressionLevel int
  | BadSeparator string
  | BadUploadChunkSize int
  | ZeroVolumeSize
  | VolumeTooLargeForS3 "64 word" int "64 word"

text \<open>The characters of the class \<^verbatim>\<open>[\w\-:./]\<close>: those of a ZFS dataset path.\<close>

definition inDatasetName :: "char \<Rightarrow> bool" where
  "inDatasetName c \<longleftrightarrow>
     list_ex (\<lambda>(lo, hi). lo \<le> c \<and> c \<le> hi)
       [(CHR ''a'', CHR ''z''), (CHR ''A'', CHR ''Z''), (CHR ''0'', CHR ''9'')]
     \<or> c \<in> set ''_-:./''"

definition disallowedSeps :: "string \<Rightarrow> bool" where
  "disallowedSeps sep \<longleftrightarrow> list_all inDatasetName sep"

definition S3MaxVolumeParts :: "64 word" where
  "S3MaxVolumeParts = 9900"

definition ValidateVolumeSize :: "JobInfo \<Rightarrow> flag_error option" where
  "ValidateVolumeSize j =
     (if VolumeSize j = 0 then Some ZeroVolumeSize
      else let limit = S3MaxVolumeParts * of_int (UploadChunkSize j)
           in if list_ex (\<lambda>d. hasPrefix d ''s3://'' \<and> VolumeSize j > limit) (Destinations j)
              then Some (VolumeTooLargeForS3 (VolumeSize j) (UploadChunkSize j) limit)
              else None)"

definition ValidateSendFlags :: "JobInfo \<Rightarrow> flag_error option" where
  "ValidateSendFlags j =
     (if MaxFileBuffer j < 0 then Some (BadMaxFileBuffer (MaxFileBuffer j))
      else if MaxParallelUploads j \<le> 0 then Some (BadMaxParallelUploads (MaxParallelUploads j))
      else if MaxRetryTime j < 0 then Some (BadMaxRetryTime (MaxRetryTime j))
      else if MaxBackoffTime j \<le> 0 then Some (BadMaxBackoffTime (MaxBackoffTime j))
      else if CompressionLevel j < 1 \<or> CompressionLevel j > 9
        then Some (BadCompressionLevel (CompressionLevel j))
      else if disallowedSeps (Separator j) then Some (BadSeparator (Separator j))
      else if UploadChunkSize j < 5 \<or> UploadChunkSize j > 100
        then Some (BadUploadChunkSize (UploadChunkSize j))
      else ValidateVolumeSize j)"

end
