(* ===== verification/Snapshots.thy ===== *)
theory Snapshots
  imports JobInfo
begin

text \<open>
  Selecting snapshots: the eligibility test and the newest match (\<^verbatim>\<open>backup/backup.go\<close>), the check
  that a snapshot is on the pool (\<^verbatim>\<open>validateSnapShotExistsFromSnaps\<close> of \<^verbatim>\<open>backup/sync.go\<close>), and
  the order in which the backups of a destination are read (\<^verbatim>\<open>sortBackupsNewestFirst\<close>, and the rule
  of \<^verbatim>\<open>readAndSortManifests\<close> in \<^verbatim>\<open>backup/list.go\<close>).
\<close>

section \<open>Eligible snapshots\<close>

definition snapshotMatches :: "SnapshotInfo \<Rightarrow> string \<Rightarrow> string \<Rightarrow> bool" where
  "snapshotMatches s pre suf =
     (if Bookmark s then False
      else if pre \<noteq> [] \<and> \<not> hasPrefix (Name s) pre then False
      else if suf \<noteq> [] \<and> \<not> hasSuffix (Name s) suf then False
      else True)"

definition newestMatchingSnapshot :: "SnapshotInfo list \<Rightarrow> string \<Rightarrow> string \<Rightarrow> SnapshotInfo option" where
  "newestMatchingSnapshot snapshots pre suf = List.find (\<lambda>s. snapshotMatches s pre suf) snapshots"

abbreviation newestFirst :: "SnapshotInfo list \<Rightarrow> bool" where
  "newestFirst \<equiv> sorted_wrt (\<lambda>a b. CreationTime a \<ge> CreationTime b)"

lemma snapshotMatches_not_bookmark: "snapshotMatches s pre suf \<Longrightarrow> \<not> Bookmark s"
  by (simp add: snapshotMatches_def split: if_splits)

lemma newestMatchingSnapshot_Some:
  assumes "newestMatchingSnapshot snapshots pre suf = Some s"
  shows "s \<in> set snapshots" and "snapshotMatches s pre suf" and "\<not> Bookmark s"
  using find_Some_set [of "\<lambda>s. snapshotMatches s pre suf" snapshots s] assms snapshotMatches_not_bookmark
  by (auto simp: newestMatchingSnapshot_def)

lemma newestMatchingSnapshot_newest:
  assumes "newestMatchingSnapshot snapshots pre suf = Some s" and "newestFirst snapshots"
    and "t \<in> set snapshots" and "snapshotMatches t pre suf"
  shows "CreationTime t \<le> CreationTime s"
  using find_sorted_first [of "\<lambda>s. snapshotMatches s pre suf" snapshots s
      "\<lambda>a b. CreationTime a \<ge> CreationTime b" t] assms
  by (simp add: newestMatchingSnapshot_def)

lemma newestMatchingSnapshot_None:
  "newestMatchingSnapshot snapshots pre suf = None \<longleftrightarrow> (\<forall>s\<in>set snapshots. \<not> snapshotMatches s pre suf)"
  by (auto simp: newestMatchingSnapshot_def find_None_iff)

lemma newestFirst_hd:
  "newestFirst (s # ss) \<Longrightarrow> t \<in> set (s # ss) \<Longrightarrow> CreationTime t \<le> CreationTime s"
  by auto

section \<open>Is a snapshot on the pool?\<close>

text \<open>
  The Go function reports through its result and through the snapshot it is handed, whose
  \<^verbatim>\<open>Bookmark\<close> flag it sets: the model returns both.
\<close>

fun validateSnapShotLoop :: "SnapshotInfo \<Rightarrow> SnapshotInfo list \<Rightarrow> bool \<Rightarrow> bool \<Rightarrow> bool \<times> SnapshotInfo" where
  "validateSnapShotLoop snapshot [] includeBookmarks found =
     (found, if found then snapshot\<lparr>Bookmark := True\<rparr> else snapshot)"
| "validateSnapShotLoop snapshot (snap # snaps) includeBookmarks found =
     (if \<not> SnapshotInfo_Equal snap snapshot then validateSnapShotLoop snapshot snaps includeBookmarks found
      else if \<not> Bookmark snap then (True, snapshot\<lparr>Bookmark := False\<rparr>)
      else validateSnapShotLoop snapshot snaps includeBookmarks (found \<or> includeBookmarks))"

definition validateSnapShotExistsFromSnaps ::
    "SnapshotInfo \<Rightarrow> SnapshotInfo list \<Rightarrow> bool \<Rightarrow> bool \<times> SnapshotInfo" where
  "validateSnapShotExistsFromSnaps snapshot snapshots includeBookmarks =
     validateSnapShotLoop snapshot snapshots includeBookmarks False"

text \<open>The abstract question: is there an entry for it, and is there one that is not a bookmark?\<close>

definition onPool :: "SnapshotInfo \<Rightarrow> SnapshotInfo list \<Rightarrow> bool" where
  "onPool s snaps \<longleftrightarrow> list_ex (\<lambda>x. SnapshotInfo_Equal x s) snaps"

definition snapshotOnPool :: "SnapshotInfo \<Rightarrow> SnapshotInfo list \<Rightarrow> bool" where
  "snapshotOnPool s snaps \<longleftrightarrow> list_ex (\<lambda>x. SnapshotInfo_Equal x s \<and> \<not> Bookmark x) snaps"

lemma validateSnapShotLoop_spec:
  "validateSnapShotLoop s snaps inc found =
     (if snapshotOnPool s snaps then (True, s\<lparr>Bookmark := False\<rparr>)
      else if found \<or> inc \<and> onPool s snaps then (True, s\<lparr>Bookmark := True\<rparr>)
      else (False, s))"
  by (induction snaps arbitrary: found) (auto simp: snapshotOnPool_def onPool_def)

lemma validateSnapShotExistsFromSnaps_spec:
  "validateSnapShotExistsFromSnaps s snaps inc =
     (if snapshotOnPool s snaps then (True, s\<lparr>Bookmark := False\<rparr>)
      else if inc \<and> onPool s snaps then (True, s\<lparr>Bookmark := True\<rparr>)
      else (False, s))"
  by (simp add: validateSnapShotExistsFromSnaps_def validateSnapShotLoop_spec)

lemma snapshotOnPool_onPool: "snapshotOnPool s snaps \<Longrightarrow> onPool s snaps"
  by (auto simp: snapshotOnPool_def onPool_def list_ex_iff)

lemma validate_present: "fst (validateSnapShotExistsFromSnaps s snaps True) = onPool s snaps"
  by (simp add: validateSnapShotExistsFromSnaps_spec snapshotOnPool_onPool)

lemma validate_present_snapshot:
  "fst (validateSnapShotExistsFromSnaps s snaps False) = snapshotOnPool s snaps"
  by (simp add: validateSnapShotExistsFromSnaps_spec)

lemma validate_Equal:
  "SnapshotInfo_Equal (snd (validateSnapShotExistsFromSnaps s snaps inc)) s"
  by (simp add: validateSnapShotExistsFromSnaps_spec)

lemma validate_fields [simp]:
  "Name (snd (validateSnapShotExistsFromSnaps s snaps inc)) = Name s"
  "CreationTime (snd (validateSnapShotExistsFromSnaps s snaps inc)) = CreationTime s"
  by (simp_all add: validateSnapShotExistsFromSnaps_spec)

section \<open>The order of backups\<close>

text \<open>\<^verbatim>\<open>sortBackupsNewestFirst\<close>: newest base first, and of one snapshot's backups the full first.\<close>

definition newerBackup :: "Manifest \<Rightarrow> Manifest \<Rightarrow> bool" where
  "newerBackup x y =
     (let a = CreationTime (BaseSnapshot x); b = CreationTime (BaseSnapshot y)
      in if a \<noteq> b then a > b else isFull x \<and> \<not> isFull y)"

definition sortBackupsNewestFirst :: "Manifest list \<Rightarrow> Manifest list" where
  "sortBackupsNewestFirst manifests = sliceStable newerBackup manifests"

interpretation newest: strict_weak newerBackup
  by unfold_locales (auto simp: newerBackup_def Let_def split: if_splits)

abbreviation backupsNewestFirst :: "Manifest list \<Rightarrow> bool" where
  "backupsNewestFirst \<equiv> sorted_wrt (\<lambda>a b. CreationTime (BaseSnapshot a) \<ge> CreationTime (BaseSnapshot b))"

lemma ordered_backupsNewestFirst: "newest.ordered ms \<Longrightarrow> backupsNewestFirst ms"
  unfolding newest.ordered_def
  by (erule sorted_wrt_mono_rel [rotated]) (auto simp: newerBackup_def Let_def split: if_splits)

end
