(* ===== verification/Chains.thy ===== *)
theory Chains
  imports Snapshots
begin

text \<open>
  Chains of backups at one destination: an incremental is restored onto a backup of its source.
  The parent of a backup (\<^verbatim>\<open>parentOf\<close>), the depth of the newest backup's chain (\<^verbatim>\<open>chainDepth\<close>,
  both of \<^verbatim>\<open>backup/plan_checks.go\<close>) and the missing link of a broken chain (\<^verbatim>\<open>brokenLink\<close> of
  \<^verbatim>\<open>backup/plan.go\<close>) are loops over these links. What they compute is stated against the inductive
  predicate \<open>restorable\<close>.
\<close>

section \<open>Walking along links\<close>

fun follow :: "('m \<Rightarrow> 'm option) \<Rightarrow> nat \<Rightarrow> 'm \<Rightarrow> 'm option" where
  "follow par 0 m = Some m"
| "follow par (Suc n) m = (case par m of None \<Rightarrow> None | Some p \<Rightarrow> follow par n p)"

lemma follow_add: "follow par (a + b) m = Option.bind (follow par a m) (follow par b)"
  by (induction a arbitrary: m) (auto split: option.split)

text \<open>
  The interface every walk of the program uses: nodes with at most one parent each, drawn from a
  finite set, and a test for where a walk ends well. A walk that ends well does so in fewer steps
  than there are nodes, so a bound of that size never cuts a good walk short.
\<close>

locale parent_links =
  fixes par :: "'m \<Rightarrow> 'm option"
    and root :: "'m \<Rightarrow> bool"
    and nodes :: "'m set"
  assumes finite_nodes: "finite nodes"
    and par_node: "par m = Some p \<Longrightarrow> p \<in> nodes"
begin

inductive rooted :: "'m \<Rightarrow> bool" where
  root: "root m \<Longrightarrow> rooted m"
| link: "\<not> root m \<Longrightarrow> par m = Some p \<Longrightarrow> rooted p \<Longrightarrow> rooted m"

lemma follow_node: "follow par n m = Some p \<Longrightarrow> m \<in> nodes \<Longrightarrow> p \<in> nodes"
  by (induction n arbitrary: m) (auto split: option.splits dest: par_node)

lemma rooted_follow:
  "rooted m \<Longrightarrow> \<exists>n p. follow par n m = Some p \<and> root p \<and> (\<forall>k<n. \<forall>q. follow par k m = Some q \<longrightarrow> \<not> root q)"
proof (induction rule: rooted.induct)
  case (root m)
  then show ?case by (intro exI [of _ 0] exI [of _ m]) simp
next
  case (link m p)
  then obtain n r where n: "follow par n p = Some r" "root r"
      "\<forall>k<n. \<forall>q. follow par k p = Some q \<longrightarrow> \<not> root q" by blast
  have "\<forall>k<Suc n. \<forall>q. follow par k m = Some q \<longrightarrow> \<not> root q"
  proof (intro allI impI)
    fix k q
    assume "k < Suc n" "follow par k m = Some q"
    then show "\<not> root q" using n(3) link by (cases k) auto
  qed
  then show ?case using n link by (intro exI [of _ "Suc n"] exI [of _ r]) simp
qed

lemma follow_rooted:
  "follow par n m = Some p \<Longrightarrow> root p \<Longrightarrow> rooted m"
proof (induction n arbitrary: m)
  case 0
  then show ?case by (auto intro: rooted.root)
next
  case (Suc n)
  then obtain q where "par m = Some q" "follow par n q = Some p" by (auto split: option.splits)
  then show ?case using Suc by (cases "root m") (auto intro: rooted.intros)
qed

lemma first_root_bound:
  assumes "m \<in> nodes" and "follow par n m = Some p" and "root p"
    and first: "\<forall>k<n. \<forall>q. follow par k m = Some q \<longrightarrow> \<not> root q"
  shows "n < card nodes"
proof -
  have defined: "\<exists>q. follow par k m = Some q" if "k \<le> n" for k
    using assms(2) that follow_add [of par k "n - k" m] by (cases "follow par k m") auto
  let ?f = "\<lambda>k. the (follow par k m)"
  have "inj_on ?f {0..n}"
  proof (rule inj_onI, rule ccontr)
    fix i j
    assume ij: "i \<in> {0..n}" "j \<in> {0..n}" "?f i = ?f j" "i \<noteq> j"
    have wlog: False if ab: "a < b" "b \<le> n" "?f a = ?f b" for a b
    proof -
      obtain q where q: "follow par a m = Some q" "follow par b m = Some q"
        using defined [of a] defined [of b] ab by force
      have "follow par (a + (n - b)) m = follow par (b + (n - b)) m"
        by (simp add: follow_add q)
      then have "follow par (a + (n - b)) m = Some p" using assms(2) ab by simp
      moreover have "a + (n - b) < n" using ab by simp
      ultimately show False using first assms(3) by blast
    qed
    then show False using ij wlog [of i j] wlog [of j i] by (cases "i < j") auto
  qed
  moreover have "?f ` {0..n} \<subseteq> nodes"
    using follow_node assms(1) defined by force
  ultimately have "card {0..n} \<le> card nodes"
    using finite_nodes card_inj_on_le by blast
  then show ?thesis by simp
qed

lemma rooted_bound:
  assumes "m \<in> nodes" and "rooted m"
  obtains n p where "n < card nodes" and "follow par n m = Some p" and "root p"
    and "\<forall>k<n. \<forall>q. follow par k m = Some q \<longrightarrow> \<not> root q"
  using rooted_follow [OF assms(2)] first_root_bound [OF assms(1)] by blast

end

section \<open>Parents\<close>

text \<open>The loop of \<^verbatim>\<open>parentOf\<close>: the first full of the source, else the first backup of it.\<close>

fun parentOfLoop :: "Manifest list \<Rightarrow> SnapshotInfo \<Rightarrow> Manifest option \<Rightarrow> Manifest option" where
  "parentOfLoop [] source parent = parent"
| "parentOfLoop (m # ms) source parent =
     (if \<not> SnapshotInfo_Equal (BaseSnapshot m) source then parentOfLoop ms source parent
      else if isFull m then Some m
      else parentOfLoop ms source (if parent = None then Some m else parent))"

definition parentOf :: "Manifest list \<Rightarrow> SnapshotInfo \<Rightarrow> Manifest option" where
  "parentOf manifests source = parentOfLoop manifests source None"

lemma parentOfLoop_spec:
  "parentOfLoop ms s q =
     (case List.find (\<lambda>m. SnapshotInfo_Equal (BaseSnapshot m) s \<and> isFull m) ms of
        Some m \<Rightarrow> Some m
      | None \<Rightarrow> (case q of Some p \<Rightarrow> Some p
               | None \<Rightarrow> List.find (\<lambda>m. SnapshotInfo_Equal (BaseSnapshot m) s) ms))"
  by (induction ms arbitrary: q) (auto split: option.splits)

lemma parentOf_spec:
  "parentOf ms s =
     (case List.find (\<lambda>m. SnapshotInfo_Equal (BaseSnapshot m) s \<and> isFull m) ms of
        Some m \<Rightarrow> Some m
      | None \<Rightarrow> List.find (\<lambda>m. SnapshotInfo_Equal (BaseSnapshot m) s) ms)"
  by (simp add: parentOf_def parentOfLoop_spec split: option.split)

lemma parentOf_Some:
  assumes "parentOf ms s = Some p"
  shows "p \<in> set ms" and "SnapshotInfo_Equal (BaseSnapshot p) s"
  using assms by (auto simp: parentOf_spec split: option.splits dest: find_Some_set)

lemma parentOf_None: "parentOf ms s = None \<longleftrightarrow> (\<forall>m\<in>set ms. \<not> SnapshotInfo_Equal (BaseSnapshot m) s)"
  by (auto simp: parentOf_spec find_None_iff split: option.splits dest: find_Some_set)

lemma parentOf_prefers_full:
  assumes "parentOf ms s = Some p" and "m \<in> set ms" and "SnapshotInfo_Equal (BaseSnapshot m) s" and "isFull m"
  shows "isFull p"
  using assms by (auto simp: parentOf_spec find_None_iff split: option.splits dest: find_Some_set)

lemma parentOf_Equal: "SnapshotInfo_Equal s t \<Longrightarrow> parentOf ms s = parentOf ms t"
proof -
  assume "SnapshotInfo_Equal s t"
  then have "SnapshotInfo_Equal x s = SnapshotInfo_Equal x t" for x
    by (simp add: SnapshotInfo_Equal_def)
  then show ?thesis by (simp add: parentOf_spec split: option.split)
qed

section \<open>Restorable backups\<close>

text \<open>
  A backup restores when its chain of parents, all at the same destination, reaches a full. This is
  the specification of the loops below.
\<close>

inductive restorable :: "Manifest list \<Rightarrow> Manifest \<Rightarrow> bool" for ms where
  full: "isFull m \<Longrightarrow> restorable ms m"
| incr: "\<not> isFull m \<Longrightarrow> parentOf ms (IncrementalSnapshot m) = Some p \<Longrightarrow> restorable ms p \<Longrightarrow> restorable ms m"

inductive_simps restorable_iff: "restorable ms m"

definition parentIn :: "Manifest list \<Rightarrow> Manifest \<Rightarrow> Manifest option" where
  "parentIn ms m = (if isFull m then None else parentOf ms (IncrementalSnapshot m))"

interpretation chain: parent_links "parentIn ms" isFull "set ms" for ms
  by unfold_locales (auto simp: parentIn_def dest: parentOf_Some split: if_splits)

lemma restorable_rooted: "restorable ms m \<longleftrightarrow> chain.rooted ms m"
proof
  show "restorable ms m \<Longrightarrow> chain.rooted ms m"
  proof (induction rule: restorable.induct)
    case (full m)
    then show ?case by (rule chain.rooted.root)
  next
    case (incr m p)
    then have "parentIn ms m = Some p" by (simp add: parentIn_def)
    with incr show ?case by (blast intro: chain.rooted.link)
  qed
  show "chain.rooted ms m \<Longrightarrow> restorable ms m"
  proof (induction rule: chain.rooted.induct)
    case (root m)
    then show ?case by (rule restorable.full)
  next
    case (link m p)
    then show ?case by (auto intro: restorable.incr simp: parentIn_def)
  qed
qed

section \<open>The missing link of a chain\<close>

text \<open>
  The loop of \<^verbatim>\<open>brokenLink\<close>: \<open>steps\<close> counts the links followed; after as many as there are
  backups the links form a loop.
\<close>

function brokenLinkLoop :: "Manifest list \<Rightarrow> nat \<Rightarrow> Manifest \<Rightarrow> SnapshotInfo option" where
  "brokenLinkLoop backups steps m =
     (if isFull m then None
      else case parentOf backups (IncrementalSnapshot m) of
             None \<Rightarrow> Some (IncrementalSnapshot m)
           | Some parent \<Rightarrow>
               if steps \<ge> length backups then Some (IncrementalSnapshot m)
               else brokenLinkLoop backups (Suc steps) parent)"
  by pat_completeness auto
termination
  by (relation "measure (\<lambda>(backups, steps, m). length backups - steps)") auto

declare brokenLinkLoop.simps [simp del]

definition brokenLink :: "Manifest list \<Rightarrow> SnapshotInfo option" where
  "brokenLink backups = (case backups of [] \<Rightarrow> None | m # _ \<Rightarrow> brokenLinkLoop backups 0 m)"

lemma brokenLinkLoop_full: "isFull m \<Longrightarrow> brokenLinkLoop ms steps m = None"
  by (simp add: brokenLinkLoop.simps)

lemma brokenLinkLoop_None_rooted: "brokenLinkLoop ms steps m = None \<Longrightarrow> restorable ms m"
proof (induction ms steps m rule: brokenLinkLoop.induct)
  case (1 ms steps m)
  show ?case
  proof (cases "isFull m")
    case True
    then show ?thesis by (rule restorable.full)
  next
    case False
    then obtain p where "parentOf ms (IncrementalSnapshot m) = Some p" "brokenLinkLoop ms (Suc steps) p = None"
        "steps < length ms"
      using "1.prems" by (auto simp: brokenLinkLoop.simps [of ms steps m] split: option.splits if_splits)
    then show ?thesis using "1.IH" False by (auto intro: restorable.incr)
  qed
qed

lemma follow_brokenLinkLoop:
  assumes "follow (parentIn ms) n m = Some p" and "isFull p" and "steps + n \<le> length ms"
  shows "brokenLinkLoop ms steps m = None"
  using assms
proof (induction n arbitrary: m steps)
  case 0
  then show ?case by (simp add: brokenLinkLoop_full)
next
  case (Suc n)
  then obtain q where q: "parentIn ms m = Some q" "follow (parentIn ms) n q = Some p"
    by (auto split: option.splits)
  then have "brokenLinkLoop ms (Suc steps) q = None" using Suc by simp
  then show ?case
    using q Suc.prems by (subst brokenLinkLoop.simps) (auto simp: parentIn_def split: if_splits)
qed

lemma brokenLinkLoop_None_iff:
  assumes "m \<in> set ms" shows "brokenLinkLoop ms 0 m = None \<longleftrightarrow> restorable ms m"
proof
  show "brokenLinkLoop ms 0 m = None \<Longrightarrow> restorable ms m" by (rule brokenLinkLoop_None_rooted)
  assume "restorable ms m"
  then obtain n p where n: "n < card (set ms)" "follow (parentIn ms) n m = Some p" "isFull p"
    using chain.rooted_bound [OF assms] restorable_rooted by metis
  then have "0 + n \<le> length ms" using card_length [of ms] by linarith
  with n show "brokenLinkLoop ms 0 m = None" by (blast intro: follow_brokenLinkLoop)
qed

lemma brokenLink_None_iff:
  "brokenLink ms = None \<longleftrightarrow> ms = [] \<or> restorable ms (hd ms)"
proof (cases ms)
  case Nil
  then show ?thesis by (simp add: brokenLink_def)
next
  case (Cons m r)
  then show ?thesis using brokenLinkLoop_None_iff [of m ms] by (simp add: brokenLink_def)
qed

section \<open>The depth of a chain\<close>

definition snapshotID :: "SnapshotInfo \<Rightarrow> string" where
  "snapshotID s = Name s @ ''@'' @ formatInt (unixNano (CreationTime s))"

text \<open>\<^verbatim>\<open>chainDepth\<close> first indexes the parents by snapshot, then follows the links.\<close>

definition indexParents :: "Manifest list \<Rightarrow> (string \<rightharpoonup> Manifest)" where
  "indexParents manifests =
     foldl (\<lambda>parents m.
        let sid = snapshotID (BaseSnapshot m)
        in case parents sid of
             None \<Rightarrow> parents(sid \<mapsto> m)
           | Some p \<Rightarrow> if isFull m \<and> \<not> isFull p then parents(sid \<mapsto> m) else parents)
       Map.empty manifests"

function chainDepthLoop :: "(string \<rightharpoonup> Manifest) \<Rightarrow> nat \<Rightarrow> Manifest option \<Rightarrow> nat \<Rightarrow> nat" where
  "chainDepthLoop parents len m depth =
     (case m of
        None \<Rightarrow> depth
      | Some b \<Rightarrow>
          if \<not> isFull b \<and> depth < len
          then chainDepthLoop parents len (parents (snapshotID (IncrementalSnapshot b))) (Suc depth)
          else depth)"
  by pat_completeness auto
termination
  by (relation "measure (\<lambda>(parents, len, m, depth). len - depth)") auto

declare chainDepthLoop.simps [simp del]

definition chainDepth :: "Manifest list \<Rightarrow> nat" where
  "chainDepth manifests =
     (case manifests of
        [] \<Rightarrow> 0
      | m # _ \<Rightarrow> chainDepthLoop (indexParents manifests) (length manifests) (Some m) 0)"

text \<open>
  The identifier carries \<^verbatim>\<open>UnixNano\<close>, which Go reduces to 64 bits: it tells snapshots apart as
  \<open>SnapshotInfo_Equal\<close> does for the times that fit (the years 1678 to 2262).
\<close>

definition timeFits :: "SnapshotInfo \<Rightarrow> bool" where
  "timeFits s \<longleftrightarrow> inInt64 (CreationTime s)"

lemma snapshotID_eq_iff:
  assumes "timeFits s" "timeFits t"
  shows "snapshotID s = snapshotID t \<longleftrightarrow> SnapshotInfo_Equal s t"
proof
  assume eq: "snapshotID s = snapshotID t"
  have no_at: "CHR ''@'' \<notin> set (rev (formatInt i))" for i by (simp add: notin_formatInt)
  have "rev (formatInt (CreationTime s)) @ CHR ''@'' # rev (Name s)
      = rev (formatInt (CreationTime t)) @ CHR ''@'' # rev (Name t)"
    using arg_cong [OF eq, of rev] assms by (simp add: snapshotID_def unixNano_def timeFits_def)
  then show "SnapshotInfo_Equal s t"
    using append_first_occ_eq [OF no_at no_at] by (simp add: SnapshotInfo_Equal_def)
qed (simp add: snapshotID_def SnapshotInfo_Equal_def)

lemma indexParents_snoc:
  "indexParents (ms @ [m]) =
     (let parents = indexParents ms; sid = snapshotID (BaseSnapshot m)
      in case parents sid of
           None \<Rightarrow> parents(sid \<mapsto> m)
         | Some p \<Rightarrow> if isFull m \<and> \<not> isFull p then parents(sid \<mapsto> m) else parents)"
  by (simp add: indexParents_def Let_def)

lemma indexParents_eq:
  "indexParents ms sid =
     (case List.find (\<lambda>m. snapshotID (BaseSnapshot m) = sid \<and> isFull m) ms of
        Some m \<Rightarrow> Some m
      | None \<Rightarrow> List.find (\<lambda>m. snapshotID (BaseSnapshot m) = sid) ms)"
proof (induction ms rule: rev_induct)
  case Nil
  then show ?case by (simp add: indexParents_def)
next
  case (snoc m ms)
  have find_snoc: "List.find P (ms @ [m]) = (case List.find P ms of Some x \<Rightarrow> Some x | None \<Rightarrow> if P m then Some m else None)"
    for P :: "Manifest \<Rightarrow> bool" by (induction ms) auto
  have full_only: "List.find (\<lambda>m. snapshotID (BaseSnapshot m) = sid) ms = Some x \<Longrightarrow>
      List.find (\<lambda>m. snapshotID (BaseSnapshot m) = sid \<and> isFull m) ms = None \<Longrightarrow> \<not> isFull x" for x sid
    by (auto simp: find_None_iff dest: find_Some_set)
  let ?F = "List.find (\<lambda>m. snapshotID (BaseSnapshot m) = sid \<and> isFull m) ms"
  let ?A = "List.find (\<lambda>m. snapshotID (BaseSnapshot m) = sid) ms"
  show ?case
  proof (cases "snapshotID (BaseSnapshot m) = sid")
    case False
    then have "indexParents (ms @ [m]) sid = indexParents ms sid"
      by (simp add: indexParents_snoc Let_def split: option.split)
    then show ?thesis using False snoc by (simp add: find_snoc split: option.split)
  next
    case True
    show ?thesis
    proof (cases ?F)
      case (Some f)
      then have "indexParents ms sid = Some f" "isFull f" using snoc find_Some_set [OF Some] by simp_all
      then show ?thesis using True Some by (simp add: indexParents_snoc find_snoc Let_def)
    next
      case None
      then have "indexParents ms sid = ?A" using snoc by simp
      then show ?thesis
        using True None full_only [of sid]
        by (cases ?A) (simp_all add: indexParents_snoc find_snoc Let_def)
    qed
  qed
qed

lemma indexParents_parentOf:
  assumes "\<forall>m\<in>set ms. timeFits (BaseSnapshot m)" and "timeFits s"
  shows "indexParents ms (snapshotID s) = parentOf ms s"
proof -
  have eq: "snapshotID (BaseSnapshot m) = snapshotID s \<longleftrightarrow> SnapshotInfo_Equal (BaseSnapshot m) s"
    if "m \<in> set ms" for m
    using that assms by (simp add: snapshotID_eq_iff)
  have "List.find (\<lambda>m. snapshotID (BaseSnapshot m) = snapshotID s) ms
      = List.find (\<lambda>m. SnapshotInfo_Equal (BaseSnapshot m) s) ms"
    and "List.find (\<lambda>m. snapshotID (BaseSnapshot m) = snapshotID s \<and> isFull m) ms
      = List.find (\<lambda>m. SnapshotInfo_Equal (BaseSnapshot m) s \<and> isFull m) ms"
    by (auto intro!: find_cong simp: eq)
  then show ?thesis by (simp add: indexParents_eq parentOf_spec split: option.split)
qed

lemma chainDepthLoop_follow:
  assumes fits: "\<forall>m\<in>set ms. timeFits (BaseSnapshot m) \<and> (\<not> isFull m \<longrightarrow> timeFits (IncrementalSnapshot m))"
    and "follow (parentIn ms) n m = Some p" and "isFull p" and "depth + n \<le> length ms" and "m \<in> set ms"
  shows "chainDepthLoop (indexParents ms) (length ms) (Some m) depth
    = depth + (LEAST k. \<exists>q. follow (parentIn ms) k m = Some q \<and> isFull q)"
  using assms(2-)
proof (induction n arbitrary: m depth)
  case 0
  then have "(LEAST k. \<exists>q. follow (parentIn ms) k m = Some q \<and> isFull q) = 0"
    by (intro Least_eq_0) simp
  then show ?case using 0 by (simp add: chainDepthLoop.simps)
next
  case (Suc n)
  obtain q where q: "parentIn ms m = Some q" "follow (parentIn ms) n q = Some p"
    using Suc.prems(1) by (auto split: option.splits)
  then have incr: "\<not> isFull m" and par: "parentOf ms (IncrementalSnapshot m) = Some q"
    by (auto simp: parentIn_def split: if_splits)
  have look: "indexParents ms (snapshotID (IncrementalSnapshot m)) = Some q"
    using fits Suc.prems(4) par incr by (simp add: indexParents_parentOf)
  let ?P = "\<lambda>m k. \<exists>r. follow (parentIn ms) k m = Some r \<and> isFull r"
  have "?P m (Suc n)" using q Suc.prems(2) by simp
  moreover have "\<not> ?P m 0" using incr by simp
  ultimately have "(LEAST k. ?P m k) = Suc (LEAST k. ?P m (Suc k))" by (rule Least_Suc)
  then have least: "(LEAST k. ?P m k) = Suc (LEAST k. ?P q k)" using q(1) by simp
  have "chainDepthLoop (indexParents ms) (length ms) (Some m) depth
      = chainDepthLoop (indexParents ms) (length ms) (Some q) (Suc depth)"
    using incr look Suc.prems(3) by (subst chainDepthLoop.simps) simp
  also have "\<dots> = Suc depth + (LEAST k. ?P q k)"
    using Suc.IH [of q "Suc depth"] q Suc.prems parentOf_Some(1) [OF par] by simp
  finally show ?case using least by simp
qed

end
