(* ===== verification/Planner.thy ===== *)
theory Planner
  imports Chains
begin

text \<open>
  The smart planner of \<^verbatim>\<open>backup/plan.go\<close>: what a smart \<^verbatim>\<open>send\<close> (or \<^verbatim>\<open>plan\<close>) decides from the
  snapshots on the pool and the manifests at every destination. Go returns a \<^verbatim>\<open>Plan\<close> and an
  \<^verbatim>\<open>error\<close>; the model returns the same pair. Error and warning texts are values of datatypes that
  hold what the text is made from. A panic of the Go code (an index out of range or a nil pointer
  read) is the error \<open>Panic\<close>, so that its absence is a theorem.
\<close>

section \<open>Plans\<close>

datatype PlanAction = NoAction | PlanFull | PlanIncremental | PlanNoop

datatype PlanReason =
    NoReason
  | reasonNoPreviousFull
  | reasonWindowElapsed
  | reasonSourcePruned
  | reasonNewerCandidate
  | reasonNothingNewer
  | reasonExplicitFull
  | reasonExplicitIncremental
  | reasonAlreadyBackedUp
  | reasonCompletePartial
  | reasonBrokenChain

text \<open>What a broken-chain warning advises.\<close>

datatype broken_advice = NextIncrementalRefused | StartsNewChain string | NothingSentUntilFull

datatype plan_warning =
    IgnoringSnapshot string SnapshotInfo time
  | IgnoringBackup SnapshotInfo SnapshotInfo nat nat time
  | ChainBroken string nat nat string string broken_advice
  | OnlyBookmarkLeft string

datatype plan_error =
    Panic
  | NoSnapshots
  | NoFullCandidate
  | NoIncrementalCandidate
  | FullOutOfSync nat string nat
  | ErrLastBackupInFuture nat nat string string time
  | DestinationsOutOfSync nat bool "SnapshotInfo option" "SnapshotInfo option"
  | NothingToIncrementFrom
  | CannotContinueChain string nat nat string string
  | MixedChain string string bool bool
  | NoSmartOption
  | FullDueButNoCandidate string duration
  | LastIncrementalsDiffer

record Plan =
  Action :: PlanAction
  Base :: SnapshotInfo
  Source :: SnapshotInfo
  Reason :: PlanReason
  FullDue :: bool
  Warnings :: "plan_warning list"

definition zeroPlan :: Plan where
  "zeroPlan = \<lparr>Action = NoAction, Base = zeroSnapshot, Source = zeroSnapshot, Reason = NoReason,
     FullDue = False, Warnings = []\<rparr>"

type_synonym plan_result = "Plan \<times> plan_error option"

abbreviation planFails :: "plan_error \<Rightarrow> plan_result" where
  "planFails e \<equiv> (zeroPlan, Some e)"

abbreviation planIs :: "Plan \<Rightarrow> plan_result" where
  "planIs p \<equiv> (p, None)"

section \<open>Windows and dates\<close>

definition futureSlack :: duration where "futureSlack = 24 * hour"
definition fullWindowSlack :: duration where "fullWindowSlack = 10 * minute"

definition fullWindowElapsed :: "duration \<Rightarrow> duration \<Rightarrow> bool" where
  "fullWindowElapsed age window =
     (age > (if window > hour then window - fullWindowSlack else window))"

text \<open>\<^verbatim>\<open>dropFutureDated\<close>: what is dated too far after now is left out, with a warning for each.\<close>

definition dropFutureDated ::
    "string \<Rightarrow> time \<Rightarrow> SnapshotInfo list \<Rightarrow> Manifest list list \<Rightarrow>
     SnapshotInfo list \<times> Manifest list list \<times> plan_warning list" where
  "dropFutureDated volume now snapshots destBackups =
     (let limit = now + futureSlack;
          keptSnapshots = filter (\<lambda>s. \<not> CreationTime s > limit) snapshots;
          snapshotWarnings =
            map (\<lambda>s. IgnoringSnapshot volume s now) (filter (\<lambda>s. CreationTime s > limit) snapshots);
          keptBackups = map (filter (\<lambda>m. \<not> CreationTime (BaseSnapshot m) > limit)) destBackups;
          backupWarnings =
            concat (map (\<lambda>(idx, backups).
                map (\<lambda>m. IgnoringBackup (BaseSnapshot m) (IncrementalSnapshot m) idx (length destBackups) now)
                  (filter (\<lambda>m. CreationTime (BaseSnapshot m) > limit) backups))
              (enumerate 0 destBackups))
      in (keptSnapshots, keptBackups, snapshotWarnings @ backupWarnings))"

section \<open>Comparing destinations\<close>

definition needsSnapshotSource :: "'a Manifest_scheme \<Rightarrow> bool" where
  "needsSnapshotSource jobInfo = (Replication jobInfo \<or> IntermediaryIncremental jobInfo)"

definition hasFullOf :: "Manifest list \<Rightarrow> SnapshotInfo \<Rightarrow> bool" where
  "hasFullOf backups snapshot = list_ex (\<lambda>b. isFull b \<and> SnapshotInfo_Equal (BaseSnapshot b) snapshot) backups"

definition sameSet :: "Manifest \<Rightarrow> Manifest \<Rightarrow> bool" where
  "sameSet a b \<longleftrightarrow> SnapshotInfo_Equal (BaseSnapshot a) (BaseSnapshot b)
     \<and> SnapshotInfo_Equal (IncrementalSnapshot a) (IncrementalSnapshot b)"

definition sameSets :: "Manifest list \<Rightarrow> Manifest list \<Rightarrow> bool" where
  "sameSets a b = (if length a \<noteq> length b then False else list_all2 sameSet a b)"

fun partialSetLoop :: "Manifest list \<Rightarrow> Manifest list list \<Rightarrow> bool \<Rightarrow> bool option" where
  "partialSetLoop leader [] behind = Some behind"
| "partialSetLoop leader (backups # rest) behind =
     (if sameSets backups leader then partialSetLoop leader rest behind
      else if sameSets backups (tl leader) then partialSetLoop leader rest True
      else None)"

definition partialSet :: "Manifest list list \<Rightarrow> Manifest option" where
  "partialSet destBackups =
     (let leader = foldl (\<lambda>leader backups. if length backups > length leader then backups else leader)
                     [] destBackups
      in case leader of
           [] \<Rightarrow> None
         | newest # _ \<Rightarrow>
             (case partialSetLoop leader destBackups False of
                Some True \<Rightarrow> Some newest
              | _ \<Rightarrow> None))"

fun firstBrokenChainFrom :: "nat \<Rightarrow> Manifest list list \<Rightarrow> (nat \<times> SnapshotInfo) option" where
  "firstBrokenChainFrom idx [] = None"
| "firstBrokenChainFrom idx (backups # rest) =
     (case brokenLink backups of
        Some missing \<Rightarrow> Some (idx, missing)
      | None \<Rightarrow> firstBrokenChainFrom (Suc idx) rest)"

definition firstBrokenChain :: "Manifest list list \<Rightarrow> (nat \<times> SnapshotInfo) option" where
  "firstBrokenChain destBackups = firstBrokenChainFrom 0 destBackups"

definition MixedChainError :: "string \<Rightarrow> Manifest \<Rightarrow> bool \<Rightarrow> plan_error option" where
  "MixedChainError volume source raw =
     (if Raw source = raw then None
      else Some (MixedChain volume (Name (BaseSnapshot source)) (Raw source) raw))"

fun sameStreamKind :: "JobInfo \<Rightarrow> Manifest list list \<Rightarrow> plan_error option" where
  "sameStreamKind jobInfo [] = None"
| "sameStreamKind jobInfo (backups # rest) =
     (case backups of
        [] \<Rightarrow> sameStreamKind jobInfo rest
      | newest # _ \<Rightarrow>
          (case MixedChainError (VolumeName jobInfo) newest (Raw jobInfo) of
             Some e \<Rightarrow> Some e
           | None \<Rightarrow> sameStreamKind jobInfo rest))"

text \<open>The newest base of a destination, and the base its smart option compares.\<close>

definition lastBackupAt :: "Manifest list \<Rightarrow> SnapshotInfo option" where
  "lastBackupAt backups = (case backups of [] \<Rightarrow> None | newest # _ \<Rightarrow> Some (BaseSnapshot newest))"

definition lastComparableAt :: "JobInfo \<Rightarrow> Manifest list \<Rightarrow> SnapshotInfo option" where
  "lastComparableAt jobInfo backups =
     (case backups of
        [] \<Rightarrow> None
      | newest # _ \<Rightarrow>
          (let last = (if Incremental jobInfo then Some (BaseSnapshot newest) else None)
           in if FullIfOlderThan jobInfo \<noteq> - minute
              then (case List.find isFull backups of Some bkp \<Rightarrow> Some (BaseSnapshot bkp) | None \<Rightarrow> last)
              else last))"

fun checkLastBackupsFrom ::
    "string \<Rightarrow> SnapshotInfo list \<Rightarrow> nat \<Rightarrow> nat \<Rightarrow> SnapshotInfo option list \<Rightarrow> plan_error option" where
  "checkLastBackupsFrom volume snapshots n idx [] = None"
| "checkLastBackupsFrom volume snapshots n idx (None # rest) =
     checkLastBackupsFrom volume snapshots n (Suc idx) rest"
| "checkLastBackupsFrom volume snapshots n idx (Some lastB # rest) =
     (case snapshots of
        [] \<Rightarrow> Some Panic
      | newest # _ \<Rightarrow>
          if \<not> CreationTime lastB > CreationTime newest
          then checkLastBackupsFrom volume snapshots n (Suc idx) rest
          else if fst (validateSnapShotExistsFromSnaps lastB snapshots True)
          then checkLastBackupsFrom volume snapshots n (Suc idx) rest
          else Some (ErrLastBackupInFuture idx n volume (Name lastB) (CreationTime lastB)))"

definition checkLastBackupsOnPool ::
    "string \<Rightarrow> SnapshotInfo list \<Rightarrow> SnapshotInfo option list \<Rightarrow> plan_error option" where
  "checkLastBackupsOnPool volume snapshots lastBackup =
     checkLastBackupsFrom volume snapshots (length lastBackup) 0 lastBackup"

text \<open>The first pair of neighbouring destinations whose comparable snapshots differ.\<close>

fun firstDiffering :: "nat \<Rightarrow> SnapshotInfo option list \<Rightarrow> (nat \<times> SnapshotInfo option \<times> SnapshotInfo option) option" where
  "firstDiffering i (a # b # rest) =
     (if \<not> SnapshotPtr_Equal a b then Some (i, a, b) else firstDiffering (Suc i) (b # rest))"
| "firstDiffering i _ = None"

text \<open>The last backup of the destination furthest behind; \<open>None\<close> is a nil pointer read.\<close>

fun furthestBehind :: "SnapshotInfo \<Rightarrow> SnapshotInfo option list \<Rightarrow> SnapshotInfo option" where
  "furthestBehind behind [] = Some behind"
| "furthestBehind behind (None # rest) = None"
| "furthestBehind behind (Some b # rest) =
     furthestBehind (if CreationTime b < CreationTime behind then b else behind) rest"

section \<open>The decision\<close>

text \<open>With \<^verbatim>\<open>--full\<close>: the newest full candidate, unless that full exists already.\<close>

definition planExplicitFull :: "JobInfo \<Rightarrow> SnapshotInfo option \<Rightarrow> Manifest list list \<Rightarrow> plan_result" where
  "planExplicitFull jobInfo fullBase destBackups =
     (case fullBase of
        None \<Rightarrow> planFails NoFullCandidate
      | Some base \<Rightarrow>
          (let idxs = [0..<length destBackups];
               have_it = filter (\<lambda>idx. hasFullOf (destBackups ! idx) base) idxs;
               missing = filter (\<lambda>idx. \<not> hasFullOf (destBackups ! idx) base) idxs
           in if have_it \<noteq> [] \<and> missing = []
              then planIs (zeroPlan\<lparr>Action := PlanNoop, Reason := reasonAlreadyBackedUp\<rparr>)
              else if have_it \<noteq> [] \<and> \<not> Resume jobInfo
              then planFails (FullOutOfSync (hd have_it + 1) (Name base) (hd missing + 1))
              else planIs (zeroPlan\<lparr>Action := PlanFull, Base := base, Reason := reasonExplicitFull\<rparr>)))"

text \<open>A set that only some destinations have is planned again, and completed there.\<close>

definition planCompletePartial :: "Manifest \<Rightarrow> Plan" where
  "planCompletePartial set_m =
     (if isFull set_m
      then zeroPlan\<lparr>Action := PlanFull, Base := BaseSnapshot set_m, Reason := reasonCompletePartial\<rparr>
      else zeroPlan\<lparr>Action := PlanIncremental, Base := BaseSnapshot set_m,
             Source := IncrementalSnapshot set_m, Reason := reasonCompletePartial\<rparr>)"

definition newestNameAt :: "Manifest list list \<Rightarrow> nat \<Rightarrow> string" where
  "newestNameAt destBackups idx = Name (BaseSnapshot (hd (destBackups ! idx)))"

definition brokenWarning :: "JobInfo \<Rightarrow> Manifest list list \<Rightarrow> nat \<Rightarrow> SnapshotInfo \<Rightarrow> broken_advice \<Rightarrow> plan_warning" where
  "brokenWarning jobInfo destBackups idx missing advice =
     ChainBroken (VolumeName jobInfo) idx (length destBackups) (Name missing) (newestNameAt destBackups idx) advice"

text \<open>With \<^verbatim>\<open>--increment\<close>: from the last backup, which must restore, to the newest candidate.\<close>

definition planExplicitIncremental ::
    "JobInfo \<Rightarrow> SnapshotInfo option \<Rightarrow> SnapshotInfo option list \<Rightarrow> Manifest list list \<Rightarrow> plan_result" where
  "planExplicitIncremental jobInfo incrBase lastComparable destBackups =
     (case incrBase of
        None \<Rightarrow> planFails NoIncrementalCandidate
      | Some base \<Rightarrow>
          (case lastComparable of
             [] \<Rightarrow> planFails Panic
           | None # _ \<Rightarrow> planFails NothingToIncrementFrom
           | Some lastC # _ \<Rightarrow>
               if \<not> CreationTime base > CreationTime lastC
               then planIs (zeroPlan\<lparr>Action := PlanNoop, Reason := reasonNothingNewer,
                      Warnings := (case firstBrokenChain destBackups of
                         None \<Rightarrow> []
                       | Some (idx, missing) \<Rightarrow>
                           [brokenWarning jobInfo destBackups idx missing NextIncrementalRefused])\<rparr>)
               else (case firstBrokenChain destBackups of
                       Some (idx, missing) \<Rightarrow>
                         planFails (CannotContinueChain (VolumeName jobInfo) idx (length destBackups)
                           (Name missing) (newestNameAt destBackups idx))
                     | None \<Rightarrow>
                         (case sameStreamKind jobInfo destBackups of
                            Some e \<Rightarrow> planFails e
                          | None \<Rightarrow> planIs (zeroPlan\<lparr>Action := PlanIncremental, Base := base, Source := lastC,
                              Reason := reasonExplicitIncremental\<rparr>)))))"

text \<open>
  The last part of \<^verbatim>\<open>--fullIfOlderThan\<close>: an incremental from the last backup, if that is still on
  the pool; otherwise a full of a newer candidate, or nothing until there is one.
\<close>

definition planNextIncremental ::
    "JobInfo \<Rightarrow> SnapshotInfo list \<Rightarrow> SnapshotInfo option \<Rightarrow> SnapshotInfo option \<Rightarrow> bool \<Rightarrow> bool \<Rightarrow>
     SnapshotInfo \<Rightarrow> Manifest list list \<Rightarrow> plan_result" where
  "planNextIncremental jobInfo snapshots fullBase incrBase lastNotEqual fullDue lastB destBackups =
     (case incrBase of
        None \<Rightarrow> planFails NoIncrementalCandidate
      | Some base \<Rightarrow>
          if lastNotEqual then planFails LastIncrementalsDiffer
          else if \<not> CreationTime base > CreationTime lastB
          then planIs (zeroPlan\<lparr>Action := PlanNoop, Reason := reasonNothingNewer, FullDue := fullDue\<rparr>)
          else
            (let (present, source) = validateSnapShotExistsFromSnaps lastB snapshots True;
                 onlyBookmark = (present \<and> Bookmark source \<and> needsSnapshotSource jobInfo)
             in if \<not> present \<or> onlyBookmark
                then (case fullBase of
                        None \<Rightarrow> planFails NoFullCandidate
                      | Some full \<Rightarrow>
                          (let warnings = (if onlyBookmark then [OnlyBookmarkLeft (Name source)] else [])
                           in if \<not> CreationTime full > CreationTime source
                              then planIs (zeroPlan\<lparr>Action := PlanNoop, Source := source, Reason := reasonSourcePruned,
                                     FullDue := fullDue, Warnings := warnings\<rparr>)
                              else planIs (zeroPlan\<lparr>Action := PlanFull, Base := full, Source := source,
                                     Reason := reasonSourcePruned, Warnings := warnings\<rparr>)))
                else (case sameStreamKind jobInfo destBackups of
                        Some e \<Rightarrow> planFails e
                      | None \<Rightarrow> planIs (zeroPlan\<lparr>Action := PlanIncremental, Base := base, Source := source,
                                  Reason := reasonNewerCandidate, FullDue := fullDue\<rparr>))))"

text \<open>With \<^verbatim>\<open>--fullIfOlderThan\<close>: a full once the window has elapsed, otherwise an incremental.\<close>

definition planFullIfOlderThan ::
    "JobInfo \<Rightarrow> SnapshotInfo list \<Rightarrow> SnapshotInfo option \<Rightarrow> SnapshotInfo option \<Rightarrow> bool \<Rightarrow>
     SnapshotInfo option list \<Rightarrow> SnapshotInfo option list \<Rightarrow> Manifest list list \<Rightarrow> plan_result" where
  "planFullIfOlderThan jobInfo snapshots fullBase incrBase lastNotEqual lastComparable lastBackup destBackups =
     (case lastComparable of
        [] \<Rightarrow> planFails Panic
      | None # _ \<Rightarrow>
          (case fullBase of
             None \<Rightarrow> planFails NoFullCandidate
           | Some base \<Rightarrow> planIs (zeroPlan\<lparr>Action := PlanFull, Base := base, Reason := reasonNoPreviousFull\<rparr>))
      | Some lastFull # _ \<Rightarrow>
          (let ageExceeded = fullWindowElapsed
                 (time_sub (CreationTime (hd snapshots)) (CreationTime lastFull)) (FullIfOlderThan jobInfo)
           in if ageExceeded \<and> fullBase = None
              then planFails (FullDueButNoCandidate (Name lastFull) (FullIfOlderThan jobInfo))
              else
                (case lastBackup of
                   Some lastB # others \<Rightarrow>
                     (case furthestBehind lastB others of
                        None \<Rightarrow> planFails Panic
                      | Some behind \<Rightarrow>
                          (let hasNewerFullBase =
                                 (fullBase \<noteq> None \<and> CreationTime (the fullBase) > CreationTime behind);
                               broken = firstBrokenChain destBackups
                           in if ageExceeded \<and> hasNewerFullBase
                              then planIs (zeroPlan\<lparr>Action := PlanFull, Base := the fullBase,
                                     Reason := reasonWindowElapsed,
                                     Warnings := (case broken of
                                        None \<Rightarrow> []
                                      | Some (idx, missing) \<Rightarrow>
                                          [brokenWarning jobInfo destBackups idx missing
                                             (StartsNewChain (Name (the fullBase)))])\<rparr>)
                              else
                                (case broken of
                                   Some (idx, missing) \<Rightarrow>
                                     if \<not> hasNewerFullBase
                                     then planIs (zeroPlan\<lparr>Action := PlanNoop, Source := missing,
                                            Reason := reasonBrokenChain, FullDue := ageExceeded,
                                            Warnings := [brokenWarning jobInfo destBackups idx missing
                                              NothingSentUntilFull]\<rparr>)
                                     else planIs (zeroPlan\<lparr>Action := PlanFull, Base := the fullBase,
                                            Source := missing, Reason := reasonBrokenChain,
                                            Warnings := [brokenWarning jobInfo destBackups idx missing
                                              (StartsNewChain (Name (the fullBase)))]\<rparr>)
                                 | None \<Rightarrow>
                                     planNextIncremental jobInfo snapshots fullBase incrBase lastNotEqual
                                       ageExceeded lastB destBackups)))
                 | _ \<Rightarrow> planFails Panic)))"

text \<open>\<^verbatim>\<open>planSmart\<close>: the whole decision, in the order of the source.\<close>

definition planSmart :: "JobInfo \<Rightarrow> SnapshotInfo list \<Rightarrow> Manifest list list \<Rightarrow> bool \<Rightarrow> plan_result" where
  "planSmart jobInfo snapshots destBackups completable =
     (if snapshots = [] then planFails NoSnapshots
      else
        (let fullBase = newestMatchingSnapshot snapshots (SnapshotPrefix jobInfo) (FullSnapshotSuffix jobInfo);
             incrBase = newestMatchingSnapshot snapshots (SnapshotPrefix jobInfo) (IncrementalSnapshotSuffix jobInfo)
         in if Full jobInfo then planExplicitFull jobInfo fullBase destBackups
            else
              (case (partialSet destBackups, completable) of
                 (Some partial, True) \<Rightarrow> planIs (planCompletePartial partial)
               | _ \<Rightarrow>
                   (let lastComparable = map (lastComparableAt jobInfo) destBackups;
                        lastBackup = map lastBackupAt destBackups
                    in case checkLastBackupsOnPool (VolumeName jobInfo) snapshots lastBackup of
                         Some e \<Rightarrow> planFails e
                       | None \<Rightarrow>
                           (case firstDiffering 1 lastComparable of
                              Some (i, a, b) \<Rightarrow> planFails (DestinationsOutOfSync i (Incremental jobInfo) a b)
                            | None \<Rightarrow>
                                if Incremental jobInfo
                                then planExplicitIncremental jobInfo incrBase lastComparable destBackups
                                else if FullIfOlderThan jobInfo = - minute then planFails NoSmartOption
                                else planFullIfOlderThan jobInfo snapshots fullBase incrBase
                                       (firstDiffering 1 lastBackup \<noteq> None)
                                       lastComparable lastBackup destBackups)))))"

text \<open>
  \<^verbatim>\<open>planSmartAt\<close>: the decision without what is dated in the future. The plan carries the warnings
  also when it fails.
\<close>

definition planSmartAt :: "time \<Rightarrow> JobInfo \<Rightarrow> SnapshotInfo list \<Rightarrow> Manifest list list \<Rightarrow> bool \<Rightarrow> plan_result" where
  "planSmartAt now jobInfo snapshots destBackups completable =
     (let (kept, keptBackups, warnings) = dropFutureDated (VolumeName jobInfo) now snapshots destBackups;
          (p, err) = planSmart jobInfo kept keptBackups completable
      in (p\<lparr>Warnings := warnings @ Warnings p\<rparr>, err))"

text \<open>
  \<^verbatim>\<open>selectSmartSnapshots\<close>: the plan is applied to the job, or \<^verbatim>\<open>ErrNoOp\<close> says there is nothing
  to send.
\<close>

datatype select_error = PlanError plan_error | ErrNoOp

definition selectSmartSnapshots ::
    "time \<Rightarrow> JobInfo \<Rightarrow> SnapshotInfo list \<Rightarrow> Manifest list list \<Rightarrow> bool \<Rightarrow> select_error + JobInfo" where
  "selectSmartSnapshots now jobInfo snapshots destBackups completable =
     (case planSmartAt now jobInfo snapshots destBackups completable of
        (p, Some e) \<Rightarrow> Inl (PlanError e)
      | (p, None) \<Rightarrow>
          if Action p = PlanNoop then Inl ErrNoOp
          else Inr (let j = jobInfo\<lparr>BaseSnapshot := Base p, CompletePartial := (Reason p = reasonCompletePartial)\<rparr>
                    in if Action p = PlanIncremental then j\<lparr>IncrementalSnapshot := Source p\<rparr> else j))"

text \<open>\<^verbatim>\<open>ValidateSmartOptions\<close> (\<^verbatim>\<open>backup/plan_fixtures.go\<close>): exactly one smart option.\<close>

datatype smart_option_error = NoOptionSet | SeveralOptionsSet

definition ValidateSmartOptions :: "JobInfo \<Rightarrow> smart_option_error option" where
  "ValidateSmartOptions j =
     (let n = (if Full j then 1 else 0) + (if Incremental j then 1 else 0)
            + (if FullIfOlderThan j \<noteq> - minute then 1 else 0 :: nat)
      in if n = 0 then Some NoOptionSet
         else if n > 1 then Some SeveralOptionsSet
         else None)"

end
