(* ===== verification/PlannerProofs.thy ===== *)
theory PlannerProofs
  imports Planner
begin

text \<open>
  The lemmas behind the planner's properties: what each helper of \<^verbatim>\<open>planSmart\<close> returns, and one rule
  per branch for the plans it can make.
\<close>

section \<open>The helpers\<close>

lemma ValidateSmartOptions_ok:
  "ValidateSmartOptions j = None \<longleftrightarrow>
     (Full j \<and> \<not> Incremental j \<and> FullIfOlderThan j = - minute) \<or>
     (\<not> Full j \<and> Incremental j \<and> FullIfOlderThan j = - minute) \<or>
     (\<not> Full j \<and> \<not> Incremental j \<and> FullIfOlderThan j \<noteq> - minute)"
  by (auto simp: ValidateSmartOptions_def Let_def)

lemma SnapshotPtr_Equal_refl [simp]: "SnapshotPtr_Equal s s"
  by (cases s) simp_all

lemma firstDiffering_None:
  "firstDiffering i xs = None \<Longrightarrow> a \<in> set xs \<Longrightarrow> xs \<noteq> [] \<Longrightarrow> SnapshotPtr_Equal (hd xs) a"
proof (induction i xs arbitrary: a rule: firstDiffering.induct)
  case (1 i x y rest)
  then have xy: "SnapshotPtr_Equal x y" by (simp split: if_splits)
  show ?case
  proof (cases "a = x")
    case True
    then show ?thesis by (cases x) simp_all
  next
    case False
    then have "SnapshotPtr_Equal y a" using "1.IH" "1.prems" xy by simp
    with xy show ?thesis
      by (cases x; cases y; cases a) (auto intro: SnapshotInfo_Equal_trans)
  qed
qed simp_all

lemma firstDiffering_adjacent:
  "firstDiffering i xs = Some (k, a, b) \<Longrightarrow> \<exists>n. k = i + n \<and> Suc n < length xs \<and> xs ! n = a \<and> xs ! Suc n = b
     \<and> \<not> SnapshotPtr_Equal a b"
proof (induction i xs rule: firstDiffering.induct)
  case (1 i x y rest)
  show ?case
  proof (cases "SnapshotPtr_Equal x y")
    case True
    then obtain n where "k = Suc i + n" "Suc n < length (y # rest)" "(y # rest) ! n = a" "(y # rest) ! Suc n = b"
        "\<not> SnapshotPtr_Equal a b"
      using 1 by auto
    then show ?thesis by (intro exI [of _ "Suc n"]) simp
  next
    case False
    then show ?thesis using "1.prems" by (intro exI [of _ 0]) simp
  qed
qed simp_all

lemma furthestBehind_Some:
  "list_all (\<lambda>b. b \<noteq> None) bs \<Longrightarrow> \<exists>r. furthestBehind b0 bs = Some r"
  by (induction b0 bs rule: furthestBehind.induct) simp_all

lemma furthestBehind_least:
  "furthestBehind b0 bs = Some r \<Longrightarrow>
     Some r \<in> set (Some b0 # bs) \<and> (\<forall>b. Some b \<in> set (Some b0 # bs) \<longrightarrow> CreationTime r \<le> CreationTime b)"
  by (induction b0 bs rule: furthestBehind.induct) (fastforce split: if_splits)+

lemma firstBrokenChainFrom_None:
  "firstBrokenChainFrom i ds = None \<longleftrightarrow> (\<forall>d\<in>set ds. brokenLink d = None)"
  by (induction i ds rule: firstBrokenChainFrom.induct) (auto split: option.splits)

lemma firstBrokenChain_None:
  "firstBrokenChain ds = None \<longleftrightarrow> (\<forall>d\<in>set ds. d = [] \<or> restorable d (hd d))"
  by (simp add: firstBrokenChain_def firstBrokenChainFrom_None brokenLink_None_iff)

lemma sameStreamKind_None:
  "sameStreamKind j ds = None \<longleftrightarrow> (\<forall>d\<in>set ds. d = [] \<or> Raw (hd d) = Raw j)"
  by (induction j ds rule: sameStreamKind.induct)
    (auto simp: MixedChainError_def split: list.splits if_splits)

lemma checkLastBackupsFrom_no_panic:
  "snapshots \<noteq> [] \<Longrightarrow> checkLastBackupsFrom volume snapshots n idx bs \<noteq> Some Panic"
  by (induction volume snapshots n idx bs rule: checkLastBackupsFrom.induct) (auto split: list.splits)

lemma sameStreamKind_no_panic: "sameStreamKind j ds \<noteq> Some Panic"
  by (induction j ds rule: sameStreamKind.induct)
    (auto simp: MixedChainError_def split: list.splits if_splits)

lemma checkLastBackupsFrom_None:
  "checkLastBackupsFrom volume (s # ss) n idx bs = None \<longleftrightarrow>
     (\<forall>b. Some b \<in> set bs \<longrightarrow> CreationTime b \<le> CreationTime s \<or> onPool b (s # ss))"
proof (induction bs arbitrary: idx)
  case Nil
  then show ?case by simp
next
  case (Cons x bs)
  then show ?case by (cases x) (auto simp: validate_present not_less)
qed

lemma lastBackupAt_None [simp]: "lastBackupAt d = None \<longleftrightarrow> d = []"
  by (simp add: lastBackupAt_def split: list.splits)

lemma lastBackupAt_Some: "lastBackupAt d = Some s \<longleftrightarrow> d \<noteq> [] \<and> s = BaseSnapshot (hd d)"
  by (auto simp: lastBackupAt_def split: list.splits)

lemma lastComparableAt_nonempty: "lastComparableAt j d = Some s \<Longrightarrow> d \<noteq> []"
  by (auto simp: lastComparableAt_def split: list.splits)

lemma lastComparableAt_incremental:
  "Incremental j \<Longrightarrow> FullIfOlderThan j = - minute \<Longrightarrow> lastComparableAt j d = lastBackupAt d"
  by (simp add: lastComparableAt_def lastBackupAt_def split: list.splits)

lemma lastComparableAt_full:
  assumes "\<not> Incremental j" and "FullIfOlderThan j \<noteq> - minute"
  shows "lastComparableAt j d = map_option BaseSnapshot (List.find isFull d)"
  using assms by (auto simp: lastComparableAt_def split: list.splits option.splits)

text \<open>When the comparable snapshots agree and the first exists, every destination has backups.\<close>

lemma comparable_all_nonempty:
  assumes "firstDiffering 1 (map (lastComparableAt j) ds) = None"
    and "map (lastComparableAt j) ds = Some s # rest" and "d \<in> set ds"
  shows "d \<noteq> []" and "\<exists>t. lastComparableAt j d = Some t \<and> SnapshotInfo_Equal s t"
proof -
  have "SnapshotPtr_Equal (Some s) (lastComparableAt j d)"
    using firstDiffering_None [OF assms(1), of "lastComparableAt j d"] assms(2,3) by auto
  then obtain t where t: "lastComparableAt j d = Some t" "SnapshotInfo_Equal s t"
    by (cases "lastComparableAt j d") auto
  then show "\<exists>t. lastComparableAt j d = Some t \<and> SnapshotInfo_Equal s t" by blast
  from t show "d \<noteq> []" by (simp add: lastComparableAt_nonempty)
qed

lemma lastBackups_agree:
  assumes "firstDiffering 1 (map lastBackupAt ds) = None"
    and "map lastBackupAt ds = Some s # rest" and "d \<in> set ds"
  shows "d \<noteq> [] \<and> SnapshotInfo_Equal s (BaseSnapshot (hd d))"
proof -
  have "SnapshotPtr_Equal (Some s) (lastBackupAt d)"
    using firstDiffering_None [OF assms(1), of "lastBackupAt d"] assms(2,3) by auto
  then show ?thesis by (cases "lastBackupAt d") (auto simp: lastBackupAt_Some)
qed

section \<open>The branches of the decision\<close>

abbreviation fullCandidate :: "JobInfo \<Rightarrow> SnapshotInfo list \<Rightarrow> SnapshotInfo option" where
  "fullCandidate j snaps \<equiv> newestMatchingSnapshot snaps (SnapshotPrefix j) (FullSnapshotSuffix j)"

abbreviation incrCandidate :: "JobInfo \<Rightarrow> SnapshotInfo list \<Rightarrow> SnapshotInfo option" where
  "incrCandidate j snaps \<equiv> newestMatchingSnapshot snaps (SnapshotPrefix j) (IncrementalSnapshotSuffix j)"

abbreviation planCompletes :: "Manifest list list \<Rightarrow> bool \<Rightarrow> bool" where
  "planCompletes ds completable \<equiv> completable \<and> partialSet ds \<noteq> None"

text \<open>The common part of the two options that read the last backups, as one predicate.\<close>

definition lastBackupsOK :: "JobInfo \<Rightarrow> SnapshotInfo list \<Rightarrow> Manifest list list \<Rightarrow> bool" where
  "lastBackupsOK j snaps ds \<longleftrightarrow>
     checkLastBackupsOnPool (VolumeName j) snaps (map lastBackupAt ds) = None \<and>
     firstDiffering 1 (map (lastComparableAt j) ds) = None"

lemma planSmart_incremental_eq:
  assumes "snaps \<noteq> []" "\<not> Full j" "\<not> planCompletes ds c" "lastBackupsOK j snaps ds" "Incremental j"
  shows "planSmart j snaps ds c
    = planExplicitIncremental j (incrCandidate j snaps) (map (lastComparableAt j) ds) ds"
  using assms by (auto simp: planSmart_def lastBackupsOK_def Let_def split: option.split bool.split)

lemma planSmart_older_eq:
  assumes "snaps \<noteq> []" "\<not> Full j" "\<not> planCompletes ds c" "lastBackupsOK j snaps ds"
    and "\<not> Incremental j" "FullIfOlderThan j \<noteq> - minute"
  shows "planSmart j snaps ds c
    = planFullIfOlderThan j snaps (fullCandidate j snaps) (incrCandidate j snaps)
        (firstDiffering 1 (map lastBackupAt ds) \<noteq> None) (map (lastComparableAt j) ds) (map lastBackupAt ds) ds"
  using assms by (auto simp: planSmart_def lastBackupsOK_def Let_def split: option.split bool.split)

lemma planSmart_okE:
  assumes "planSmart j snaps ds c = (p, None)"
  obtains
    (full) "snaps \<noteq> []" "Full j" "planExplicitFull j (fullCandidate j snaps) ds = (p, None)"
  | (partial) m where "snaps \<noteq> []" "\<not> Full j" "partialSet ds = Some m" "c" "p = planCompletePartial m"
  | (incremental) "snaps \<noteq> []" "\<not> Full j" "\<not> planCompletes ds c" "lastBackupsOK j snaps ds" "Incremental j"
      "planExplicitIncremental j (incrCandidate j snaps) (map (lastComparableAt j) ds) ds = (p, None)"
  | (older) "snaps \<noteq> []" "\<not> Full j" "\<not> planCompletes ds c" "lastBackupsOK j snaps ds"
      "\<not> Incremental j" "FullIfOlderThan j \<noteq> - minute"
      "planFullIfOlderThan j snaps (fullCandidate j snaps) (incrCandidate j snaps)
        (firstDiffering 1 (map lastBackupAt ds) \<noteq> None) (map (lastComparableAt j) ds) (map lastBackupAt ds) ds
        = (p, None)"
proof -
  have ne: "snaps \<noteq> []" using assms by (auto simp: planSmart_def)
  consider "Full j" | m where "\<not> Full j" "partialSet ds = Some m" "c" | "\<not> Full j" "\<not> planCompletes ds c" by blast
  then show thesis
  proof cases
    case 1
    then show ?thesis using full ne assms by (simp add: planSmart_def Let_def)
  next
    case 2
    then show ?thesis using partial [of m] ne assms by (simp add: planSmart_def Let_def)
  next
    case 3
    then have ok: "lastBackupsOK j snaps ds"
      using ne assms by (auto simp: planSmart_def lastBackupsOK_def Let_def split: option.splits bool.splits)
    show ?thesis
    proof (cases "Incremental j")
      case True
      then show ?thesis using incremental 3 ok ne assms planSmart_incremental_eq by simp
    next
      case False
      then have "FullIfOlderThan j \<noteq> - minute"
        using 3 ok ne assms by (auto simp: planSmart_def lastBackupsOK_def Let_def split: option.splits bool.splits)
      then show ?thesis using older 3 ok ne False assms planSmart_older_eq by simp
    qed
  qed
qed

lemma planExplicitFull_ok:
  assumes "planExplicitFull j fb ds = (p, None)"
  shows "Action p = PlanNoop \<and> Reason p = reasonAlreadyBackedUp \<and> ds \<noteq> []
           \<and> (\<exists>b. fb = Some b \<and> (\<forall>d\<in>set ds. hasFullOf d b))
       \<or> Action p = PlanFull \<and> Reason p = reasonExplicitFull \<and> fb = Some (Base p)
           \<and> (Resume j \<or> (\<forall>d\<in>set ds. \<not> hasFullOf d (Base p)))
           \<and> (ds = [] \<or> (\<exists>d\<in>set ds. \<not> hasFullOf d (Base p)))"
proof -
  obtain b where b: "fb = Some b" using assms by (auto simp: planExplicitFull_def split: option.splits)
  let ?have = "filter (\<lambda>i. hasFullOf (ds ! i) b) [0..<length ds]"
  let ?miss = "filter (\<lambda>i. \<not> hasFullOf (ds ! i) b) [0..<length ds]"
  have have_iff: "?have = [] \<longleftrightarrow> (\<forall>d\<in>set ds. \<not> hasFullOf d b)"
    and miss_iff: "?miss = [] \<longleftrightarrow> (\<forall>d\<in>set ds. hasFullOf d b)"
    by (auto simp: filter_empty_conv all_set_conv_all_nth)
  show ?thesis
  proof (cases "?have \<noteq> [] \<and> ?miss = []")
    case True
    then have "p = zeroPlan\<lparr>Action := PlanNoop, Reason := reasonAlreadyBackedUp\<rparr>"
      using assms b by (simp add: planExplicitFull_def Let_def)
    then show ?thesis using True b miss_iff by auto
  next
    case False
    then have p: "p = zeroPlan\<lparr>Action := PlanFull, Base := b, Reason := reasonExplicitFull\<rparr>"
      and "?have = [] \<or> Resume j"
      using assms b by (auto simp: planExplicitFull_def Let_def split: if_splits)
    then show ?thesis using False b have_iff miss_iff by auto
  qed
qed

lemma planExplicitIncremental_ok:
  assumes "planExplicitIncremental j ib (lc # lcs) ds = (p, None)" 
  obtains
    (noop) b where "ib = Some b" "lc \<noteq> None" "CreationTime b \<le> CreationTime (the lc)"
      "Action p = PlanNoop" "Reason p = reasonNothingNewer"
  | (incr) "ib = Some (Base p)" "lc = Some (Source p)" "CreationTime (Base p) > CreationTime (Source p)"
      "Action p = PlanIncremental" "Reason p = reasonExplicitIncremental"
      "firstBrokenChain ds = None" "sameStreamKind j ds = None"
  using assms
  by (auto simp: planExplicitIncremental_def not_less split: option.splits if_splits)

lemma planNextIncremental_ok:
  assumes "planNextIncremental j snaps fb ib ne due lastB ds = (p, None)"
  obtains
    (noop) b where "ib = Some b" "\<not> ne" "CreationTime b \<le> CreationTime lastB"
      "Action p = PlanNoop" "Reason p = reasonNothingNewer"
  | (pruned) b f where "ib = Some b" "\<not> ne" "CreationTime b > CreationTime lastB" "fb = Some f"
      "if needsSnapshotSource j then \<not> snapshotOnPool lastB snaps else \<not> onPool lastB snaps"
      "Reason p = reasonSourcePruned" "SnapshotInfo_Equal (Source p) lastB"
      "Action p = PlanNoop \<and> CreationTime f \<le> CreationTime lastB
       \<or> Action p = PlanFull \<and> Base p = f \<and> CreationTime f > CreationTime lastB"
  | (incr) "ib = Some (Base p)" "\<not> ne" "CreationTime (Base p) > CreationTime lastB"
      "Action p = PlanIncremental" "Reason p = reasonNewerCandidate" "SnapshotInfo_Equal (Source p) lastB"
      "if needsSnapshotSource j then snapshotOnPool lastB snaps else onPool lastB snaps"
      "Bookmark (Source p) \<longleftrightarrow> \<not> snapshotOnPool lastB snaps"
      "sameStreamKind j ds = None"
proof -
  obtain b where b: "ib = Some b" and ne: "\<not> ne"
    using assms by (auto simp: planNextIncremental_def split: option.splits if_splits)
  show thesis
  proof (cases "CreationTime b > CreationTime lastB")
    case False
    then show ?thesis using noop [of b] b ne assms by (auto simp: planNextIncremental_def)
  next
    case newer: True
    let ?v = "validateSnapShotExistsFromSnaps lastB snaps True"
    let ?src = "snd ?v"
    define gone where "gone \<longleftrightarrow> \<not> fst ?v \<or> fst ?v \<and> Bookmark ?src \<and> needsSnapshotSource j"
    have bm: "fst ?v \<Longrightarrow> Bookmark ?src \<longleftrightarrow> \<not> snapshotOnPool lastB snaps"
      and on: "fst ?v = onPool lastB snaps"
      by (auto simp: validateSnapShotExistsFromSnaps_spec snapshotOnPool_onPool split: if_splits)
    have gone_iff: "gone \<longleftrightarrow> (if needsSnapshotSource j then \<not> snapshotOnPool lastB snaps else \<not> onPool lastB snaps)"
      using bm on snapshotOnPool_onPool by (auto simp: gone_def)
    show ?thesis
    proof (cases gone)
      case True
      then obtain f where f: "fb = Some f"
        using assms b ne newer
        by (auto simp: planNextIncremental_def gone_def Let_def split_beta split: option.splits if_splits)
      then show ?thesis
        using pruned [of b f] assms b ne newer True gone_iff validate_Equal [of lastB snaps True]
        by (auto simp: planNextIncremental_def gone_def Let_def split_beta not_less split: if_splits)
    next
      case False
      then show ?thesis
        using incr assms b ne newer gone_iff bm on validate_Equal [of lastB snaps True]
        by (auto simp: planNextIncremental_def gone_def Let_def split_beta split: option.splits if_splits)
    qed
  qed
qed

text \<open>The part of \<^verbatim>\<open>--fullIfOlderThan\<close>, for destinations whose last fulls agree.\<close>

abbreviation windowElapsed :: "JobInfo \<Rightarrow> SnapshotInfo list \<Rightarrow> SnapshotInfo \<Rightarrow> bool" where
  "windowElapsed j snaps lastFull \<equiv>
     fullWindowElapsed (time_sub (CreationTime (hd snaps)) (CreationTime lastFull)) (FullIfOlderThan j)"

lemma planFullIfOlderThan_ok:
  assumes "planFullIfOlderThan j snaps fb ib ne (lc # lcs) (Some lastB # lbs) ds = (p, None)"
    and "list_all (\<lambda>b. b \<noteq> None) lbs"
  obtains
    (first) "lc = None" "fb = Some (Base p)" "Action p = PlanFull" "Reason p = reasonNoPreviousFull"
  | (window) lf behind where "lc = Some lf" "furthestBehind lastB lbs = Some behind" "windowElapsed j snaps lf"
      "fb = Some (Base p)" "CreationTime (Base p) > CreationTime behind"
      "Action p = PlanFull" "Reason p = reasonWindowElapsed"
  | (broken) lf behind where "lc = Some lf" "furthestBehind lastB lbs = Some behind"
      "firstBrokenChain ds \<noteq> None" "Reason p = reasonBrokenChain"
      "Action p = PlanNoop \<and> \<not> (\<exists>f. fb = Some f \<and> CreationTime f > CreationTime behind)
       \<or> Action p = PlanFull \<and> fb = Some (Base p) \<and> CreationTime (Base p) > CreationTime behind"
  | (continue) lf behind where "lc = Some lf" "furthestBehind lastB lbs = Some behind"
      "\<not> (windowElapsed j snaps lf \<and> (\<exists>f. fb = Some f \<and> CreationTime f > CreationTime behind))"
      "firstBrokenChain ds = None"
      "planNextIncremental j snaps fb ib ne (windowElapsed j snaps lf) lastB ds = (p, None)"
proof (cases lc)
  case None
  then show thesis using first assms by (auto simp: planFullIfOlderThan_def split: option.splits)
next
  case (Some lf)
  obtain behind where behind: "furthestBehind lastB lbs = Some behind"
    using furthestBehind_Some [OF assms(2)] by blast
  define newer where "newer \<longleftrightarrow> (\<exists>f. fb = Some f \<and> CreationTime f > CreationTime behind)"
  have newer_iff: "newer \<longleftrightarrow> fb \<noteq> None \<and> CreationTime (the fb) > CreationTime behind"
    by (auto simp: newer_def)
  have cand: "\<not> (windowElapsed j snaps lf \<and> fb = None)"
  proof
    assume "windowElapsed j snaps lf \<and> fb = None"
    then show False using assms(1) Some by (simp add: planFullIfOlderThan_def)
  qed
  show thesis
  proof (cases "windowElapsed j snaps lf \<and> newer")
    case True
    then show ?thesis
      using window [of lf behind] Some behind assms(1) newer_iff
      by (auto simp: planFullIfOlderThan_def Let_def)
  next
    case False
    show ?thesis
    proof (cases "firstBrokenChain ds")
      case None
      then have "planNextIncremental j snaps fb ib ne (windowElapsed j snaps lf) lastB ds = (p, None)"
        using Some behind assms(1) False newer_iff cand
        by (cases fb) (auto simp: planFullIfOlderThan_def Let_def newer_def split: if_splits)
      then show ?thesis using continue [of lf behind] Some behind False None newer_def by blast
    next
      case broken': (Some q)
      obtain idx missing where q: "q = (idx, missing)" by fastforce
      show ?thesis
        using broken [of lf behind] Some behind assms(1) False newer_iff cand broken' q
        by (cases newer) (auto simp: planFullIfOlderThan_def Let_def newer_def split: if_splits)
    qed
  qed
qed

section \<open>No panics\<close>

lemma planExplicitIncremental_no_panic:
  "lcs \<noteq> [] \<Longrightarrow> snd (planExplicitIncremental j ib lcs ds) \<noteq> Some Panic"
  by (cases lcs)
    (auto simp: planExplicitIncremental_def sameStreamKind_no_panic split: option.splits if_splits dest: sym)

lemma planNextIncremental_no_panic:
  "snd (planNextIncremental j snaps fb ib ne due lastB ds) \<noteq> Some Panic"
  by (auto simp: planNextIncremental_def sameStreamKind_no_panic Let_def split_beta split: option.splits)

lemma planFullIfOlderThan_no_panic:
  assumes "list_all (\<lambda>b. b \<noteq> None) lbs"
  shows "snd (planFullIfOlderThan j snaps fb ib ne (lc # lcs) (Some lastB # lbs) ds) \<noteq> Some Panic"
proof -
  obtain behind where "furthestBehind lastB lbs = Some behind"
    using furthestBehind_Some [OF assms] by blast
  then show ?thesis
    by (auto simp: planFullIfOlderThan_def planNextIncremental_no_panic Let_def split: option.splits)
qed

lemma planFullIfOlderThan_no_full:
  "snd (planFullIfOlderThan j snaps fb ib ne (None # lcs) lbs ds) \<noteq> Some Panic"
  by (auto simp: planFullIfOlderThan_def split: option.splits)

lemma comparable_cases:
  assumes "firstDiffering 1 (map (lastComparableAt j) ds) = None" and "ds \<noteq> []"
  obtains (none) lcs where "map (lastComparableAt j) ds = None # lcs"
  | (some) lf lcs lastB lbs where "map (lastComparableAt j) ds = Some lf # lcs"
      "map lastBackupAt ds = Some lastB # lbs" "list_all (\<lambda>b. b \<noteq> None) lbs"
proof (cases "lastComparableAt j (hd ds)")
  case None
  then show thesis using none assms(2) by (cases ds) auto
next
  case (Some lf)
  then have map: "map (lastComparableAt j) ds = Some lf # map (lastComparableAt j) (tl ds)"
    using assms(2) by (cases ds) auto
  have "\<forall>d\<in>set ds. d \<noteq> []" using comparable_all_nonempty(1) [OF assms(1) map] by blast
  then have "list_all (\<lambda>b. b \<noteq> None) (map lastBackupAt ds)"
    by (simp add: list_all_iff del: not_None_eq)
  moreover obtain lastB where "map lastBackupAt ds = Some lastB # map lastBackupAt (tl ds)"
    using \<open>\<forall>d\<in>set ds. d \<noteq> []\<close> assms(2) by (cases ds; cases "hd ds") (auto simp: lastBackupAt_def)
  ultimately show thesis using some map by simp
qed

text \<open>
  The planner never indexes out of range or reads a nil pointer, whatever the pool, the
  destinations (at least one) and the options are.
\<close>

theorem planSmart_no_panic:
  assumes "ds \<noteq> []"
  shows "snd (planSmart j snaps ds c) \<noteq> Some Panic"
proof (cases "snaps = [] \<or> Full j \<or> planCompletes ds c")
  case True
  then show ?thesis by (auto simp: planSmart_def planExplicitFull_def Let_def split: option.splits)
next
  case False
  then have ne: "snaps \<noteq> []" "\<not> Full j" "\<not> planCompletes ds c" by simp_all
  show ?thesis
  proof (cases "lastBackupsOK j snaps ds")
    case ok: True
    then have agree: "firstDiffering 1 (map (lastComparableAt j) ds) = None" by (simp add: lastBackupsOK_def)
    show ?thesis
    proof (cases "Incremental j")
      case True
      then show ?thesis
        using planSmart_incremental_eq [OF ne ok] assms by (simp add: planExplicitIncremental_no_panic)
    next
      case notIncr: False
      show ?thesis
      proof (cases "FullIfOlderThan j = - minute")
        case True
        then show ?thesis using notIncr ok ne
          by (auto simp: planSmart_def lastBackupsOK_def Let_def split: option.split bool.split)
      next
        case False
        show ?thesis
          using agree assms
        proof (cases rule: comparable_cases)
          case (none lcs)
          then show ?thesis using planSmart_older_eq [OF ne ok notIncr False] planFullIfOlderThan_no_full by simp
        next
          case (some lf lcs lastB lbs)
          then show ?thesis using planSmart_older_eq [OF ne ok notIncr False] planFullIfOlderThan_no_panic by simp
        qed
      qed
    qed
  next
    case False
    then show ?thesis using ne checkLastBackupsFrom_no_panic
      by (auto simp: planSmart_def lastBackupsOK_def checkLastBackupsOnPool_def Let_def split: option.splits bool.splits)
  qed
qed

end
