(* ===== verification/Examples.thy ===== *)
theory Examples
  imports Planner
begin

text \<open>
  Concrete inputs at which the properties of the development are applied: a small pool, the
  destinations that hold backups of it, and the plans made from them.
\<close>

section \<open>A concrete pool\<close>

text \<open>Three snapshots a day apart, a chain of backups of the first two, and a job with a window of thirty days.\<close>

definition exSnapshot :: "string \<Rightarrow> int \<Rightarrow> SnapshotInfo" where
  "exSnapshot n d = \<lparr>CreationTime = d * day, Name = n, Bookmark = False, GUID = []\<rparr>"

definition exS1 :: SnapshotInfo where "exS1 = exSnapshot ''a'' 1"
definition exS2 :: SnapshotInfo where "exS2 = exSnapshot ''b'' 2"
definition exS3 :: SnapshotInfo where "exS3 = exSnapshot ''c'' 3"

definition exFull :: "SnapshotInfo \<Rightarrow> Manifest" where
  "exFull base = zeroManifest\<lparr>VolumeName := ''t'', BaseSnapshot := base\<rparr>"
definition exIncr :: "SnapshotInfo \<Rightarrow> SnapshotInfo \<Rightarrow> Manifest" where
  "exIncr base source = zeroManifest\<lparr>VolumeName := ''t'', BaseSnapshot := base, IncrementalSnapshot := source\<rparr>"

definition exPool :: "SnapshotInfo list" where "exPool = [exS3, exS2, exS1]"
definition exDest :: "Manifest list" where "exDest = [exIncr exS2 exS1, exFull exS1]"
definition exJob :: JobInfo where "exJob = zeroJobInfo\<lparr>VolumeName := ''t'', FullIfOlderThan := 30 * day\<rparr>"

definition exPlan :: Plan where
  "exPlan = zeroPlan\<lparr>Action := PlanIncremental, Base := exS3, Source := exS2, Reason := reasonNewerCandidate\<rparr>"
definition exFullPlan :: Plan where
  "exFullPlan = zeroPlan\<lparr>Action := PlanFull, Base := exS3, Reason := reasonNoPreviousFull\<rparr>"
definition exNoop :: Plan where
  "exNoop = zeroPlan\<lparr>Action := PlanNoop, Reason := reasonNothingNewer\<rparr>"

lemma ex_options: "ValidateSmartOptions exJob = None" by code_simp
lemma ex_plan: "planSmart exJob exPool [exDest] False = (exPlan, None)" by code_simp
lemma ex_full_plan: "planSmart exJob exPool [[]] False = (exFullPlan, None)" by code_simp
lemma ex_noop: "planSmart exJob [exS2, exS1] [exDest] False = (exNoop, None)" by code_simp
lemma ex_newest: "newestFirst exPool" by (simp add: exPool_def exS1_def exS2_def exS3_def exSnapshot_def day_def hour_def minute_def second_def)
lemma ex_partial: "partialSet [exDest, tl exDest] = Some (exIncr exS2 exS1)" by code_simp

end
