(* ===== verification/PlannerProperties.thy ===== *)
theory PlannerProperties
  imports PlannerProofs Examples
begin

text \<open>
  What the planner of \<^verbatim>\<open>backup/plan.go\<close> guarantees: a planned incremental extends, at every
  destination, a chain that restores; a planned full is needed somewhere; nothing newer is missed;
  the planner neither panics nor idles when there is something to send.
\<close>

section \<open>What a plan guarantees\<close>

lemma planSmart_incremental_cases:
  assumes "ValidateSmartOptions j = None" and "planSmart j snaps ds c = (p, None)"
    and "Action p = PlanIncremental" and "Reason p \<noteq> reasonCompletePartial"
  shows "incrCandidate j snaps = Some (Base p) \<and> CreationTime (Base p) > CreationTime (Source p) \<and>
    (\<forall>d\<in>set ds. d \<noteq> [] \<and> SnapshotInfo_Equal (BaseSnapshot (hd d)) (Source p)) \<and>
    firstBrokenChain ds = None \<and> sameStreamKind j ds = None \<and>
    (Reason p = reasonNewerCandidate \<longrightarrow>
      (if needsSnapshotSource j then snapshotOnPool (Source p) snaps else onPool (Source p) snaps))"
  using assms(2)
proof (cases rule: planSmart_okE)
  case full
  then show ?thesis using planExplicitFull_ok assms(3) by fastforce
next
  case (partial m)
  then show ?thesis using assms(4) by (simp add: planCompletePartial_def split: if_splits)
next
  case incremental
  have cmp: "map (lastComparableAt j) ds = map lastBackupAt ds"
    using assms(1) incremental(5) by (simp add: ValidateSmartOptions_ok lastComparableAt_incremental)
  have agree: "firstDiffering 1 (map lastBackupAt ds) = None"
    using incremental(4) cmp by (simp add: lastBackupsOK_def)
  obtain lc lcs where lcs: "map lastBackupAt ds = lc # lcs"
    using incremental(6) assms(3) cmp
    by (cases "map lastBackupAt ds") (auto simp: planExplicitIncremental_def split: option.splits)
  have "planExplicitIncremental j (incrCandidate j snaps) (lc # lcs) ds = (p, None)"
    using incremental(6) cmp lcs by simp
  then show ?thesis
  proof (cases rule: planExplicitIncremental_ok)
    case incr
    then have "d \<noteq> [] \<and> SnapshotInfo_Equal (BaseSnapshot (hd d)) (Source p)" if "d \<in> set ds" for d
      using lastBackups_agree [OF agree _ that, of "Source p" lcs] lcs by (auto intro: SnapshotInfo_Equal_sym)
    then show ?thesis using incr by simp
  qed (use assms(3) in simp)
next
  case older
  have ok: "firstDiffering 1 (map (lastComparableAt j) ds) = None" using older(4) by (simp add: lastBackupsOK_def)
  have "ds \<noteq> []" using older(7) by (auto simp: planFullIfOlderThan_def)
  with ok show ?thesis
  proof (cases rule: comparable_cases)
    case (none lcs)
    then show ?thesis using older(7) assms(3) by (auto simp: planFullIfOlderThan_def split: option.splits)
  next
    case (some lf lcs lastB lbs)
    then have res: "planFullIfOlderThan j snaps (fullCandidate j snaps) (incrCandidate j snaps)
        (firstDiffering 1 (map lastBackupAt ds) \<noteq> None) (Some lf # lcs) (Some lastB # lbs) ds = (p, None)"
      using older(7) by simp
    from res some(3) show ?thesis
    proof (cases rule: planFullIfOlderThan_ok)
      case (continue lf' behind)
      from continue(5) show ?thesis
      proof (cases rule: planNextIncremental_ok)
        case incr
        have agree: "firstDiffering 1 (map lastBackupAt ds) = None" using incr(2) by blast
        have "SnapshotInfo_Equal (BaseSnapshot (hd d)) (Source p) \<and> d \<noteq> []" if "d \<in> set ds" for d
          using lastBackups_agree [OF agree some(2) that] incr(6)
          by (simp add: SnapshotInfo_Equal_def)
        moreover have "snapshotOnPool (Source p) snaps = snapshotOnPool lastB snaps"
            "onPool (Source p) snaps = onPool lastB snaps" "CreationTime (Source p) = CreationTime lastB"
          using incr(6) by (simp_all add: SnapshotInfo_Equal_def snapshotOnPool_def onPool_def)
        ultimately show ?thesis using incr continue(4) by simp
      qed (use assms(3) in auto)
    qed (use assms(3) in auto)
  qed
qed


text \<open>
  With \<^verbatim>\<open>--fullIfOlderThan\<close> the source of a planned incremental is still on the pool, and it is
  there as a snapshot, not only as a bookmark, when \<^verbatim>\<open>-R\<close> or \<^verbatim>\<open>-I\<close> needs one.
\<close>

theorem planSmart_source_present:
  assumes "ValidateSmartOptions j = None" and "planSmart j snaps ds completable = (p, None)"
    and "Action p = PlanIncremental" and "Reason p = reasonNewerCandidate"
  shows "fst (validateSnapShotExistsFromSnaps (Source p) snaps (\<not> needsSnapshotSource j))"
  using planSmart_incremental_cases [OF assms(1,2,3)] assms(4)
  by (auto simp: validateSnapShotExistsFromSnaps_spec split: if_splits)


lemma lastBackupsOK_fulls:
  assumes "lastBackupsOK j snaps ds" and "\<not> Incremental j" and "FullIfOlderThan j \<noteq> - minute"
    and "lastComparableAt j (hd ds) = None" and "d \<in> set ds"
  shows "\<forall>m\<in>set d. \<not> isFull m"
proof -
  have agree: "firstDiffering 1 (map (lastComparableAt j) ds) = None"
    using assms(1) by (simp add: lastBackupsOK_def)
  have "SnapshotPtr_Equal (hd (map (lastComparableAt j) ds)) (lastComparableAt j d)"
    by (rule firstDiffering_None [OF agree]) (use assms(5) in auto)
  then have "lastComparableAt j d = None"
    using assms(4,5) by (cases ds; cases "lastComparableAt j d") auto
  then show ?thesis
    using assms(2,3) by (auto simp: lastComparableAt_full find_None_iff)
qed

lemma newer_than_all:
  assumes "backupsNewestFirst d" and "d \<noteq> []" and "t > CreationTime (BaseSnapshot (hd d))" and "m \<in> set d"
  shows "t > CreationTime (BaseSnapshot m)"
  using assms by (cases d) auto

lemma not_hasFullOf_newer:
  assumes "\<forall>m\<in>set d. CreationTime s > CreationTime (BaseSnapshot m)"
  shows "\<not> hasFullOf d s"
  using assms by (auto simp: hasFullOf_def list_ex_iff SnapshotInfo_Equal_def)

lemma furthestBehind_dest:
  assumes "furthestBehind lastB lbs = Some behind" and "map lastBackupAt ds = Some lastB # lbs"
  obtains d where "d \<in> set ds" "d \<noteq> []" "behind = BaseSnapshot (hd d)"
proof -
  have "Some behind \<in> set (map lastBackupAt ds)"
    using furthestBehind_least [OF assms(1)] assms(2) by simp
  then show thesis using that by (auto simp: lastBackupAt_Some dest!: sym [of _ "lastBackupAt _"])
qed

text \<open>The base of a planned full, and a destination that lacks every backup as new as it.\<close>

lemma planSmart_full_cases:
  assumes "planSmart j snaps ds c = (p, None)" and "Action p = PlanFull" and "Reason p \<noteq> reasonCompletePartial"
    and "\<forall>d\<in>set ds. backupsNewestFirst d" and "ds \<noteq> []"
  shows "fullCandidate j snaps = Some (Base p) \<and> (\<exists>d\<in>set ds. \<not> hasFullOf d (Base p))"
  using assms(1)
proof (cases rule: planSmart_okE)
  case full
  then show ?thesis using planExplicitFull_ok [OF full(3)] assms(2,5) by auto
next
  case (partial m)
  then show ?thesis using assms(3) by (simp add: planCompletePartial_def split: if_splits)
next
  case incremental
  then show ?thesis using assms(2)
    by (auto simp: planExplicitIncremental_def split: option.splits list.splits if_splits)
next
  case older
  have ok: "firstDiffering 1 (map (lastComparableAt j) ds) = None" using older(4) by (simp add: lastBackupsOK_def)
  have lacks: "\<exists>d\<in>set ds. \<not> hasFullOf d (Base p)"
    if "d \<in> set ds" "d \<noteq> []" "CreationTime (BaseSnapshot (hd d)) < CreationTime (Base p)" for d
    using that assms(4) newer_than_all not_hasFullOf_newer by blast
  from ok assms(5) show ?thesis
  proof (cases rule: comparable_cases)
    case (none lcs)
    then have "lastComparableAt j (hd ds) = None" using assms(5) by (cases ds) auto
    then have "\<not> hasFullOf (hd ds) (Base p)"
      using lastBackupsOK_fulls [OF older(4-6) _ hd_in_set [OF assms(5)]]
      by (simp add: hasFullOf_def list_ex_iff)
    then show ?thesis using none older(7) assms(5)
      by (auto simp: planFullIfOlderThan_def split: option.splits intro: hd_in_set)
  next
    case (some lf lcs lastB lbs)
    then have res: "planFullIfOlderThan j snaps (fullCandidate j snaps) (incrCandidate j snaps)
        (firstDiffering 1 (map lastBackupAt ds) \<noteq> None) (Some lf # lcs) (Some lastB # lbs) ds = (p, None)"
      using older(7) by simp
    from res some(3) show ?thesis
    proof (cases rule: planFullIfOlderThan_ok)
      case (window lf' behind)
      then show ?thesis using lacks furthestBehind_dest [OF window(2) some(2)] by metis
    next
      case (broken lf' behind)
      then have "fullCandidate j snaps = Some (Base p)" "CreationTime behind < CreationTime (Base p)"
        using assms(2) by auto
      then show ?thesis using lacks furthestBehind_dest [OF broken(2) some(2)] by metis
    next
      case (continue lf' behind)
      have "lastBackupAt (hd ds) = Some lastB" using some(2) by (cases ds) auto
      then have hd: "hd ds \<in> set ds" "hd ds \<noteq> []" "lastB = BaseSnapshot (hd (hd ds))"
        using assms(5) by (auto simp: lastBackupAt_Some)
      from continue(5) show ?thesis
      proof (cases rule: planNextIncremental_ok)
        case (pruned b f)
        then show ?thesis using lacks [OF hd(1,2)] hd(3) assms(2) by auto
      qed (use assms(2) in simp_all)
    qed (use assms(2) in auto)
  qed
qed


lemma planSmart_nothing_newer:
  assumes "ValidateSmartOptions j = None" and "planSmart j snaps ds c = (p, None)"
    and "Reason p = reasonNothingNewer" and "d \<in> set ds"
  shows "d \<noteq> [] \<and> (\<exists>b. incrCandidate j snaps = Some b \<and> CreationTime b \<le> CreationTime (BaseSnapshot (hd d)))"
  using assms(2)
proof (cases rule: planSmart_okE)
  case full
  then show ?thesis using planExplicitFull_ok [OF full(3)] assms(3) by auto
next
  case (partial m)
  then show ?thesis using assms(3) by (simp add: planCompletePartial_def split: if_splits)
next
  case incremental
  have cmp: "map (lastComparableAt j) ds = map lastBackupAt ds"
    using assms(1) incremental(5) by (simp add: ValidateSmartOptions_ok lastComparableAt_incremental)
  have agree: "firstDiffering 1 (map lastBackupAt ds) = None"
    using incremental(4) cmp by (simp add: lastBackupsOK_def)
  obtain lc lcs where lcs: "map lastBackupAt ds = lc # lcs" using assms(4) by (cases ds) auto
  have "planExplicitIncremental j (incrCandidate j snaps) (lc # lcs) ds = (p, None)"
    using incremental(6) cmp lcs by simp
  then show ?thesis
  proof (cases rule: planExplicitIncremental_ok)
    case (noop b)
    then obtain s where "lc = Some s" by blast
    then show ?thesis
      using noop lastBackups_agree [OF agree _ assms(4), of s lcs] lcs by (auto simp: SnapshotInfo_Equal_def)
  qed (use assms(3) in simp)
next
  case older
  have ok: "firstDiffering 1 (map (lastComparableAt j) ds) = None" using older(4) by (simp add: lastBackupsOK_def)
  have "ds \<noteq> []" using assms(4) by auto
  with ok show ?thesis
  proof (cases rule: comparable_cases)
    case (none lcs)
    then show ?thesis using older(7) assms(3) by (auto simp: planFullIfOlderThan_def split: option.splits)
  next
    case (some lf lcs lastB lbs)
    then have res: "planFullIfOlderThan j snaps (fullCandidate j snaps) (incrCandidate j snaps)
        (firstDiffering 1 (map lastBackupAt ds) \<noteq> None) (Some lf # lcs) (Some lastB # lbs) ds = (p, None)"
      using older(7) by simp
    from res some(3) show ?thesis
    proof (cases rule: planFullIfOlderThan_ok)
      case (continue lf' behind)
      from continue(5) show ?thesis
      proof (cases rule: planNextIncremental_ok)
        case (noop b)
        have "firstDiffering 1 (map lastBackupAt ds) = None" using noop(2) by blast
        then show ?thesis using noop lastBackups_agree [OF _ some(2) assms(4)] by (auto simp: SnapshotInfo_Equal_def)
      qed (use assms(3) in auto)
    qed (use assms(3) in auto)
  qed
qed

text \<open>
  Nothing is missed. When the planner says there is nothing newer to send, no snapshot on the
  pool that is eligible for an incremental is newer than the newest backup of any destination.
\<close>

theorem planSmart_noop_complete:
  assumes "ValidateSmartOptions j = None" and "newestFirst snaps"
    and "planSmart j snaps ds completable = (p, None)" and "Reason p = reasonNothingNewer"
    and "d \<in> set ds" and "s \<in> set snaps"
    and "snapshotMatches s (SnapshotPrefix j) (IncrementalSnapshotSuffix j)"
  shows "d \<noteq> [] \<and> CreationTime s \<le> CreationTime (BaseSnapshot (hd d))"
proof -
  obtain b where b: "d \<noteq> []" "incrCandidate j snaps = Some b" "CreationTime b \<le> CreationTime (BaseSnapshot (hd d))"
    using planSmart_nothing_newer [OF assms(1,3,4,5)] by blast
  moreover have "CreationTime s \<le> CreationTime b"
    by (rule newestMatchingSnapshot_newest [OF b(2) assms(2,6,7)])
  ultimately show ?thesis by simp
qed

lemma firstDiffering_all_Equal:
  "\<forall>x\<in>set xs. SnapshotPtr_Equal x (Some s) \<Longrightarrow> firstDiffering i xs = None"
proof (induction i xs rule: firstDiffering.induct)
  case (1 i a b rest)
  then obtain x y where "a = Some x" "b = Some y" "SnapshotInfo_Equal x s" "SnapshotInfo_Equal y s"
    by (cases a; cases b) auto
  then show ?case using 1 by (simp add: SnapshotInfo_Equal_def)
qed simp_all

text \<open>Destinations in step with each other at \<open>lastB\<close>, whose newest fulls are of \<open>lastFull\<close>.\<close>

definition inStep :: "JobInfo \<Rightarrow> SnapshotInfo \<Rightarrow> SnapshotInfo \<Rightarrow> Manifest list \<Rightarrow> bool" where
  "inStep j lastB lastFull d \<longleftrightarrow> d \<noteq> [] \<and> SnapshotInfo_Equal (BaseSnapshot (hd d)) lastB \<and>
     brokenLink d = None \<and> Raw (hd d) = Raw j \<and>
     SnapshotPtr_Equal (map_option BaseSnapshot (List.find isFull d)) (Some lastFull)"

lemma inStep_last: "inStep j lastB lastFull d \<Longrightarrow> SnapshotPtr_Equal (lastBackupAt d) (Some lastB)"
  by (auto simp: inStep_def lastBackupAt_def split: list.split)

lemma inStep_agree:
  assumes "\<forall>d\<in>set ds. inStep j lastB lastFull d"
  shows "\<not> Incremental j \<Longrightarrow> FullIfOlderThan j \<noteq> - minute \<Longrightarrow> firstDiffering 1 (map (lastComparableAt j) ds) = None"
    and "firstDiffering 1 (map lastBackupAt ds) = None"
proof -
  show "firstDiffering 1 (map lastBackupAt ds) = None"
    by (rule firstDiffering_all_Equal [of _ lastB]) (use assms inStep_last in auto)
  assume "\<not> Incremental j" "FullIfOlderThan j \<noteq> - minute"
  then show "firstDiffering 1 (map (lastComparableAt j) ds) = None"
    using assms by (intro firstDiffering_all_Equal [of _ lastFull]) (auto simp: inStep_def lastComparableAt_full)
qed

lemma inStep_lastBackupsOK:
  assumes "\<forall>d\<in>set ds. inStep j lastB lastFull d" and "onPool lastB snaps"
    and "\<not> Incremental j" and "FullIfOlderThan j \<noteq> - minute"
  shows "lastBackupsOK j snaps ds"
proof -
  have "onPool x snaps" if x: "Some x \<in> set (map lastBackupAt ds)" for x
  proof -
    obtain d where d: "d \<in> set ds" "Some x = lastBackupAt d" using x by auto
    then have "SnapshotInfo_Equal x lastB" using inStep_last assms(1) by (metis SnapshotPtr_Equal.simps(1))
    then show ?thesis using assms(2) by (simp add: onPool_def SnapshotInfo_Equal_def)
  qed
  moreover have "snaps \<noteq> []" using assms(2) by (auto simp: onPool_def)
  ultimately have "checkLastBackupsOnPool (VolumeName j) snaps (map lastBackupAt ds) = None"
    by (cases snaps) (simp_all add: checkLastBackupsOnPool_def checkLastBackupsFrom_None)
  then show ?thesis using inStep_agree(1) [OF assms(1)] assms(3,4) by (simp add: lastBackupsOK_def)
qed

lemma inStep_heads:
  assumes "\<forall>d\<in>set ds. inStep j lastB lastFull d" and "ds \<noteq> []"
    and "\<not> Incremental j" and "FullIfOlderThan j \<noteq> - minute"
  obtains lf lb where "map (lastComparableAt j) ds = Some lf # map (lastComparableAt j) (tl ds)"
    "map lastBackupAt ds = Some lb # map lastBackupAt (tl ds)" "SnapshotInfo_Equal lb lastB"
proof -
  have head: "inStep j lastB lastFull (hd ds)" using assms(1,2) by simp
  obtain lf where "lastComparableAt j (hd ds) = Some lf"
    using head assms(3,4) by (cases "List.find isFull (hd ds)") (simp_all add: inStep_def lastComparableAt_full)
  moreover obtain lb where "lastBackupAt (hd ds) = Some lb" and "SnapshotInfo_Equal lb lastB"
    using inStep_last [OF head] by (cases "lastBackupAt (hd ds)") simp_all
  ultimately show thesis using that assms(2) by (cases ds) simp_all
qed

lemma planNextIncremental_progress:
  assumes "CreationTime b > CreationTime lastB" and "sameStreamKind j ds = None"
    and "if needsSnapshotSource j then snapshotOnPool lastB snaps else onPool lastB snaps"
  shows "\<exists>p. planNextIncremental j snaps fb (Some b) False due lastB ds = (p, None)
    \<and> Action p = PlanIncremental \<and> Base p = b"
  using assms
  by (auto simp: planNextIncremental_def Let_def validateSnapShotExistsFromSnaps_spec snapshotOnPool_onPool
      split: if_splits)

lemma planFullIfOlderThan_progress:
  assumes "CreationTime b > CreationTime lastB" and "sameStreamKind j ds = None" and "firstBrokenChain ds = None"
    and "if needsSnapshotSource j then snapshotOnPool lastB snaps else onPool lastB snaps"
    and "list_all (\<lambda>b. b \<noteq> None) lbs"
  shows "\<exists>p. planFullIfOlderThan j snaps (Some f) (Some b) False (Some lf # lcs) (Some lastB # lbs) ds = (p, None)
    \<and> Action p \<in> {PlanFull, PlanIncremental}"
proof -
  obtain behind where "furthestBehind lastB lbs = Some behind"
    using furthestBehind_Some [OF assms(5)] by blast
  moreover obtain p where "planNextIncremental j snaps (Some f) (Some b) False (windowElapsed j snaps lf) lastB ds = (p, None)"
      "Action p = PlanIncremental"
    using planNextIncremental_progress [OF assms(1,2,4)] by blast
  ultimately show ?thesis using assms(3) by (auto simp: planFullIfOlderThan_def Let_def)
qed


lemma planSmart_base_on_pool:
  assumes "ValidateSmartOptions j = None" and "planSmart j snaps ds c = (p, None)"
    and "Action p \<noteq> PlanNoop" and "Reason p \<noteq> reasonCompletePartial"
  shows "Base p \<in> set snaps"
  using assms(2)
proof (cases rule: planSmart_okE)
  case full
  then show ?thesis using planExplicitFull_ok [OF full(3)] assms(3) newestMatchingSnapshot_Some(1) by auto
next
  case (partial m)
  then show ?thesis using assms(4) by (simp add: planCompletePartial_def split: if_splits)
next
  case incremental
  then show ?thesis using assms(3)
    by (auto simp: planExplicitIncremental_def newestMatchingSnapshot_Some(1)
        split: option.splits list.splits if_splits)
next
  case older
  then show ?thesis using assms(3)
    by (auto simp: planFullIfOlderThan_def planNextIncremental_def Let_def newestMatchingSnapshot_Some(1)
        split: option.splits list.splits if_splits prod.splits)
qed

text \<open>
  Dates in the future. Unless it completes a partial set, a plan made at \<open>now\<close> sends a
  snapshot of the pool that is dated at most a day after \<open>now\<close>.
\<close>

theorem planSmartAt_not_future:
  assumes "ValidateSmartOptions j = None" and "planSmartAt now j snaps ds completable = (p, None)"
    and "Action p \<noteq> PlanNoop" and "Reason p \<noteq> reasonCompletePartial"
  shows "Base p \<in> set snaps \<and> CreationTime (Base p) \<le> now + 24 * hour"
proof -
  let ?kept = "filter (\<lambda>s. \<not> CreationTime s > now + futureSlack) snaps"
  obtain q kept where q: "planSmart j ?kept kept completable = (q, None)"
      and p: "Base p = Base q" "Action p = Action q" "Reason p = Reason q"
    using assms(2) by (auto simp: planSmartAt_def dropFutureDated_def Let_def split: prod.splits)
  have "Base q \<in> set ?kept"
    using planSmart_base_on_pool [OF assms(1) q] assms(3,4) p by simp
  then show ?thesis using p by (simp add: futureSlack_def not_less)
qed

section \<open>Sets that only some destinations have\<close>

lemma sameSet_refl [simp]: "sameSet m m" by (simp add: sameSet_def)
lemma sameSet_sym: "sameSet a b \<Longrightarrow> sameSet b a" by (simp add: sameSet_def SnapshotInfo_Equal_def)
lemma sameSet_trans: "sameSet a b \<Longrightarrow> sameSet b c \<Longrightarrow> sameSet a c"
  by (simp add: sameSet_def SnapshotInfo_Equal_def)

lemma sameSets_iff: "sameSets a b \<longleftrightarrow> list_all2 sameSet a b"
  by (auto simp: sameSets_def dest: list_all2_lengthD)

lemma sameSets_refl [simp]: "sameSets a a"
  by (simp add: sameSets_iff list_all2_same)

lemma sameSets_sym: "sameSets a b \<Longrightarrow> sameSets b a"
  unfolding sameSets_iff by (rule list_all2_all_nthI) (auto simp: list_all2_lengthD list_all2_nthD sameSet_sym)

lemma sameSets_trans: "sameSets a b \<Longrightarrow> sameSets b c \<Longrightarrow> sameSets a c"
  unfolding sameSets_iff by (rule list_all2_trans [OF sameSet_trans])

lemma sameSets_cong: "sameSets b c \<Longrightarrow> sameSets a b \<longleftrightarrow> sameSets a c"
  by (rule iffI, erule (1) sameSets_trans, erule sameSets_trans, erule sameSets_sym)

lemma sameSets_length: "sameSets a b \<Longrightarrow> length a = length b"
  by (simp add: sameSets_iff list_all2_lengthD)

lemma sameSets_tl: "sameSets a b \<Longrightarrow> sameSets (tl a) (tl b)"
  unfolding sameSets_iff by (cases a; cases b) auto

lemma partialSetLoop_Some_True:
  "partialSetLoop leader ds behind = Some True \<longleftrightarrow>
     (\<forall>d\<in>set ds. sameSets d leader \<or> sameSets d (tl leader)) \<and>
     (behind \<or> (\<exists>d\<in>set ds. \<not> sameSets d leader))"
  by (induction leader ds behind rule: partialSetLoop.induct) auto

lemma longest_foldl:
  "let l = foldl (\<lambda>l d. if length d > length l then d else l) l0 ds
   in (l = l0 \<or> l \<in> set ds) \<and> length l0 \<le> length l \<and> (\<forall>d\<in>set ds. length d \<le> length l)"
proof (induction ds arbitrary: l0)
  case (Cons d ds)
  show ?case using Cons [of "if length d > length l0 then d else l0"] by (auto simp: Let_def split: if_splits)
qed simp

text \<open>
  A partial set is found exactly when one destination's list of backups is, up to sameness of
  sets, what every other destination has or has but for its newest set, and some destination does
  lack that set; the set found is that newest one.
\<close>

theorem partialSet_correct:
  "(\<exists>m. partialSet ds = Some m \<and> sameSet m newest) \<longleftrightarrow>
     (\<exists>rest. (\<exists>leader\<in>set ds. sameSets leader (newest # rest)) \<and>
        (\<forall>d\<in>set ds. sameSets d (newest # rest) \<or> sameSets d rest) \<and> (\<exists>d\<in>set ds. sameSets d rest))"
proof
  define leader where "leader = foldl (\<lambda>l d. if length d > length l then d else l) ([] :: Manifest list) ds"
  have leader: "leader = [] \<or> leader \<in> set ds" "\<forall>d\<in>set ds. length d \<le> length leader"
    using longest_foldl [of "[]" ds] by (auto simp: leader_def Let_def)
  have partial: "partialSet ds = Some m \<longleftrightarrow> leader \<noteq> [] \<and> hd leader = m \<and> partialSetLoop leader ds False = Some True" for m
    by (auto simp: partialSet_def leader_def [symmetric] Let_def split: list.split option.splits bool.splits)
  { assume "\<exists>m. partialSet ds = Some m \<and> sameSet m newest"
    then have l: "leader \<noteq> []" "sameSet (hd leader) newest" "partialSetLoop leader ds False = Some True"
      using partial by auto
    have same: "sameSets leader (newest # tl leader)"
      using l(1,2) by (cases leader) (auto simp: sameSets_iff list_all2_same)
    have loop: "\<forall>d\<in>set ds. sameSets d leader \<or> sameSets d (tl leader)" "\<exists>d\<in>set ds. sameSets d (tl leader)"
      using l(3) by (auto simp: partialSetLoop_Some_True)
    show "\<exists>rest. (\<exists>leader\<in>set ds. sameSets leader (newest # rest)) \<and>
        (\<forall>d\<in>set ds. sameSets d (newest # rest) \<or> sameSets d rest) \<and> (\<exists>d\<in>set ds. sameSets d rest)"
      using leader(1) l(1) same loop sameSets_cong [OF same] by (intro exI [of _ "tl leader"]) auto }
  { assume "\<exists>rest. (\<exists>leader\<in>set ds. sameSets leader (newest # rest)) \<and>
        (\<forall>d\<in>set ds. sameSets d (newest # rest) \<or> sameSets d rest) \<and> (\<exists>d\<in>set ds. sameSets d rest)"
    then obtain rest l d0 where r: "l \<in> set ds" "sameSets l (newest # rest)" "d0 \<in> set ds" "sameSets d0 rest"
        "\<forall>d\<in>set ds. sameSets d (newest # rest) \<or> sameSets d rest" by blast
    have "length leader \<ge> Suc (length rest)"
      using sameSets_length [OF r(2)] leader(2) r(1) by fastforce
    then have ne: "leader \<noteq> []" and "\<not> sameSets leader rest" by (auto dest: sameSets_length)
    then have same: "sameSets leader (newest # rest)" using r(5) leader(1) by blast
    have to_leader: "sameSets d leader \<longleftrightarrow> sameSets d (newest # rest)" for d
      by (rule sameSets_cong [OF same])
    have to_tl: "sameSets d (tl leader) \<longleftrightarrow> sameSets d rest" for d
      using sameSets_cong [OF sameSets_tl [OF same]] by simp
    have "\<not> sameSets d0 leader" using r(4) to_leader by (auto dest!: sameSets_length)
    then have "partialSetLoop leader ds False = Some True"
      using r(3,5) to_leader to_tl by (auto simp: partialSetLoop_Some_True)
    moreover have "sameSet (hd leader) newest" using same ne by (cases leader) (auto simp: sameSets_iff)
    ultimately show "\<exists>m. partialSet ds = Some m \<and> sameSet m newest" using partial ne by blast }
qed


section \<open>The properties at concrete inputs\<close>


theorem planSmart_source_present_witness:
  "fst (validateSnapShotExistsFromSnaps (Source exPlan) exPool (\<not> needsSnapshotSource exJob))"
proof -
  have "Action exPlan = PlanIncremental" "Reason exPlan = reasonNewerCandidate" by code_simp+
  then show ?thesis by (rule planSmart_source_present [OF ex_options ex_plan])
qed


theorem planSmart_no_panic_witness: "snd (planSmart exJob [] [[]] False) \<noteq> Some Panic"
  by (rule planSmart_no_panic) simp

theorem planSmart_noop_complete_witness:
  "planSmart exJob [exS2, exS1] [exDest] False = (exNoop, None)
   \<and> CreationTime exS1 \<le> CreationTime (BaseSnapshot (hd exDest))"
proof -
  have "Reason exNoop = reasonNothingNewer" by code_simp
  moreover have "newestFirst [exS2, exS1]" using ex_newest by (simp add: exPool_def)
  moreover have "snapshotMatches exS1 (SnapshotPrefix exJob) (IncrementalSnapshotSuffix exJob)" by code_simp
  ultimately have "exDest \<noteq> [] \<and> CreationTime exS1 \<le> CreationTime (BaseSnapshot (hd exDest))"
    using planSmart_noop_complete [OF ex_options _ ex_noop, of exDest exS1] by simp
  then show ?thesis using ex_noop by blast
qed


theorem planSmartAt_not_future_witness:
  "planSmartAt (3 * day) exJob exPool [exDest] False = (exPlan, None)
   \<and> CreationTime (Base exPlan) \<le> 3 * day + 24 * hour"
proof -
  have "planSmartAt (3 * day) exJob exPool [exDest] False = (exPlan, None)"
    "Action exPlan \<noteq> PlanNoop" "Reason exPlan \<noteq> reasonCompletePartial" by code_simp+
  with planSmartAt_not_future [OF ex_options] show ?thesis by blast
qed

theorem partialSet_correct_witness:
  "\<exists>m. partialSet [exDest, tl exDest] = Some m \<and> sameSet m (exIncr exS2 exS1)"
proof -
  have "sameSets exDest (exIncr exS2 exS1 # tl exDest)" by (simp add: exDest_def)
  then show ?thesis
    using partialSet_correct [of "[exDest, tl exDest]" "exIncr exS2 exS1"]
    by (auto intro!: exI [of _ "tl exDest"])
qed

end
