(* ===== verification/Calendar.thy ===== *)
theory Calendar
  imports Prelude
begin

text \<open>
  What the program uses of Go's \<^verbatim>\<open>time\<close> package beyond instants: wall-clock fields in a location,
  \<^verbatim>\<open>time.Date\<close>, \<^verbatim>\<open>AddDate\<close>, the weekday and the layout of sanoid's timestamps. A location is the
  function that Go's zone lookup is: for an instant in Unix seconds it gives the offset east of UTC
  and the first second and the end of the period in which that offset holds. Its data comes from
  the zone database of the host, so it is a parameter of everything that uses it.
\<close>

section \<open>Days\<close>

type_synonym location = "int \<Rightarrow> int \<times> int \<times> int"

definition utcLoc :: location where
  "utcLoc = (\<lambda>_. (0, minInt64, maxInt64))"

record civil =
  Year :: int
  Month :: int
  Day :: int
  Hour :: int
  Minute :: int
  Second :: int
  Nanosecond :: int

text \<open>Days since 1970-01-01 of a date of the Gregorian calendar (month 1 to 12), and back.\<close>

definition daysOfDate :: "int \<Rightarrow> int \<Rightarrow> int \<Rightarrow> int" where
  "daysOfDate y m d =
     (let y' = (if m \<le> 2 then y - 1 else y);
          era = y' div 400;
          yoe = y' mod 400;
          doy = (153 * (if m > 2 then m - 3 else m + 9) + 2) div 5 + d - 1;
          doe = yoe * 365 + yoe div 4 - yoe div 100 + doy
      in era * 146097 + doe - 719468)"

definition dateOfDays :: "int \<Rightarrow> int \<times> int \<times> int" where
  "dateOfDays days =
     (let z = days + 719468;
          era = z div 146097;
          doe = z mod 146097;
          yoe = (doe - doe div 1460 + doe div 36524 - doe div 146096) div 365;
          doy = doe - (365 * yoe + yoe div 4 - yoe div 100);
          mp = (5 * doy + 2) div 153;
          d = doy - (153 * mp + 2) div 5 + 1;
          m = (if mp < 10 then mp + 3 else mp - 9)
      in (if m \<le> 2 then yoe + era * 400 + 1 else yoe + era * 400, m, d))"

section \<open>Instants and wall clocks\<close>

definition zoneOffset :: "location \<Rightarrow> time \<Rightarrow> int" where
  "zoneOffset loc t = fst (loc (unix t))"

definition inLocation :: "location \<Rightarrow> time \<Rightarrow> civil" where
  "inLocation loc t =
     (let wall = unix t + zoneOffset loc t;
          (y, m, d) = dateOfDays (wall div 86400);
          s = wall mod 86400
      in \<lparr>Year = y, Month = m, Day = d, Hour = s div 3600, Minute = s div 60 mod 60, Second = s mod 60,
          Nanosecond = t mod second\<rparr>)"

text \<open>\<^verbatim>\<open>time.Date\<close>: fields out of range are carried over, and the offset is looked up as Go does.\<close>

definition goDate :: "location \<Rightarrow> int \<Rightarrow> int \<Rightarrow> int \<Rightarrow> int \<Rightarrow> int \<Rightarrow> int \<Rightarrow> int \<Rightarrow> time" where
  "goDate loc y mo d h mi s ns =
     (let y' = y + (mo - 1) div 12;
          m' = (mo - 1) mod 12 + 1;
          unixSec = (daysOfDate y' m' 1 + d - 1) * 86400 + h * 3600 + mi * 60 + s + ns div second;
          (offset, start, stop) = loc unixSec;
          utc = unixSec - offset;
          offset' = (if offset = 0 then 0
                     else if utc < start \<or> utc \<ge> stop then fst (loc utc)
                     else offset)
      in (unixSec - offset') * second + ns mod second)"

definition addDate :: "location \<Rightarrow> time \<Rightarrow> int \<Rightarrow> int \<Rightarrow> int \<Rightarrow> time" where
  "addDate loc t years months days =
     (let c = inLocation loc t
      in goDate loc (Year c + years) (Month c + months) (Day c + days)
           (Hour c) (Minute c) (Second c) (Nanosecond c))"

text \<open>Sunday is 0, as in Go; 1970-01-01 was a Thursday.\<close>

definition weekday :: "location \<Rightarrow> time \<Rightarrow> int" where
  "weekday loc t = ((unix t + zoneOffset loc t) div 86400 + 4) mod 7"

section \<open>Sanoid's layout\<close>

definition pad :: "nat \<Rightarrow> nat \<Rightarrow> string" where
  "pad width n = replicate (width - length (formatNat n)) CHR ''0'' @ formatNat n"

definition padInt :: "nat \<Rightarrow> int \<Rightarrow> string" where
  "padInt width i = (if i < 0 then CHR ''-'' # pad width (nat (- i)) else pad width (nat i))"

text \<open>\<^verbatim>\<open>t.In(loc).Format("2006-01-02_15:04:05")\<close>\<close>

definition formatSanoid :: "location \<Rightarrow> time \<Rightarrow> string" where
  "formatSanoid loc t =
     (let c = inLocation loc t
      in padInt 4 (Year c) @ ''-'' @ padInt 2 (Month c) @ ''-'' @ padInt 2 (Day c) @ ''_'' @
         padInt 2 (Hour c) @ '':'' @ padInt 2 (Minute c) @ '':'' @ padInt 2 (Second c))"

section \<open>The calendar in UTC\<close>

lemma div_bounds: "(0::int) < k \<Longrightarrow> k * (x div k) \<le> x \<and> x < k * (x div k) + k"
  using mult_div_mod_eq [of k x] pos_mod_bound [of k x] pos_mod_sign [of k x] by linarith

lemma doy_linear:
  fixes doe a b c y q r :: int
  assumes "0 \<le> doe" "doe < 146097"
    and a: "1460 * a \<le> doe" "doe < 1460 * a + 1460" 
    and b: "36524 * b \<le> doe" "doe < 36524 * b + 36524"
    and c: "146096 * c \<le> doe" "doe < 146096 * c + 146096"
    and y: "365 * y \<le> doe - a + b - c" "doe - a + b - c < 365 * y + 365"
    and q: "100 * q \<le> y" "y < 100 * q + 100"
    and r4: "4 * r \<le> y" "y < 4 * r + 4"
  shows "0 \<le> y" "y < 400" "0 \<le> doe - (365 * y + r - q)" "doe - (365 * y + r - q) \<le> 366"
proof -
  have cc: "c = 0 \<or> c = 1" using c assms(1,2) by linarith
  have bb: "b = 0 \<or> b = 1 \<or> b = 2 \<or> b = 3 \<or> b = 4" using b assms(1,2) by linarith
  show y0: "0 \<le> y" and y4: "y < 400" using cc bb a b c y assms(1,2) by (elim disjE; linarith)+
  have qq: "q = 0 \<or> q = 1 \<or> q = 2 \<or> q = 3" using q y0 y4 by linarith
  have qb: "b - c \<le> q" "q \<le> b" using cc bb qq a b c y q by (elim disjE; linarith)+
  show "0 \<le> doe - (365 * y + r - q)" using cc bb qq a b c y q r4 by (elim disjE; linarith)
  show "doe - (365 * y + r - q) \<le> 366" using cc bb qq a b c y q r4 by (elim disjE; linarith)
qed


lemma daysOfDate_dateOfDays:
  assumes "dateOfDays z = (y, m, d)"
  shows "daysOfDate y m d = z" and "1 \<le> m" and "m \<le> 12"
proof -
  define era doe where "era = (z + 719468) div 146097" and "doe = (z + 719468) mod 146097"
  define yoe where "yoe = (doe - doe div 1460 + doe div 36524 - doe div 146096) div 365"
  define doy where "doy = doe - (365 * yoe + yoe div 4 - yoe div 100)"
  define mp where "mp = (5 * doy + 2) div 153"
  have doe: "0 \<le> doe" "doe < 146097" by (simp_all add: doe_def)
  have y: "365 * yoe \<le> doe - doe div 1460 + doe div 36524 - doe div 146096"
      "doe - doe div 1460 + doe div 36524 - doe div 146096 < 365 * yoe + 365"
    using div_bounds [of 365 "doe - doe div 1460 + doe div 36524 - doe div 146096"] unfolding yoe_def by linarith+
  have bounds: "k * (x div k) \<le> x" "x < k * (x div k) + k" if "0 < k" for x k :: int
    using div_bounds [OF that] by blast+
  have pos: "(0::int) < 1460" "(0::int) < 36524" "(0::int) < 146096" "(0::int) < 100" "(0::int) < 4" "(0::int) < 153" by simp_all
  note range = doy_linear [OF doe bounds [OF pos(1)] bounds [OF pos(2)] bounds [OF pos(3)] y
      bounds [OF pos(4)] bounds [OF pos(5)], folded doy_def]
  have mp: "0 \<le> mp" "mp \<le> 11" using range(3,4) bounds [OF pos(6), of "5 * doy + 2", folded mp_def] by linarith+
  have ymd: "m = (if mp < 10 then mp + 3 else mp - 9)" "y = (if m \<le> 2 then yoe + era * 400 + 1 else yoe + era * 400)"
      "d = doy - (153 * mp + 2) div 5 + 1"
    using assms
    unfolding dateOfDays_def Let_def era_def [symmetric] doe_def [symmetric] yoe_def [symmetric]
      doy_def [symmetric] mp_def [symmetric]
    by (auto simp only: prod.inject)
  show "1 \<le> m" "m \<le> 12" using ymd(1) mp by auto
  have y': "(if m \<le> 2 then y - 1 else y) = yoe + era * 400" using ymd(2) by auto
  have m': "(if m > 2 then m - 3 else m + 9) = mp" using ymd(1) mp by auto
  have "(yoe + era * 400) div 400 = era" "(yoe + era * 400) mod 400 = yoe" using range(1,2) by auto
  then have "daysOfDate y m d = era * 146097 + (yoe * 365 + yoe div 4 - yoe div 100 + ((153 * mp + 2) div 5 + d - 1)) - 719468"
    unfolding daysOfDate_def Let_def y' m' by (simp only:)
  also have "\<dots> = era * 146097 + doe - 719468" using ymd(3) doy_def by linarith
  also have "\<dots> = z" using mult_div_mod_eq [of 146097 "z + 719468"] unfolding era_def doe_def by linarith
  finally show "daysOfDate y m d = z" .
qed

lemma daysOfDate_day: "daysOfDate y m d = daysOfDate y m 1 + d - 1"
  by (simp add: daysOfDate_def Let_def)

text \<open>In UTC a whole number of calendar days is that many times 24 hours.\<close>

lemma clock_split: "(s :: int) div 3600 * 3600 + s div 60 mod 60 * 60 + s mod 60 = s"
proof -
  have "s div 3600 = s div 60 div 60" using zdiv_zmult2_eq [of 60 s 60] by simp
  then show ?thesis using mult_div_mod_eq [of 60 "s div 60"] mult_div_mod_eq [of 60 s] by linarith
qed

lemma goDate_utc:
  "goDate utcLoc y mo d h mi s ns =
     ((daysOfDate (y + (mo - 1) div 12) ((mo - 1) mod 12 + 1) 1 + d - 1) * 86400 + h * 3600 + mi * 60 + s
       + ns div second) * second + ns mod second"
  by (simp add: goDate_def utcLoc_def Let_def)

lemma clock_sum:
  "H * 3600 + M * 60 + S = s \<Longrightarrow> 86400 * u + s = U \<Longrightarrow> (u + k) * 86400 + H * 3600 + M * 60 + S + 0 = U + k * (86400 :: int)"
  by simp

lemma unix_split: "unix t * second + t mod second = t"
  using div_mult_mod_eq [of t second] by (simp only: unix_def second_def)

text \<open>The first of a month, months out of range carried over.\<close>

definition monthFirst :: "int \<Rightarrow> int \<Rightarrow> int" where
  "monthFirst y mo = daysOfDate (y + (mo - 1) div 12) ((mo - 1) mod 12 + 1) 1"

lemma inLocation_utc:
  assumes "c = inLocation utcLoc t"
  shows "monthFirst (Year c) (Month c) + Day c - 1 = unix t div 86400" and "1 \<le> Month c" and "Month c \<le> 12"
    and "Hour c * 3600 + Minute c * 60 + Second c = unix t mod 86400" and "Nanosecond c = t mod second"
proof -
  obtain y m d where ymd: "dateOfDays (unix t div 86400) = (y, m, d)" by (cases "dateOfDays (unix t div 86400)")
  let ?s = "unix t mod 86400"
  have c: "c = \<lparr>Year = y, Month = m, Day = d, Hour = ?s div 3600, Minute = ?s div 60 mod 60, Second = ?s mod 60,
      Nanosecond = t mod second\<rparr>"
    unfolding assms inLocation_def zoneOffset_def utcLoc_def Let_def
    by (simp only: fst_conv ymd prod.case add_0_right)
  have m: "(m - 1) div 12 = 0" "(m - 1) mod 12 + 1 = m"
    using daysOfDate_dateOfDays(2,3) [OF ymd] by (simp_all add: div_pos_pos_trivial mod_pos_pos_trivial)
  then have "monthFirst y m = daysOfDate y m 1" by (simp only: monthFirst_def add_0_right)
  then have "monthFirst y m + d - 1 = unix t div 86400"
    using daysOfDate_dateOfDays(1) [OF ymd] daysOfDate_day [of y m d] by linarith
  then show "monthFirst (Year c) (Month c) + Day c - 1 = unix t div 86400" by (simp only: c civil.select_convs)
  show "1 \<le> Month c" "Month c \<le> 12" using daysOfDate_dateOfDays(2,3) [OF ymd] by (simp_all only: c civil.select_convs)
  show "Hour c * 3600 + Minute c * 60 + Second c = ?s"
    by (simp only: c civil.select_convs clock_split)
  show "Nanosecond c = t mod second" by (simp only: c civil.select_convs)
qed

text \<open>In UTC, adding to the calendar fields moves an instant by whole days.\<close>

lemma goDate_utc_shift:
  assumes "c = inLocation utcLoc t"
  shows "goDate utcLoc (Year c + a) (Month c + b) (Day c + k) (Hour c) (Minute c) (Second c) (Nanosecond c)
    = t + (monthFirst (Year c + a) (Month c + b) - monthFirst (Year c) (Month c) + k) * day"
proof -
  let ?s = "unix t mod 86400" and ?D = "monthFirst (Year c + a) (Month c + b) - monthFirst (Year c) (Month c) + k"
  have "0 < second" by (simp add: second_def)
  then have ns: "t mod second div second = 0" "t mod second mod second = t mod second" by simp_all
  have sec: "day = 86400 * second" by (simp add: day_def hour_def minute_def)
  have days: "monthFirst (Year c + a) (Month c + b) + (Day c + k) - 1 = unix t div 86400 + ?D"
    using inLocation_utc(1) [OF assms] by linarith
  have "goDate utcLoc (Year c + a) (Month c + b) (Day c + k) (Hour c) (Minute c) (Second c) (Nanosecond c)
      = ((unix t div 86400 + ?D) * 86400 + Hour c * 3600 + Minute c * 60 + Second c + 0) * second + t mod second"
    unfolding goDate_utc monthFirst_def [symmetric] inLocation_utc(5) [OF assms] using days ns by (simp only:)
  also have "\<dots> = (unix t + ?D * 86400) * second + t mod second"
    by (simp only: clock_sum [OF inLocation_utc(4) [OF assms] mult_div_mod_eq])
  also have "\<dots> = t + ?D * day"
  proof -
    have "(unix t + ?D * 86400) * second = unix t * second + ?D * (86400 * second)"
      by (simp only: distrib_right mult.assoc)
    then have "(unix t + ?D * 86400) * second + t mod second = unix t * second + t mod second + ?D * (86400 * second)"
      by (simp only: ac_simps)
    then show ?thesis by (simp only: sec unix_split)
  qed
  finally show ?thesis .
qed

lemma addDate_utc:
  "addDate utcLoc t a b k =
     t + (monthFirst (Year (inLocation utcLoc t) + a) (Month (inLocation utcLoc t) + b)
          - monthFirst (Year (inLocation utcLoc t)) (Month (inLocation utcLoc t)) + k) * day"
  unfolding addDate_def Let_def by (rule goDate_utc_shift [OF refl])

lemma addDate_utc_days: "addDate utcLoc t 0 0 k = t + k * day"
  by (simp add: addDate_utc)

definition yearDays :: "int \<Rightarrow> int" where
  "yearDays y = y div 400 * 146097 + (y mod 400 * 365 + y mod 400 div 4 - y mod 400 div 100)"

lemma div_succ:
  fixes r k :: int
  assumes "0 < k"
  shows "(r + 1) div k = r div k + (if r mod k = k - 1 then 1 else 0)"
    and "(r + 1) mod k = (if r mod k = k - 1 then 0 else r mod k + 1)"
proof -
  have r: "r = k * (r div k) + r mod k" by simp
  have b: "0 \<le> r mod k" "r mod k < k" using assms by simp_all
  show "(r + 1) div k = r div k + (if r mod k = k - 1 then 1 else 0)"
  proof (cases "r mod k = k - 1")
    case True
    then have "r + 1 = k * (r div k + 1) + 0" using r by (simp only: distrib_left)
    then show ?thesis using True assms int_div_pos_eq [of "r + 1" k "r div k + 1" 0] by simp
  next
    case False
    then have "r + 1 = k * (r div k) + (r mod k + 1)" using r by linarith
    then show ?thesis using False assms b int_div_pos_eq [of "r + 1" k "r div k" "r mod k + 1"] by simp
  qed
  then show "(r + 1) mod k = (if r mod k = k - 1 then 0 else r mod k + 1)"
  proof -
    assume div: "(r + 1) div k = r div k + (if r mod k = k - 1 then 1 else 0)"
    have "(r + 1) mod k = r + 1 - k * ((r + 1) div k)" by (simp only: minus_mult_div_eq_mod)
    also have "\<dots> = r + 1 - k * (r div k) - (if r mod k = k - 1 then k else 0)"
      unfolding div by (simp only: distrib_left) simp
    finally show ?thesis using minus_mult_div_eq_mod [of r k] by (cases "r mod k = k - 1") simp_all
  qed
qed

lemma century_leap: "(r + 1) div 100 - r div 100 \<le> (r + 1) div 4 - r div (4 :: int)"
proof -
  have "r mod 4 = 3" if "r mod 100 = 99"
  proof -
    have "r mod 100 mod 4 = r mod 4" by (rule mod_mod_cancel) simp
    then show ?thesis using that by simp
  qed
  then show ?thesis using div_succ(1) [of 100 r] div_succ(1) [of 4 r] by simp
qed

lemma yearDays_Suc: "yearDays y + 365 \<le> yearDays (y + 1)"
proof (cases "y mod 400 = 399")
  case True
  then have "(y + 1) mod 400 = 0" "(y + 1) div 400 = y div 400 + 1"
    using div_succ [of 400 y] by simp_all
  then show ?thesis using True by (simp only: yearDays_def) simp
next
  case False
  define r q where "r = y mod 400" and "q = y div 400"
  have "(y + 1) mod 400 = r + 1" "(y + 1) div 400 = q"
    using False div_succ [of 400 y] by (simp_all add: r_def q_def)
  then have "yearDays (y + 1) = q * 146097 + ((r + 1) * 365 + (r + 1) div 4 - (r + 1) div 100)"
    by (simp only: yearDays_def)
  moreover have "yearDays y = q * 146097 + (r * 365 + r div 4 - r div 100)"
    by (simp only: yearDays_def r_def q_def)
  ultimately show ?thesis using century_leap [of r] by (simp only: distrib_right)
qed

lemma monthFirst_eq:
  assumes "1 \<le> m" "m \<le> 12"
  shows "monthFirst y m = yearDays (if m \<le> 2 then y - 1 else y) + (153 * (if m > 2 then m - 3 else m + 9) + 2) div 5 - 719468"
proof -
  have "(m - 1) div 12 = 0" "(m - 1) mod 12 + 1 = m"
    using assms by (simp_all add: div_pos_pos_trivial mod_pos_pos_trivial)
  then show ?thesis by (simp only: monthFirst_def daysOfDate_def yearDays_def Let_def add_0_right)
qed

lemma monthFirst_carry: "monthFirst y 13 = monthFirst (y + 1) 1"
  by (simp add: monthFirst_def)

lemma monthFirst_next:
  assumes "1 \<le> m" "m \<le> 12"
  shows "monthFirst y m + 28 \<le> monthFirst y (m + 1)"
proof -
  have "m = 1 \<or> m = 2 \<or> m = 3 \<or> m = 4 \<or> m = 5 \<or> m = 6 \<or> m = 7 \<or> m = 8 \<or> m = 9 \<or> m = 10 \<or> m = 11 \<or> m = 12"
    using assms by presburger
  then show ?thesis using yearDays_Suc [of "y - 1"]
    by (auto simp: monthFirst_eq monthFirst_carry)
qed

lemma monthFirst_next_year:
  assumes "1 \<le> m" "m \<le> 12"
  shows "monthFirst y m + 365 \<le> monthFirst (y + 1) m"
  using assms yearDays_Suc [of "y - 1"] yearDays_Suc [of y] by (auto simp: monthFirst_eq add_ac)

text \<open>Calendar steps in UTC move forward by at least so much.\<close>

lemma addDate_utc_steps:
  "t + 28 * day \<le> addDate utcLoc t 0 1 0" "t + 365 * day \<le> addDate utcLoc t 1 0 0"
proof -
  let ?c = "inLocation utcLoc t"
  have pos: "0 \<le> day" by (simp add: day_def hour_def minute_def second_def)
  note m = inLocation_utc(2,3) [OF refl, of t]
  have "28 * day \<le> (monthFirst (Year ?c) (Month ?c + 1) - monthFirst (Year ?c) (Month ?c)) * day"
    using monthFirst_next [OF m, of "Year ?c"] by (intro mult_right_mono [OF _ pos]) simp
  then show "t + 28 * day \<le> addDate utcLoc t 0 1 0" by (simp add: addDate_utc)
  have "365 * day \<le> (monthFirst (Year ?c + 1) (Month ?c) - monthFirst (Year ?c) (Month ?c)) * day"
    using monthFirst_next_year [OF m, of "Year ?c"] by (intro mult_right_mono [OF _ pos]) simp
  then show "t + 365 * day \<le> addDate utcLoc t 1 0 0" by (simp add: addDate_utc)
qed

end
