(* ===== verification/ObjectNames.thy ===== *)
theory ObjectNames
  imports JobInfo
begin

text \<open>
  The names of the objects of a backup set (\<^verbatim>\<open>files/jobinfo.go\<close>): how manifests and volumes are
  named, and \<open>ParseBackupVolumeObjectName\<close>, the inverse that \<^verbatim>\<open>clean\<close> judges objects by. The
  main results are the round trip (\<open>parse_BackupVolumeObjectName\<close>), that the parser accepts nothing
  else (\<open>ParseBackupVolumeObjectName_sound\<close>), and what follows for the names of different sets.
\<close>

section \<open>Splitting and joining\<close>

lemma splitOn_Nil_sep: "splitOn s [] = map (\<lambda>c. [c]) s"
  by (subst splitOn.simps) simp

lemma splitOn_unfold:
  "sep \<noteq> [] \<Longrightarrow> splitOn s sep =
     (case indexOf s sep of None \<Rightarrow> [s] | Some i \<Rightarrow> take i s # splitOn (drop (i + length sep) s) sep)"
  by (subst splitOn.simps) simp

lemma splitOn_nonempty: "sep \<noteq> [] \<Longrightarrow> splitOn s sep \<noteq> []"
  by (subst splitOn.simps) (simp split: option.split)

lemma joinWith_Cons: "ps \<noteq> [] \<Longrightarrow> joinWith (p # ps) sep = p @ sep @ joinWith ps sep"
  by (cases ps) simp_all

lemma joinWith_splitOn:
  assumes "sep \<noteq> []" shows "joinWith (splitOn s sep) sep = s"
  using assms
proof (induction s sep rule: splitOn.induct)
  case (1 s sep)
  show ?case
  proof (cases "indexOf s sep")
    case None
    then show ?thesis using "1.prems" by (simp add: splitOn_unfold)
  next
    case (Some i)
    let ?rest = "drop (i + length sep) s"
    have "joinWith (splitOn ?rest sep) sep = ?rest"
      using "1.IH" "1.prems" Some by blast
    then have "joinWith (splitOn s sep) sep = take i s @ sep @ ?rest"
      using Some "1.prems" by (simp add: splitOn_unfold [of sep s] joinWith_Cons splitOn_nonempty)
    then show ?thesis using indexOf_Some [OF Some] by simp
  qed
qed

text \<open>
  A separator that holds a character no part can hold: the parts cannot absorb it, so the first
  occurrence of the separator in a joined string is the one that was put there.
\<close>

lemma indexOf_first_sep:
  assumes p: "list_all G p" and sep: "\<not> list_all G sep"
  shows "indexOf (p @ sep @ r) sep = Some (length p)"
proof -
  obtain u b v where ubv: "sep = u @ b # v" "\<not> G b" "\<forall>c\<in>set u. G c"
    using split_list_first_prop [of sep "\<lambda>c. \<not> G c"] sep by (auto simp: list_all_iff)
  show ?thesis using p
  proof (induction p)
    case Nil
    obtain c s where cs: "sep = c # s" using ubv(1) by (metis append_is_Nil_conv list.exhaust list.discI)
    then have "prefix (c # s) (c # s @ r)" by simp
    with cs show ?case by simp
  next
    case (Cons c p)
    have "\<not> prefix sep (c # p @ sep @ r)"
    proof
      assume "prefix sep (c # p @ sep @ r)"
      then obtain z where "u @ b # (v @ z) = (c # p @ u) @ b # (v @ r)"
        by (auto simp: prefix_def ubv)
      moreover have "b \<notin> set u" "b \<notin> set (c # p @ u)"
        using ubv Cons.prems by (auto simp: list_all_iff)
      ultimately have "u = c # p @ u"
        using append_first_occ_eq [of b u "c # p @ u" "v @ z" "v @ r"] by simp
      then have "length u = Suc (length p + length u)" by (metis length_Cons length_append)
      then show False by simp
    qed
    then show ?case using Cons by simp
  qed
qed

lemma indexOf_no_sep: "list_all G p \<Longrightarrow> \<not> list_all G sep \<Longrightarrow> indexOf p sep = None"
  by (auto simp: indexOf_None)

lemma splitOn_joinWith:
  assumes "\<not> list_all G sep" and "ps \<noteq> []" and "list_all (list_all G) ps"
  shows "splitOn (joinWith ps sep) sep = ps"
  using assms(2,3)
proof (induction ps)
  case Nil
  then show ?case by simp
next
  case (Cons p ps)
  have sep: "sep \<noteq> []" using assms(1) by auto
  show ?case
  proof (cases "ps = []")
    case True
    then show ?thesis using Cons.prems assms(1) sep by (simp add: splitOn_unfold indexOf_no_sep [of G])
  next
    case False
    then have "indexOf (joinWith (p # ps) sep) sep = Some (length p)"
      using Cons.prems assms(1) by (simp add: joinWith_Cons indexOf_first_sep [of G])
    then have "splitOn (joinWith (p # ps) sep) sep = p # splitOn (joinWith ps sep) sep"
      using sep False by (subst splitOn_unfold) (simp_all add: joinWith_Cons)
    with False Cons show ?thesis by simp
  qed
qed

lemma splitOn_char_append: "splitOn (x @ c # y) [c] = splitOn x [c] @ splitOn y [c]"
proof (induction "length x" arbitrary: x rule: less_induct)
  case less
  have first: "splitOn (a @ c # z) [c] = a # splitOn z [c]" if "c \<notin> set a" for a z
  proof -
    have "indexOf (a @ c # z) [c] = Some (length a)"
      using that indexOf_first_sep [of "\<lambda>d. d \<noteq> c" a "[c]" z] by (auto simp: list_all_iff)
    then show ?thesis by (subst splitOn_unfold) simp_all
  qed
  show ?case
  proof (cases "c \<in> set x")
    case True
    then obtain a z where x: "x = a @ c # z" "c \<notin> set a" by (metis split_list_first)
    then show ?thesis using first [of a] less.hyps [of z] by simp
  next
    case False
    then have "indexOf x [c] = None" by (auto simp: indexOf_None)
    then show ?thesis using first [OF False] by (simp add: splitOn_unfold [of "[c]" x])
  qed
qed

lemma joinWith_mid_part:
  assumes "joinWith ps ''.'' = x @ ''.'' @ z @ ''.'' @ y" and "CHR ''.'' \<notin> set z"
    and "list_all (\<lambda>p. CHR ''.'' \<notin> set p) ps"
  shows "z \<in> set (tl ps)"
  using assms(1,3)
proof (induction ps "''.''" arbitrary: x rule: joinWith.induct)
  case 1
  then show ?case by simp
next
  case (2 p)
  then show ?case by auto
next
  case (3 p q ps)
  have dot: "CHR ''.'' \<notin> set p" using "3.prems" by simp
  have eq: "p @ CHR ''.'' # joinWith (q # ps) ''.'' = x @ CHR ''.'' # z @ CHR ''.'' # y"
    using "3.prems" by simp
  show ?case
  proof (cases "CHR ''.'' \<in> set x")
    case False
    with dot eq have "joinWith (q # ps) ''.'' = z @ CHR ''.'' # y"
      by (simp add: append_first_occ_eq)
    moreover have "CHR ''.'' \<notin> set q" using "3.prems" by simp
    ultimately have "q = z"
      using assms(2) by (cases ps) (auto simp: append_first_occ_eq)
    then show ?thesis by simp
  next
    case True
    then obtain x1 x2 where x: "x = x1 @ CHR ''.'' # x2" "CHR ''.'' \<notin> set x1"
      by (metis split_list_first)
    with dot eq have "joinWith (q # ps) ''.'' = x2 @ ''.'' @ z @ ''.'' @ y"
      by (simp add: append_first_occ_eq)
    then have "z \<in> set (tl (q # ps))" using "3.hyps" "3.prems" by simp
    then show ?thesis by simp
  qed
qed

section \<open>Object names\<close>

definition InternalCompressor :: string where "InternalCompressor = ''internal''"
definition ZfsCompressor :: string where "ZfsCompressor = ''zfs''"
definition DefaultSeparator :: string where "DefaultSeparator = ''|''"

text \<open>The parts of a set's name, and the extensions that say how its objects are encoded.\<close>

definition volumeNameParts :: "'a Manifest_scheme \<Rightarrow> bool \<Rightarrow> bool \<Rightarrow> string list \<times> string list" where
  "volumeNameParts j isManifest pgp =
     (let compressorName = (if isManifest then InternalCompressor else Compressor j);
          compressorExt =
            (if compressorName = InternalCompressor then [''gz'']
             else if compressorName = [] \<or> compressorName = ZfsCompressor then []
             else [compressorName]);
          extensions = compressorExt @ (if pgp then [''pgp''] else []);
          nameParts =
            VolumeName j #
            (if Name (IncrementalSnapshot j) \<noteq> []
             then [Name (IncrementalSnapshot j), ''to'', Name (BaseSnapshot j)]
             else [Name (BaseSnapshot j)])
      in (nameParts, extensions))"

definition manifestObjectName :: "'a Manifest_scheme \<Rightarrow> string \<Rightarrow> bool \<Rightarrow> string" where
  "manifestObjectName j manifestPrefix pgp =
     (let (baseParts, ext) = volumeNameParts j True pgp
      in joinWith (manifestPrefix # baseParts) (Separator j) @ ''.'' @ joinWith (''manifest'' # ext) ''.'')"

definition ManifestObjectName :: "JobInfo \<Rightarrow> string" where
  "ManifestObjectName j =
     manifestObjectName j (ManifestPrefix j) (EncryptKey j \<noteq> None \<or> SignKey j \<noteq> None)"

definition StoredManifestObjectName :: "'a Manifest_scheme \<Rightarrow> string \<Rightarrow> string" where
  "StoredManifestObjectName j manifestPrefix =
     manifestObjectName j manifestPrefix (EncryptTo j \<noteq> [] \<or> SignFrom j \<noteq> [])"

definition BackupVolumeObjectPrefix :: "JobInfo \<Rightarrow> string" where
  "BackupVolumeObjectPrefix j =
     (let (nameParts, ext) = volumeNameParts j False (EncryptKey j \<noteq> None \<or> SignKey j \<noteq> None)
      in joinWith nameParts (Separator j) @ ''.'' @ joinWith (''zstream'' # ext @ [''vol'']) ''.'')"

definition BackupVolumeObjectName :: "JobInfo \<Rightarrow> int \<Rightarrow> string" where
  "BackupVolumeObjectName j volumeNumber = BackupVolumeObjectPrefix j @ formatInt volumeNumber"

text \<open>The parser: \<open>Some (volume, base, incr, volNum)\<close>, or \<open>None\<close> where the source returns not ok.\<close>

definition parseVolumeNumber :: "string \<Rightarrow> int option" where
  "parseVolumeNumber ext =
     (if \<not> hasPrefix ext ''vol'' then None
      else let digits = trimPrefix ext ''vol''
           in case parseInt64 digits of
                None \<Rightarrow> None
              | Some n \<Rightarrow> if n < 1 \<or> digits \<noteq> formatInt n then None else Some n)"

definition volumeExtensionsOK :: "string list \<Rightarrow> bool" where
  "volumeExtensionsOK exts =
     (case exts of
        [] \<Rightarrow> True
      | [e] \<Rightarrow> e \<noteq> []
      | [e, f] \<Rightarrow> \<not> (e = [] \<or> e = ''pgp'' \<or> f \<noteq> ''pgp'')
      | _ \<Rightarrow> False)"

definition parseSetName :: "string \<Rightarrow> string \<Rightarrow> (string \<times> string \<times> string) option" where
  "parseSetName set_name separator =
     (let parts = splitOn set_name separator
      in if length parts = 2 then
           (if parts ! 0 = [] \<or> parts ! 1 = [] \<or> hasPrefix (parts ! 0) ''/'' then None
            else Some (parts ! 0, parts ! 1, []))
         else if length parts = 4 \<and> parts ! 2 = ''to'' then
           (if parts ! 0 = [] \<or> parts ! 3 = [] \<or> hasPrefix (parts ! 0) ''/'' \<or> parts ! 1 = [] then None
            else Some (parts ! 0, parts ! 3, parts ! 1))
         else None)"

definition ParseBackupVolumeObjectName :: "string \<Rightarrow> string \<Rightarrow> (string \<times> string \<times> string \<times> int) option" where
  "ParseBackupVolumeObjectName name separator =
     (if separator = [] then None
      else case lastIndexOf name ''.zstream.'' of
             None \<Rightarrow> None
           | Some idx \<Rightarrow>
               let extensions = splitOn (drop (idx + length ''.zstream.'') name) ''.''
               in case parseVolumeNumber (last extensions) of
                    None \<Rightarrow> None
                  | Some volNum \<Rightarrow>
                      if \<not> volumeExtensionsOK (butlast extensions) then None
                      else case parseSetName (take idx name) separator of
                             None \<Rightarrow> None
                           | Some (volume, base, incr) \<Rightarrow> Some (volume, base, incr, volNum))"

text \<open>
  The jobs whose names the parser can invert: ZFS names over the dataset characters, a separator
  that passes \<open>ValidateSendFlags\<close>, and a compressor whose name cannot be mistaken for another
  extension.
\<close>

definition wellNamed :: "'a Manifest_scheme \<Rightarrow> bool" where
  "wellNamed j \<longleftrightarrow>
     VolumeName j \<noteq> [] \<and> list_all inDatasetName (VolumeName j) \<and> \<not> hasPrefix (VolumeName j) ''/'' \<and>
     Name (BaseSnapshot j) \<noteq> [] \<and> list_all inDatasetName (Name (BaseSnapshot j)) \<and>
     list_all inDatasetName (Name (IncrementalSnapshot j)) \<and>
     \<not> disallowedSeps (Separator j) \<and>
     CHR ''.'' \<notin> set (Compressor j) \<and> Compressor j \<noteq> ''zstream'' \<and> Compressor j \<noteq> ''pgp''"

section \<open>The round trip\<close>

lemma parseVolumeNumber_format:
  assumes "1 \<le> n" "n \<le> maxInt64"
  shows "parseVolumeNumber (''vol'' @ formatInt n) = Some n"
proof -
  have "parseInt64 (formatInt n) = Some n" by (rule parseInt64_formatInt_nonneg) (use assms in simp_all)
  then show ?thesis
    using assms trimPrefix_append [of "''vol''" "formatInt n"] hasPrefix_append [of "''vol''" "formatInt n"]
    by (simp add: parseVolumeNumber_def)
qed

lemma parseVolumeNumber_Some:
  assumes "parseVolumeNumber ext = Some n"
  shows "ext = ''vol'' @ formatInt n" and "1 \<le> n"
proof -
  obtain r where r: "ext = ''vol'' @ r"
    using assms by (auto simp: parseVolumeNumber_def hasPrefix_iff split: if_splits)
  then have "trimPrefix ext ''vol'' = r" using trimPrefix_append [of "''vol''" r] by simp
  with r assms show "ext = ''vol'' @ formatInt n" "1 \<le> n"
    by (auto simp: parseVolumeNumber_def Let_def split: if_splits option.splits)
qed

lemma parseSetName_full:
  assumes "\<not> disallowedSeps sep" "list_all inDatasetName v" "list_all inDatasetName b"
    and "v \<noteq> []" "b \<noteq> []" "\<not> hasPrefix v ''/''"
  shows "parseSetName (joinWith [v, b] sep) sep = Some (v, b, [])"
proof -
  have "splitOn (joinWith [v, b] sep) sep = [v, b]"
    using assms by (intro splitOn_joinWith [of inDatasetName]) (simp_all add: disallowedSeps_def)
  then show ?thesis using assms by (simp add: parseSetName_def)
qed

lemma parseSetName_incr:
  assumes "\<not> disallowedSeps sep" "list_all inDatasetName v" "list_all inDatasetName b" "list_all inDatasetName i"
    and "v \<noteq> []" "b \<noteq> []" "\<not> hasPrefix v ''/''" "i \<noteq> []"
  shows "parseSetName (joinWith [v, i, ''to'', b] sep) sep = Some (v, b, i)"
proof -
  have "splitOn (joinWith [v, i, ''to'', b] sep) sep = [v, i, ''to'', b]"
    using assms
    by (intro splitOn_joinWith [of inDatasetName]) (simp_all add: disallowedSeps_def inDatasetName_def less_eq_char_def)
  then show ?thesis using assms by (simp add: parseSetName_def numeral_eq_Suc)
qed

lemma joinWith_snoc_append: "joinWith (ps @ [p]) sep @ q = joinWith (ps @ [p @ q]) sep"
proof (induction ps)
  case Nil
  then show ?case by simp
next
  case (Cons a ps)
  then show ?case by (simp add: joinWith_Cons)
qed

text \<open>The shape of a volume's name, shared by the round trip and by the soundness of the parser.\<close>

definition volumeObjectName :: "string list \<Rightarrow> string \<Rightarrow> string list \<Rightarrow> int \<Rightarrow> string" where
  "volumeObjectName nameParts sep exts n =
     joinWith nameParts sep @ ''.zstream.'' @ joinWith (exts @ [''vol'' @ formatInt n]) ''.''"

lemma BackupVolumeObjectName_shape:
  assumes "volumeNameParts j False (EncryptKey j \<noteq> None \<or> SignKey j \<noteq> None) = (nameParts, exts)"
  shows "BackupVolumeObjectName j n = volumeObjectName nameParts (Separator j) exts n"
  using assms joinWith_snoc_append [of "''zstream'' # exts" "''vol''" "''.''" "formatInt n"]
  by (simp add: BackupVolumeObjectName_def BackupVolumeObjectPrefix_def volumeObjectName_def joinWith_Cons
      Let_def split_beta)

lemma lastIndexOf_zstream:
  assumes "list_all (\<lambda>p. CHR ''.'' \<notin> set p) exts" and "''zstream'' \<notin> set exts" and "exts \<noteq> []"
  shows "lastIndexOf (s @ ''.zstream.'' @ joinWith exts ''.'') ''.zstream.'' = Some (length s)"
proof (rule lastIndexOf_append)
  show "\<nexists>x y. tl (''.zstream.'' @ joinWith exts ''.'') = x @ ''.zstream.'' @ y"
  proof (intro notI)
    assume "\<exists>x y. tl (''.zstream.'' @ joinWith exts ''.'') = x @ ''.zstream.'' @ y"
    then obtain x y where "joinWith (''zstream'' # exts) ''.'' = x @ ''.'' @ ''zstream'' @ ''.'' @ y"
      using assms(3) by (auto simp: joinWith_Cons)
    then have "''zstream'' \<in> set (tl (''zstream'' # exts))"
      using assms(1) by (intro joinWith_mid_part) simp_all
    then show False using assms(2) by simp
  qed
qed simp

lemma volumeExtension_parts:
  assumes "wellNamed j" and "volumeNameParts j False pgp = (nameParts, exts)"
  shows "list_all (\<lambda>p. CHR ''.'' \<notin> set p) exts" and "''zstream'' \<notin> set exts"
    and "volumeExtensionsOK exts"
  using assms by (auto simp: volumeNameParts_def wellNamed_def volumeExtensionsOK_def Let_def split: if_splits)

lemma parse_volumeObjectName:
  assumes "sep \<noteq> []" and "1 \<le> n" "n \<le> maxInt64"
    and exts: "list_all (\<lambda>p. CHR ''.'' \<notin> set p) exts" "''zstream'' \<notin> set exts" "volumeExtensionsOK exts"
    and name: "parseSetName (joinWith nameParts sep) sep = Some (v, b, i)"
  shows "ParseBackupVolumeObjectName (volumeObjectName nameParts sep exts n) sep = Some (v, b, i, n)"
proof -
  let ?exts = "exts @ [''vol'' @ formatInt n]"
  have dots: "list_all (\<lambda>p. CHR ''.'' \<notin> set p) ?exts"
    using exts(1) notin_formatInt [of "CHR ''.''" n] by simp
  have "''zstream'' \<notin> set ?exts" using exts(2) by simp
  then have idx: "lastIndexOf (volumeObjectName nameParts sep exts n) ''.zstream.''
      = Some (length (joinWith nameParts sep))"
    using dots lastIndexOf_zstream [of ?exts] unfolding volumeObjectName_def by simp
  have drop: "drop (length (joinWith nameParts sep) + length ''.zstream.'') (volumeObjectName nameParts sep exts n)
      = joinWith ?exts ''.''"
    by (simp add: volumeObjectName_def)
  have "splitOn (joinWith ?exts ''.'') ''.'' = ?exts"
    using dots by (intro splitOn_joinWith [of "\<lambda>c. c \<noteq> CHR ''.''"]) (auto simp: list_all_iff)
  then show ?thesis
    using assms(1) idx drop exts(3) name parseVolumeNumber_format [OF assms(2,3)]
    by (simp add: ParseBackupVolumeObjectName_def Let_def del: length_Cons list.size)
      (simp add: volumeObjectName_def)
qed

lemma parse_set_name:
  assumes "wellNamed j" and "volumeNameParts j isManifest pgp = (nameParts, exts)"
  shows "parseSetName (joinWith nameParts (Separator j)) (Separator j)
    = Some (VolumeName j, Name (BaseSnapshot j), Name (IncrementalSnapshot j))"
proof (cases "isFull j")
  case True
  then have "nameParts = [VolumeName j, Name (BaseSnapshot j)]"
    using assms(2) by (simp add: volumeNameParts_def Let_def)
  then show ?thesis using True assms(1) parseSetName_full by (simp add: wellNamed_def del: joinWith.simps)
next
  case False
  then have "nameParts = [VolumeName j, Name (IncrementalSnapshot j), ''to'', Name (BaseSnapshot j)]"
    using assms(2) by (simp add: volumeNameParts_def Let_def)
  then show ?thesis using False assms(1) parseSetName_incr by (simp add: wellNamed_def del: joinWith.simps)
qed

lemma parse_BackupVolumeObjectName:
  assumes "wellNamed j" and "1 \<le> n" and "n \<le> maxInt64"
  shows "ParseBackupVolumeObjectName (BackupVolumeObjectName j n) (Separator j)
    = Some (VolumeName j, Name (BaseSnapshot j), Name (IncrementalSnapshot j), n)"
proof -
  obtain nameParts exts where p:
    "volumeNameParts j False (EncryptKey j \<noteq> None \<or> SignKey j \<noteq> None) = (nameParts, exts)"
    by fastforce
  have "Separator j \<noteq> []" using assms(1) by (auto simp: wellNamed_def disallowedSeps_def)
  then show ?thesis
    unfolding BackupVolumeObjectName_shape [OF p]
    using assms volumeExtension_parts [OF assms(1) p] parse_set_name [OF assms(1) p]
    by (intro parse_volumeObjectName)
qed

section \<open>The parser accepts nothing else\<close>

definition setNameParts :: "string \<Rightarrow> string \<Rightarrow> string \<Rightarrow> string list" where
  "setNameParts v b i = (if i = [] then [v, b] else [v, i, ''to'', b])"

lemma list_of_length_2: "length xs = 2 \<Longrightarrow> xs = [xs ! 0, xs ! 1]"
  by (cases xs; cases "tl xs") auto

lemma list_of_length_4: "length xs = 4 \<Longrightarrow> xs = [xs ! 0, xs ! 1, xs ! 2, xs ! 3]"
  by (cases xs; cases "tl xs"; cases "tl (tl xs)"; cases "tl (tl (tl xs))") (auto simp: numeral_eq_Suc)

lemma parseSetName_Some:
  assumes "parseSetName s sep = Some (v, b, i)" and "sep \<noteq> []"
  shows "s = joinWith (setNameParts v b i) sep" and "v \<noteq> []" and "b \<noteq> []" and "\<not> hasPrefix v ''/''"
proof -
  let ?parts = "splitOn s sep"
  have s: "s = joinWith ?parts sep" using assms(2) by (simp add: joinWith_splitOn)
  consider (full) "length ?parts = 2" | (incr) "length ?parts = 4" "?parts ! 2 = ''to''"
    using assms(1) by (auto simp: parseSetName_def Let_def split: if_splits)
  then have "?parts = setNameParts v b i \<and> v \<noteq> [] \<and> b \<noteq> [] \<and> \<not> hasPrefix v ''/''"
  proof cases
    case full
    then show ?thesis using assms(1) list_of_length_2 [OF full]
      by (auto simp: parseSetName_def setNameParts_def Let_def split: if_splits)
  next
    case incr
    then show ?thesis using assms(1) list_of_length_4 [OF incr(1)]
      by (auto simp: parseSetName_def setNameParts_def Let_def split: if_splits)
  qed
  with s show "s = joinWith (setNameParts v b i) sep" "v \<noteq> []" "b \<noteq> []" "\<not> hasPrefix v ''/''"
    by simp_all
qed

lemma ParseBackupVolumeObjectName_shape:
  assumes "ParseBackupVolumeObjectName name sep = Some (v, b, i, n)"
  shows "\<exists>exts. volumeExtensionsOK exts \<and> name = volumeObjectName (setNameParts v b i) sep exts n
    \<and> lastIndexOf name ''.zstream.'' = Some (length (joinWith (setNameParts v b i) sep))
    \<and> sep \<noteq> [] \<and> 1 \<le> n \<and> v \<noteq> [] \<and> b \<noteq> [] \<and> \<not> hasPrefix v ''/''"
proof -
  obtain idx where sep: "sep \<noteq> []" and idx: "lastIndexOf name ''.zstream.'' = Some idx"
    using assms by (auto simp: ParseBackupVolumeObjectName_def split: if_splits option.splits)
  let ?ext = "splitOn (drop (idx + length ''.zstream.'') name) ''.''"
  have num: "parseVolumeNumber (last ?ext) = Some n" and ok: "volumeExtensionsOK (butlast ?ext)"
    and set_name: "parseSetName (take idx name) sep = Some (v, b, i)"
    using assms sep idx
    by (auto simp: ParseBackupVolumeObjectName_def Let_def split: if_splits option.splits)
  have "?ext \<noteq> []" by (rule splitOn_nonempty) simp
  then have "?ext = butlast ?ext @ [''vol'' @ formatInt n]"
    using parseVolumeNumber_Some(1) [OF num] append_butlast_last_id by metis
  then have rest: "drop (idx + length ''.zstream.'') name = joinWith (butlast ?ext @ [''vol'' @ formatInt n]) ''.''"
    using joinWith_splitOn [of "''.''" "drop (idx + length ''.zstream.'') name"] by simp
  have name: "name = take idx name @ ''.zstream.'' @ drop (idx + length ''.zstream.'') name"
    and "length (take idx name) = idx"
    using lastIndexOf_Some [OF idx] by simp_all
  then show ?thesis
    using rest parseSetName_Some [OF set_name sep] parseVolumeNumber_Some(2) [OF num] ok sep idx
    by (intro exI [of _ "butlast ?ext"]) (simp add: volumeObjectName_def)
qed

section \<open>Names as an interface\<close>

text \<open>
  What the users of object names rely on: a decoder that inverts the encoder on the objects the
  program writes. From that alone, different sets never share an object name.
\<close>

locale object_naming =
  fixes enc :: "'j \<Rightarrow> int \<Rightarrow> string"
    and dec :: "string \<Rightarrow> ('k \<times> int) option"
    and key :: "'j \<Rightarrow> 'k"
    and ok :: "'j \<Rightarrow> int \<Rightarrow> bool"
  assumes dec_enc: "ok j n \<Longrightarrow> dec (enc j n) = Some (key j, n)"
begin

lemma enc_eqD:
  assumes "ok j n" and "ok j' n'" and "enc j n = enc j' n'"
  shows "key j = key j' \<and> n = n'"
proof -
  have "Some (key j, n) = Some (key j', n')"
    using dec_enc [OF assms(1)] dec_enc [OF assms(2)] assms(3) by simp
  then show ?thesis by simp
qed

lemma enc_disjoint:
  assumes "key j \<noteq> key j'"
  shows "{enc j n | n. ok j n} \<inter> {enc j' n | n. ok j' n} = {}"
proof -
  have False if "ok j n" "ok j' n'" "enc j n = enc j' n'" for n n'
    using enc_eqD [OF that] assms by simp
  then show ?thesis by blast
qed

end

definition setKey :: "'a Manifest_scheme \<Rightarrow> string \<times> string \<times> string" where
  "setKey j = (VolumeName j, Name (BaseSnapshot j), Name (IncrementalSnapshot j))"

definition parseWithKey :: "string \<Rightarrow> string \<Rightarrow> ((string \<times> string \<times> string) \<times> int) option" where
  "parseWithKey sep name =
     map_option (\<lambda>(v, b, i, n). ((v, b, i), n)) (ParseBackupVolumeObjectName name sep)"

interpretation volume_names: object_naming
  BackupVolumeObjectName
  "parseWithKey sep"
  setKey
  "\<lambda>j n. wellNamed j \<and> Separator j = sep \<and> 1 \<le> n \<and> n \<le> maxInt64"
  for sep
  by unfold_locales (auto simp: setKey_def parseWithKey_def parse_BackupVolumeObjectName)

end
