(* ===== verification/Schedule.thy ===== *)
theory Schedule
  imports Calendar ObjectNames Snapshots
begin

text \<open>
  The simulated sanoid of \<^verbatim>\<open>backup/plan_schedule.go\<close>: the retention policy and its text form, the
  snapshots taken at period boundaries, and pruning.
\<close>

section \<open>Policies\<close>

definition sanoidPeriods :: "(string \<times> duration) list" where
  "sanoidPeriods =
     [(''yearly'', 8766 * hour), (''monthly'', 31 * 24 * hour), (''weekly'', 7 * 24 * hour),
      (''daily'', 24 * hour), (''hourly'', hour)]"

definition periodLength :: "string \<Rightarrow> duration" where
  "periodLength name =
     (case List.find (\<lambda>p. fst p = name) sanoidPeriods of Some p \<Rightarrow> snd p | None \<Rightarrow> 0)"

record Period =
  PeriodName :: string
  Keep :: int

record Schedule =
  Periods :: "Period list"
  ScheduleLocation :: "location option"
  Delay :: duration
  tieOrder :: "string list option"
  tieGap :: duration

definition zeroSchedule :: Schedule where
  "zeroSchedule = \<lparr>Periods = [], ScheduleLocation = None, Delay = 0, tieOrder = None, tieGap = 0\<rparr>"

datatype policy_error =
    WantPeriodCount string
  | UnknownPeriod string
  | InvalidCount string string
  | SetTwice string
  | NoPeriods

text \<open>The items of a policy, read into a map from period to count.\<close>

fun parseItems :: "string list \<Rightarrow> (string \<rightharpoonup> int) \<Rightarrow> policy_error + (string \<rightharpoonup> int)" where
  "parseItems [] keep = Inr keep"
| "parseItems (raw # items) keep =
     (let item = trimSpace raw
      in if item = [] then parseItems items keep
         else case cutStr item ''='' of
                None \<Rightarrow> Inl (WantPeriodCount item)
              | Some (nameRaw, cnt) \<Rightarrow>
                  (let name = trimSpace nameRaw
                   in if periodLength name = 0 then Inl (UnknownPeriod name)
                      else case parseInt64 (trimSpace cnt) of
                             None \<Rightarrow> Inl (InvalidCount cnt name)
                           | Some n \<Rightarrow>
                               if n < 0 then Inl (InvalidCount cnt name)
                               else if keep name \<noteq> None then Inl (SetTwice name)
                               else parseItems items (keep(name \<mapsto> n))))"

definition ParseSchedule :: "string \<Rightarrow> policy_error + Schedule" where
  "ParseSchedule policy =
     (case parseItems (splitOn policy '','') Map.empty of
        Inl e \<Rightarrow> Inl e
      | Inr keep \<Rightarrow>
          (let periods = List.map_filter
                 (\<lambda>p. map_option (\<lambda>n. \<lparr>PeriodName = fst p, Keep = n\<rparr>) (keep (fst p))) sanoidPeriods
           in if periods = [] then Inl NoPeriods else Inr (zeroSchedule\<lparr>Periods := periods\<rparr>)))"

definition Schedule_String :: "Schedule \<Rightarrow> string" where
  "Schedule_String s = joinWith (map (\<lambda>p. PeriodName p @ ''='' @ formatInt (Keep p)) (Periods s)) '',''"

definition period :: "Schedule \<Rightarrow> string \<Rightarrow> Period option" where
  "period s name = List.find (\<lambda>p. PeriodName p = name) (Periods s)"

definition tieOrderOrDefault :: "Schedule \<Rightarrow> string list" where
  "tieOrderOrDefault s = (case tieOrder s of Some order \<Rightarrow> order | None \<Rightarrow> map fst sanoidPeriods)"

definition Schedule_location :: "Schedule \<Rightarrow> location" where
  "Schedule_location s = (case ScheduleLocation s of None \<Rightarrow> utcLoc | Some loc \<Rightarrow> loc)"

section \<open>Taking snapshots\<close>

text \<open>
  The loop of \<^verbatim>\<open>boundaries\<close>: \<open>None\<close> is a loop that never ends, which a location whose calendar
  does not move forward could cause.
\<close>

partial_function (option) boundariesLoop :: "(time \<Rightarrow> time) \<Rightarrow> time \<Rightarrow> time \<Rightarrow> time \<Rightarrow> time list option" where
  "boundariesLoop next from to t =
     (if t > to then Some []
      else Option.bind (boundariesLoop next from to (next t))
             (\<lambda>out. Some (if t > from then t # out else out)))"

declare boundariesLoop.simps [code]

definition boundaries :: "Schedule \<Rightarrow> Period \<Rightarrow> time \<Rightarrow> time \<Rightarrow> time list option" where
  "boundaries s p from0 to =
     (let len = periodLength (PeriodName p);
          from = (if isZero from0 then to + wrap64 (- wrap64 (Keep p + 2) * len) else from0);
          loc = Schedule_location s;
          f = inLocation loc from;
          midnight = goDate loc (Year f) (Month f) (Day f) 0 0 0 0;
          (t, next) =
            (if PeriodName p = ''hourly'' then
               (goDate loc (Year f) (Month f) (Day f) (Hour f) 0 0 0, \<lambda>t. t + hour)
             else if PeriodName p = ''weekly'' then
               (addDate loc midnight 0 0 (- ((weekday loc from + 6) mod 7)), \<lambda>t. addDate loc t 0 0 7)
             else if PeriodName p = ''monthly'' then
               (goDate loc (Year f) (Month f) 1 0 0 0 0, \<lambda>t. addDate loc t 0 1 0)
             else if PeriodName p = ''yearly'' then
               (goDate loc (Year f) 1 1 0 0 0 0, \<lambda>t. addDate loc t 1 0 0)
             else (midnight, \<lambda>t. addDate loc t 0 0 1))
      in boundariesLoop next from to t)"

text \<open>Boundaries by time, each with the periods that have it, in the order they are first met.\<close>

fun addBoundary :: "string \<Rightarrow> time \<Rightarrow> (time \<times> string list) list \<Rightarrow> (time \<times> string list) list" where
  "addBoundary name t [] = [(t, [name])]"
| "addBoundary name t ((at, names) # bs) =
     (if unixNano at = unixNano t then (at, names @ [name]) # bs else (at, names) # addBoundary name t bs)"

fun collectBoundaries ::
    "Schedule \<Rightarrow> time \<Rightarrow> time \<Rightarrow> string list \<Rightarrow> (time \<times> string list) list \<Rightarrow> (time \<times> string list) list option" where
  "collectBoundaries s from to [] bs = Some bs"
| "collectBoundaries s from to (name # order) bs =
     (case period s name of
        None \<Rightarrow> collectBoundaries s from to order bs
      | Some p \<Rightarrow>
          if Keep p = 0 then collectBoundaries s from to order bs
          else case boundaries s p from to of
                 None \<Rightarrow> None
               | Some ts \<Rightarrow>
                   collectBoundaries s from to order (foldl (\<lambda>bs t. addBoundary (PeriodName p) t bs) bs ts))"

text \<open>The snapshots of one boundary: the first period of the tie order is the newest.\<close>

definition boundarySnapshots :: "Schedule \<Rightarrow> time \<times> string list \<Rightarrow> SnapshotInfo list" where
  "boundarySnapshots s b =
     (let (at, names) = b
      in map (\<lambda>(i, name).
           let creation = at + wrap64 (Delay s + wrap64 ((int (length names) - 1 - int i) * tieGap s))
           in zeroSnapshot\<lparr>Name := ''autosnap_'' @ formatSanoid (Schedule_location s) creation @ ''_'' @ name,
                CreationTime := creation\<rparr>)
         (enumerate 0 names))"

text \<open>A name that exists already is not taken again.\<close>

fun takeNew :: "string list \<Rightarrow> SnapshotInfo list \<Rightarrow> SnapshotInfo list" where
  "takeNew names [] = []"
| "takeNew names (snap # snaps) =
     (if Name snap \<in> set names then takeNew names snaps
      else snap # takeNew (Name snap # names) snaps)"

definition newestFirstSort :: "SnapshotInfo list \<Rightarrow> SnapshotInfo list" where
  "newestFirstSort snaps = sliceStable (\<lambda>a b. CreationTime a > CreationTime b) snaps"

section \<open>Pruning\<close>

definition ofPeriod :: "SnapshotInfo \<Rightarrow> Period \<Rightarrow> bool" where
  "ofPeriod snap p \<longleftrightarrow> \<not> Bookmark snap \<and> hasPrefix (Name snap) ''autosnap_'' \<and> hasSuffix (Name snap) (''_'' @ PeriodName p)"

fun pruneLoop :: "SnapshotInfo list \<Rightarrow> time \<Rightarrow> int \<Rightarrow> nat list \<Rightarrow> int \<Rightarrow> nat list" where
  "pruneLoop snaps expiry keep [] left = []"
| "pruneLoop snaps expiry keep (k # ks) left =
     (if \<not> left > keep then []
      else if \<not> CreationTime (snaps ! k) < expiry then []
      else k # pruneLoop snaps expiry keep ks (left - 1))"

definition pruneExpiry :: "Period \<Rightarrow> time \<Rightarrow> time" where
  "pruneExpiry p now = now + wrap64 (- Keep p * periodLength (PeriodName p))"

definition prunePeriod :: "SnapshotInfo list \<Rightarrow> time \<Rightarrow> Period \<Rightarrow> nat list" where
  "prunePeriod snaps now p =
     (let mine = filter (\<lambda>i. ofPeriod (snaps ! i) p) [0..<length snaps]
      in pruneLoop snaps (pruneExpiry p now) (Keep p) (rev mine) (int (length mine)))"

definition prune :: "Schedule \<Rightarrow> SnapshotInfo list \<Rightarrow> time \<Rightarrow> SnapshotInfo list" where
  "prune s snaps now =
     (let destroyed = concat (map (prunePeriod snaps now) (Periods s))
      in map (\<lambda>i. snaps ! i) (filter (\<lambda>i. i \<notin> set destroyed) [0..<length snaps]))"

text \<open>\<^verbatim>\<open>Advance\<close>: the pool after pruning, and the snapshots taken.\<close>

definition Advance ::
    "Schedule \<Rightarrow> SnapshotInfo list \<Rightarrow> time \<Rightarrow> time \<Rightarrow> (SnapshotInfo list \<times> SnapshotInfo list) option" where
  "Advance s snaps from to =
     (case collectBoundaries s from to (tieOrderOrDefault s) [] of
        None \<Rightarrow> None
      | Some bs \<Rightarrow>
          (let taken = newestFirstSort (takeNew (map Name snaps) (concat (map (boundarySnapshots s) bs)));
               pool = newestFirstSort (snaps @ taken)
           in Some (prune s pool to, taken)))"

section \<open>What pruning keeps\<close>

lemma pruneLoop_eq:
  "pruneLoop snaps expiry keep ks left
     = takeWhile (\<lambda>k. CreationTime (snaps ! k) < expiry) (take (nat (left - keep)) ks)"
proof (induction ks arbitrary: left)
  case (Cons k ks)
  show ?case
  proof (cases "left > keep")
    case True
    then have "nat (left - keep) = Suc (nat (left - 1 - keep))" by simp
    then show ?thesis using Cons True by simp
  qed simp
qed simp

lemma prunePeriod_mine: "i \<in> set (prunePeriod snaps now p) \<Longrightarrow> i < length snaps \<and> ofPeriod (snaps ! i) p"
  unfolding prunePeriod_def Let_def pruneLoop_eq
  by (auto dest!: set_takeWhileD in_set_takeD)

text \<open>A name ends in the suffix of at most one period.\<close>

lemma suffix_unique:
  assumes "hasSuffix s (''_'' @ a)" "hasSuffix s (''_'' @ b)" "CHR ''_'' \<notin> set a" "CHR ''_'' \<notin> set b"
  shows "a = b"
proof -
  obtain u v where "s = u @ ''_'' @ a" and "s = v @ ''_'' @ b" using assms(1,2) unfolding hasSuffix_iff by blast
  then have "rev (u @ ''_'' @ a) = rev (v @ ''_'' @ b)" by (simp only:)
  then have "rev a @ CHR ''_'' # rev u = rev b @ CHR ''_'' # rev v" by simp
  then have "rev a = rev b" using append_first_occ_eq [of "CHR ''_''" "rev a" "rev b" "rev u" "rev v"] assms(3,4) by simp
  then show ?thesis by simp
qed

definition wfSchedule :: "Schedule \<Rightarrow> bool" where
  "wfSchedule s \<longleftrightarrow> distinct (map PeriodName (Periods s)) \<and>
     list_all (\<lambda>p. PeriodName p \<in> set (map fst sanoidPeriods) \<and> 0 \<le> Keep p \<and> Keep p \<le> maxInt64) (Periods s)"

lemma sanoidPeriods_names: "n \<in> set (map fst sanoidPeriods) \<Longrightarrow> CHR ''_'' \<notin> set n"
  by (auto simp: sanoidPeriods_def)

lemma ofPeriod_unique:
  assumes "wfSchedule s" "p \<in> set (Periods s)" "q \<in> set (Periods s)" "ofPeriod x p" "ofPeriod x q"
  shows "p = q"
proof -
  have "PeriodName p = PeriodName q"
    using assms suffix_unique [of "Name x" "PeriodName p" "PeriodName q"] sanoidPeriods_names
    by (auto simp: ofPeriod_def wfSchedule_def list_all_iff)
  then show ?thesis using assms(1-3) by (auto simp: wfSchedule_def distinct_map dest: inj_onD)
qed

lemma filter_prune:
  "filter P (prune s snaps now)
     = map ((!) snaps) (filter (\<lambda>i. P (snaps ! i) \<and> i \<notin> (\<Union>p\<in>set (Periods s). set (prunePeriod snaps now p))) [0..<length snaps])"
  by (simp add: prune_def Let_def filter_map o_def conj_commute)

lemma prune_keeps_others_lemma:
  assumes "\<forall>x\<in>set snaps. P x \<longrightarrow> (\<forall>p\<in>set (Periods s). \<not> ofPeriod x p)"
  shows "filter P (prune s snaps now) = filter P snaps"
proof -
  have "filter P (prune s snaps now) = map ((!) snaps) (filter (P \<circ> (!) snaps) [0..<length snaps])"
    unfolding filter_prune
  proof (intro arg_cong [of _ _ "map ((!) snaps)"] filter_cong refl)
    fix i
    assume "i \<in> set [0..<length snaps]"
    then have "snaps ! i \<in> set snaps" by simp
    then show "(P (snaps ! i) \<and> i \<notin> (\<Union>p\<in>set (Periods s). set (prunePeriod snaps now p))) = (P \<circ> (!) snaps) i"
      using assms prunePeriod_mine by fastforce
  qed
  also have "\<dots> = filter P (map ((!) snaps) [0..<length snaps])" by (simp add: filter_map)
  finally show ?thesis by (simp add: map_nth)
qed

text \<open>A newest-first list splits into what is not older than a time and what is older.\<close>

lemma takeWhile_rev_sorted:
  assumes "sorted_wrt (\<lambda>a b. f a \<ge> (f b :: int)) xs"
  shows "set (takeWhile (\<lambda>x. f x < e) (rev xs)) = {x \<in> set xs. f x < e}"
  using assms
proof (induction xs rule: rev_induct)
  case (snoc x xs)
  then have IH: "set (takeWhile (\<lambda>x. f x < e) (rev xs)) = {x \<in> set xs. f x < e}"
    and "\<forall>y\<in>set xs. f x \<le> f y" by (auto simp: sorted_wrt_append)
  then show ?case by (cases "f x < e") auto
qed simp

lemma filter_drop_distinct:
  assumes "distinct xs"
  shows "filter (\<lambda>x. \<not> (x \<in> set (drop k xs) \<and> P x)) xs = take k xs @ filter (\<lambda>x. \<not> P x) (drop k xs)"
proof -
  have "filter (\<lambda>x. \<not> (x \<in> set (drop k xs) \<and> P x)) (take k xs) = take k xs"
    using set_take_disj_set_drop_if_distinct [OF assms, of k k] by (intro filter_True) auto
  moreover have "filter (\<lambda>x. \<not> (x \<in> set (drop k xs) \<and> P x)) (drop k xs) = filter (\<lambda>x. \<not> P x) (drop k xs)"
    by (intro filter_cong) auto
  ultimately show ?thesis by (metis append_take_drop_id filter_append)
qed

text \<open>
  Retention. Of every period of a well-formed policy pruning keeps the newest \<open>Keep\<close> snapshots
  whatever their age, and of the older ones exactly those that are not older than \<open>Keep\<close> periods.
\<close>

theorem prune_retention:
  assumes "wfSchedule s" "p \<in> set (Periods s)" "newestFirst snaps"
  defines "mine \<equiv> filter (\<lambda>x. ofPeriod x p) snaps"
  shows "filter (\<lambda>x. ofPeriod x p) (prune s snaps now)
    = take (nat (Keep p)) mine @ filter (\<lambda>x. \<not> CreationTime x < pruneExpiry p now) (drop (nat (Keep p)) mine)"
proof -
  let ?I = "filter (\<lambda>i. ofPeriod (snaps ! i) p) [0..<length snaps]"
  let ?k = "nat (Keep p)" and ?old = "\<lambda>i. CreationTime (snaps ! i) < pruneExpiry p now"
  have mine: "mine = map ((!) snaps) ?I"
    unfolding mine_def using filter_map [of "\<lambda>x. ofPeriod x p" "(!) snaps" "[0..<length snaps]"]
    by (simp add: map_nth o_def)
  have sorted: "sorted_wrt (\<lambda>i j. CreationTime (snaps ! i) \<ge> CreationTime (snaps ! j)) ?I"
  proof -
    have "sorted_wrt (<) ?I" by (rule sorted_wrt_filter) (simp add: sorted_wrt_upt)
    then show ?thesis
      by (rule sorted_wrt_mono_rel [rotated]) (use assms(3) in \<open>auto simp: sorted_wrt_iff_nth_less\<close>)
  qed
  have keep: "0 \<le> Keep p" using assms(1,2) by (auto simp: wfSchedule_def list_all_iff)
  have destroyed: "set (prunePeriod snaps now p) = {i \<in> set (drop ?k ?I). ?old i}"
  proof -
    have "take (nat (int (length ?I) - Keep p)) (rev ?I) = rev (drop ?k ?I)"
      using keep by (simp add: rev_drop nat_diff_distrib')
    then have "set (prunePeriod snaps now p) = set (takeWhile ?old (rev (drop ?k ?I)))"
      by (simp add: prunePeriod_def Let_def pruneLoop_eq)
    also have "\<dots> = {i \<in> set (drop ?k ?I). ?old i}"
      by (rule takeWhile_rev_sorted) (use sorted sorted_wrt_drop in blast)
    finally show ?thesis .
  qed
  have others: "i \<notin> set (prunePeriod snaps now q)" if "i \<in> set ?I" "q \<in> set (Periods s)" "q \<noteq> p" for i q
    using prunePeriod_mine [of i snaps now q] ofPeriod_unique [OF assms(1,2) that(2), of "snaps ! i"] that(1,3) by auto
  have "filter (\<lambda>x. ofPeriod x p) (prune s snaps now)
      = map ((!) snaps) (filter (\<lambda>i. i \<notin> (\<Union>q\<in>set (Periods s). set (prunePeriod snaps now q))) ?I)"
    by (simp add: filter_prune conj_commute)
  also have "\<dots> = map ((!) snaps) (filter (\<lambda>i. \<not> (i \<in> set (drop ?k ?I) \<and> ?old i)) ?I)"
    using others assms(2) destroyed
    by (intro arg_cong [of _ _ "map ((!) snaps)"] filter_cong refl) blast
  also have "filter (\<lambda>i. \<not> (i \<in> set (drop ?k ?I) \<and> ?old i)) ?I
      = take ?k ?I @ filter (\<lambda>i. \<not> ?old i) (drop ?k ?I)"
    by (rule filter_drop_distinct) simp
  finally show ?thesis by (simp add: mine take_map drop_map filter_map o_def)
qed

section \<open>Boundaries end, and advancing keeps the pool in order\<close>

lemma boundariesLoop_ends:
  assumes "0 < (\<delta> :: int)" and "\<And>t. t + \<delta> \<le> next t"
  shows "\<exists>out. boundariesLoop next from to t = Some out"
proof (induction "nat (to - t + 1)" arbitrary: t rule: less_induct)
  case less
  show ?case
  proof (cases "t > to")
    case True
    then show ?thesis by (subst boundariesLoop.simps) simp
  next
    case False
    then have "nat (to - next t + 1) < nat (to - t + 1)" using assms(1) assms(2) [of t] by linarith
    then obtain out where "boundariesLoop next from to (next t) = Some out" using less by blast
    then show ?thesis by (subst boundariesLoop.simps) simp
  qed
qed

lemma boundariesLoop_range:
  assumes "boundariesLoop next from to t = Some out"
  shows "\<forall>x\<in>set out. from < x \<and> x \<le> to"
proof (rule boundariesLoop.raw_induct [of "\<lambda>next from to t out. \<forall>x\<in>set out. from < x \<and> x \<le> to", OF _ assms])
  fix loop :: "(int \<Rightarrow> int) \<Rightarrow> int \<Rightarrow> int \<Rightarrow> int \<Rightarrow> int list option" and nxt lo hi u res
  assume IH: "\<And>nxt lo hi u res. loop nxt lo hi u = Some res \<Longrightarrow> \<forall>x\<in>set res. lo < x \<and> x \<le> hi"
    and eq: "(if hi < u then Some [] else Option.bind (loop nxt lo hi (nxt u)) (\<lambda>out. Some (if lo < u then u # out else out))) = Some res"
  show "\<forall>x\<in>set res. lo < x \<and> x \<le> hi"
  proof (cases "hi < u")
    case True
    then show ?thesis using eq by simp
  next
    case False
    then obtain rest where rest: "loop nxt lo hi (nxt u) = Some rest" "res = (if lo < u then u # rest else rest)"
      using eq by (cases "loop nxt lo hi (nxt u)") simp_all
    then show ?thesis using IH [OF rest(1)] False by (cases "lo < u") simp_all
  qed
qed

lemma boundaries_range:
  "boundaries s p from to = Some out \<Longrightarrow> x \<in> set out \<Longrightarrow> x \<le> to \<and> (\<not> isZero from \<longrightarrow> from < x)"
  unfolding boundaries_def Let_def by (force split: if_splits prod.splits dest!: boundariesLoop_range)

lemma calendar_steps_forward:
  "t + hour \<le> t + hour" "t + hour \<le> addDate utcLoc t 0 0 7" "t + hour \<le> addDate utcLoc t 0 1 0"
  "t + hour \<le> addDate utcLoc t 1 0 0" "t + hour \<le> addDate utcLoc t 0 0 1"
proof -
  have "hour \<le> day" "hour \<le> 7 * day" "hour \<le> 28 * day" "hour \<le> 365 * day" by (simp_all add: day_def hour_def minute_def second_def)
  then show "t + hour \<le> addDate utcLoc t 0 0 7" "t + hour \<le> addDate utcLoc t 0 1 0"
    "t + hour \<le> addDate utcLoc t 1 0 0" "t + hour \<le> addDate utcLoc t 0 0 1"
    using addDate_utc_steps [of t] addDate_utc_days [of t 7] addDate_utc_days [of t 1] by linarith+
qed simp

lemma boundaries_ends:
  assumes "Schedule_location s = utcLoc"
  shows "\<exists>out. boundaries s p from to = Some out"
proof -
  have "0 < hour" by (simp add: hour_def minute_def second_def)
  then show ?thesis
    unfolding boundaries_def Let_def assms
    by (auto intro!: boundariesLoop_ends calendar_steps_forward split: if_splits prod.splits)
qed

lemma collectBoundaries_ends:
  "Schedule_location s = utcLoc \<Longrightarrow> \<exists>bs'. collectBoundaries s from to order bs = Some bs'"
proof (induction order arbitrary: bs)
  case (Cons name order)
  show ?case
  proof (cases "period s name")
    case None
    then show ?thesis using Cons by simp
  next
    case (Some p)
    then show ?thesis using Cons boundaries_ends [OF Cons.prems, of p "from" "to"] by fastforce
  qed
qed simp

text \<open>
  Simulated sanoid always returns: with period boundaries in UTC, advancing a pool ends for
  every policy, pool and pair of times.
\<close>

theorem Advance_returns:
  assumes "Schedule_location s = utcLoc"
  shows "\<exists>pool taken. Advance s snaps from to = Some (pool, taken)"
proof -
  obtain bs where "collectBoundaries s from to (tieOrderOrDefault s) [] = Some bs"
    using collectBoundaries_ends [OF assms] by blast
  then show ?thesis by (simp add: Advance_def Let_def)
qed

interpretation snapshot_order: strict_weak "\<lambda>a b. CreationTime a > CreationTime b"
  by unfold_locales auto

lemma newestFirstSort_order: "newestFirst (newestFirstSort snaps)"
  using snapshot_order.ordered_sliceStable [of snaps]
  unfolding snapshot_order.ordered_def newestFirstSort_def
  by (rule sorted_wrt_mono_rel [rotated]) auto

lemma set_newestFirstSort [simp]: "set (newestFirstSort snaps) = set snaps"
  by (simp add: newestFirstSort_def)

lemma distinct_newestFirstSort [simp]: "distinct (map f (newestFirstSort snaps)) = distinct (map f snaps)"
proof -
  have "mset (map f (newestFirstSort snaps)) = mset (map f snaps)"
    unfolding newestFirstSort_def mset_map mset_sliceStable ..
  then show ?thesis by (rule mset_eq_imp_distinct_iff)
qed

lemma takeNew_names:
  "distinct (map Name (takeNew names snaps)) \<and> set (map Name (takeNew names snaps)) \<inter> set names = {}"
proof (induction names snaps rule: takeNew.induct)
  case (2 names snap snaps)
  then show ?case by (auto split: if_splits)
qed simp

lemma newestFirst_prune:
  assumes "newestFirst snaps" shows "newestFirst (prune s snaps now)"
  unfolding prune_def Let_def
proof (subst sorted_wrt_map, rule sorted_wrt_mono_rel [OF _ sorted_wrt_filter])
  show "sorted_wrt (<) [0..<length snaps]" by (simp add: sorted_wrt_upt)
qed (use assms in \<open>auto simp: sorted_wrt_iff_nth_less\<close>)

lemma set_prune: "set (prune s snaps now) \<subseteq> set snaps"
  by (auto simp: prune_def Let_def)

text \<open>
  C31. Advancing a pool keeps it in order. The new pool is newest-first; it holds only old snapshots
  and the ones just taken, whose names are new and differ from each other; and whatever sanoid does
  not manage (bookmarks, and snapshots not named as the periods of the policy are) stays.
\<close>

theorem Advance_pool:
  assumes "Advance s snaps from to = Some (pool, taken)"
  shows "newestFirst pool \<and> newestFirst taken \<and> set pool \<subseteq> set snaps \<union> set taken
    \<and> distinct (map Name taken) \<and> set (map Name taken) \<inter> set (map Name snaps) = {}
    \<and> (\<forall>x\<in>set snaps. (\<forall>p\<in>set (Periods s). \<not> ofPeriod x p) \<longrightarrow> x \<in> set pool)"
proof -
  obtain fresh where taken: "taken = newestFirstSort (takeNew (map Name snaps) fresh)"
    and pool: "pool = prune s (newestFirstSort (snaps @ taken)) to"
    using assms by (auto simp: Advance_def Let_def split: option.splits)
  let ?P = "\<lambda>x. \<forall>p\<in>set (Periods s). \<not> ofPeriod x p"
  have "filter ?P pool = filter ?P (newestFirstSort (snaps @ taken))"
    unfolding pool by (rule prune_keeps_others_lemma) simp
  then have "set (filter ?P pool) = set (filter ?P (newestFirstSort (snaps @ taken)))" by simp
  then have stays: "\<forall>x\<in>set snaps. ?P x \<longrightarrow> x \<in> set pool" by auto
  have "set pool \<subseteq> set snaps \<union> set taken" using set_prune [of s "newestFirstSort (snaps @ taken)" to] pool by auto
  moreover have "newestFirst pool" unfolding pool by (intro newestFirst_prune newestFirstSort_order)
  moreover have "newestFirst taken" unfolding taken by (rule newestFirstSort_order)
  moreover have "set (map Name taken) = set (map Name (takeNew (map Name snaps) fresh))"
    "distinct (map Name taken) = distinct (map Name (takeNew (map Name snaps) fresh))"
    unfolding taken by simp_all
  ultimately show ?thesis using stays takeNew_names [of "map Name snaps" fresh] by blast
qed

section \<open>Policies are printed as they are read\<close>

lemma parseInt64_bounds: "parseInt64 s = Some n \<Longrightarrow> n \<le> maxInt64"
  by (auto simp: parseInt64_def maxInt64_def split: list.splits option.splits if_splits)

definition countsOK :: "(string \<rightharpoonup> int) \<Rightarrow> bool" where
  "countsOK keep \<longleftrightarrow> (\<forall>n c. keep n = Some c \<longrightarrow> periodLength n \<noteq> 0 \<and> 0 \<le> c \<and> c \<le> maxInt64)"

lemma parseItems_countsOK:
  "parseItems items keep = Inr keep' \<Longrightarrow> countsOK keep \<Longrightarrow> countsOK keep'"
proof (induction items arbitrary: keep)
  case (Cons raw items)
  from Cons.prems(1) consider
      (skip) "trimSpace raw = []" "parseItems items keep = Inr keep'"
    | (item) x cnt n where "trimSpace raw \<noteq> []" "cutStr (trimSpace raw) ''='' = Some (x, cnt)"
        "periodLength (trimSpace x) \<noteq> 0" "parseInt64 (trimSpace cnt) = Some n" "\<not> n < 0" "keep (trimSpace x) = None"
        "parseItems items (keep(trimSpace x \<mapsto> n)) = Inr keep'"
    by (auto simp: Let_def split: if_splits option.splits prod.splits)
  then show ?case
  proof cases
    case skip
    then show ?thesis using Cons by blast
  next
    case item
    have "countsOK (keep(trimSpace x \<mapsto> n))"
      using Cons.prems(2) item(3,5) parseInt64_bounds [OF item(4)] by (auto simp: countsOK_def)
    then show ?thesis using Cons.IH item(7) by blast
  qed
qed simp

text \<open>The items that \<open>Schedule_String\<close> prints are read back.\<close>

definition policyItem :: "Period \<Rightarrow> string" where
  "policyItem p = PeriodName p @ ''='' @ formatInt (Keep p)"

lemma periodLength_names: "periodLength n \<noteq> 0 \<longleftrightarrow> n \<in> set (map fst sanoidPeriods)"
  by (auto simp: periodLength_def sanoidPeriods_def hour_def minute_def second_def)

lemma sanoid_name_chars:
  assumes "n \<in> set (map fst sanoidPeriods)"
  shows "n \<noteq> []" "list_all (\<lambda>c. \<not> isSpace c) n" "CHR ''='' \<notin> set n" "CHR '','' \<notin> set n"
  using assms by (auto simp: sanoidPeriods_def isSpace_def)

lemma formatInt_nonneg_chars:
  assumes "0 \<le> i"
  shows "list_all (\<lambda>c. \<not> isSpace c) (formatInt i)" "CHR '','' \<notin> set (formatInt i)" "formatInt i \<noteq> []"
  using assms formatNat_digits [of "nat i"] isDigit_not_space
  by (auto simp: formatInt_def list_all_iff isDigit_def dest!: bspec)

lemma policyItem_reads:
  assumes "PeriodName p \<in> set (map fst sanoidPeriods)" "0 \<le> Keep p"
  shows "trimSpace (policyItem p) = policyItem p" "policyItem p \<noteq> []"
    "cutStr (policyItem p) ''='' = Some (PeriodName p, formatInt (Keep p))"
    "trimSpace (PeriodName p) = PeriodName p" "trimSpace (formatInt (Keep p)) = formatInt (Keep p)"
    "CHR '','' \<notin> set (policyItem p)"
proof -
  note n = sanoid_name_chars [OF assms(1)] and f = formatInt_nonneg_chars [OF assms(2)]
  have "list_all (\<lambda>c. \<not> isSpace c) (policyItem p)" using n f by (auto simp: policyItem_def isSpace_def)
  then show "trimSpace (policyItem p) = policyItem p" by (rule trimSpace_no_space)
  show "policyItem p \<noteq> []" by (simp add: policyItem_def)
  show "trimSpace (PeriodName p) = PeriodName p" "trimSpace (formatInt (Keep p)) = formatInt (Keep p)"
    using n(2) f(1) by (simp_all add: trimSpace_no_space)
  show "CHR '','' \<notin> set (policyItem p)" using n f by (simp add: policyItem_def)
  have "indexOf (PeriodName p @ ''='' @ formatInt (Keep p)) ''='' = Some (length (PeriodName p))"
    using n(3) by (intro indexOf_append_notin) auto
  then show "cutStr (policyItem p) ''='' = Some (PeriodName p, formatInt (Keep p))"
    by (simp add: cutStr_def policyItem_def)
qed

lemma parseItems_policyItems:
  assumes "distinct (map PeriodName ps)" "\<forall>p\<in>set ps. keep (PeriodName p) = None"
    and "\<forall>p\<in>set ps. PeriodName p \<in> set (map fst sanoidPeriods) \<and> 0 \<le> Keep p \<and> Keep p \<le> maxInt64"
  shows "parseItems (map policyItem ps) keep = Inr (keep ++ map_of (map (\<lambda>p. (PeriodName p, Keep p)) ps))"
  using assms
proof (induction ps arbitrary: keep)
  case (Cons p ps)
  then have p: "PeriodName p \<in> set (map fst sanoidPeriods)" "0 \<le> Keep p" "Keep p \<le> maxInt64"
    "keep (PeriodName p) = None" by simp_all
  note r = policyItem_reads [OF p(1,2)]
  have "parseItems (map policyItem (p # ps)) keep = parseItems (map policyItem ps) (keep(PeriodName p \<mapsto> Keep p))"
    using r p parseInt64_formatInt_nonneg [OF p(2,3)] periodLength_names [of "PeriodName p"] by (simp add: Let_def)
  also have "\<dots> = Inr (keep(PeriodName p \<mapsto> Keep p) ++ map_of (map (\<lambda>p. (PeriodName p, Keep p)) ps))"
    using Cons by (intro Cons.IH) (auto simp: image_iff)
  also have "keep(PeriodName p \<mapsto> Keep p) ++ map_of (map (\<lambda>p. (PeriodName p, Keep p)) ps)
      = keep ++ map_of (map (\<lambda>p. (PeriodName p, Keep p)) (p # ps))"
    using Cons.prems(1) by (auto simp: map_add_def fun_eq_iff map_of_eq_None_iff image_iff split: option.split dest: map_of_SomeD)
  finally show ?case .
qed simp


lemma map_filter_names:
  "map PeriodName (List.map_filter (\<lambda>p. map_option (\<lambda>n. \<lparr>PeriodName = fst p, Keep = n\<rparr>) (keep (fst p))) ps)
     = filter (\<lambda>n. keep n \<noteq> None) (map fst ps)"
  by (induction ps) (auto simp: List.map_filter_def)

lemma ParseSchedule_Inr:
  assumes "ParseSchedule policy = Inr s"
  obtains keep where "countsOK keep" "Periods s \<noteq> []" "s = zeroSchedule\<lparr>Periods := Periods s\<rparr>"
    "Periods s = List.map_filter (\<lambda>p. map_option (\<lambda>n. \<lparr>PeriodName = fst p, Keep = n\<rparr>) (keep (fst p))) sanoidPeriods"
proof -
  have "countsOK Map.empty" by (simp add: countsOK_def)
  then show thesis
    using assms that parseItems_countsOK by (auto simp: ParseSchedule_def Let_def split: sum.splits if_splits)
qed

lemma ParseSchedule_wf: "ParseSchedule policy = Inr s \<Longrightarrow> wfSchedule s"
proof (erule ParseSchedule_Inr)
  fix keep
  assume ok: "countsOK keep"
    and ps: "Periods s = List.map_filter (\<lambda>p. map_option (\<lambda>n. \<lparr>PeriodName = fst p, Keep = n\<rparr>) (keep (fst p))) sanoidPeriods"
  have "distinct (map fst sanoidPeriods)" by (simp add: sanoidPeriods_def)
  then have "distinct (map PeriodName (Periods s))" unfolding ps map_filter_names by (rule distinct_filter)
  moreover have "PeriodName p \<in> set (map fst sanoidPeriods) \<and> 0 \<le> Keep p \<and> Keep p \<le> maxInt64" if "p \<in> set (Periods s)" for p
    using that ok unfolding ps by (force simp: List.map_filter_def countsOK_def)
  ultimately show "wfSchedule s" by (simp add: wfSchedule_def list_all_iff)
qed

lemma map_filter_map_of:
  assumes "distinct (map fst ps)"
    and "qs = List.map_filter (\<lambda>p. map_option (\<lambda>n. \<lparr>PeriodName = fst p, Keep = n\<rparr>) (keep (fst p))) ps"
    and "n \<in> set (map fst ps)"
  shows "map_of (map (\<lambda>p. (PeriodName p, Keep p)) qs) n = keep n"
  using assms
proof (induction ps arbitrary: qs)
  case (Cons p ps)
  let ?f = "\<lambda>p. map_option (\<lambda>n. \<lparr>PeriodName = fst p, Keep = n\<rparr>) (keep (fst p))"
  have notin: "map_of (map (\<lambda>p. (PeriodName p, Keep p)) (List.map_filter ?f ps)) (fst p) = None"
    using Cons.prems(1) by (auto simp: map_of_eq_None_iff List.map_filter_def image_iff)
  show ?case
  proof (cases "n = fst p")
    case True
    then show ?thesis using Cons.prems(2) notin by (cases "keep (fst p)") (simp_all add: List.map_filter_def)
  next
    case False
    then show ?thesis using Cons.IH [OF _ refl] Cons.prems
      by (cases "keep (fst p)") (simp_all add: List.map_filter_def)
  qed
qed simp

text \<open>
  Policies survive printing. A policy that is accepted prints to a text that is read back as
  the same schedule, so \<^verbatim>\<open>plan\<close> can show the policy it simulates.
\<close>

theorem ParseSchedule_String:
  assumes "ParseSchedule policy = Inr s"
  shows "ParseSchedule (Schedule_String s) = Inr s"
proof -
  obtain keep where s: "Periods s \<noteq> []" "s = zeroSchedule\<lparr>Periods := Periods s\<rparr>"
    "Periods s = List.map_filter (\<lambda>p. map_option (\<lambda>n. \<lparr>PeriodName = fst p, Keep = n\<rparr>) (keep (fst p))) sanoidPeriods"
    by (rule ParseSchedule_Inr [OF assms])
  note wf = ParseSchedule_wf [OF assms]
  then have ps: "distinct (map PeriodName (Periods s))"
    "\<forall>p\<in>set (Periods s). PeriodName p \<in> set (map fst sanoidPeriods) \<and> 0 \<le> Keep p \<and> Keep p \<le> maxInt64"
    by (simp_all add: wfSchedule_def list_all_iff)
  have "splitOn (Schedule_String s) '','' = map policyItem (Periods s)"
    unfolding Schedule_String_def policyItem_def [symmetric]
    using ps(2) s(1) policyItem_reads(6)
    by (intro splitOn_joinWith [of "\<lambda>c. c \<noteq> CHR '',''"]) (auto simp: list_all_iff)
  moreover have "parseItems (map policyItem (Periods s)) Map.empty
      = Inr (map_of (map (\<lambda>p. (PeriodName p, Keep p)) (Periods s)))"
    using parseItems_policyItems [OF ps(1) _ ps(2), of Map.empty] by simp
  moreover have "List.map_filter (\<lambda>p. map_option (\<lambda>n. \<lparr>PeriodName = fst p, Keep = n\<rparr>)
      (map_of (map (\<lambda>p. (PeriodName p, Keep p)) (Periods s)) (fst p))) sanoidPeriods = Periods s"
  proof -
    have "distinct (map fst sanoidPeriods)" by (simp add: sanoidPeriods_def)
    then have "map_of (map (\<lambda>p. (PeriodName p, Keep p)) (Periods s)) (fst p) = keep (fst p)"
      if "p \<in> set sanoidPeriods" for p
      using map_filter_map_of [OF _ s(3)] that by simp
    then have "List.map_filter (\<lambda>p. map_option (\<lambda>n. \<lparr>PeriodName = fst p, Keep = n\<rparr>)
        (map_of (map (\<lambda>p. (PeriodName p, Keep p)) (Periods s)) (fst p))) sanoidPeriods
      = List.map_filter (\<lambda>p. map_option (\<lambda>n. \<lparr>PeriodName = fst p, Keep = n\<rparr>) (keep (fst p))) sanoidPeriods"
      by (auto simp: List.map_filter_def intro!: arg_cong [of _ _ "map _"] filter_cong map_cong)
    then show ?thesis using s(3) by simp
  qed
  ultimately show ?thesis using s(1,2) by (simp add: ParseSchedule_def)
qed

section \<open>The properties at concrete inputs\<close>

definition exSchedule :: Schedule where
  "exSchedule = zeroSchedule\<lparr>Periods := [\<lparr>PeriodName = ''hourly'', Keep = 1\<rparr>]\<rparr>"

definition exAuto :: "int \<Rightarrow> SnapshotInfo" where
  "exAuto h = zeroSnapshot\<lparr>Name := ''autosnap_'' @ formatInt h @ ''_hourly'', CreationTime := h * hour\<rparr>"

lemma exSchedule_parses: "ParseSchedule ''hourly= 1, '' = Inr exSchedule"
proof -
  have "splitOn ''hourly= 1, '' '','' = [''hourly= 1'', '' '']" "trimSpace ''hourly= 1'' = ''hourly= 1''"
    "trimSpace '' '' = []" "cutStr ''hourly= 1'' ''='' = Some (''hourly'', '' 1'')"
    "trimSpace ''hourly'' = ''hourly''" "trimSpace '' 1'' = ''1''" "formatInt 1 = ''1''"
    "periodLength ''hourly'' \<noteq> 0"
    by code_simp+
  moreover have "parseInt64 (formatInt 1) = Some 1" by (rule parseInt64_formatInt_nonneg) (simp_all add: maxInt64_def)
  ultimately show ?thesis
    by (simp add: ParseSchedule_def exSchedule_def Let_def sanoidPeriods_def List.map_filter_def)
qed

theorem ParseSchedule_String_witness:
  "ParseSchedule ''hourly= 1, '' = Inr exSchedule \<and> ParseSchedule (Schedule_String exSchedule) = Inr exSchedule"
  using exSchedule_parses ParseSchedule_String [OF exSchedule_parses] by simp

theorem prune_retention_witness:
  "filter (\<lambda>x. ofPeriod x \<lparr>PeriodName = ''hourly'', Keep = 1\<rparr>) (prune exSchedule [exAuto 3, exAuto 1] (3 * hour))
    = [exAuto 3]"
proof -
  have wf: "wfSchedule exSchedule" by (rule ParseSchedule_wf [OF exSchedule_parses])
  have p: "\<lparr>PeriodName = ''hourly'', Keep = 1\<rparr> \<in> set (Periods exSchedule)" by (simp add: exSchedule_def)
  have sorted: "newestFirst [exAuto 3, exAuto 1]" by (simp add: exAuto_def hour_def minute_def second_def)
  have "filter (\<lambda>x. ofPeriod x \<lparr>PeriodName = ''hourly'', Keep = 1\<rparr>) [exAuto 3, exAuto 1] = [exAuto 3, exAuto 1]"
    "CreationTime (exAuto 1) < pruneExpiry \<lparr>PeriodName = ''hourly'', Keep = 1\<rparr> (3 * hour)"
    by code_simp+
  then show ?thesis using prune_retention [OF wf p sorted, of "3 * hour"] by simp
qed

theorem Advance_returns_witness:
  "\<exists>pool taken. Advance exSchedule [exAuto 1] (hour + 1) (2 * hour) = Some (pool, taken)"
  by (rule Advance_returns) (simp add: exSchedule_def zeroSchedule_def Schedule_location_def)

theorem Advance_pool_witness:
  "\<exists>pool taken. Advance exSchedule [exAuto 1] (hour + 1) (2 * hour) = Some (pool, taken) \<and> newestFirst pool"
proof -
  have "Schedule_location exSchedule = utcLoc" by (simp add: exSchedule_def zeroSchedule_def Schedule_location_def)
  then obtain bs where "collectBoundaries exSchedule (hour + 1) (2 * hour) (tieOrderOrDefault exSchedule) [] = Some bs"
    using collectBoundaries_ends by blast
  then obtain pool taken where "Advance exSchedule [exAuto 1] (hour + 1) (2 * hour) = Some (pool, taken)"
    by (simp add: Advance_def Let_def)
  then show ?thesis using Advance_pool by blast
qed

end
