(* ===== verification/Simulator.thy ===== *)
theory Simulator
  imports PlannerProperties Schedule
begin

text \<open>
  The simulator of \<^verbatim>\<open>backup/plan.go\<close> (\<^verbatim>\<open>Scenario.Run\<close>): a sequence of smart runs over time, in
  which the schedule takes and prunes snapshots and every backup sent is recorded at every
  destination. The host's zone and clock are the parameter \<open>env\<close>. A run that would never end is
  \<open>None\<close>.
\<close>

section \<open>Scenarios\<close>

record TimeRange =
  RangeFrom :: time
  RangeUntil :: time

datatype adoption_warning =
    DestinationsDisagree string "time list"
  | NotWithinWindow string time time

record Scenario =
  Volume :: string
  ScenarioJob :: JobInfo
  Snapshots :: "SnapshotInfo list"
  DestBackups :: "Manifest list list"
  CaptureDataset :: string
  NameDated :: "string list"
  AdoptionWarnings :: "adoption_warning list"
  Completable :: bool
  Location :: "location option"
  ScenarioSchedule :: "Schedule option"
  From :: time
  Until :: time
  Every :: duration
  Skips :: "TimeRange list"
  Checks :: "string list"
  ScenarioNow :: time

record environment =
  HostZone :: location
  WallClock :: time

record Step =
  At :: time
  StepSnapshots :: "SnapshotInfo list"
  StepPlan :: Plan
  Err :: "plan_error option"

record Simulation =
  SimScenario :: Scenario
  Steps :: "Step list"
  Initial :: "Manifest list list"
  Manifests :: "Manifest list list"
  Created :: "SnapshotInfo list"

definition Scenario_location :: "environment \<Rightarrow> Scenario \<Rightarrow> location" where
  "Scenario_location env s = (case Location s of None \<Rightarrow> HostZone env | Some loc \<Rightarrow> loc)"

definition skipped :: "Scenario \<Rightarrow> time \<Rightarrow> bool" where
  "skipped s at = list_ex (\<lambda>r. \<not> at < RangeFrom r \<and> at < RangeUntil r) (Skips s)"

definition backedUp :: "Manifest list list \<Rightarrow> SnapshotInfo \<Rightarrow> bool" where
  "backedUp dest snap =
     list_ex (list_ex (\<lambda>m. SnapshotInfo_Equal (BaseSnapshot m) snap \<or> SnapshotInfo_Equal (IncrementalSnapshot m) snap)) dest"

definition visibleAt :: "SnapshotInfo list \<Rightarrow> time \<Rightarrow> Manifest list list \<Rightarrow> SnapshotInfo list" where
  "visibleAt snapshots at dest =
     (let i = length (takeWhile (\<lambda>s. CreationTime s > at) snapshots)
      in if i = 0 then snapshots
         else filter (backedUp dest) (take i snapshots) @ drop i snapshots)"

definition Scenario_Clock :: "environment \<Rightarrow> Scenario \<Rightarrow> time \<Rightarrow> time" where
  "Scenario_Clock env s at =
     (let now = (if isZero (ScenarioNow s) then WallClock env else ScenarioNow s)
      in if at > now then at else now)"

definition manifestFor :: "string \<Rightarrow> Plan \<Rightarrow> Manifest" where
  "manifestFor volume p =
     (let m = zeroManifest\<lparr>VolumeName := volume, BaseSnapshot := Base p\<rparr>
      in if Action p = PlanIncremental then m\<lparr>IncrementalSnapshot := Source p\<rparr> else m)"

definition every :: "Scenario \<Rightarrow> duration" where
  "every s = (if Every s \<le> 0 then 24 * hour else Every s)"

definition firstRun :: "Scenario \<Rightarrow> time" where
  "firstRun s =
     (if \<not> isZero (From s) then From s
      else case Snapshots s of newest # _ \<Rightarrow> CreationTime newest + hour | [] \<Rightarrow> Until s)"

text \<open>\<^verbatim>\<open>wallClock\<close>: \<^verbatim>\<open>time.Date\<close>, but after the jump for a time the clocks skip.\<close>

definition wallClock :: "location \<Rightarrow> int \<Rightarrow> int \<Rightarrow> int \<Rightarrow> int \<Rightarrow> int \<Rightarrow> int \<Rightarrow> int \<Rightarrow> time" where
  "wallClock loc y mo d h mi s ns =
     (let t = goDate loc y mo d h mi s ns;
          want = goDate utcLoc y mo d h mi s ns;
          c = inLocation loc t;
          got = goDate utcLoc (Year c) (Month c) (Day c) (Hour c) (Minute c) (Second c) (Nanosecond c)
      in if got < want then t + time_sub want got else t)"

definition nextRun :: "environment \<Rightarrow> Scenario \<Rightarrow> time \<Rightarrow> time" where
  "nextRun env s at =
     (let ev = every s
      in if ev mod (24 * hour) \<noteq> 0 then at + ev
         else let first = firstRun s;
                  c = inLocation (Scenario_location env s) first;
                  days = goQuot (wrap64 (time_sub at first + 12 * hour)) (24 * hour) + goQuot ev (24 * hour)
              in wallClock (Scenario_location env s) (Year c) (Month c) (Day c + days)
                   (Hour c) (Minute c) (Second c) (Nanosecond c))"

section \<open>Recording a backup\<close>

definition addManifest :: "Manifest list \<Rightarrow> Manifest \<Rightarrow> Manifest list" where
  "addManifest manifests m =
     (let out = filter (\<lambda>e. Name (BaseSnapshot e) \<noteq> Name (BaseSnapshot m)
                          \<or> Name (IncrementalSnapshot e) \<noteq> Name (IncrementalSnapshot m)) manifests;
          i = length (takeWhile (\<lambda>e. \<not> CreationTime (BaseSnapshot e) < CreationTime (BaseSnapshot m)) out)
      in take i out @ m # drop i out)"

text \<open>\<^verbatim>\<open>Scenario.run\<close>: plan one run and record what it sends; the new destinations are returned too.\<close>

definition runJob :: "Scenario \<Rightarrow> JobInfo" where
  "runJob s =
     (let j = ScenarioJob s
      in zeroJobInfo\<lparr>VolumeName := Volume s, Full := Full j, Incremental := Incremental j,
           FullIfOlderThan := FullIfOlderThan j, SnapshotPrefix := SnapshotPrefix j,
           FullSnapshotSuffix := FullSnapshotSuffix j, IncrementalSnapshotSuffix := IncrementalSnapshotSuffix j,
           Resume := Resume j, Raw := Raw j, Replication := Replication j, Properties := Properties j,
           Deduplication := Deduplication j, IntermediaryIncremental := IntermediaryIncremental j\<rparr>)"

definition Scenario_run ::
    "environment \<Rightarrow> Scenario \<Rightarrow> time \<Rightarrow> SnapshotInfo list \<Rightarrow> Manifest list list \<Rightarrow> Step \<times> Manifest list list" where
  "Scenario_run env s at snapshots dest =
     (let jobInfo = runJob s;
          (p, err) = planSmartAt (Scenario_Clock env s at) jobInfo snapshots dest (Completable s);
          dest' = (if err = None \<and> Action p \<noteq> PlanNoop
                   then map (\<lambda>d. addManifest d ((manifestFor (Volume s) p)\<lparr>Raw := Raw jobInfo\<rparr>)) dest
                   else dest)
      in (\<lparr>At = at, StepSnapshots = snapshots, StepPlan = p, Err = err\<rparr>, dest'))"

section \<open>Running a scenario\<close>

text \<open>\<^verbatim>\<open>record\<close>: the snapshots not known yet, oldest first.\<close>

fun recordNew :: "SnapshotInfo list \<Rightarrow> string list \<Rightarrow> SnapshotInfo list \<Rightarrow> string list \<times> SnapshotInfo list" where
  "recordNew [] known created = (known, created)"
| "recordNew (snap # snaps) known created =
     (if snapshotID snap \<in> set known then recordNew snaps known created
      else recordNew snaps (snapshotID snap # known) (created @ [snap]))"

definition recordSnapshots ::
    "SnapshotInfo list \<Rightarrow> string list \<times> SnapshotInfo list \<Rightarrow> string list \<times> SnapshotInfo list" where
  "recordSnapshots snapshots st = recordNew (rev snapshots) (fst st) (snd st)"

record runState =
  rsPool :: "SnapshotInfo list"
  rsTaken :: time
  rsDest :: "Manifest list list"
  rsSteps :: "Step list"
  rsRecorded :: "string list \<times> SnapshotInfo list"

text \<open>The body of the loop of \<^verbatim>\<open>Run\<close>, for the run at \<open>at\<close>.\<close>

definition runSchedule :: "Scenario \<Rightarrow> time \<Rightarrow> runState \<Rightarrow> runState option" where
  "runSchedule s at st =
     (case ScenarioSchedule s of
        None \<Rightarrow> Some st
      | Some sched \<Rightarrow>
          (case Advance sched (rsPool st) (rsTaken st) at of
             None \<Rightarrow> None
           | Some (pool, took) \<Rightarrow>
               Some (st\<lparr>rsPool := pool, rsRecorded := recordSnapshots took (rsRecorded st),
                      rsTaken := (if at > rsTaken st then at else rsTaken st)\<rparr>)))"

definition runAt :: "environment \<Rightarrow> Scenario \<Rightarrow> time \<Rightarrow> runState \<Rightarrow> runState" where
  "runAt env s at st =
     (if skipped s at then st
      else let (step, dest') = Scenario_run env s at (visibleAt (rsPool st) at (rsDest st)) (rsDest st)
           in st\<lparr>rsSteps := rsSteps st @ [step], rsDest := dest'\<rparr>)"

partial_function (option) runLoop :: "environment \<Rightarrow> Scenario \<Rightarrow> time \<Rightarrow> runState \<Rightarrow> runState option" where
  "runLoop env s at st =
     (if at > Until s then Some st
      else Option.bind (runSchedule s at st) (\<lambda>st'. runLoop env s (nextRun env s at) (runAt env s at st')))"

declare runLoop.simps [code]

definition startState :: "Scenario \<Rightarrow> runState" where
  "startState s =
     \<lparr>rsPool = Snapshots s,
      rsTaken = (case Snapshots s of newest # _ \<Rightarrow> CreationTime newest | [] \<Rightarrow> From s),
      rsDest = DestBackups s, rsSteps = [], rsRecorded = recordSnapshots (Snapshots s) ([], [])\<rparr>"

definition Run :: "environment \<Rightarrow> Scenario \<Rightarrow> Simulation option" where
  "Run env s =
     (let st = startState s;
          finish = (\<lambda>st. \<lparr>SimScenario = s, Steps = rsSteps st, Initial = DestBackups s,
                     Manifests = rsDest st, Created = snd (rsRecorded st)\<rparr>)
      in if isZero (Until s)
         then let (step, dest') = Scenario_run env s zeroTime (rsPool st) (rsDest st)
              in Some (finish (st\<lparr>rsSteps := [step], rsDest := dest'\<rparr>))
         else map_option finish (runLoop env s (firstRun s) st))"

section \<open>Recording a backup keeps chains restorable\<close>

lemma set_addManifest:
  "set (addManifest d m) = insert m {e \<in> set d. Name (BaseSnapshot e) \<noteq> Name (BaseSnapshot m)
      \<or> Name (IncrementalSnapshot e) \<noteq> Name (IncrementalSnapshot m)}"
proof -
  have "set (take i out @ m # drop i out) = insert m (set out)" for i and out :: "Manifest list"
    using append_take_drop_id [of i out] by (metis list.set(2) set_append Un_insert_right)
  then show ?thesis by (simp add: addManifest_def Let_def)
qed

lemma sorted_wrt_insert_mid:
  "sorted_wrt R (xs @ ys) \<Longrightarrow> (\<And>x. x \<in> set xs \<Longrightarrow> R x m) \<Longrightarrow> (\<And>y. y \<in> set ys \<Longrightarrow> R m y) \<Longrightarrow>
     sorted_wrt R (xs @ m # ys)"
  by (auto simp: sorted_wrt_append)

lemma dropWhile_sorted:
  "sorted_wrt R xs \<Longrightarrow> (\<And>x y. R x y \<Longrightarrow> \<not> Q x \<Longrightarrow> \<not> Q y) \<Longrightarrow> x \<in> set (dropWhile Q xs) \<Longrightarrow> \<not> Q x"
  by (induction xs) (auto split: if_splits)

lemma sorted_insert:
  fixes f :: "'a \<Rightarrow> int"
  assumes "sorted_wrt (\<lambda>a b. f a \<ge> f b) xs"
  shows "sorted_wrt (\<lambda>a b. f a \<ge> f b)
    (take (length (takeWhile (\<lambda>e. \<not> f e < f m) xs)) xs @ m # drop (length (takeWhile (\<lambda>e. \<not> f e < f m) xs)) xs)"
  unfolding takeWhile_eq_take [symmetric] dropWhile_eq_drop [symmetric]
proof (rule sorted_wrt_insert_mid)
  show "sorted_wrt (\<lambda>a b. f a \<ge> f b) (takeWhile (\<lambda>e. \<not> f e < f m) xs @ dropWhile (\<lambda>e. \<not> f e < f m) xs)"
    using assms by simp
  show "f x \<ge> f m" if "x \<in> set (takeWhile (\<lambda>e. \<not> f e < f m) xs)" for x
    using set_takeWhileD [OF that] by simp
  show "f m \<ge> f x" if "x \<in> set (dropWhile (\<lambda>e. \<not> f e < f m) xs)" for x
    using dropWhile_sorted [OF assms _ that] by fastforce
qed

lemma addManifest_newestFirst:
  assumes "backupsNewestFirst d"
  shows "backupsNewestFirst (addManifest d m)"
  unfolding addManifest_def Let_def by (rule sorted_insert) (rule sorted_wrt_filter [OF assms])

definition allRestorable :: "Manifest list \<Rightarrow> bool" where
  "allRestorable d \<longleftrightarrow> (\<forall>m\<in>set d. restorable d m)"

text \<open>Names identify the snapshots of a destination's backups: the dates are a function of them.\<close>

definition dated :: "(string \<Rightarrow> time) \<Rightarrow> Manifest list \<Rightarrow> bool" where
  "dated dateOf d \<longleftrightarrow> (\<forall>m\<in>set d. CreationTime (BaseSnapshot m) = dateOf (Name (BaseSnapshot m)))"

lemma dated_Equal:
  assumes "dated dateOf d" "m \<in> set d" "CreationTime s = dateOf (Name s)" "Name (BaseSnapshot m) = Name s"
  shows "SnapshotInfo_Equal (BaseSnapshot m) s"
  using assms by (simp add: dated_def SnapshotInfo_Equal_def)

lemma parentOf_filter: "parentOf ms s = parentOf (filter (\<lambda>e. SnapshotInfo_Equal (BaseSnapshot e) s) ms) s"
proof -
  have "parentOfLoop ms s q = parentOfLoop (filter (\<lambda>e. SnapshotInfo_Equal (BaseSnapshot e) s) ms) s q" for q
    by (induction ms arbitrary: q) simp_all
  then show ?thesis by (simp add: parentOf_def)
qed

lemma addManifest_filter_other:
  assumes "\<not> P x"
    and "\<And>e. e \<in> set d \<Longrightarrow> P e \<Longrightarrow> Name (BaseSnapshot e) \<noteq> Name (BaseSnapshot x)
      \<or> Name (IncrementalSnapshot e) \<noteq> Name (IncrementalSnapshot x)"
  shows "filter P (addManifest d x) = filter P d"
proof -
  have "filter P (take i out @ x # drop i out) = filter P out" for i out
    using assms(1) filter_append [of P "take i out" "drop i out"] by simp
  then have "filter P (addManifest d x) = filter P (filter (\<lambda>e. Name (BaseSnapshot e) \<noteq> Name (BaseSnapshot x)
      \<or> Name (IncrementalSnapshot e) \<noteq> Name (IncrementalSnapshot x)) d)"
    by (simp only: addManifest_def Let_def)
  also have "\<dots> = filter P d" using assms(2) by (auto intro!: filter_cong)
  finally show ?thesis .
qed

text \<open>A backup restores if its parent, as any list of the same backups finds it, does.\<close>

lemma restorable_parent_ex:
  assumes "\<not> isFull m" and "\<exists>p\<in>set d. SnapshotInfo_Equal (BaseSnapshot p) (IncrementalSnapshot m)"
    and "\<forall>p\<in>set d. SnapshotInfo_Equal (BaseSnapshot p) (IncrementalSnapshot m) \<longrightarrow> restorable d p"
  shows "restorable d m"
proof -
  obtain p where "parentOf d (IncrementalSnapshot m) = Some p"
    using assms(2) parentOf_None by (cases "parentOf d (IncrementalSnapshot m)") auto
  then show ?thesis using assms(1,3) parentOf_Some [of d] by (blast intro: restorable.incr)
qed

text \<open>Recording a full, or an incremental of a snapshot with no backup yet, onto a restorable chain.\<close>

lemma restorable_add:
  assumes "restorable d m" and "dated dateOf d" and "CreationTime (BaseSnapshot x) = dateOf (Name (BaseSnapshot x))"
    and "isFull x \<or> (\<forall>e\<in>set d. Name (BaseSnapshot e) \<noteq> Name (BaseSnapshot x))"
  shows "restorable (addManifest d x) m"
  using assms(1)
proof (induction rule: restorable.induct)
  case (full m)
  then show ?case by (rule restorable.full)
next
  case (incr m p)
  note p = parentOf_Some [OF incr(2)]
  let ?s = "IncrementalSnapshot m" and ?d = "addManifest d x"
  show ?case
  proof (cases "SnapshotInfo_Equal (BaseSnapshot x) ?s")
    case True
    then have "Name (BaseSnapshot p) = Name (BaseSnapshot x)" using p(2) by (simp add: SnapshotInfo_Equal_def)
    then have full: "isFull x" using assms(4) p(1) by blast
    obtain q where q: "parentOf ?d ?s = Some q"
      using True parentOf_None [of ?d ?s] set_addManifest [of d x] by (cases "parentOf ?d ?s") auto
    then have "isFull q" using parentOf_prefers_full [OF q, of x] True full set_addManifest [of d x] by auto
    then show ?thesis using incr(1) q by (blast intro: restorable.full restorable.incr)
  next
    case False
    have keep: "e \<in> set ?d \<longleftrightarrow> e \<in> set d" if "SnapshotInfo_Equal (BaseSnapshot e) ?s" for e
    proof -
      have "Name (BaseSnapshot e) \<noteq> Name (BaseSnapshot x)" if "e \<in> set d"
        using dated_Equal [OF assms(2) that assms(3)] False \<open>SnapshotInfo_Equal (BaseSnapshot e) ?s\<close>
        by (auto simp: SnapshotInfo_Equal_def)
      then show ?thesis using False that by (auto simp: set_addManifest)
    qed
    have "parentOf ?d ?s = parentOf d ?s"
    proof -
      have out: "filter (\<lambda>e. SnapshotInfo_Equal (BaseSnapshot e) ?s) ?d = filter (\<lambda>e. SnapshotInfo_Equal (BaseSnapshot e) ?s) d"
        by (rule addManifest_filter_other) (use False keep in \<open>auto simp: set_addManifest\<close>)
      then show ?thesis using parentOf_filter [of ?d ?s] parentOf_filter [of d ?s] by simp
    qed
    then show ?thesis using incr by (simp add: restorable.incr)
  qed
qed


lemma addManifest_allRestorable:
  assumes "allRestorable d" and "dated dateOf d" and "CreationTime (BaseSnapshot x) = dateOf (Name (BaseSnapshot x))"
    and "isFull x \<or> (\<forall>e\<in>set d. Name (BaseSnapshot e) \<noteq> Name (BaseSnapshot x))
           \<and> (\<exists>e\<in>set d. SnapshotInfo_Equal (BaseSnapshot e) (IncrementalSnapshot x))"
  shows "allRestorable (addManifest d x)"
proof -
  have old: "restorable (addManifest d x) m" if "m \<in> set d" for m
    using restorable_add [OF _ assms(2,3)] assms(1,4) that by (auto simp: allRestorable_def)
  have "restorable (addManifest d x) x"
  proof (cases "isFull x")
    case True
    then show ?thesis by (rule restorable.full)
  next
    case False
    then obtain e where fresh: "\<forall>e\<in>set d. Name (BaseSnapshot e) \<noteq> Name (BaseSnapshot x)"
        and e: "e \<in> set d" "SnapshotInfo_Equal (BaseSnapshot e) (IncrementalSnapshot x)" using assms(4) by blast
    have "\<not> SnapshotInfo_Equal (BaseSnapshot x) (IncrementalSnapshot x)"
      using fresh e by (auto simp: SnapshotInfo_Equal_def)
    then show ?thesis using False fresh e old by (intro restorable_parent_ex) (auto simp: set_addManifest)
  qed
  then show ?thesis using old by (auto simp: allRestorable_def set_addManifest)
qed

lemma addManifest_dated:
  "dated dateOf d \<Longrightarrow> CreationTime (BaseSnapshot x) = dateOf (Name (BaseSnapshot x)) \<Longrightarrow> dated dateOf (addManifest d x)"
  by (auto simp: dated_def set_addManifest)

section \<open>A simulated run\<close>

text \<open>What a destination keeps through a simulation.\<close>

definition goodDest :: "(string \<Rightarrow> time) \<Rightarrow> Manifest list \<Rightarrow> bool" where
  "goodDest dateOf d \<longleftrightarrow> backupsNewestFirst d \<and> allRestorable d \<and> dated dateOf d"

definition datedPool :: "(string \<Rightarrow> time) \<Rightarrow> SnapshotInfo list \<Rightarrow> bool" where
  "datedPool dateOf snaps \<longleftrightarrow> (\<forall>s\<in>set snaps. CreationTime s = dateOf (Name s))"

lemma manifestFor_fields [simp]:
  "BaseSnapshot (manifestFor v p) = Base p"
  "IncrementalSnapshot (manifestFor v p) = (if Action p = PlanIncremental then Source p else zeroSnapshot)"
  by (simp_all add: manifestFor_def zeroManifest_def Let_def)

lemma Name_zeroSnapshot [simp]: "Name zeroSnapshot = []"
  by (simp add: zeroSnapshot_def)

lemma runJob_fields [simp]:
  "Full (runJob s) = Full (ScenarioJob s)" "Incremental (runJob s) = Incremental (ScenarioJob s)"
  "FullIfOlderThan (runJob s) = FullIfOlderThan (ScenarioJob s)" "Raw (runJob s) = Raw (ScenarioJob s)"
  "Replication (runJob s) = Replication (ScenarioJob s)"
  "IntermediaryIncremental (runJob s) = IntermediaryIncremental (ScenarioJob s)"
  "SnapshotPrefix (runJob s) = SnapshotPrefix (ScenarioJob s)"
  "IncrementalSnapshotSuffix (runJob s) = IncrementalSnapshotSuffix (ScenarioJob s)"
  by (simp_all add: runJob_def Let_def)

lemma needsSnapshotSource_runJob [simp]: "needsSnapshotSource (runJob s) = needsSnapshotSource (ScenarioJob s)"
  by (simp add: needsSnapshotSource_def)

lemma ValidateSmartOptions_runJob [simp]: "ValidateSmartOptions (runJob s) = ValidateSmartOptions (ScenarioJob s)"
  by (simp add: ValidateSmartOptions_def)

text \<open>The plan behind \<open>planSmartAt\<close>: the kept snapshots and backups.\<close>

lemma planSmartAt_ok:
  assumes "planSmartAt now j snaps ds c = (p, None)"
  obtains q where "planSmart j (filter (\<lambda>s. \<not> CreationTime s > now + futureSlack) snaps)
      (map (filter (\<lambda>m. \<not> CreationTime (BaseSnapshot m) > now + futureSlack)) ds) c = (q, None)"
    "Base p = Base q" "Action p = Action q" "Reason p = Reason q" "Source p = Source q"
  using assms by (auto simp: planSmartAt_def dropFutureDated_def Let_def split: prod.splits)

lemma planSmart_partial_only_completable:
  assumes "planSmart j snaps ds False = (p, None)" shows "Reason p \<noteq> reasonCompletePartial"
  using assms
proof (cases rule: planSmart_okE)
  case full
  then show ?thesis using planExplicitFull_ok [OF full(3)] by auto
next
  case incremental
  then show ?thesis by (auto simp: planExplicitIncremental_def split: option.splits list.splits if_splits)
next
  case older
  then show ?thesis
    by (auto simp: planFullIfOlderThan_def planNextIncremental_def Let_def
        split: option.splits list.splits if_splits prod.splits)
qed simp

end
