(* ===== verification/Checks.thy ===== *)
theory Checks
  imports Simulator
begin

text \<open>
  The checks of \<^verbatim>\<open>backup/plan_checks.go\<close> on a simulation. A violation's text is a value that holds
  what the text is made from; comparing two texts is comparing these values.
\<close>

section \<open>Violations\<close>

datatype violation_detail =
    PlanFailed plan_error nat time
  | CannotRestore nat SnapshotInfo SnapshotInfo
  | SourceNotOnPool SnapshotInfo SnapshotInfo
  | Resends nat SnapshotInfo SnapshotInfo "SnapshotInfo \<times> SnapshotInfo \<times> time option"
  | SkipsFull SnapshotInfo SnapshotInfo SnapshotInfo time
  | FullOffCadence string string duration string string string
  | NoFullSince string string string string
  | TooDeep string nat int
  | BaseOfSeveral nat string nat
  | NeverBackedUp nat string
  | WrongSuffix nat SnapshotInfo SnapshotInfo string time

record Violation =
  CheckName :: string
  ViolationAt :: time
  Detail :: violation_detail

definition violation :: "string \<Rightarrow> time \<Rightarrow> violation_detail \<Rightarrow> Violation" where
  "violation name at d = \<lparr>CheckName = name, ViolationAt = at, Detail = d\<rparr>"

definition sameOutcome :: "Step \<Rightarrow> Step \<Rightarrow> bool" where
  "sameOutcome a b =
     (if Warnings (StepPlan a) \<noteq> Warnings (StepPlan b) then False
      else if Err a \<noteq> None \<or> Err b \<noteq> None then Err a = Err b
      else Action (StepPlan a) = PlanNoop \<and> Action (StepPlan b) = PlanNoop
         \<and> Reason (StepPlan a) = Reason (StepPlan b) \<and> FullDue (StepPlan a) = FullDue (StepPlan b))"

text \<open>Consecutive steps that continue the first one are one group.\<close>

function groupSteps :: "(Step \<Rightarrow> bool) \<Rightarrow> (Step \<Rightarrow> Step \<Rightarrow> bool) \<Rightarrow> (Step list \<Rightarrow> Violation) \<Rightarrow> Step list \<Rightarrow> Violation list" where
  "groupSteps starts continues report [] = []"
| "groupSteps starts continues report (st # rest) =
     (if \<not> starts st then groupSteps starts continues report rest
      else let more = takeWhile (\<lambda>x. continues x st) rest
           in report (st # more) # groupSteps starts continues report (drop (length more) rest))"
  by pat_completeness auto
termination
  by (relation "measure (\<lambda>(_, _, _, steps). length steps)") (auto simp: Let_def)

definition checkNoErrors :: "Simulation \<Rightarrow> Violation list" where
  "checkNoErrors sim =
     groupSteps (\<lambda>st. Err st \<noteq> None) sameOutcome
       (\<lambda>g. violation ''no-errors'' (At (hd g)) (PlanFailed (the (Err (hd g))) (length g) (At (last g))))
       (Steps sim)"

section \<open>Chains and sources\<close>

definition sentAt :: "Simulation \<Rightarrow> Manifest \<Rightarrow> time" where
  "sentAt sim m =
     foldl (\<lambda>at st.
        if Err st = None \<and> Action (StepPlan st) \<noteq> PlanNoop then
          (let sent = manifestFor [] (StepPlan st)
           in if Name (BaseSnapshot sent) = Name (BaseSnapshot m)
                 \<and> Name (IncrementalSnapshot sent) = Name (IncrementalSnapshot m)
              then At st else at)
        else at) zeroTime (Steps sim)"

definition checkChainLinks :: "Simulation \<Rightarrow> Violation list" where
  "checkChainLinks sim =
     concat (map (\<lambda>(d, manifests).
        map (\<lambda>m. violation ''chain-links'' (sentAt sim m) (CannotRestore d (BaseSnapshot m) (IncrementalSnapshot m)))
          (filter (\<lambda>m. \<not> (isFull m \<or> parentOf manifests (IncrementalSnapshot m) \<noteq> None)) (rev manifests)))
       (enumerate 0 (Manifests sim)))"

definition checkSourcePresent :: "Simulation \<Rightarrow> Violation list" where
  "checkSourcePresent sim =
     (let bookmarks = (\<not> needsSnapshotSource (ScenarioJob (SimScenario sim)))
      in map (\<lambda>st. violation ''source-present'' (At st) (SourceNotOnPool (Base (StepPlan st)) (Source (StepPlan st))))
           (filter (\<lambda>st. \<not> (Err st \<noteq> None \<or> Action (StepPlan st) \<noteq> PlanIncremental)
                       \<and> \<not> fst (validateSnapShotExistsFromSnaps (Source (StepPlan st)) (StepSnapshots st) bookmarks))
             (Steps sim)))"

section \<open>Duplicates and orphans\<close>

text \<open>Per destination, the snapshots backed up so far and by which backup.\<close>

type_synonym backed_up = "string \<rightharpoonup> SnapshotInfo \<times> SnapshotInfo \<times> time option"

definition initialBackedUp :: "Manifest list \<Rightarrow> backed_up" where
  "initialBackedUp dest =
     foldl (\<lambda>b m. b(snapshotID (BaseSnapshot m) \<mapsto> (BaseSnapshot m, IncrementalSnapshot m, None))) Map.empty dest"

definition duplicateAt :: "Step \<Rightarrow> nat \<times> backed_up \<Rightarrow> Violation list \<times> backed_up" where
  "duplicateAt st db =
     (let (d, backed) = db;
          m = manifestFor [] (StepPlan st);
          sid = snapshotID (BaseSnapshot m);
          sent = (BaseSnapshot m, IncrementalSnapshot m, Some (At st))
      in case backed sid of
           Some earlier \<Rightarrow>
             if Reason (StepPlan st) \<noteq> reasonExplicitFull
             then ([violation ''no-duplicate-send'' (At st)
                      (Resends d (BaseSnapshot m) (IncrementalSnapshot m) earlier)], backed)
             else ([], backed(sid \<mapsto> sent))
         | None \<Rightarrow> ([], backed(sid \<mapsto> sent)))"

fun duplicateSteps :: "Step list \<Rightarrow> backed_up list \<Rightarrow> Violation list" where
  "duplicateSteps [] bs = []"
| "duplicateSteps (st # steps) bs =
     (if Err st \<noteq> None \<or> Action (StepPlan st) = PlanNoop \<or> Reason (StepPlan st) = reasonCompletePartial
      then duplicateSteps steps bs
      else let rs = map (duplicateAt st) (enumerate 0 bs)
           in concat (map fst rs) @ duplicateSteps steps (map snd rs))"

definition checkNoDuplicateSend :: "Simulation \<Rightarrow> Violation list" where
  "checkNoDuplicateSend sim = duplicateSteps (Steps sim) (map initialBackedUp (Initial sim))"

fun orphanSteps :: "Step list \<Rightarrow> Step option \<Rightarrow> Violation list" where
  "orphanSteps [] full = []"
| "orphanSteps (st # steps) full =
     (if Err st \<noteq> None \<or> Action (StepPlan st) = PlanNoop then orphanSteps steps full
      else if Action (StepPlan st) = PlanFull then orphanSteps steps (Some st)
      else (case full of
              Some f \<Rightarrow>
                if \<not> SnapshotInfo_Equal (Source (StepPlan st)) (Base (StepPlan f))
                then [violation ''no-orphan-full'' (At st)
                        (SkipsFull (Base (StepPlan st)) (Source (StepPlan st)) (Base (StepPlan f)) (At f))]
                else []
            | None \<Rightarrow> []) @ orphanSteps steps None)"

definition checkNoOrphanFull :: "Simulation \<Rightarrow> Violation list" where
  "checkNoOrphanFull sim = orphanSteps (Steps sim) None"

section \<open>Cadence and depth\<close>

definition suffixPeriod :: "string \<Rightarrow> string" where
  "suffixPeriod suf = (let name = trimPrefix suf ''_'' in if periodLength name > 0 then name else [])"

definition minSpacing :: "string \<Rightarrow> duration" where
  "minSpacing p =
     (if p = ''monthly'' then 28 * 24 * hour
      else if p = ''yearly'' then 365 * 24 * hour
      else periodLength p)"

definition fullSlack :: "Simulation \<Rightarrow> duration" where
  "fullSlack sim =
     (let sc = SimScenario sim;
          slack0 = periodLength (suffixPeriod (FullSnapshotSuffix (ScenarioJob sc)));
          slack = (case ScenarioSchedule sc of
                     Some sched \<Rightarrow>
                       if slack0 = 0 \<and> Periods sched \<noteq> [] then periodLength (PeriodName (hd (Periods sched))) else slack0
                   | None \<Rightarrow> slack0)
      in if \<not> isZero (Until sc) then wrap64 (slack + every sc) else slack)"

definition incrementalSpacing :: "Simulation \<Rightarrow> duration" where
  "incrementalSpacing sim =
     (let sc = SimScenario sim;
          spacing0 = minSpacing (suffixPeriod (IncrementalSnapshotSuffix (ScenarioJob sc)));
          spacing = (case ScenarioSchedule sc of
                       Some sched \<Rightarrow>
                         if spacing0 = 0 \<and> Periods sched \<noteq> [] then minSpacing (PeriodName (last (Periods sched)))
                         else spacing0
                     | None \<Rightarrow> spacing0)
      in if \<not> isZero (Until sc) \<and> every sc > spacing then every sc else spacing)"

text \<open>\<^verbatim>\<open>formatDays\<close>: a duration rounded to hours, half away from zero, in days and hours.\<close>

definition roundHours :: "duration \<Rightarrow> duration" where
  "roundHours d =
     (let r = d mod hour in if r + r < hour then d - r else if d + hour - r > maxInt64 then maxInt64 else d + hour - r)"

definition formatDays :: "duration \<Rightarrow> string" where
  "formatDays d0 =
     (let sign = (if d0 < 0 then ''-'' else []);
          d = roundHours \<bar>d0\<bar>;
          days = d div (24 * hour);
          hours = d mod (24 * hour) div hour
      in if hours = 0 then sign @ formatInt days @ ''d''
         else sign @ formatInt days @ ''d'' @ formatInt hours @ ''h'')"

record cadence =
  cadLast :: "SnapshotInfo option"
  cadSent :: bool
  cadOverdue :: bool

fun cadenceSteps :: "duration \<Rightarrow> duration \<Rightarrow> Step list \<Rightarrow> cadence \<Rightarrow> Violation list" where
  "cadenceSteps window slack [] c = []"
| "cadenceSteps window slack (st # steps) c =
     (if Err st = None \<and> Action (StepPlan st) = PlanFull then
        (let base = Base (StepPlan st)
         in if Reason (StepPlan st) = reasonCompletePartial
            then cadenceSteps window slack steps \<lparr>cadLast = Some base, cadSent = False, cadOverdue = False\<rparr>
            else (case cadLast c of
                    None \<Rightarrow> []
                  | Some lastFull \<Rightarrow>
                      (let gap = time_sub (CreationTime base) (CreationTime lastFull);
                           early = (gap < wrap64 (window - slack) \<and> Reason (StepPlan st) \<noteq> reasonBrokenChain)
                       in if early \<or> (cadSent c \<and> gap > wrap64 (window + slack))
                          then [violation ''full-cadence'' (At st)
                                  (FullOffCadence (Name base) (formatDays gap) gap (Name lastFull)
                                     (formatDays window) (formatDays slack))]
                          else []))
                 @ cadenceSteps window slack steps \<lparr>cadLast = Some base, cadSent = True, cadOverdue = False\<rparr>)
      else
        (case cadLast c of
           None \<Rightarrow> cadenceSteps window slack steps c
         | Some lastFull \<Rightarrow>
             if cadOverdue c \<or> isZero (At st) \<or> StepSnapshots st = [] then cadenceSteps window slack steps c
             else let age = time_sub (CreationTime (hd (StepSnapshots st))) (CreationTime lastFull)
                  in if age > wrap64 (window + slack)
                     then violation ''full-cadence'' (At st)
                            (NoFullSince (Name lastFull) (formatDays age) (formatDays window) (formatDays slack))
                          # cadenceSteps window slack steps (c\<lparr>cadOverdue := True\<rparr>)
                     else cadenceSteps window slack steps c))"

definition checkFullCadence :: "Simulation \<Rightarrow> Violation list" where
  "checkFullCadence sim =
     (let window = FullIfOlderThan (ScenarioJob (SimScenario sim)); slack = fullSlack sim
      in if window < 0 \<or> slack = 0 then []
         else let lastFull = (case Initial sim of
                     [] \<Rightarrow> None | dest # _ \<Rightarrow> map_option BaseSnapshot (List.find isFull dest))
              in cadenceSteps window slack (Steps sim) \<lparr>cadLast = lastFull, cadSent = False, cadOverdue = False\<rparr>)"

fun depthSteps :: "string \<Rightarrow> int \<Rightarrow> Step list \<Rightarrow> Manifest list \<Rightarrow> bool \<Rightarrow> Violation list" where
  "depthSteps volume limit [] dest over = []"
| "depthSteps volume limit (st # steps) dest over =
     (if Err st \<noteq> None \<or> Action (StepPlan st) = PlanNoop then depthSteps volume limit steps dest over
      else let dest' = addManifest dest (manifestFor volume (StepPlan st));
               depth = chainDepth dest'
           in (if int depth > limit \<and> \<not> over
               then [violation ''restore-depth'' (At st) (TooDeep (Name (BaseSnapshot (hd dest'))) depth limit)]
               else []) @ depthSteps volume limit steps dest' (int depth > limit))"

definition checkRestoreDepth :: "Simulation \<Rightarrow> Violation list" where
  "checkRestoreDepth sim =
     (let window = FullIfOlderThan (ScenarioJob (SimScenario sim)); spacing = incrementalSpacing sim
      in if window < 0 \<or> spacing \<le> 0 \<or> Initial sim = [] then []
         else let limit = goQuot (wrap64 (window + fullSlack sim + spacing - 1)) spacing + 1
              in depthSteps (Volume (SimScenario sim)) limit (Steps sim) (hd (Initial sim)) False)"

section \<open>Opt-in checks\<close>

fun considerNew :: "string \<Rightarrow> SnapshotInfo list \<Rightarrow> string list \<Rightarrow> SnapshotInfo list" where
  "considerNew suf [] seen = []"
| "considerNew suf (s # ss) seen =
     (if \<not> Bookmark s \<and> hasSuffix (Name s) suf \<and> snapshotID s \<notin> set seen
      then s # considerNew suf ss (snapshotID s # seen)
      else considerNew suf ss seen)"

definition coverageHorizon :: "Simulation \<Rightarrow> time" where
  "coverageHorizon sim =
     (if \<not> isZero (Until (SimScenario sim)) then firstRun (SimScenario sim)
      else case Steps sim of st # _ \<Rightarrow> At st | [] \<Rightarrow> zeroTime)"

definition checkCoverage :: "string \<Rightarrow> string \<Rightarrow> Simulation \<Rightarrow> Violation list" where
  "checkCoverage name suf sim =
     (let candidates = sliceStable (\<lambda>a b. CreationTime a < CreationTime b)
            (considerNew suf (Created sim @ concat (map StepSnapshots (Steps sim))) []);
          horizon = coverageHorizon sim
      in concat (map (\<lambda>(d, manifests).
           concat (map (\<lambda>c.
             let backups = length (filter (\<lambda>m. SnapshotInfo_Equal (BaseSnapshot m) c) manifests)
             in if backups > 1 then [violation name zeroTime (BaseOfSeveral d (Name c) backups)]
                else if backups = 0 \<and> \<not> isZero horizon \<and> \<not> CreationTime c < horizon
                then [violation name zeroTime (NeverBackedUp d (Name c))]
                else []) candidates)) (enumerate 0 (Manifests sim))))"

definition checkOnly :: "string \<Rightarrow> string \<Rightarrow> Simulation \<Rightarrow> Violation list" where
  "checkOnly name suf sim =
     (let offends = (\<lambda>st. Err st = None \<and> Action (StepPlan st) \<noteq> PlanNoop \<and> \<not> hasSuffix (Name (Base (StepPlan st))) suf)
      in groupSteps offends (\<lambda>st _. offends st)
           (\<lambda>g. violation name (At (hd g))
              (WrongSuffix (length g) (Base (StepPlan (hd g))) (Source (StepPlan (hd g))) suf (At (last g))))
           (Steps sim))"

text \<open>\<^verbatim>\<open>Check\<close>: the default checks in their order, then the opt-in checks that are named.\<close>

definition defaultChecks :: "(string \<times> (Simulation \<Rightarrow> Violation list)) list" where
  "defaultChecks =
     [(''no-errors'', checkNoErrors), (''chain-links'', checkChainLinks), (''source-present'', checkSourcePresent),
      (''no-duplicate-send'', checkNoDuplicateSend), (''no-orphan-full'', checkNoOrphanFull),
      (''full-cadence'', checkFullCadence), (''restore-depth'', checkRestoreDepth)]"

definition coverageCheck :: string where "coverageCheck = ''coverage:''"
definition onlyCheck :: string where "onlyCheck = ''only:''"

definition knownCheck :: "string \<Rightarrow> bool" where
  "knownCheck name =
     (if hasPrefix name coverageCheck then length name > length coverageCheck
      else if hasPrefix name onlyCheck then length name > length onlyCheck
      else list_ex (\<lambda>c. fst c = name) defaultChecks)"

definition Simulation_Check :: "Simulation \<Rightarrow> string list \<Rightarrow> Violation list" where
  "Simulation_Check sim checks =
     concat (map (\<lambda>c. snd c sim) defaultChecks) @
     concat (map (\<lambda>name.
        (let suf = trimPrefix name coverageCheck in if suf \<noteq> name then checkCoverage name suf sim else []) @
        (let suf = trimPrefix name onlyCheck in if suf \<noteq> name then checkOnly name suf sim else [])) checks)"

end
