(* ===== verification/SimulatorProperties.thy ===== *)
theory SimulatorProperties
  imports Checks
begin

text \<open>
  What every simulated run guarantees: starting from destinations whose backups restore, every
  backup at every destination restores after any number of runs, and the simulator's own checks of
  that find nothing.
\<close>

section \<open>Plans, with the future-dated left out\<close>

lemma planSmart_older_reason:
  assumes "planSmart j snaps ds False = (p, None)" "\<not> Incremental j" "Action p = PlanIncremental"
  shows "Reason p = reasonNewerCandidate"
  using assms(1)
proof (cases rule: planSmart_okE)
  case full
  then show ?thesis using planExplicitFull_ok [OF full(3)] assms(3) by auto
next
  case older
  then show ?thesis using assms(3)
    by (auto simp: planFullIfOlderThan_def planNextIncremental_def Let_def
        split: option.splits list.splits if_splits prod.splits)
qed (use assms in simp_all)

lemma newest_kept:
  assumes "backupsNewestFirst d" "e \<in> set d" "\<not> CreationTime (BaseSnapshot e) > limit"
    and "kept = filter (\<lambda>m. \<not> CreationTime (BaseSnapshot m) > limit) d"
  shows "kept \<noteq> []" "CreationTime (BaseSnapshot e) \<le> CreationTime (BaseSnapshot (hd kept))"
proof -
  have e: "e \<in> set kept" using assms(2-4) by simp
  then show "kept \<noteq> []" by auto
  have "backupsNewestFirst kept" using assms(1,4) sorted_wrt_filter by blast
  then show "CreationTime (BaseSnapshot e) \<le> CreationTime (BaseSnapshot (hd kept))"
    using e by (cases kept) auto
qed

text \<open>The facts about a planned incremental that recording it relies on.\<close>

lemma planSmartAt_incremental:
  assumes "ValidateSmartOptions j = None" "planSmartAt now j snaps ds False = (p, None)" "Action p = PlanIncremental"
    and "d \<in> set ds" "backupsNewestFirst d"
  shows "\<exists>e\<in>set d. SnapshotInfo_Equal (BaseSnapshot e) (Source p)"
    and "e \<in> set d \<Longrightarrow> CreationTime (BaseSnapshot e) \<noteq> CreationTime (Base p)"
proof -
  let ?keep = "filter (\<lambda>m. \<not> CreationTime (BaseSnapshot m) > now + futureSlack)"
  let ?pool = "filter (\<lambda>s. \<not> CreationTime s > now + futureSlack) snaps"
  obtain q where q: "planSmart j ?pool (map ?keep ds) False = (q, None)"
      "Base p = Base q" "Action p = Action q" "Reason p = Reason q" "Source p = Source q"
    by (rule planSmartAt_ok [OF assms(2)])
  have "Reason q \<noteq> reasonCompletePartial" using planSmart_partial_only_completable [OF q(1)] .
  then have facts: "incrCandidate j ?pool = Some (Base q)" "CreationTime (Base q) > CreationTime (Source q)"
      "\<forall>d\<in>set (map ?keep ds). d \<noteq> [] \<and> SnapshotInfo_Equal (BaseSnapshot (hd d)) (Source q)"
    using planSmart_incremental_cases [OF assms(1) q(1)] assms(3) q(3) by simp_all
  have k: "?keep d \<noteq> []" "SnapshotInfo_Equal (BaseSnapshot (hd (?keep d))) (Source q)"
    using facts(3) assms(4) by auto
  then have "hd (?keep d) \<in> set d" using hd_in_set [OF k(1)] by auto
  then show "\<exists>e\<in>set d. SnapshotInfo_Equal (BaseSnapshot e) (Source p)" using k(2) q(5) by auto
  have limit: "\<not> CreationTime (Base q) > now + futureSlack"
    using newestMatchingSnapshot_Some(1) [OF facts(1)] by simp
  assume e: "e \<in> set d"
  show "CreationTime (BaseSnapshot e) \<noteq> CreationTime (Base p)"
  proof
    assume eq: "CreationTime (BaseSnapshot e) = CreationTime (Base p)"
    then have "CreationTime (BaseSnapshot e) \<le> CreationTime (BaseSnapshot (hd (?keep d)))"
      using newest_kept(2) [OF assms(5) e _ refl, of "now + futureSlack"] limit q(2) by simp
    then show False using eq facts(2) k(2) q(2) by (simp add: SnapshotInfo_Equal_def)
  qed
qed

lemma planSmartAt_base:
  assumes "ValidateSmartOptions j = None" "planSmartAt now j snaps ds False = (p, None)" "Action p \<noteq> PlanNoop"
  shows "Base p \<in> set snaps"
proof -
  obtain q where q: "planSmart j (filter (\<lambda>s. \<not> CreationTime s > now + futureSlack) snaps)
      (map (filter (\<lambda>m. \<not> CreationTime (BaseSnapshot m) > now + futureSlack)) ds) False = (q, None)"
      "Base p = Base q" "Action p = Action q"
    by (rule planSmartAt_ok [OF assms(2)])
  then have "Base q \<in> set (filter (\<lambda>s. \<not> CreationTime s > now + futureSlack) snaps)"
    using planSmart_base_on_pool [OF assms(1) q(1)] planSmart_partial_only_completable [OF q(1)] assms(3) by simp
  then show ?thesis using q(2) by simp
qed

lemma planSmartAt_source:
  assumes "ValidateSmartOptions j = None" "planSmartAt now j snaps ds False = (p, None)" "Action p = PlanIncremental"
    and "\<not> Incremental j"
  shows "fst (validateSnapShotExistsFromSnaps (Source p) snaps (\<not> needsSnapshotSource j))"
proof -
  let ?pool = "filter (\<lambda>s. \<not> CreationTime s > now + futureSlack) snaps"
  obtain q where q: "planSmart j ?pool (map (filter (\<lambda>m. \<not> CreationTime (BaseSnapshot m) > now + futureSlack)) ds) False = (q, None)"
      "Action p = Action q" "Source p = Source q"
    by (rule planSmartAt_ok [OF assms(2)])
  have "Reason q = reasonNewerCandidate" using planSmart_older_reason [OF q(1) assms(4)] assms(3) q(2) by simp
  then have "if needsSnapshotSource j then snapshotOnPool (Source q) ?pool else onPool (Source q) ?pool"
    using planSmart_incremental_cases [OF assms(1) q(1)] assms(3) q(2) by simp
  then show ?thesis
    using q(3) by (auto simp: validateSnapShotExistsFromSnaps_spec snapshotOnPool_def onPool_def list_ex_iff split: if_splits)
qed

section \<open>One run\<close>

lemma Scenario_run_good:
  assumes "ValidateSmartOptions (ScenarioJob s) = None" "\<not> Completable s" "datedPool dateOf snaps"
    and "\<forall>d\<in>set dest. goodDest dateOf d" and "Scenario_run env s at snaps dest = (step, dest')"
  shows "\<forall>d\<in>set dest'. goodDest dateOf d"
proof -
  obtain p err where pe: "planSmartAt (Scenario_Clock env s at) (runJob s) snaps dest False = (p, err)" by fastforce
  show ?thesis
  proof (cases "err = None \<and> Action p \<noteq> PlanNoop")
    case False
    then have "dest' = dest" using assms(2,5) pe by (auto simp: Scenario_run_def Let_def)
    then show ?thesis using assms(4) by simp
  next
    case True
    let ?m = "(manifestFor (Volume s) p)\<lparr>Raw := Raw (runJob s)\<rparr>"
    have dest': "dest' = map (\<lambda>d. addManifest d ?m) dest"
      using True assms(2,5) pe by (auto simp: Scenario_run_def Let_def)
    have plan: "planSmartAt (Scenario_Clock env s at) (runJob s) snaps dest False = (p, None)" using pe True by simp
    have opts: "ValidateSmartOptions (runJob s) = None" using assms(1) by simp
    have "Base p \<in> set snaps" using planSmartAt_base [OF opts plan] True by simp
    then have base: "CreationTime (Base p) = dateOf (Name (Base p))" using assms(3) by (simp add: datedPool_def)
    have "goodDest dateOf (addManifest d ?m)" if "d \<in> set dest" for d
    proof -
      have d: "backupsNewestFirst d" "allRestorable d" "dated dateOf d" using assms(4) that by (simp_all add: goodDest_def)
      have "isFull ?m \<or> (\<forall>e\<in>set d. Name (BaseSnapshot e) \<noteq> Name (BaseSnapshot ?m))
           \<and> (\<exists>e\<in>set d. SnapshotInfo_Equal (BaseSnapshot e) (IncrementalSnapshot ?m))"
      proof (cases "Action p = PlanIncremental")
        case incr: True
        note facts = planSmartAt_incremental [OF opts plan incr that d(1)]
        have "\<forall>e\<in>set d. Name (BaseSnapshot e) \<noteq> Name (Base p)"
          using facts(2) d(3) base unfolding dated_def by metis
        then show ?thesis using facts(1) incr by simp
      qed simp
      then show ?thesis
        using d base by (auto simp: goodDest_def intro!: addManifest_newestFirst addManifest_allRestorable addManifest_dated)
    qed
    then show ?thesis unfolding dest' by simp
  qed
qed


section \<open>All runs\<close>

text \<open>The states the loop of \<^verbatim>\<open>Run\<close> goes through.\<close>

inductive simulated :: "environment \<Rightarrow> Scenario \<Rightarrow> runState \<Rightarrow> bool" for env s where
  start: "simulated env s (startState s)"
| step: "simulated env s st \<Longrightarrow> runSchedule s at st = Some st' \<Longrightarrow> simulated env s (runAt env s at st')"

lemma runLoop_simulated:
  assumes "runLoop env s at st = Some st'" and "simulated env s st"
  shows "simulated env s st'"
proof -
  have "simulated env s st \<longrightarrow> simulated env s st'"
  proof (rule runLoop.raw_induct [of "\<lambda>env s at st st'. simulated env s st \<longrightarrow> simulated env s st'", OF _ assms(1)])
    fix loop :: "environment \<Rightarrow> Scenario \<Rightarrow> int \<Rightarrow> runState \<Rightarrow> runState option" and env s at st st'
    assume IH: "\<And>env s at st st'. loop env s at st = Some st' \<Longrightarrow> simulated env s st \<longrightarrow> simulated env s st'"
      and eq: "(if Until s < at then Some st
         else Option.bind (runSchedule s at st) (\<lambda>st'. loop env s (nextRun env s at) (runAt env s at st'))) = Some st'"
    show "simulated env s st \<longrightarrow> simulated env s st'"
    proof (cases "Until s < at")
      case True
      then show ?thesis using eq by simp
    next
      case False
      then obtain st1 where "runSchedule s at st = Some st1" "loop env s (nextRun env s at) (runAt env s at st1) = Some st'"
        using eq by (cases "runSchedule s at st") simp_all
      then show ?thesis using IH simulated.step by blast
    qed
  qed
  then show ?thesis using assms(2) by blast
qed

lemma runSchedule_keeps:
  assumes "runSchedule s at st = Some st'"
  shows "rsDest st' = rsDest st" "rsSteps st' = rsSteps st"
  using assms by (auto simp: runSchedule_def split: option.splits)

lemma Scenario_run_step:
  assumes "Scenario_run env s at snaps dest = (step, dest')"
  shows "At step = at" "StepSnapshots step = snaps"
    "(StepPlan step, Err step) = planSmartAt (Scenario_Clock env s at) (runJob s) snaps dest (Completable s)"
  using assms by (auto simp: Scenario_run_def Let_def split: prod.splits)

text \<open>The snapshots of every step so far are dated by their names.\<close>

abbreviation datedSteps :: "(string \<Rightarrow> time) \<Rightarrow> Step list \<Rightarrow> bool" where
  "datedSteps dateOf steps \<equiv> \<forall>st\<in>set steps. datedPool dateOf (StepSnapshots st)"

lemma simulated_good:
  assumes "simulated env s st" and "ValidateSmartOptions (ScenarioJob s) = None" "\<not> Completable s"
    and "\<forall>d\<in>set (DestBackups s). goodDest dateOf d" and "datedSteps dateOf (rsSteps st)"
  shows "\<forall>d\<in>set (rsDest st). goodDest dateOf d"
  using assms(1,5)
proof (induction rule: simulated.induct)
  case start
  then show ?case using assms(4) by (simp add: startState_def)
next
  case (step st at st')
  note keeps = runSchedule_keeps [OF step(2)]
  show ?case
  proof (cases "skipped s at")
    case True
    then show ?thesis using step keeps by (simp add: runAt_def)
  next
    case False
    obtain res dest' where run: "Scenario_run env s at (visibleAt (rsPool st') at (rsDest st')) (rsDest st') = (res, dest')"
      by fastforce
    have st: "rsSteps (runAt env s at st') = rsSteps st @ [res]" "rsDest (runAt env s at st') = dest'"
      using False run keeps by (simp_all add: runAt_def)
    have "\<forall>d\<in>set (rsDest st'). goodDest dateOf d" using step.IH step.prems st(1) keeps by simp
    moreover have "datedPool dateOf (visibleAt (rsPool st') at (rsDest st'))"
      using step.prems st(1) Scenario_run_step(2) [OF run] by simp
    ultimately show ?thesis using Scenario_run_good [OF assms(2,3) _ _ run] st(2) by simp
  qed
qed

text \<open>Every step of a simulation is a run of the planner on the step's own snapshots.\<close>

definition plannedStep :: "environment \<Rightarrow> Scenario \<Rightarrow> Step \<Rightarrow> bool" where
  "plannedStep env s st \<longleftrightarrow> (\<exists>dest. (StepPlan st, Err st)
     = planSmartAt (Scenario_Clock env s (At st)) (runJob s) (StepSnapshots st) dest (Completable s))"

lemma Scenario_run_planned:
  assumes "Scenario_run env s at snaps dest = (step, dest')" shows "plannedStep env s step"
  unfolding plannedStep_def using Scenario_run_step [OF assms] by auto

lemma simulated_planned: "simulated env s st \<Longrightarrow> \<forall>step\<in>set (rsSteps st). plannedStep env s step"
proof (induction rule: simulated.induct)
  case start
  then show ?case by (simp add: startState_def)
next
  case (step st at st')
  then show ?case
    using runSchedule_keeps [OF step(2)] Scenario_run_planned
    by (auto simp: runAt_def Let_def split: prod.splits)
qed

lemma Run_state:
  assumes "Run env s = Some sim"
  obtains (single) step dest' where "isZero (Until s)" "Scenario_run env s zeroTime (Snapshots s) (DestBackups s) = (step, dest')"
      "Steps sim = [step]" "Manifests sim = dest'" "SimScenario sim = s" "Initial sim = DestBackups s"
  | (runs) st where "\<not> isZero (Until s)" "simulated env s st"
      "Steps sim = rsSteps st" "Manifests sim = rsDest st" "SimScenario sim = s" "Initial sim = DestBackups s"
proof (cases "isZero (Until s)")
  case True
  then show thesis using assms single by (auto simp: Run_def Let_def startState_def split: prod.splits)
next
  case False
  then obtain st where st: "runLoop env s (firstRun s) (startState s) = Some st"
      "Steps sim = rsSteps st" "Manifests sim = rsDest st" "SimScenario sim = s" "Initial sim = DestBackups s"
    using assms by (auto simp: Run_def Let_def)
  show thesis by (rule runs [OF False runLoop_simulated [OF st(1) simulated.start] st(2-5)])
qed

lemma Run_scenario: "Run env s = Some sim \<Longrightarrow> SimScenario sim = s"
  by (erule Run_state) simp_all

lemma Run_planned: "Run env s = Some sim \<Longrightarrow> \<forall>step\<in>set (Steps sim). plannedStep env s step"
  by (erule Run_state) (simp_all add: Scenario_run_planned simulated_planned)

lemma Run_good:
  assumes "Run env s = Some sim" and "ValidateSmartOptions (ScenarioJob s) = None" "\<not> Completable s"
    and "\<forall>d\<in>set (DestBackups s). goodDest dateOf d" and "datedSteps dateOf (Steps sim)"
  shows "\<forall>d\<in>set (Manifests sim). goodDest dateOf d"
  using assms(1)
proof (cases rule: Run_state)
  case (single step dest')
  then show ?thesis
    using Scenario_run_good [OF assms(2,3) _ assms(4) single(2)] Scenario_run_step(2) [OF single(2)] assms(5) by simp
next
  case (runs st)
  then show ?thesis using simulated_good [OF runs(2) assms(2-4)] assms(5) by simp
qed


text \<open>
  The check \<^verbatim>\<open>source-present\<close> finds nothing in a simulation of \<^verbatim>\<open>--fullIfOlderThan\<close> that completes
  no partial set: every incremental it plans has its source on the pool at that run, as the send
  flags need it.
\<close>

theorem simulation_sources_present:
  assumes "Run env s = Some sim" and "ValidateSmartOptions (ScenarioJob s) = None" "\<not> Completable s"
    and "\<not> Incremental (ScenarioJob s)"
  shows "checkSourcePresent sim = []"
proof -
  note planned = Run_planned [OF assms(1)] and scen = Run_scenario [OF assms(1)]
  have "fst (validateSnapShotExistsFromSnaps (Source (StepPlan st)) (StepSnapshots st) (\<not> needsSnapshotSource (ScenarioJob s)))"
    if st: "st \<in> set (Steps sim)" "Err st = None" "Action (StepPlan st) = PlanIncremental" for st
  proof -
    obtain dest where plan: "planSmartAt (Scenario_Clock env s (At st)) (runJob s) (StepSnapshots st) dest False = (StepPlan st, None)"
      using planned st(1,2) assms(3) unfolding plannedStep_def by metis
    show ?thesis using planSmartAt_source [OF _ plan st(3)] assms(2,4) by simp
  qed
  then show ?thesis by (auto simp: checkSourcePresent_def Let_def filter_empty_conv scen)
qed


section \<open>Simulations end\<close>

lemma wallClock_utc: "wallClock utcLoc y mo d h mi s ns = goDate utcLoc y mo d h mi s ns"
proof -
  let ?t = "goDate utcLoc y mo d h mi s ns"
  have "goDate utcLoc (Year c) (Month c) (Day c) (Hour c) (Minute c) (Second c) (Nanosecond c) = ?t"
    if "c = inLocation utcLoc ?t" for c
    using goDate_utc_shift [OF that, of 0 0 0] by simp
  then show ?thesis by (simp add: wallClock_def Let_def)
qed

lemma every_pos: "0 < every s"
  by (simp add: every_def hour_def minute_def second_def)

lemma nextRun_utc_days:
  assumes "Scenario_location env s = utcLoc" and "every s mod (24 * hour) = 0"
    and "at = firstRun s + k * day" "0 \<le> k" "at - firstRun s + 12 * hour \<le> maxInt64"
  shows "nextRun env s at = firstRun s + (k + every s div day) * day" and "1 \<le> every s div day"
proof -
  have day: "24 * hour = day" "0 < day" "12 * hour < day" "0 < hour" by (simp_all add: day_def hour_def minute_def second_def)
  have "0 \<le> k * day" using assms(4) day by simp
  then have diff: "time_sub at (firstRun s) = k * day" "wrap64 (k * day + 12 * hour) = k * day + 12 * hour"
    using assms(3,5) day by (simp_all add: time_sub_exact inInt64_def wrap64_id maxInt64_def minInt64_def)
  have k: "goQuot (k * day + 12 * hour) day = k"
  proof -
    have "(k * day + 12 * hour) div day = k" using day by (simp add: div_pos_pos_trivial)
    then show ?thesis using \<open>0 \<le> k * day\<close> day by (simp add: goQuot_def)
  qed
  have "goQuot (every s) day = every s div day" using every_pos [of s] day by (simp add: goQuot_def)
  then show "nextRun env s at = firstRun s + (k + every s div day) * day"
    using assms(1,2) goDate_utc_shift [OF refl, of "firstRun s" 0 0 "k + every s div day"] diff k day(1)
    by (simp add: nextRun_def Let_def wallClock_utc)
  have "every s = day * (every s div day)" using assms(2) day(1) mult_div_mod_eq [of day "every s"] by simp
  then show "1 \<le> every s div day" using every_pos [of s] day(2) by (metis int_one_le_iff_zero_less zero_less_mult_pos)
qed

lemma runSchedule_returns:
  assumes "\<forall>sched. ScenarioSchedule s = Some sched \<longrightarrow> Schedule_location sched = utcLoc"
  shows "\<exists>st'. runSchedule s at st = Some st'"
proof (cases "ScenarioSchedule s")
  case None
  then show ?thesis by (simp add: runSchedule_def)
next
  case (Some sched)
  then obtain bs where "collectBoundaries sched (rsTaken st) at (tieOrderOrDefault sched) [] = Some bs"
    using collectBoundaries_ends assms by blast
  then show ?thesis using Some by (simp add: runSchedule_def Advance_def Let_def)
qed

text \<open>The run times in UTC: with whole days between runs, whole days after the first.\<close>

definition runTime :: "Scenario \<Rightarrow> time \<Rightarrow> bool" where
  "runTime s at \<longleftrightarrow> every s mod (24 * hour) \<noteq> 0 \<or> (\<exists>k. 0 \<le> k \<and> at = firstRun s + k * day)"

lemma runTime_first: "runTime s (firstRun s)"
  unfolding runTime_def by (rule disjI2, rule exI [of _ 0]) simp

lemma forward_arith:
  "1 \<le> (n::int) \<Longrightarrow> 0 < d \<Longrightarrow> f + k * d < f + (k + n) * d" "0 \<le> (k::int) \<Longrightarrow> 1 \<le> n \<Longrightarrow> 0 \<le> k + n"
  by (simp_all add: distrib_right)

lemma nextRun_forward_days:
  assumes "Scenario_location env s = utcLoc" "at - firstRun s + 12 * hour \<le> maxInt64"
    and "every s mod (24 * hour) = 0" "0 \<le> k" "at = firstRun s + k * day"
  shows "at < nextRun env s at" and "\<exists>k. 0 \<le> k \<and> nextRun env s at = firstRun s + k * day"
proof -
  note n = nextRun_utc_days [OF assms(1,3,5,4,2)]
  have day: "0 < day" by (simp add: day_def hour_def minute_def second_def)
  show "at < nextRun env s at"
    unfolding n(1) by (subst assms(5)) (rule forward_arith(1) [OF n(2) day])
  show "\<exists>k. 0 \<le> k \<and> nextRun env s at = firstRun s + k * day"
    by (rule exI, rule conjI, rule forward_arith(2) [OF assms(4) n(2)], rule n(1))
qed

lemma runTime_cases:
  assumes "runTime s at"
  obtains k where "every s mod (24 * hour) = 0" "0 \<le> k" "at = firstRun s + k * day" | "every s mod (24 * hour) \<noteq> 0"
  using assms unfolding runTime_def by metis

lemma nextRun_other:
  assumes "every s mod (24 * hour) \<noteq> 0"
  shows "nextRun env s at = at + every s"
  unfolding nextRun_def Let_def by (rule if_P [OF assms])

lemma nextRun_forward:
  assumes "Scenario_location env s = utcLoc" "at - firstRun s + 12 * hour \<le> maxInt64" "runTime s at"
  shows "at < nextRun env s at \<and> runTime s (nextRun env s at)"
  using assms(3)
proof (cases rule: runTime_cases)
  case (1 k)
  show ?thesis
    unfolding runTime_def
    by (rule conjI, rule nextRun_forward_days(1) [OF assms(1,2) 1], rule disjI2,
        rule nextRun_forward_days(2) [OF assms(1,2) 1])
next
  case 2
  have "at < at + every s" using every_pos [of s] by (simp only: less_add_same_cancel1)
  then show ?thesis unfolding runTime_def nextRun_other [OF 2] by (intro conjI disjI1 2)
qed

lemma runLoop_returns:
  assumes "Scenario_location env s = utcLoc"
    "\<forall>sched. ScenarioSchedule s = Some sched \<longrightarrow> Schedule_location sched = utcLoc"
    and "Until s - firstRun s + 12 * hour \<le> maxInt64" and "runTime s at"
  shows "\<exists>st'. runLoop env s at st = Some st'"
  using assms(4)
proof (induction "nat (Until s - at + 1)" arbitrary: at st rule: less_induct)
  case less
  show ?case
  proof (cases "at > Until s")
    case True
    then show ?thesis by (subst runLoop.simps) simp
  next
    case False
    then have "at - firstRun s + 12 * hour \<le> maxInt64" using assms(3) by linarith
    note fwd = nextRun_forward [OF assms(1) this less.prems, THEN conjunct1] nextRun_forward [OF assms(1) this less.prems, THEN conjunct2]
    obtain st1 where st1: "runSchedule s at st = Some st1" using runSchedule_returns [OF assms(2)] by blast
    have "nat (Until s - nextRun env s at + 1) < nat (Until s - at + 1)" using fwd(1) False by linarith
    then obtain st' where "runLoop env s (nextRun env s at) (runAt env s at st1) = Some st'"
      using less.hyps fwd(2) by blast
    then show ?thesis using False st1 by (subst runLoop.simps) simp
  qed
qed

text \<open>
  C30. Simulations end. With all zones UTC, the simulation of any scenario returns, provided the last
  run is less than the 292 years a 64-bit duration holds (but for half a day) after the first.
\<close>

theorem Run_returns:
  assumes "Scenario_location env s = utcLoc"
    and "\<forall>sched. ScenarioSchedule s = Some sched \<longrightarrow> Schedule_location sched = utcLoc"
    and "Until s - firstRun s + 12 * hour \<le> maxInt64"
  shows "\<exists>sim. Run env s = Some sim"
proof (cases "isZero (Until s)")
  case True
  then show ?thesis by (auto simp: Run_def Let_def split: prod.splits)
next
  case False
  obtain st where "runLoop env s (firstRun s) (startState s) = Some st"
    using runLoop_returns [OF assms runTime_first] by blast
  then show ?thesis using False by (simp add: Run_def Let_def)
qed

section \<open>Witnesses\<close>

text \<open>The pool and destination of the examples, planned once, and simulated over four days in UTC.\<close>

definition exScenario :: Scenario where
  "exScenario = \<lparr>Volume = ''t'', ScenarioJob = exJob, Snapshots = exPool, DestBackups = [exDest],
     CaptureDataset = [], NameDated = [], AdoptionWarnings = [], Completable = False, Location = None,
     ScenarioSchedule = None, From = 2 * day + hour, Until = zeroTime, Every = 0, Skips = [], Checks = [],
     ScenarioNow = 4 * day\<rparr>"

definition exEnv :: environment where
  "exEnv = \<lparr>HostZone = utcLoc, WallClock = 0\<rparr>"

definition exDates :: "string \<Rightarrow> time" where
  "exDates n = (if n = ''a'' then day else if n = ''b'' then 2 * day else 3 * day)"

definition exStep :: "Step \<times> Manifest list list" where
  "exStep = Scenario_run exEnv exScenario zeroTime exPool [exDest]"

definition exSim :: Simulation where
  "exSim = \<lparr>SimScenario = exScenario, Steps = [fst exStep], Initial = [exDest], Manifests = snd exStep,
     Created = snd (recordSnapshots exPool ([], []))\<rparr>"

lemma ex_Run: "Run exEnv exScenario = Some exSim"
proof -
  have "Until exScenario = zeroTime" "Snapshots exScenario = exPool" "DestBackups exScenario = [exDest]"
    by (simp_all add: exScenario_def)
  then show ?thesis
    by (simp add: Run_def startState_def exSim_def exStep_def isZero_def Let_def split_def)
qed

lemma ex_scenario: "ScenarioJob exScenario = exJob" "\<not> Completable exScenario" "DestBackups exScenario = [exDest]"
  by (simp_all add: exScenario_def)

lemma ex_clock: "Scenario_Clock exEnv exScenario zeroTime = 4 * day" by code_simp

lemma ex_planAt: "planSmartAt (4 * day) (runJob exScenario) exPool [exDest] False = (exPlan, None)"
  by code_simp

lemma ex_step:
  "exStep = (\<lparr>At = zeroTime, StepSnapshots = exPool, StepPlan = exPlan, Err = None\<rparr>,
     [addManifest exDest ((manifestFor (Volume exScenario) exPlan)\<lparr>Raw := Raw (runJob exScenario)\<rparr>)])"
proof -
  have "Action exPlan = PlanIncremental" by (simp add: exPlan_def)
  then show ?thesis by (simp add: exStep_def Scenario_run_def ex_clock ex_scenario ex_planAt)
qed

lemma ex_sends: "map (Action \<circ> StepPlan) (Steps exSim) = [PlanIncremental]"
  by (simp add: exSim_def ex_step exPlan_def)

lemma ex_manifests:
  "Manifests exSim = [addManifest exDest ((manifestFor (Volume exScenario) exPlan)\<lparr>Raw := Raw (runJob exScenario)\<rparr>)]"
  by (simp add: exSim_def ex_step)

lemma ex_step_pool: "\<forall>st\<in>set (Steps exSim). StepSnapshots st = exPool"
  by (simp add: exSim_def ex_step)

lemma ex_dated: "datedPool exDates exPool"
  unfolding datedPool_def by code_simp

lemma ex_goodDest: "goodDest exDates exDest"
proof -
  have dest: "exDest = [exIncr exS2 exS1, exFull exS1]" by (simp add: exDest_def)
  have full: "restorable exDest (exFull exS1)" by (rule restorable.full) code_simp
  have "restorable exDest (exIncr exS2 exS1)" by (rule restorable.incr [OF _ _ full]) code_simp+
  then have "allRestorable exDest" using full by (simp add: allRestorable_def dest)
  moreover have "backupsNewestFirst exDest" by code_simp
  moreover have "dated exDates exDest" unfolding dated_def by code_simp
  ultimately show ?thesis by (simp add: goodDest_def)
qed


lemma simulation_sources_present_witness:
  "checkSourcePresent exSim = [] \<and> map (Action \<circ> StepPlan) (Steps exSim) = [PlanIncremental]"
proof -
  have "\<not> Incremental exJob" by code_simp
  then show ?thesis using simulation_sources_present [OF ex_Run] ex_scenario ex_options ex_sends by simp
qed

lemma Run_returns_witness: "\<exists>sim. Run exEnv (exScenario\<lparr>Until := 4 * day\<rparr>) = Some sim"
proof (rule Run_returns)
  show "Scenario_location exEnv (exScenario\<lparr>Until := 4 * day\<rparr>) = utcLoc"
    by (simp add: Scenario_location_def exScenario_def exEnv_def)
  show "\<forall>sched. ScenarioSchedule (exScenario\<lparr>Until := 4 * day\<rparr>) = Some sched \<longrightarrow> Schedule_location sched = utcLoc"
    by (simp add: exScenario_def)
  show "Until (exScenario\<lparr>Until := 4 * day\<rparr>) - firstRun (exScenario\<lparr>Until := 4 * day\<rparr>) + 12 * hour \<le> maxInt64"
    by code_simp
qed

end
