(* ===== verification/Readers.thy ===== *)
theory Readers
  imports ObjectNames
begin

text \<open>
  Bounded reading of manifests: \<^verbatim>\<open>files/manifest.go\<close> (\<^verbatim>\<open>ReadManifest\<close>, \<^verbatim>\<open>readAtMost\<close> and the check
  of a manifest's volumes) and the bounded download of \<^verbatim>\<open>backup/restore.go\<close>. Whoever can write to a
  destination can put anything there; these limits are what a reader relies on. Extracting a
  manifest (OpenPGP, gzip) and decoding its JSON are parameters, the fields of \<open>Codec\<close>.
\<close>

section \<open>Readers\<close>

datatype read_error =
    NotExist
  | ManifestTooLong
  | KeyError bool
  | TooManyVolumes
  | NullVolume nat
  | Unreadable string

datatype copy_error = ObjectTooLarge | CopyFailed string

text \<open>
  A source of bytes: what its next reads return, and the error that ends it (\<open>None\<close> for the end of
  the file). \<open>read\<close> is \<^verbatim>\<open>io.Reader.Read\<close> into a buffer of \<open>k\<close> bytes.
\<close>

type_synonym source = "string list \<times> string option"

datatype read_end = More | EOF | Failed copy_error

fun read :: "source \<Rightarrow> nat \<Rightarrow> string \<times> read_end \<times> source" where
  "read ([], e) k = ([], (case e of None \<Rightarrow> EOF | Some s \<Rightarrow> Failed (CopyFailed s)), ([], e))"
| "read (c # cs, e) k = (take k c, More, (if length c \<le> k then cs else drop k c # cs, e))"

record atMostReader =
  amSource :: source
  amLeft :: int

definition atMostReader_Read :: "atMostReader \<Rightarrow> nat \<Rightarrow> string \<times> read_end \<times> atMostReader" where
  "atMostReader_Read a len =
     (let k = (if int len > amLeft a + 1 then nat (amLeft a + 1) else len);
          (p, e, src) = read (amSource a) k;
          left = amLeft a - int (length p);
          a' = \<lparr>amSource = src, amLeft = left\<rparr>
      in if left < 0 then ([], Failed ObjectTooLarge, a') else (p, e, a'))"

text \<open>\<^verbatim>\<open>io.Copy\<close> with a buffer of \<open>k\<close> bytes, which is never empty: reading until the end or an error.\<close>

fun sourceSize :: "source \<Rightarrow> nat" where
  "sourceSize (cs, e) = length cs + length (concat cs)"

partial_function (option) copyAtMost :: "nat \<Rightarrow> atMostReader \<Rightarrow> string \<Rightarrow> (copy_error + string) option" where
  "copyAtMost k a out =
     (case atMostReader_Read a k of (p, e, a') \<Rightarrow>
        (case e of
           More \<Rightarrow> copyAtMost k a' (out @ p)
         | EOF \<Rightarrow> Some (Inr (out @ p))
         | Failed err \<Rightarrow> Some (Inl err)))"

declare copyAtMost.simps [code]

lemma read_progress:
  assumes "read (cs, e) k = (p, More, (cs', e'))" "0 < k"
  shows "concat cs = p @ concat cs'" "sourceSize (cs', e') < sourceSize (cs, e)" "e' = e" "cs \<noteq> []"
  using assms by (cases cs; auto split: if_splits option.splits)+

lemma copyAtMost_spec:
  assumes "0 < k" "0 \<le> left"
  shows "copyAtMost k \<lparr>amSource = (cs, e), amLeft = left\<rparr> out =
    Some (if int (length (concat cs)) > left then Inl ObjectTooLarge
          else case e of None \<Rightarrow> Inr (out @ concat cs) | Some s \<Rightarrow> Inl (CopyFailed s))"
  using assms(2)
proof (induction "sourceSize (cs, e)" arbitrary: cs left out rule: less_induct)
  case less
  define k' where "k' = (if int k > left + 1 then nat (left + 1) else k)"
  have k': "0 < k'" "int k' \<le> left + 1" using assms(1) less.prems by (auto simp: k'_def)
  show ?case
  proof (cases cs)
    case Nil
    then show ?thesis using less.prems
      by (subst copyAtMost.simps) (auto simp: atMostReader_Read_def Let_def split: option.splits)
  next
    case (Cons c rest)
    obtain p cs' where p: "read (cs, e) k' = (p, More, (cs', e))" "length p \<le> k'"
      using Cons by (cases "length c \<le> k'") auto
    note step = read_progress [OF p(1) k'(1)]
    have unfold: "copyAtMost k \<lparr>amSource = (cs, e), amLeft = left\<rparr> out =
      (if left - int (length p) < 0 then Some (Inl ObjectTooLarge)
       else copyAtMost k \<lparr>amSource = (cs', e), amLeft = left - int (length p)\<rparr> (out @ p))"
    proof -
      have "atMostReader_Read \<lparr>amSource = (cs, e), amLeft = left\<rparr> k =
        (let l = left - int (length p); a' = \<lparr>amSource = (cs', e), amLeft = l\<rparr>
         in if l < 0 then ([], Failed ObjectTooLarge, a') else (p, More, a'))"
        unfolding atMostReader_Read_def by (simp only: atMostReader.simps k'_def [symmetric] p(1) Let_def prod.case)
      then show ?thesis by (subst copyAtMost.simps) (simp add: Let_def)
    qed
    show ?thesis
    proof (cases "left - int (length p) < 0")
      case True
      then have "left < int (length (concat cs))" using step(1) by simp
      then show ?thesis using unfold True by simp
    next
      case False
      then show ?thesis using unfold less.hyps [OF step(2), of "left - int (length p)" "out @ p"] by (auto simp: step(1) split: option.splits)
    qed
  qed
qed

section \<open>Reading all of a manifest\<close>

definition MaxManifestBytes :: nat where
  "MaxManifestBytes = 2 ^ 30"

definition MaxManifestVolumes :: "nat \<Rightarrow> nat" where
  "MaxManifestVolumes maxBytes = maxBytes div 256"

datatype full_read = Filled | ShortEOF | ShortError read_error

text \<open>\<^verbatim>\<open>io.ReadFull\<close> into \<open>k\<close> bytes, from the bytes left and the error after them.\<close>

definition readFull :: "string \<Rightarrow> read_error option \<Rightarrow> nat \<Rightarrow> string \<times> full_read \<times> string" where
  "readFull bytes e k =
     (take k bytes,
      (if k \<le> length bytes then Filled else case e of None \<Rightarrow> ShortEOF | Some err \<Rightarrow> ShortError err),
      drop k bytes)"

partial_function (option) readAtMostLoop ::
    "read_error option \<Rightarrow> nat \<Rightarrow> string \<Rightarrow> nat \<Rightarrow> nat \<Rightarrow> string list \<Rightarrow> (read_error + string) option" where
  "readAtMostLoop e limit bytes tot sz chunks =
     (case readFull bytes e (min sz (limit + 1 - tot)) of (chunk, r, rest) \<Rightarrow>
        (case r of
           ShortEOF \<Rightarrow> Some (Inr (concat (chunks @ [chunk])))
         | ShortError err \<Rightarrow> Some (Inl err)
         | Filled \<Rightarrow>
             if tot + length chunk > limit then Some (Inl ManifestTooLong)
             else readAtMostLoop e limit rest (tot + length chunk) (min (2 * sz) (2 ^ 22)) (chunks @ [chunk])))"

declare readAtMostLoop.simps [code]

definition readAtMost :: "string \<times> read_error option \<Rightarrow> nat \<Rightarrow> (read_error + string) option" where
  "readAtMost r limit = readAtMostLoop (snd r) limit (fst r) 0 (2 ^ 16) []"


lemma readAtMostLoop_spec:
  assumes "0 < sz" "tot \<le> limit"
  shows "readAtMostLoop e limit bytes tot sz chunks =
    Some (if tot + length bytes > limit then Inl ManifestTooLong
          else case e of None \<Rightarrow> Inr (concat chunks @ bytes) | Some err \<Rightarrow> Inl err)"
  using assms
proof (induction "length bytes" arbitrary: bytes tot sz chunks rule: less_induct)
  case less
  define k where "k = min sz (limit + 1 - tot)"
  have k: "0 < k" "k \<le> limit + 1 - tot" using less.prems by (auto simp: k_def)
  have unfold: "readAtMostLoop e limit bytes tot sz chunks =
    (if k \<le> length bytes then
       if tot + k > limit then Some (Inl ManifestTooLong)
       else readAtMostLoop e limit (drop k bytes) (tot + k) (min (2 * sz) (2 ^ 22)) (chunks @ [take k bytes])
     else case e of None \<Rightarrow> Some (Inr (concat chunks @ bytes)) | Some err \<Rightarrow> Some (Inl err))"
    unfolding k_def by (subst readAtMostLoop.simps) (auto simp: readFull_def split: option.splits)
  show ?case
  proof (cases "k \<le> length bytes \<and> \<not> tot + k > limit")
    case False
    then show ?thesis using unfold k less.prems(2) by (auto split: option.splits)
  next
    case True
    then have short: "length (drop k bytes) < length bytes" using k(1) by (simp only: length_drop) linarith
    have "0 < min (2 * sz) (2 ^ 22)" using less.prems(1) by simp
    note less.hyps [OF short this, of "tot + k" "chunks @ [take k bytes]"]
    then show ?thesis using unfold True by (auto split: option.splits)
  qed
qed

lemma readAtMost_spec:
  "readAtMost (bytes, e) limit =
     Some (if length bytes > limit then Inl ManifestTooLong
           else case e of None \<Rightarrow> Inr bytes | Some err \<Rightarrow> Inl err)"
  unfolding readAtMost_def by (subst readAtMostLoop_spec) (auto split: option.splits)

section \<open>Decoding a manifest\<close>

text \<open>
  \<open>cExtract\<close> is what extracting the file's contents with the keys of the job gives (the error of
  opening it, or its bytes and the error a later read of them ends with, such as a bad signature);
  \<open>cVolumes\<close> is the array of volumes of its JSON, each null or not (\<open>None\<close>: null or no array);
  \<open>cDecode\<close> is \<^verbatim>\<open>json.Unmarshal\<close> into a \<^verbatim>\<open>JobInfo\<close>.
\<close>

record Codec =
  cExtract :: "string \<Rightarrow> read_error + (string \<times> read_error option)"
  cVolumes :: "string \<Rightarrow> read_error + bool list option"
  cDecode :: "string \<Rightarrow> read_error + Manifest"
  cMaxBytes :: nat

fun checkVolumes :: "nat \<Rightarrow> nat \<Rightarrow> bool list \<Rightarrow> read_error option" where
  "checkVolumes maxVolumes n [] = None"
| "checkVolumes maxVolumes n (isNull # vols) =
     (if n > maxVolumes then Some TooManyVolumes
      else if isNull then Some (NullVolume n)
      else checkVolumes maxVolumes (n + 1) vols)"

definition manifestVolumes_UnmarshalJSON :: "Codec \<Rightarrow> string \<Rightarrow> read_error option" where
  "manifestVolumes_UnmarshalJSON c bytes =
     (case cVolumes c bytes of
        Inl err \<Rightarrow> Some err
      | Inr None \<Rightarrow> None
      | Inr (Some vols) \<Rightarrow> checkVolumes (MaxManifestVolumes (cMaxBytes c)) 1 vols)"

definition ReadManifest :: "Codec \<Rightarrow> string \<Rightarrow> (read_error + Manifest) option" where
  "ReadManifest c contents =
     (case cExtract c contents of
        Inl err \<Rightarrow> Some (Inl err)
      | Inr vol \<Rightarrow>
          Option.bind (readAtMost vol (cMaxBytes c)) (\<lambda>r.
            case r of
              Inl err \<Rightarrow> Some (Inl err)
            | Inr bytes \<Rightarrow>
                (case manifestVolumes_UnmarshalJSON c bytes of
                   Some err \<Rightarrow> Some (Inl err)
                 | None \<Rightarrow> Some (cDecode c bytes))))"

lemma checkVolumes_None:
  "checkVolumes m n vols = None \<longleftrightarrow> True \<notin> set vols \<and> (vols = [] \<or> n + length vols - 1 \<le> m)"
  by (induction vols arbitrary: n) auto

lemma ReadManifest_returns: "\<exists>r. ReadManifest c contents = Some r"
  by (auto simp: ReadManifest_def readAtMost_spec split: sum.splits option.splits prod.splits)

text \<open>The result of reading, which always comes.\<close>

definition readManifest :: "Codec \<Rightarrow> string \<Rightarrow> read_error + Manifest" where
  "readManifest c contents = (case ReadManifest c contents of Some r \<Rightarrow> r | None \<Rightarrow> Inl (Unreadable []))"

lemma readManifest_spec:
  assumes "readManifest c contents = Inr m"
  shows "\<exists>bytes. cExtract c contents = Inr (bytes, None) \<and> length bytes \<le> cMaxBytes c \<and> cDecode c bytes = Inr m
    \<and> (\<forall>vols. cVolumes c bytes = Inr (Some vols) \<longrightarrow> True \<notin> set vols \<and> length vols \<le> cMaxBytes c div 256)"
  using assms
  by (auto simp: readManifest_def ReadManifest_def readAtMost_spec manifestVolumes_UnmarshalJSON_def checkVolumes_None
      MaxManifestVolumes_def split: sum.splits option.splits prod.splits if_splits)

end
