(* ===== verification/Cache.thy ===== *)
theory Cache
  imports Readers "HOL-Library.AList" "HOL-Library.List_Lexorder"
begin

text \<open>
  The manifest cache (\<^verbatim>\<open>backup/sync.go\<close>): which objects at a destination are manifests, how the
  local cache is brought up to date with them, and how a manifest is read through it. The
  destination is the record of answers \<open>Backend\<close>, the cache directory an association list of its
  entries, and every request to the destination is recorded in \<open>Calls\<close>. The file system errors that
  may happen are the fields of \<open>fsEnv\<close>; MD5, as hexadecimal, is the parameter \<open>md5\<close>.
\<close>

section \<open>Which objects are manifests\<close>

definition isManifestObject :: "string \<Rightarrow> string \<Rightarrow> string \<Rightarrow> bool" where
  "isManifestObject name manifestPrefix separator =
     (case cutPrefix name manifestPrefix of
        None \<Rightarrow> False
      | Some rest \<Rightarrow>
          if rest = [] then False
          else if separator \<noteq> [] \<and> hasPrefix rest separator then True
          else let sep = takeWhile (\<lambda>c. \<not> inDatasetName c) rest;
                   set_name = dropWhile (\<lambda>c. \<not> inDatasetName c) rest
               in if sep = [] then False
                  else case lastIndexOf set_name ''.manifest'' of
                         None \<Rightarrow> False
                       | Some idx \<Rightarrow> containsStr (take idx set_name) sep)"

definition manifestMayBeFor :: "string \<Rightarrow> string \<Rightarrow> string \<Rightarrow> bool" where
  "manifestMayBeFor objectName manifestPrefix volume =
     (case cutPrefix objectName manifestPrefix of
        None \<Rightarrow> True
      | Some rest \<Rightarrow>
          list_ex (\<lambda>i. hasPrefix (drop i rest) volume \<and> hasPrefix (drop (i + length volume) rest) (take i rest))
            [1..<length rest + 1 - length volume])"

text \<open>Every manifest a job writes is recognised as one, and as one of its volume.\<close>

lemma isManifestObject_manifestObjectName:
  assumes "Separator j \<noteq> []"
  shows "isManifestObject (manifestObjectName j pre pgp) pre (Separator j)"
proof -
  obtain parts ext where p: "volumeNameParts j True pgp = (parts, ext)" "parts \<noteq> []"
    by (auto simp: volumeNameParts_def Let_def)
  have "manifestObjectName j pre pgp = pre @ Separator j @ joinWith parts (Separator j) @ ''.'' @ joinWith (''manifest'' # ext) ''.''"
    using p by (simp add: manifestObjectName_def joinWith_Cons)
  then show ?thesis using assms by (simp add: isManifestObject_def cutPrefix_def)
qed

lemma manifestMayBeFor_manifestObjectName:
  assumes "Separator j \<noteq> []"
  shows "manifestMayBeFor (manifestObjectName j pre pgp) pre (VolumeName j)"
proof -
  let ?sep = "Separator j"
  obtain parts ext where p: "volumeNameParts j True pgp = (VolumeName j # parts, ext)" "parts \<noteq> []"
    by (auto simp: volumeNameParts_def Let_def)
  define tail where "tail = joinWith parts ?sep @ ''.'' @ joinWith (''manifest'' # ext) ''.''"
  let ?rest = "?sep @ VolumeName j @ ?sep @ tail"
  have "manifestObjectName j pre pgp = pre @ ?rest"
    using p by (simp add: manifestObjectName_def joinWith_Cons tail_def)
  then have cut: "cutPrefix (manifestObjectName j pre pgp) pre = Some ?rest"
    by (simp only: cutPrefix_Some_iff)
  have "length ?sep \<in> set [1..<length ?rest + 1 - length (VolumeName j)]"
    using assms by (cases "?sep") auto
  moreover have "hasPrefix (drop (length ?sep) ?rest) (VolumeName j)"
      "hasPrefix (drop (length ?sep + length (VolumeName j)) ?rest) (take (length ?sep) ?rest)"
    by simp_all
  ultimately show ?thesis
    unfolding manifestMayBeFor_def cut option.case list_ex_iff by blast
qed

definition withoutNames :: "string list \<Rightarrow> string list \<Rightarrow> string list \<Rightarrow> string list \<times> string list" where
  "withoutNames names other dropped =
     (if dropped = [] then (names, other)
      else (filter (\<lambda>n. n \<notin> set dropped) names,
            if other = [] then [] else map snd (filter (\<lambda>(n, _). n \<notin> set dropped) (zip names other))))"

section \<open>The destination and the cache directory\<close>

record Backend =
  bList :: "string \<Rightarrow> string + string list"
  bDownload :: "string \<Rightarrow> string + source"
  bPreDownload :: "string list \<Rightarrow> string option"
  bNotReadable :: "(string list \<Rightarrow> string + string list) option"

datatype backend_call =
    CallList string
  | CallDownload string
  | CallPreDownload "string list"
  | CallNotReadable "string list"

record dirEntry =
  IsDir :: bool
  ModTime :: time
  FileData :: string

type_synonym dir = "(string \<times> dirEntry) list"

record fsEnv =
  fsNow :: time
  fsReadDirErr :: "string option"
  fsWriteErr :: "string \<Rightarrow> string option"
  fsSyncErr :: "string \<Rightarrow> string option"
  fsInfoErr :: "string \<Rightarrow> bool"
  fsRemoveErr :: "string \<Rightarrow> string option"
  fsRenameErr :: "string \<Rightarrow> string option"

record ioState =
  Cached :: dir
  Calls :: "backend_call list"

definition AtomicTempPrefix :: string where
  "AtomicTempPrefix = ''.tmp-''"

text \<open>\<^verbatim>\<open>filepath.Base\<close>.\<close>

definition baseName :: "string \<Rightarrow> string" where
  "baseName p =
     (if p = [] then ''.''
      else let q = dropWhile (\<lambda>c. c = CHR ''/'') (rev p)
           in if q = [] then ''/'' else rev (takeWhile (\<lambda>c. c \<noteq> CHR ''/'') q))"

definition IsAtomicTemp :: "string \<Rightarrow> bool" where
  "IsAtomicTemp name \<longleftrightarrow> hasPrefix (baseName name) AtomicTempPrefix"

datatype io_error =
    BackendError string
  | TooLargeObject string
  | FileError string

text \<open>
  \<^verbatim>\<open>WriteFileAtomic\<close>, from what copying the reader gives: an error before the rename leaves the
  directory as it was, an error syncing it comes after the new file is in place.
\<close>

definition WriteFileAtomic ::
    "fsEnv \<Rightarrow> dir \<Rightarrow> string \<Rightarrow> (copy_error + string) \<Rightarrow> copy_error option \<times> dir" where
  "WriteFileAtomic env d name r =
     (case r of
        Inl err \<Rightarrow> (Some err, d)
      | Inr bytes \<Rightarrow>
          (case fsWriteErr env name of
             Some e \<Rightarrow> (Some (CopyFailed e), d)
           | None \<Rightarrow>
               let d' = AList.update name \<lparr>IsDir = False, ModTime = fsNow env, FileData = bytes\<rparr> d
               in (map_option CopyFailed (fsSyncErr env name), d')))"

definition copyBuffer :: nat where "copyBuffer = 32 * 1024"

definition downloadAtMost ::
    "fsEnv \<Rightarrow> Backend \<Rightarrow> ioState \<Rightarrow> string \<Rightarrow> string \<Rightarrow> nat \<Rightarrow> io_error option \<times> ioState" where
  "downloadAtMost env b st objectName file limit =
     (let st = st\<lparr>Calls := Calls st @ [CallDownload objectName]\<rparr>
      in case bDownload b objectName of
           Inl e \<Rightarrow> (Some (BackendError e), st)
         | Inr r \<Rightarrow>
             let copied = (case copyAtMost copyBuffer \<lparr>amSource = r, amLeft = int limit\<rparr> [] of
                             Some c \<Rightarrow> c | None \<Rightarrow> Inl (CopyFailed []));
                 (err, d) = WriteFileAtomic env (Cached st) file copied
             in (map_option (\<lambda>e. case e of ObjectTooLarge \<Rightarrow> TooLargeObject objectName | CopyFailed s \<Rightarrow> FileError s) err,
                 st\<lparr>Cached := d\<rparr>))"

definition downloadTo ::
    "fsEnv \<Rightarrow> Codec \<Rightarrow> Backend \<Rightarrow> ioState \<Rightarrow> string \<Rightarrow> string \<Rightarrow> io_error option \<times> ioState" where
  "downloadTo env c b st objectName file = downloadAtMost env b st objectName file (cMaxBytes c)"

section \<open>Bringing the cache up to date\<close>

definition staleTempAge :: duration where "staleTempAge = 24 * hour"

definition removeStaleTemp :: "fsEnv \<Rightarrow> string \<Rightarrow> dirEntry \<Rightarrow> dir \<Rightarrow> dir" where
  "removeStaleTemp env name e d =
     (if fsInfoErr env name \<or> time_sub (fsNow env) (ModTime e) < staleTempAge then d
      else case fsRemoveErr env name of Some err \<Rightarrow> d | None \<Rightarrow> AList.delete name d)"

text \<open>\<^verbatim>\<open>os.ReadDir\<close> lists a directory by name.\<close>

definition readDir :: "dir \<Rightarrow> dir" where
  "readDir d = sort_key fst d"

fun removeSafe :: "string \<Rightarrow> (string \<times> string) list \<Rightarrow> (string \<times> string) list" where
  "removeSafe file [] = []"
| "removeSafe file ((m, safe) # ms) = (if safe = file then ms else (m, safe) # removeSafe file ms)"

text \<open>
  The loop over the cached files: the manifests still to download (each with its name in the
  cache), the files that are no manifest at the destination, and the directory after it.
\<close>

fun scanCache ::
    "fsEnv \<Rightarrow> dir \<Rightarrow> (string \<times> string) list \<Rightarrow> string list \<Rightarrow> dir \<Rightarrow> (string \<times> string) list \<times> string list \<times> dir" where
  "scanCache env [] manifests localOnly d = (manifests, localOnly, d)"
| "scanCache env ((file, e) # entries) manifests localOnly d =
     (if IsAtomicTemp file \<and> \<not> IsDir e
      then scanCache env entries manifests localOnly (removeStaleTemp env file e d)
      else if IsDir e then scanCache env entries manifests localOnly d
      else if file \<in> set (map snd manifests)
      then scanCache env entries (removeSafe file manifests) localOnly d
      else scanCache env entries manifests (localOnly @ [file]) d)"

datatype sync_error =
    ListFailed string
  | CacheDirFailed string
  | ReadableCheckFailed string
  | ArchivedManifests string "string list"
  | PreDownloadFailed string
  | DownloadFailed io_error

definition notReadable :: "Backend \<Rightarrow> ioState \<Rightarrow> string list \<Rightarrow> (string + string list) \<times> ioState" where
  "notReadable b st objects =
     (case bNotReadable b of
        None \<Rightarrow> (Inr [], st)
      | Some f \<Rightarrow>
          if objects = [] then (Inr [], st)
          else (f objects, st\<lparr>Calls := Calls st @ [CallNotReadable objects]\<rparr>))"

definition PreDownload :: "Backend \<Rightarrow> ioState \<Rightarrow> string list \<Rightarrow> string option \<times> ioState" where
  "PreDownload b st objects = (bPreDownload b objects, st\<lparr>Calls := Calls st @ [CallPreDownload objects]\<rparr>)"

fun downloadAll ::
    "fsEnv \<Rightarrow> Codec \<Rightarrow> Backend \<Rightarrow> ioState \<Rightarrow> (string \<times> string) list \<Rightarrow> io_error option \<times> ioState" where
  "downloadAll env c b st [] = (None, st)"
| "downloadAll env c b st ((manifest, safe) # ms) =
     (case downloadTo env c b st manifest safe of
        (None, st') \<Rightarrow> downloadAll env c b st' ms
      | (Some (TooLargeObject n), st') \<Rightarrow> downloadAll env c b st' ms
      | (Some err, st') \<Rightarrow> (Some err, st'))"

text \<open>The end of \<^verbatim>\<open>syncCacheMode\<close>: the downloads, and before them the check of a run that restores nothing.\<close>

definition syncDownload ::
    "fsEnv \<Rightarrow> Codec \<Rightarrow> Backend \<Rightarrow> (string \<times> string) list \<Rightarrow> string list \<times> string list \<Rightarrow> ioState
      \<Rightarrow> (sync_error + (string list \<times> string list)) \<times> ioState" where
  "syncDownload env c b manifests result st =
     (case downloadAll env c b st manifests of
        (Some err, st) \<Rightarrow> (Inl (DownloadFailed err), st)
      | (None, st) \<Rightarrow> (Inr result, st))"

definition syncReadable ::
    "fsEnv \<Rightarrow> Codec \<Rightarrow> Backend \<Rightarrow> JobInfo \<Rightarrow> string \<Rightarrow> (string \<times> string) list \<Rightarrow> string list \<times> string list \<Rightarrow> ioState
      \<Rightarrow> (sync_error + (string list \<times> string list)) \<times> ioState" where
  "syncReadable env c b j volume manifests result st =
     (case notReadable b st (map fst manifests) of
        (Inl e, st) \<Rightarrow> (Inl (ReadableCheckFailed e), st)
      | (Inr cold, st) \<Rightarrow>
          let ours = filter (\<lambda>name. manifestMayBeFor name (ManifestPrefix j) volume) cold
          in if ours \<noteq> [] then (Inl (ArchivedManifests volume ours), st)
             else let (names, safes) = withoutNames (map fst manifests) (map snd manifests) cold
                  in syncDownload env c b (zip names safes) (fst (withoutNames (fst result) [] cold), snd result) st)"

definition syncCacheMode ::
    "fsEnv \<Rightarrow> Codec \<Rightarrow> (string \<Rightarrow> string) \<Rightarrow> Backend \<Rightarrow> JobInfo \<Rightarrow> bool \<Rightarrow> string \<Rightarrow> ioState
      \<Rightarrow> (sync_error + (string list \<times> string list)) \<times> ioState" where
  "syncCacheMode env c md5 b j noRestore volume st =
     (let st = st\<lparr>Calls := Calls st @ [CallList (ManifestPrefix j)]\<rparr>
      in case bList b (ManifestPrefix j) of
           Inl e \<Rightarrow> (Inl (ListFailed e), st)
         | Inr listed \<Rightarrow>
             let atDestination = filter (\<lambda>name. isManifestObject name (ManifestPrefix j) (Separator j)) listed
             in case fsReadDirErr env of
                  Some e \<Rightarrow> (Inl (CacheDirFailed e), st)
                | None \<Rightarrow>
                    let (manifests, localOnly, d) =
                          scanCache env (readDir (Cached st)) (map (\<lambda>m. (m, md5 m)) atDestination) [] (Cached st);
                        st = st\<lparr>Cached := d\<rparr>
                    in if noRestore then syncReadable env c b j volume manifests (atDestination, localOnly) st
                       else case PreDownload b st (map fst manifests) of
                              (Some e, st) \<Rightarrow> (Inl (PreDownloadFailed e), st)
                            | (None, st) \<Rightarrow> syncDownload env c b manifests (atDestination, localOnly) st)"

definition syncCache ::
    "fsEnv \<Rightarrow> Codec \<Rightarrow> (string \<Rightarrow> string) \<Rightarrow> Backend \<Rightarrow> JobInfo \<Rightarrow> ioState
      \<Rightarrow> (sync_error + (string list \<times> string list)) \<times> ioState" where
  "syncCache env c md5 b j st = syncCacheMode env c md5 b j False [] st"

section \<open>Reading a manifest through the cache\<close>

datatype manifest_error =
    ManifestRead read_error
  | ManifestOfAnotherSet string
  | ManifestTooLarge

datatype cache_error =
    UnreadableManifest string string manifest_error
  | CacheRemoveFailed string
  | CachePreDownloadFailed string
  | CacheDownloadFailed io_error

definition keepsCachedCopy :: "manifest_error \<Rightarrow> bool" where
  "keepsCachedCopy err =
     (case err of
        ManifestRead ManifestTooLong \<Rightarrow> True
      | ManifestRead (KeyError needsSecretKey) \<Rightarrow> needsSecretKey
      | _ \<Rightarrow> False)"

definition manifestNamed :: "JobInfo \<Rightarrow> Manifest \<Rightarrow> string \<Rightarrow> manifest_error option" where
  "manifestNamed j manifest objectName =
     (let name = StoredManifestObjectName manifest (ManifestPrefix j)
      in if name \<noteq> objectName then Some (ManifestOfAnotherSet name) else None)"

definition readCached :: "Codec \<Rightarrow> dir \<Rightarrow> string \<Rightarrow> read_error + Manifest" where
  "readCached c d file =
     (case map_of d file of
        None \<Rightarrow> Inl NotExist
      | Some e \<Rightarrow> if IsDir e then Inl (Unreadable file) else readManifest c (FileData e))"

definition readNamed :: "Codec \<Rightarrow> JobInfo \<Rightarrow> dir \<Rightarrow> string \<Rightarrow> string \<Rightarrow> manifest_error + Manifest" where
  "readNamed c j d file objectName =
     (case readCached c d file of
        Inl err \<Rightarrow> Inl (ManifestRead err)
      | Inr manifest \<Rightarrow> (case manifestNamed j manifest objectName of Some err \<Rightarrow> Inl err | None \<Rightarrow> Inr manifest))"

definition removeFile :: "fsEnv \<Rightarrow> ioState \<Rightarrow> string \<Rightarrow> string option \<times> ioState" where
  "removeFile env st file =
     (case fsRemoveErr env file of
        Some e \<Rightarrow> (Some e, st)
      | None \<Rightarrow> (None, st\<lparr>Cached := AList.delete file (Cached st)\<rparr>))"

text \<open>The second half of \<^verbatim>\<open>readCachedManifest\<close>: the download and the second reading.\<close>

definition fetchManifest ::
    "fsEnv \<Rightarrow> Codec \<Rightarrow> Backend \<Rightarrow> JobInfo \<Rightarrow> ioState \<Rightarrow> string \<Rightarrow> string \<Rightarrow> (cache_error + Manifest) \<times> ioState" where
  "fetchManifest env c b j st path objectName =
     (case PreDownload b st [objectName] of
        (Some e, st) \<Rightarrow> (Inl (CachePreDownloadFailed e), st)
      | (None, st) \<Rightarrow>
          (case downloadTo env c b st objectName path of
             (Some (TooLargeObject n), st) \<Rightarrow> (Inl (UnreadableManifest objectName path ManifestTooLarge), st)
           | (Some err, st) \<Rightarrow> (Inl (CacheDownloadFailed err), st)
           | (None, st) \<Rightarrow>
               (case readNamed c j (Cached st) path objectName of
                  Inr manifest \<Rightarrow> (Inr manifest, st)
                | Inl err \<Rightarrow>
                    (Inl (UnreadableManifest objectName path err),
                     if keepsCachedCopy err then st else snd (removeFile env st path)))))"

definition readCachedManifest ::
    "fsEnv \<Rightarrow> Codec \<Rightarrow> (string \<Rightarrow> string) \<Rightarrow> Backend \<Rightarrow> JobInfo \<Rightarrow> ioState \<Rightarrow> string
      \<Rightarrow> (cache_error + Manifest) \<times> ioState" where
  "readCachedManifest env c md5 b j st objectName =
     (let path = md5 objectName
      in case readNamed c j (Cached st) path objectName of
           Inr manifest \<Rightarrow> (Inr manifest, st)
         | Inl err \<Rightarrow>
             if keepsCachedCopy err then (Inl (UnreadableManifest objectName path err), st)
             else if err \<noteq> ManifestRead NotExist
             then (case removeFile env st path of
                     (Some e, st) \<Rightarrow> (Inl (CacheRemoveFailed e), st)
                   | (None, st) \<Rightarrow> fetchManifest env c b j st path objectName)
             else fetchManifest env c b j st path objectName)"

section \<open>Moving an older cache\<close>

text \<open>\<^verbatim>\<open>adoptCacheDir\<close>: the entries of \<open>from\<close> in turn, with both directories as they are left.\<close>

fun adoptEntries :: "fsEnv \<Rightarrow> dir \<Rightarrow> dir \<Rightarrow> dir \<Rightarrow> string option \<times> dir \<times> dir" where
  "adoptEntries env [] src dst = (None, src, dst)"
| "adoptEntries env ((name, e) # entries) src dst =
     (if IsDir e then adoptEntries env entries src dst
      else if map_of dst name \<noteq> None
      then (case fsRemoveErr env name of
              Some err \<Rightarrow> (Some err, src, dst)
            | None \<Rightarrow> adoptEntries env entries (AList.delete name src) dst)
      else (case fsRenameErr env name of
              Some err \<Rightarrow> (Some err, src, dst)
            | None \<Rightarrow> adoptEntries env entries (AList.delete name src) (AList.update name e dst)))"

definition adoptCacheDir :: "fsEnv \<Rightarrow> dir option \<Rightarrow> dir \<Rightarrow> string option \<times> dir option \<times> dir" where
  "adoptCacheDir env src dst =
     (case src of
        None \<Rightarrow> (None, None, dst)
      | Some entries \<Rightarrow>
          (case fsReadDirErr env of
             Some err \<Rightarrow> (Some err, src, dst)
           | None \<Rightarrow>
               (case adoptEntries env (readDir entries) entries dst of
                  (Some err, src', dst') \<Rightarrow> (Some err, Some src', dst')
                | (None, src', dst') \<Rightarrow> (None, if src' = [] then None else Some src', dst'))))"

end
