(* ===== verification/CacheProperties.thy ===== *)
theory CacheProperties
  imports Cache
begin

text \<open>
  What the cache guarantees its readers: after a sync it holds the manifests of the destination, a
  manifest read through it is the one its name promises, and a run that must restore nothing does not.
\<close>

section \<open>Downloads\<close>

lemma copyBuffer_pos: "0 < copyBuffer" by (simp add: copyBuffer_def)

lemma copied_spec:
  "copyAtMost copyBuffer \<lparr>amSource = (cs, e), amLeft = int (cMaxBytes c)\<rparr> [] =
    Some (if length (concat cs) > cMaxBytes c then Inl ObjectTooLarge
          else case e of None \<Rightarrow> Inr (concat cs) | Some s \<Rightarrow> Inl (CopyFailed s))"
  by (subst copyAtMost_spec) (simp_all add: copyBuffer_pos split: option.split)

lemma downloadTo_code [code]:
  "downloadTo env c b st objectName file =
     (let st = st\<lparr>Calls := Calls st @ [CallDownload objectName]\<rparr>
      in case bDownload b objectName of
           Inl e \<Rightarrow> (Some (BackendError e), st)
         | Inr (cs, e) \<Rightarrow>
             let copied = (if length (concat cs) > cMaxBytes c then Inl ObjectTooLarge
                           else case e of None \<Rightarrow> Inr (concat cs) | Some s \<Rightarrow> Inl (CopyFailed s));
                 (err, d) = WriteFileAtomic env (Cached st) file copied
             in (map_option (\<lambda>e. case e of ObjectTooLarge \<Rightarrow> TooLargeObject objectName | CopyFailed s \<Rightarrow> FileError s) err,
                 st\<lparr>Cached := d\<rparr>))"
  by (simp add: downloadTo_def downloadAtMost_def copied_spec Let_def split: sum.split prod.split)

declare readAtMost_spec [code]

lemma downloadTo_calls:
  "downloadTo env c b st m f = (r, st') \<Longrightarrow> Calls st' = Calls st @ [CallDownload m]"
  by (auto simp: downloadTo_def downloadAtMost_def Let_def split: sum.splits prod.splits option.splits)

lemma downloadTo_ok:
  assumes "downloadTo env c b st m f = (None, st')"
  obtains cs where "bDownload b m = Inr (cs, None)" "length (concat cs) \<le> cMaxBytes c"
    "map_of (Cached st') = (map_of (Cached st))(f \<mapsto> \<lparr>IsDir = False, ModTime = fsNow env, FileData = concat cs\<rparr>)"
proof -
  obtain cs e where src: "bDownload b m = Inr (cs, e)"
    using assms by (auto simp: downloadTo_def downloadAtMost_def Let_def split: sum.splits)
  note copied = copied_spec [of cs e c]
  have "e = None \<and> length (concat cs) \<le> cMaxBytes c \<and>
    map_of (Cached st') = (map_of (Cached st))(f \<mapsto> \<lparr>IsDir = False, ModTime = fsNow env, FileData = concat cs\<rparr>)"
    using assms src copied
    by (auto simp: downloadTo_def downloadAtMost_def WriteFileAtomic_def Let_def update_conv'
        split: if_splits option.splits)
  then show ?thesis using src by (intro that [of cs]) simp_all
qed

lemma downloadTo_grows:
  assumes "downloadTo env c b st m f = (r, st')"
  shows "map_of (Cached st) g \<noteq> None \<Longrightarrow> map_of (Cached st') g \<noteq> None"
    and "g \<noteq> f \<Longrightarrow> map_of (Cached st') g = map_of (Cached st) g"
  using assms
  by (auto simp: downloadTo_def downloadAtMost_def WriteFileAtomic_def Let_def update_conv'
      split: sum.splits prod.splits if_splits option.splits)

lemma downloadTo_tooLarge:
  assumes "downloadTo env c b st m f = (Some (TooLargeObject n), st')"
  shows "\<exists>cs e. bDownload b m = Inr (cs, e) \<and> cMaxBytes c < length (concat cs)" and "Cached st' = Cached st"
proof -
  obtain cs e where src: "bDownload b m = Inr (cs, e)"
    using assms by (auto simp: downloadTo_def downloadAtMost_def Let_def split: sum.splits)
  note copied = copied_spec [of cs e c]
  have "cMaxBytes c < length (concat cs) \<and> Cached st' = Cached st"
    using assms src copied
    by (auto simp: downloadTo_def downloadAtMost_def WriteFileAtomic_def Let_def split: if_splits option.splits)
  then show "\<exists>cs e. bDownload b m = Inr (cs, e) \<and> cMaxBytes c < length (concat cs)" "Cached st' = Cached st"
    using src by auto
qed

definition tooLarge :: "Codec \<Rightarrow> Backend \<Rightarrow> string \<Rightarrow> bool" where
  "tooLarge c b m \<longleftrightarrow> (case bDownload b m of Inr (cs, e) \<Rightarrow> cMaxBytes c < length (concat cs) | Inl e \<Rightarrow> False)"

lemma downloadAll_ok:
  assumes "downloadAll env c b st ms = (None, st')"
  shows "(map_of (Cached st) g \<noteq> None \<longrightarrow> map_of (Cached st') g \<noteq> None)
    \<and> (\<forall>(m, s)\<in>set ms. map_of (Cached st') s \<noteq> None \<or> tooLarge c b m)"
  using assms
proof (induction ms arbitrary: st g)
  case Nil
  then show ?case by simp
next
  case (Cons p ms)
  obtain m s where p: "p = (m, s)" by fastforce
  obtain r st1 where r: "downloadTo env c b st m s = (r, st1)" by fastforce
  have rest: "downloadAll env c b st1 ms = (None, st')" and ok: "r = None \<or> (\<exists>n. r = Some (TooLargeObject n))"
    using Cons.prems p r by (auto split: option.splits io_error.splits)
  have "map_of (Cached st1) s \<noteq> None \<or> tooLarge c b m"
    using ok r downloadTo_tooLarge(1) [of env c b st m s] by (auto simp: tooLarge_def elim!: downloadTo_ok)
  then show ?case using Cons.IH [OF rest, of g] Cons.IH [OF rest, of s] downloadTo_grows(1) [OF r, of g] p by auto
qed

lemma downloadAll_calls:
  assumes "downloadAll env c b st ms = (r, st')"
  shows "\<exists>ns. Calls st' = Calls st @ map CallDownload ns \<and> set ns \<subseteq> fst ` set ms"
  using assms
proof (induction ms arbitrary: st)
  case Nil
  then show ?case by (auto intro: exI [of _ "[]"])
next
  case (Cons p ms)
  obtain m s where p: "p = (m, s)" by fastforce
  obtain q st1 where q: "downloadTo env c b st m s = (q, st1)" by fastforce
  have calls: "Calls st1 = Calls st @ [CallDownload m]" by (rule downloadTo_calls [OF q])
  have "st1 = st' \<or> downloadAll env c b st1 ms = (r, st')"
    using Cons.prems p q by (auto split: option.splits io_error.splits)
  then show ?case
  proof
    assume "st1 = st'"
    then show ?thesis using calls p by (intro exI [of _ "[m]"]) simp
  next
    assume "downloadAll env c b st1 ms = (r, st')"
    then obtain ns where "Calls st' = Calls st1 @ map CallDownload ns" "set ns \<subseteq> fst ` set ms" using Cons.IH by blast
    then show ?thesis using calls p by (intro exI [of _ "m # ns"]) auto
  qed
qed

section \<open>Scanning the cache\<close>

definition manifestFile :: "string \<times> dirEntry \<Rightarrow> bool" where
  "manifestFile fe \<longleftrightarrow> \<not> IsDir (snd fe) \<and> \<not> IsAtomicTemp (fst fe)"

lemma set_removeSafe: "x \<in> set (removeSafe f ms) \<Longrightarrow> x \<in> set ms"
  by (induction f ms rule: removeSafe.induct) (auto split: if_splits)

lemma removeSafe_other: "(m, s) \<in> set ms \<Longrightarrow> s \<noteq> f \<Longrightarrow> (m, s) \<in> set (removeSafe f ms)"
  by (induction f ms rule: removeSafe.induct) auto

lemma removeSafe_names: "g \<noteq> f \<Longrightarrow> g \<in> snd ` set (removeSafe f ms) \<longleftrightarrow> g \<in> snd ` set ms"
  by (induction f ms rule: removeSafe.induct) (auto simp: image_iff)

lemma removeStaleTemp_other: "g \<noteq> f \<Longrightarrow> map_of (removeStaleTemp env f e d) g = map_of d g"
  by (simp add: removeStaleTemp_def delete_conv' split: option.splits)

lemma scanCache_subset: "scanCache env es ms loc d = (ms', loc', d') \<Longrightarrow> p \<in> set ms' \<Longrightarrow> p \<in> set ms"
proof (induction env es ms loc d rule: scanCache.induct)
  case (2 env f e es ms loc d)
  then show ?case using set_removeSafe [of p f ms] by (simp split: if_splits)
qed simp

lemma scanCache_cached:
  "scanCache env es ms loc d = (ms', loc', d') \<Longrightarrow> (m, s) \<in> set ms \<Longrightarrow>
     (m, s) \<in> set ms' \<or> (\<exists>e. (s, e) \<in> set es \<and> manifestFile (s, e))"
proof (induction env es ms loc d rule: scanCache.induct)
  case (2 env f e es ms loc d)
  then show ?case
    using removeSafe_other [of m s ms f] by (cases "s = f") (auto simp: manifestFile_def split: if_splits)
qed simp

lemma scanCache_localOnly:
  "scanCache env es ms loc d = (ms', loc', d') \<Longrightarrow> distinct (map fst es) \<Longrightarrow>
     loc' = loc @ map fst (filter (\<lambda>fe. manifestFile fe \<and> fst fe \<notin> snd ` set ms) es)"
proof (induction env es ms loc d rule: scanCache.induct)
  case (2 env f e es ms loc d)
  have "filter (\<lambda>fe. manifestFile fe \<and> fst fe \<notin> snd ` set (removeSafe f ms)) es
      = filter (\<lambda>fe. manifestFile fe \<and> fst fe \<notin> snd ` set ms) es"
  proof (rule filter_cong)
    fix fe assume "fe \<in> set es"
    then have "fst fe \<noteq> f" using "2.prems"(2) by auto
    then show "(manifestFile fe \<and> fst fe \<notin> snd ` set (removeSafe f ms)) = (manifestFile fe \<and> fst fe \<notin> snd ` set ms)"
      by (simp only: removeSafe_names not_False_eq_True)
  qed simp
  then show ?case using 2 by (auto simp: manifestFile_def split: if_splits)
qed simp

lemma scanCache_keeps:
  "scanCache env es ms loc d = (ms', loc', d') \<Longrightarrow> \<not> IsAtomicTemp g \<Longrightarrow> map_of d' g = map_of d g"
proof (induction env es ms loc d rule: scanCache.induct)
  case (2 env f e es ms loc d)
  have "g \<noteq> f" if "IsAtomicTemp f" using "2.prems"(2) that by auto
  then show ?case using 2 by (auto simp: removeStaleTemp_other split: if_splits)
qed simp

lemma set_readDir [simp]: "set (readDir d) = set d"
  by (simp add: readDir_def)

lemma distinct_readDir: "distinct (map fst d) \<Longrightarrow> distinct (map fst (readDir d))"
proof -
  have "mset (map fst (readDir d)) = mset (map fst d)" by (simp add: readDir_def)
  then show "distinct (map fst d) \<Longrightarrow> distinct (map fst (readDir d))" using mset_eq_imp_distinct_iff by blast
qed


section \<open>Syncing\<close>

definition atDestination :: "Backend \<Rightarrow> JobInfo \<Rightarrow> string list" where
  "atDestination b j =
     (case bList b (ManifestPrefix j) of
        Inl e \<Rightarrow> []
      | Inr listed \<Rightarrow> filter (\<lambda>name. isManifestObject name (ManifestPrefix j) (Separator j)) listed)"

lemma syncCache_ok:
  assumes "syncCache env c md5 b j st = (Inr (manifests, localOnly), st')"
  obtains ms d calls where
    "scanCache env (readDir (Cached st)) (map (\<lambda>m. (m, md5 m)) manifests) [] (Cached st) = (ms, localOnly, d)"
    "manifests = atDestination b j" "downloadAll env c b (st\<lparr>Cached := d, Calls := calls\<rparr>) ms = (None, st')"
  using assms unfolding syncCache_def syncCacheMode_def PreDownload_def atDestination_def syncDownload_def
  by (auto simp: Let_def split: sum.splits option.splits prod.splits)

lemma syncCache_cached:
  assumes "syncCache env c md5 b j st = (Inr (manifests, localOnly), st')" "distinct (map fst (Cached st))"
    and "m \<in> set manifests"
  shows "map_of (Cached st') (md5 m) \<noteq> None \<or> tooLarge c b m"
proof -
  obtain ms d calls where
    scan: "scanCache env (readDir (Cached st)) (map (\<lambda>m. (m, md5 m)) manifests) [] (Cached st) = (ms, localOnly, d)"
    and load: "downloadAll env c b (st\<lparr>Cached := d, Calls := calls\<rparr>) ms = (None, st')"
    by (rule syncCache_ok [OF assms(1)])
  have "(m, md5 m) \<in> set (map (\<lambda>m. (m, md5 m)) manifests)" using assms(3) by simp
  then consider "(m, md5 m) \<in> set ms" | e where "(md5 m, e) \<in> set (Cached st)" "manifestFile (md5 m, e)"
    using scanCache_cached [OF scan, of m "md5 m"] unfolding set_readDir by blast
  then show ?thesis
  proof cases
    case 1
    then show ?thesis using downloadAll_ok [OF load, THEN conjunct2] by blast
  next
    case 2
    then have "map_of d (md5 m) \<noteq> None"
      using scanCache_keeps [OF scan, of "md5 m"] assms(2) by (simp add: manifestFile_def)
    then show ?thesis using downloadAll_ok [OF load, of "md5 m"] by simp
  qed
qed

lemma syncCache_rules:
  assumes "syncCache env c md5 b j st = (Inr (manifests, localOnly), st')" and "distinct (map fst (Cached st))"
  shows "manifests = atDestination b j"
    and "m \<in> set manifests \<Longrightarrow> map_of (Cached st') (md5 m) \<noteq> None \<or> tooLarge c b m"
    and "f \<in> set localOnly \<longleftrightarrow>
      (\<exists>e. map_of (Cached st) f = Some e \<and> \<not> IsDir e \<and> \<not> IsAtomicTemp f) \<and> f \<notin> md5 ` set (atDestination b j)"
proof -
  obtain ms d where
    scan: "scanCache env (readDir (Cached st)) (map (\<lambda>m. (m, md5 m)) manifests) [] (Cached st) = (ms, localOnly, d)"
    and dest: "manifests = atDestination b j"
    by (rule syncCache_ok [OF assms(1)])
  show "manifests = atDestination b j" by (rule dest)
  show "m \<in> set manifests \<Longrightarrow> map_of (Cached st') (md5 m) \<noteq> None \<or> tooLarge c b m"
    by (rule syncCache_cached [OF assms])
  show "f \<in> set localOnly \<longleftrightarrow>
      (\<exists>e. map_of (Cached st) f = Some e \<and> \<not> IsDir e \<and> \<not> IsAtomicTemp f) \<and> f \<notin> md5 ` set (atDestination b j)"
    unfolding scanCache_localOnly [OF scan distinct_readDir [OF assms(2)]] dest
    using assms(2) by (auto simp: manifestFile_def image_iff)
qed

text \<open>
  C28. Syncing leaves the cache complete. When it succeeds it returns the manifests the destination
  lists; every one of them is then in the cache, or is an object over the size limit of a manifest;
  and the files it reports as local-only are the cached manifests that are not at the destination.
\<close>

theorem syncCache_complete:
  assumes "syncCache env c md5 b j st = (Inr (manifests, localOnly), st')" and "distinct (map fst (Cached st))"
  shows "manifests = atDestination b j
       \<and> (\<forall>m\<in>set manifests. map_of (Cached st') (md5 m) \<noteq> None \<or> tooLarge c b m)
       \<and> (\<forall>f. f \<in> set localOnly \<longleftrightarrow>
            (\<exists>e. map_of (Cached st) f = Some e \<and> \<not> IsDir e \<and> \<not> IsAtomicTemp f) \<and> f \<notin> md5 ` set (atDestination b j))"
  using syncCache_rules [OF assms] by blast

text \<open>The requests of a run that restores nothing: no preparation, and what it downloads is readable.\<close>

definition coldRespected :: "Backend \<Rightarrow> backend_call list \<Rightarrow> bool" where
  "coldRespected b calls \<longleftrightarrow>
     (\<forall>ns. CallPreDownload ns \<notin> set calls) \<and>
     (\<forall>n f. CallDownload n \<in> set calls \<longrightarrow> bNotReadable b = Some f \<longrightarrow>
        (\<exists>asked cold. CallNotReadable asked \<in> set calls \<and> f asked = Inr cold \<and> n \<notin> set cold))"

lemma withoutNames_fst: "n \<in> fst ` set (zip (fst (withoutNames ns os cold)) ss) \<Longrightarrow> n \<in> set ns \<and> n \<notin> set cold"
  by (auto simp: withoutNames_def dest!: set_zip_leftD split: if_splits)

lemma syncReadable_calls:
  assumes "syncReadable env c b j volume ms res st = (r, st')" and "Calls st = [CallList p]"
  shows "coldRespected b (Calls st')"
proof -
  obtain q st1 where q: "notReadable b st (map fst ms) = (q, st1)" by fastforce
  have calls1: "Calls st1 = [CallList p] \<or> Calls st1 = [CallList p, CallNotReadable (map fst ms)]"
    and asked: "bNotReadable b = Some f \<Longrightarrow> ms \<noteq> [] \<Longrightarrow> q = f (map fst ms) \<and> Calls st1 = [CallList p, CallNotReadable (map fst ms)]" for f
    using q assms(2) by (auto simp: notReadable_def split: option.splits if_splits)
  show ?thesis
  proof (cases "st' = st1")
    case True
    then show ?thesis using calls1 by (auto simp: coldRespected_def)
  next
    case False
    then obtain cold ss r1 where cold: "q = Inr cold"
      and load: "downloadAll env c b st1 (zip (fst (withoutNames (map fst ms) (map snd ms) cold)) ss) = (r1, st')"
      using assms(1) q unfolding syncReadable_def syncDownload_def
      by (auto simp: Let_def split: sum.splits if_splits prod.splits option.splits)
    obtain ns where ns: "Calls st' = Calls st1 @ map CallDownload ns"
      "set ns \<subseteq> fst ` set (zip (fst (withoutNames (map fst ms) (map snd ms) cold)) ss)"
      using downloadAll_calls [OF load] by blast
    have "n \<in> set (map fst ms)" "n \<notin> set cold" if "n \<in> set ns" for n
      using ns(2) that withoutNames_fst by blast+
    note n = this
    have "\<exists>asked cold. CallNotReadable asked \<in> set (Calls st') \<and> f asked = Inr cold \<and> n \<notin> set cold"
      if down: "CallDownload n \<in> set (Calls st')" and f: "bNotReadable b = Some f" for n f
    proof -
      have "n \<in> set ns" using down ns(1) calls1 by auto
      then have "ms \<noteq> []" "n \<notin> set cold" using n [of n] by auto
      then show ?thesis using asked [OF f] ns(1) cold by (intro exI [of _ "map fst ms"] exI [of _ cold]) simp
    qed
    moreover have "CallPreDownload ns' \<notin> set (Calls st')" for ns' using ns(1) calls1 by auto
    ultimately show ?thesis unfolding coldRespected_def by blast
  qed
qed

lemma no_restore_rules:
  assumes "syncCacheMode env c md5 b j True volume st = (r, st')" and "Calls st = []"
  shows "CallPreDownload ns \<notin> set (Calls st')"
    and "CallDownload n \<in> set (Calls st') \<Longrightarrow> bNotReadable b = Some f \<Longrightarrow>
      \<exists>asked cold. CallNotReadable asked \<in> set (Calls st') \<and> f asked = Inr cold \<and> n \<notin> set cold"
proof -
  consider "Calls st' = [CallList (ManifestPrefix j)]"
    | ms res d where "syncReadable env c b j volume ms res (st\<lparr>Calls := [CallList (ManifestPrefix j)], Cached := d\<rparr>) = (r, st')"
    using assms unfolding syncCacheMode_def by (auto simp: Let_def split: sum.splits option.splits prod.splits)
  then have "coldRespected b (Calls st')"
    by cases (auto simp: coldRespected_def dest: syncReadable_calls)
  then show "CallPreDownload ns \<notin> set (Calls st')"
    and "CallDownload n \<in> set (Calls st') \<Longrightarrow> bNotReadable b = Some f \<Longrightarrow>
      \<exists>asked cold. CallNotReadable asked \<in> set (Calls st') \<and> f asked = Inr cold \<and> n \<notin> set cold"
    by (simp_all add: coldRespected_def)
qed

text \<open>
  A run that must restore nothing (\<^verbatim>\<open>send --dry-run\<close>, \<^verbatim>\<open>plan\<close>) never asks the destination to
  prepare a download, and never downloads an object that the destination says is archived.
\<close>

theorem syncCacheMode_no_restore:
  assumes "syncCacheMode env c md5 b j True volume st = (r, st')" and "Calls st = []"
  shows "(\<forall>ns. CallPreDownload ns \<notin> set (Calls st'))
       \<and> (\<forall>n f. CallDownload n \<in> set (Calls st') \<longrightarrow> bNotReadable b = Some f \<longrightarrow>
            (\<exists>asked cold. CallNotReadable asked \<in> set (Calls st') \<and> f asked = Inr cold \<and> n \<notin> set cold))"
  using no_restore_rules [OF assms] by blast


section \<open>Reading through the cache\<close>

lemma PreDownload_state:
  "PreDownload b st ns = (r, st') \<Longrightarrow> Cached st' = Cached st \<and> Calls st' = Calls st @ [CallPreDownload ns]"
  by (auto simp: PreDownload_def)

lemma fetchManifest_cases:
  assumes "fetchManifest env c b j st path obj = (r, st')"
  obtains (prepare) e where "r = Inl (CachePreDownloadFailed e)" "Cached st' = Cached st"
  | (load) st1 err where "Cached st1 = Cached st" "downloadTo env c b st1 obj path = (Some err, st')"
      "r = Inl (CacheDownloadFailed err) \<or> (\<exists>n. err = TooLargeObject n) \<and> r = Inl (UnreadableManifest obj path ManifestTooLarge)"
  | (accepted) st1 m where "Cached st1 = Cached st" "downloadTo env c b st1 obj path = (None, st')"
      "readNamed c j (Cached st') path obj = Inr m" "r = Inr m"
  | (refused) st1 st2 err where "Cached st1 = Cached st" "downloadTo env c b st1 obj path = (None, st2)"
      "readNamed c j (Cached st2) path obj = Inl err" "r = Inl (UnreadableManifest obj path err)"
      "st' = (if keepsCachedCopy err then st2 else snd (removeFile env st2 path))"
proof -
  obtain p st1 where p: "PreDownload b st [obj] = (p, st1)" by fastforce
  note st1 = PreDownload_state [OF p, THEN conjunct1]
  show ?thesis
  proof (cases p)
    case (Some e)
    then show ?thesis using assms p st1 by (intro prepare [of e]) (auto simp: fetchManifest_def)
  next
    case None
    obtain d st2 where d: "downloadTo env c b st1 obj path = (d, st2)" by fastforce
    show ?thesis
    proof (cases d)
      case (Some err)
      then show ?thesis using assms p d None st1
        by (intro load [of st1 err]) (auto simp: fetchManifest_def split: io_error.splits)
    next
      case N: None
      show ?thesis
      proof (cases "readNamed c j (Cached st2) path obj")
        case (Inl err)
        then show ?thesis using assms p d N None st1 by (intro refused [of st1 st2 err]) (auto simp: fetchManifest_def)
      next
        case (Inr m)
        then show ?thesis using assms p d N None st1 by (intro accepted [of st1 m]) (auto simp: fetchManifest_def)
      qed
    qed
  qed
qed

lemma removeFile_state:
  "g \<noteq> f \<Longrightarrow> map_of (Cached (snd (removeFile env st f))) g = map_of (Cached st) g"
  "fsRemoveErr env f = None \<Longrightarrow> map_of (Cached (snd (removeFile env st f))) f = None"
  "removeFile env st f = (None, st') \<Longrightarrow> st' = snd (removeFile env st f)"
  "removeFile env st f = (Some e, st') \<Longrightarrow> st' = st"
  by (auto simp: removeFile_def delete_conv' split: option.splits)

lemma fetchManifest_other:
  assumes "fetchManifest env c b j st path obj = (r, st')" and "g \<noteq> path"
  shows "map_of (Cached st') g = map_of (Cached st) g"
  using assms(1)
proof (cases rule: fetchManifest_cases)
  case prepare
  then show ?thesis by simp
next
  case load
  then show ?thesis using downloadTo_grows(2) [OF load(2) assms(2)] by simp
next
  case accepted
  then show ?thesis using downloadTo_grows(2) [OF accepted(2) assms(2)] by simp
next
  case refused
  then show ?thesis using downloadTo_grows(2) [OF refused(2) assms(2)] removeFile_state(1) [OF assms(2)] by simp
qed

lemma readCachedManifest_cases:
  assumes "readCachedManifest env c md5 b j st obj = (r, st')"
  obtains (hit) m where "readNamed c j (Cached st) (md5 obj) obj = Inr m" "r = Inr m" "st' = st"
  | (kept) err where "keepsCachedCopy err" "r = Inl (UnreadableManifest obj (md5 obj) err)" "st' = st"
  | (stuck) e where "r = Inl (CacheRemoveFailed e)" "fsRemoveErr env (md5 obj) = Some e" "st' = st"
  | (fetch) st1 where "st1 = st \<or> st1 = snd (removeFile env st (md5 obj))" "fetchManifest env c b j st1 (md5 obj) obj = (r, st')"
proof (cases "readNamed c j (Cached st) (md5 obj) obj")
  case (Inr m)
  then show ?thesis using assms by (intro hit [of m]) (auto simp: readCachedManifest_def)
next
  case (Inl err)
  consider "keepsCachedCopy err" | "\<not> keepsCachedCopy err" "err = ManifestRead NotExist"
    | "\<not> keepsCachedCopy err" "err \<noteq> ManifestRead NotExist" by blast
  then show ?thesis
  proof cases
    case 1
    then show ?thesis using assms Inl by (intro kept [of err]) (auto simp: readCachedManifest_def)
  next
    case 2
    then show ?thesis using assms Inl by (intro fetch [of st]) (auto simp: readCachedManifest_def)
  next
    case 3
    obtain e st1 where e: "removeFile env st (md5 obj) = (e, st1)" by fastforce
    show ?thesis
    proof (cases e)
      case None
      then show ?thesis using assms Inl 3 e by (intro fetch [of st1]) (auto simp: readCachedManifest_def)
    next
      case (Some x)
      then show ?thesis using assms Inl 3 e
        by (intro stuck [of x]) (auto simp: readCachedManifest_def removeFile_def split: option.splits)
    qed
  qed
qed

lemma readNamed_Inr:
  "readNamed c j d f obj = Inr m \<Longrightarrow> readCached c d f = Inr m \<and> StoredManifestObjectName m (ManifestPrefix j) = obj"
  by (auto simp: readNamed_def manifestNamed_def Let_def split: sum.splits if_splits)

lemma readCachedManifest_rules:
  assumes "readCachedManifest env c md5 b j st obj = (Inr m, st')"
  shows "StoredManifestObjectName m (ManifestPrefix j) = obj" and "readCached c (Cached st') (md5 obj) = Inr m"
    and "g \<noteq> md5 obj \<Longrightarrow> map_of (Cached st') g = map_of (Cached st) g"
proof -
  have "readNamed c j (Cached st') (md5 obj) obj = Inr m \<and> (g \<noteq> md5 obj \<longrightarrow> map_of (Cached st') g = map_of (Cached st) g)"
    using assms
  proof (cases rule: readCachedManifest_cases)
    case (hit m)
    then show ?thesis by simp
  next
    case (fetch st1)
    have "g \<noteq> md5 obj \<longrightarrow> map_of (Cached st1) g = map_of (Cached st) g" using fetch(1) removeFile_state(1) by auto
    then show ?thesis
      using fetchManifest_other [OF fetch(2), of g] fetch(2) by (auto elim: fetchManifest_cases)
  qed simp_all
  then show "StoredManifestObjectName m (ManifestPrefix j) = obj" "readCached c (Cached st') (md5 obj) = Inr m"
    "g \<noteq> md5 obj \<Longrightarrow> map_of (Cached st') g = map_of (Cached st) g"
    using readNamed_Inr by blast+
qed

text \<open>
  A manifest read through the cache is the one its object name promises, it is the copy that is
  then in the cache, and reading it touches no other cached manifest.
\<close>

theorem readCachedManifest_sound:
  assumes "readCachedManifest env c md5 b j st obj = (Inr m, st')"
  shows "StoredManifestObjectName m (ManifestPrefix j) = obj \<and> readCached c (Cached st') (md5 obj) = Inr m
       \<and> (\<forall>g. g \<noteq> md5 obj \<longrightarrow> map_of (Cached st') g = map_of (Cached st) g)"
  using readCachedManifest_rules [OF assms] by blast

lemma readCachedManifest_refused_rules:
  assumes "readCachedManifest env c md5 b j st obj = (Inl (UnreadableManifest obj' path err), st')"
    and "fsRemoveErr env (md5 obj) = None" "err \<noteq> ManifestTooLarge"
  shows "obj' = obj \<and> path = md5 obj"
    and "\<not> keepsCachedCopy err \<Longrightarrow> map_of (Cached st') (md5 obj) = None"
proof -
  have "obj' = obj \<and> path = md5 obj \<and> (\<not> keepsCachedCopy err \<longrightarrow> map_of (Cached st') (md5 obj) = None)"
    using assms(1)
  proof (cases rule: readCachedManifest_cases)
    case (fetch st1)
    from fetch(2) show ?thesis
    proof (cases rule: fetchManifest_cases)
      case (refused st1 st2 e)
      then show ?thesis using removeFile_state(2) [OF assms(2)] by auto
    qed (use assms(3) in auto)
  qed simp_all
  then show "obj' = obj \<and> path = md5 obj" "\<not> keepsCachedCopy err \<Longrightarrow> map_of (Cached st') (md5 obj) = None"
    by blast+
qed


section \<open>Moving an older cache\<close>

lemma adoptEntries_spec:
  assumes "adoptEntries env es src dst = (None, src', dst')" "distinct (map fst es)"
  shows "map_of dst' = map_of (filter (\<lambda>fe. \<not> IsDir (snd fe)) es) ++ map_of dst"
  using assms
proof (induction env es src dst rule: adoptEntries.induct)
  case (2 env name e es src dst)
  have "map_of (filter (\<lambda>fe. \<not> IsDir (snd fe)) es) name = None"
    using "2.prems"(2) by (auto simp: map_of_eq_None_iff)
  then show ?case using 2
    by (auto simp: update_conv' map_add_def fun_eq_iff split: if_splits option.splits)
qed simp

lemma map_of_filter_distinct:
  "distinct (map fst xs) \<Longrightarrow> map_of (filter P xs) f =
     (case map_of xs f of Some e \<Rightarrow> if P (f, e) then Some e else None | None \<Rightarrow> None)"
  by (induction xs) (auto simp: map_of_eq_None_iff image_iff split: option.splits)

lemma map_of_readDir: "distinct (map fst d) \<Longrightarrow> map_of (readDir d) = map_of d"
  by (simp add: map_of_inject_set distinct_readDir)

text \<open>
  Moving an older cache loses nothing. After \<^verbatim>\<open>adoptCacheDir\<close> succeeds, every manifest that was
  in either directory is in the new one, and the new one's own copy wins.
\<close>

theorem adoptCacheDir_merges:
  assumes "adoptCacheDir env (Some src) dst = (None, src', dst')" and "distinct (map fst src)"
  shows "map_of dst' f = (case map_of dst f of
      Some e \<Rightarrow> Some e
    | None \<Rightarrow> (case map_of src f of Some e \<Rightarrow> if IsDir e then None else Some e | None \<Rightarrow> None))"
proof -
  obtain s where s: "adoptEntries env (readDir src) src dst = (None, s, dst')"
    using assms(1) by (auto simp: adoptCacheDir_def split: option.splits prod.splits)
  have "map_of (filter (\<lambda>fe. \<not> IsDir (snd fe)) (readDir src)) f
      = (case map_of src f of Some e \<Rightarrow> if IsDir e then None else Some e | None \<Rightarrow> None)"
    using map_of_readDir [OF assms(2)] map_of_filter_distinct [OF distinct_readDir [OF assms(2)]]
    by (simp split: option.splits)
  then show ?thesis
    using adoptEntries_spec [OF s distinct_readDir [OF assms(2)]] by (simp add: map_add_def split: option.splits)
qed


section \<open>Witnesses\<close>

text \<open>A destination with one manifest, an empty cache, and a file system without errors.\<close>

definition exManifest :: Manifest where
  "exManifest = zeroManifest\<lparr>VolumeName := ''t'', BaseSnapshot := zeroSnapshot\<lparr>Name := ''a''\<rparr>, Separator := ''|''\<rparr>"

definition exCacheJob :: JobInfo where
  "exCacheJob = zeroJobInfo\<lparr>ManifestPrefix := ''m'', Separator := ''|''\<rparr>"

definition exObject :: string where "exObject = ''m|t|a.manifest.gz''"

definition exCodec :: Codec where
  "exCodec = \<lparr>cExtract = (\<lambda>s. if s = ''bad'' then Inl (Unreadable s) else Inr (s, None)), cVolumes = (\<lambda>s. Inr None),
     cDecode = (\<lambda>s. Inr exManifest), cMaxBytes = 9\<rparr>"

definition exBackend :: "string \<Rightarrow> Backend" where
  "exBackend contents = \<lparr>bList = (\<lambda>p. Inr [exObject, ''mx'']), bDownload = (\<lambda>n. Inr ([contents], None)),
     bPreDownload = (\<lambda>ns. None), bNotReadable = Some (\<lambda>ns. Inr [])\<rparr>"

definition exFs :: fsEnv where
  "exFs = \<lparr>fsNow = 0, fsReadDirErr = None, fsWriteErr = (\<lambda>f. None), fsSyncErr = (\<lambda>f. None), fsInfoErr = (\<lambda>f. False),
     fsRemoveErr = (\<lambda>f. None), fsRenameErr = (\<lambda>f. None)\<rparr>"

definition exMd5 :: "string \<Rightarrow> string" where "exMd5 s = rev s"

definition exFile :: dirEntry where "exFile = \<lparr>IsDir = False, ModTime = 0, FileData = ''x''\<rparr>"

definition exSynced :: ioState where
  "exSynced = \<lparr>Cached = [(''old'', exFile), (exMd5 exObject, exFile)],
     Calls = [CallList ''m'', CallPreDownload [exObject], CallDownload exObject]\<rparr>"

lemma ex_sync: "syncCache exFs exCodec exMd5 (exBackend ''x'') exCacheJob \<lparr>Cached = [(''old'', exFile)], Calls = []\<rparr>
    = (Inr ([exObject], [''old'']), exSynced)"
  by code_simp

lemma syncCache_complete_witness:
  "[exObject] = atDestination (exBackend ''x'') exCacheJob
    \<and> ''old'' \<notin> exMd5 ` set (atDestination (exBackend ''x'') exCacheJob)"
proof -
  have d: "distinct (map fst (Cached \<lparr>Cached = [(''old'', exFile)], Calls = []\<rparr>))" by simp
  note all = syncCache_complete [OF ex_sync d]
  then show ?thesis by (metis list.set_intros(1))
qed

lemma ex_no_restore: "syncCacheMode exFs exCodec exMd5 (exBackend ''x'') exCacheJob True ''t'' \<lparr>Cached = [], Calls = []\<rparr>
    = (Inr ([exObject], []), \<lparr>Cached = [(exMd5 exObject, exFile)],
        Calls = [CallList ''m'', CallNotReadable [exObject], CallDownload exObject]\<rparr>)"
  by code_simp

lemma syncCacheMode_no_restore_witness:
  "CallPreDownload [exObject] \<notin> set [CallList ''m'', CallNotReadable [exObject], CallDownload exObject]"
  using syncCacheMode_no_restore [OF ex_no_restore] by simp

lemma ex_read: "readCachedManifest exFs exCodec exMd5 (exBackend ''x'') exCacheJob \<lparr>Cached = [], Calls = []\<rparr> exObject
    = (Inr exManifest, \<lparr>Cached = [(exMd5 exObject, exFile)], Calls = [CallPreDownload [exObject], CallDownload exObject]\<rparr>)"
  by code_simp

lemma readCachedManifest_sound_witness:
  "StoredManifestObjectName exManifest ''m'' = exObject
    \<and> readCached exCodec [(exMd5 exObject, exFile)] (exMd5 exObject) = Inr exManifest"
  using readCachedManifest_sound [OF ex_read] by (simp add: exCacheJob_def)

lemma ex_refused:
  "readCachedManifest exFs exCodec exMd5 (exBackend ''bad'') exCacheJob \<lparr>Cached = [], Calls = []\<rparr> exObject
    = (Inl (UnreadableManifest exObject (exMd5 exObject) (ManifestRead (Unreadable ''bad''))),
       \<lparr>Cached = [], Calls = [CallPreDownload [exObject], CallDownload exObject]\<rparr>)"
  by code_simp


lemma ex_adopt: "adoptCacheDir exFs (Some [(''a'', exFile)]) [(''b'', exFile)] = (None, None, [(''b'', exFile), (''a'', exFile)])"
  by code_simp

lemma adoptCacheDir_merges_witness: "map_of [(''b'', exFile), (''a'', exFile)] ''a'' = Some exFile"
  using adoptCacheDir_merges [OF ex_adopt, of "''a''"] by (simp add: exFile_def)

end
