(* ===== verification/Clean.thy ===== *)
theory Clean
  imports CacheProperties
begin

text \<open>
  \<^verbatim>\<open>backup/clean.go\<close>: deleting the backup volumes at a destination that no manifest lists. The
  decision what to delete is the pure function \<open>cleanPlan\<close>; reading the destination under the send
  locks is \<open>cleanRounds\<close>, and the workers that delete are the step relation \<open>deleteStep\<close>.
\<close>

section \<open>Naming sets\<close>

fun parseBackupVolume :: "string \<Rightarrow> string list \<Rightarrow> (string \<times> string) option" where
  "parseBackupVolume name [] = None"
| "parseBackupVolume name (sep # separators) =
     (case ParseBackupVolumeObjectName name sep of
        Some (dataset, _, _, _) \<Rightarrow> Some (dataset, sep)
      | None \<Rightarrow> parseBackupVolume name separators)"

text \<open>Only called on names that parse, so the Go code's index is in range.\<close>

definition backupSetName :: "string \<Rightarrow> string" where
  "backupSetName volume = (case lastIndexOf volume ''.zstream.'' of Some i \<Rightarrow> take i volume | None \<Rightarrow> [])"

definition lastParts :: "nat \<Rightarrow> string list \<Rightarrow> string list" where
  "lastParts n parts = drop (length parts - n) parts"

text \<open>The keys of \<^verbatim>\<open>otherPrefixSets\<close> that one object adds for one separator.\<close>

definition setsOfHead :: "string \<Rightarrow> string \<Rightarrow> string list" where
  "setsOfHead head sep =
     (let parts = splitOn head sep
      in (if length parts \<ge> 3 then [sep @ joinWith (lastParts 2 parts) sep] else [])
       @ (if length parts \<ge> 5 \<and> parts ! (length parts - 2) = ''to'' then [sep @ joinWith (lastParts 4 parts) sep] else []))"

definition otherPrefixSets :: "string list \<Rightarrow> string \<Rightarrow> string \<Rightarrow> string list \<Rightarrow> string list" where
  "otherPrefixSets allObjects manifestPrefix separator separators =
     concat (map (\<lambda>obj.
       case lastIndexOf obj ''.manifest'' of
         None \<Rightarrow> []
       | Some idx \<Rightarrow>
           if isManifestObject obj manifestPrefix separator \<or> parseBackupVolume obj separators \<noteq> None then []
           else concat (map (setsOfHead (take idx obj)) separators)) allObjects)"

definition nestedDestinations :: "string list \<Rightarrow> string \<Rightarrow> string list" where
  "nestedDestinations objects manifestPrefix =
     List.map_filter (\<lambda>obj.
       if hasPrefix obj manifestPrefix then None
       else case indexOf obj (''/'' @ manifestPrefix) of
              None \<Rightarrow> None
            | Some idx \<Rightarrow> if containsStr (drop idx obj) ''.manifest'' then Some (take (idx + 1) obj) else None) objects"

definition nestedUnder :: "string \<Rightarrow> string list \<Rightarrow> string" where
  "nestedUnder obj roots = (case List.find (hasPrefix obj) roots of Some root \<Rightarrow> root | None \<Rightarrow> [])"

definition nestedSets :: "string list \<Rightarrow> string list \<Rightarrow> string list \<Rightarrow> string list" where
  "nestedSets allObjects roots separators =
     List.map_filter (\<lambda>obj.
       let root = nestedUnder obj roots; rel = drop (length root) obj
       in if root = [] then None
          else case parseBackupVolume rel separators of
                 None \<Rightarrow> None
               | Some (_, sep) \<Rightarrow> Some (root @ sep @ backupSetName rel)) allObjects"

definition withoutNestedOwnManifests ::
    "string list \<Rightarrow> string list \<Rightarrow> string \<Rightarrow> string \<Rightarrow> string list \<Rightarrow> string list" where
  "withoutNestedOwnManifests allObjects roots manifestPrefix separator separators =
     (if roots = [] then allObjects
      else let nested = nestedSets allObjects roots separators
           in filter (\<lambda>obj.
                let root = nestedUnder obj roots
                in root = [] \<or>
                   \<not> list_ex (\<lambda>s. root @ s \<in> set nested) (otherPrefixSets [obj] manifestPrefix separator separators)) allObjects)"

section \<open>Reading the destination\<close>

text \<open>
  A manifest that cannot be read stops the run, so the manifests of a view are never nil.
\<close>

record cleanManifest =
  cmObject :: string
  cmPath :: string
  cmManifest :: Manifest
  cmForeign :: bool

record cleanView =
  viewManifests :: "cleanManifest list"
  viewLocalOnly :: "cleanManifest list"
  viewObjects :: "string list"
  viewDatasets :: "string list"

datatype clean_error =
    CleanSync sync_error
  | CleanList string
  | CleanManifest cache_error
  | UnreadableLocalManifest string read_error
  | KeepsChanging
  | CleanLock string string
  | NoManifests nat
  | CleanLegacy string
  | CleanDelete string
  | CleanLocalDelete string

fun readManifests ::
    "fsEnv \<Rightarrow> Codec \<Rightarrow> (string \<Rightarrow> string) \<Rightarrow> Backend \<Rightarrow> JobInfo \<Rightarrow> ioState \<Rightarrow> string list
      \<Rightarrow> (clean_error + cleanManifest list) \<times> ioState" where
  "readManifests env c md5 b j st [] = (Inr [], st)"
| "readManifests env c md5 b j st (obj # objs) =
     (case readCachedManifest env c md5 b j st obj of
        (Inl err, st) \<Rightarrow> (Inl (CleanManifest err), st)
      | (Inr m, st) \<Rightarrow>
          (case readManifests env c md5 b j st objs of
             (Inl err, st) \<Rightarrow> (Inl err, st)
           | (Inr ms, st) \<Rightarrow> (Inr (\<lparr>cmObject = obj, cmPath = md5 obj, cmManifest = m, cmForeign = False\<rparr> # ms), st)))"

fun readLocalOnly :: "Codec \<Rightarrow> (string \<Rightarrow> string) \<Rightarrow> JobInfo \<Rightarrow> dir \<Rightarrow> string list \<Rightarrow> clean_error + cleanManifest list" where
  "readLocalOnly c md5 j d [] = Inr []"
| "readLocalOnly c md5 j d (file # files) =
     (case readCached c d file of
        Inl err \<Rightarrow> Inl (UnreadableLocalManifest file err)
      | Inr m \<Rightarrow>
          (case readLocalOnly c md5 j d files of
             Inl err \<Rightarrow> Inl err
           | Inr ms \<Rightarrow>
               Inr (\<lparr>cmObject = [], cmPath = file, cmManifest = m,
                     cmForeign = (md5 (StoredManifestObjectName m (ManifestPrefix j)) \<noteq> file)\<rparr> # ms)))"

definition cleanDatasets :: "cleanManifest list \<Rightarrow> string list" where
  "cleanDatasets ms = remdups (map (\<lambda>m. VolumeName (cmManifest m)) (filter (\<lambda>m. \<not> cmForeign m) ms))"

definition readForClean ::
    "fsEnv \<Rightarrow> Codec \<Rightarrow> (string \<Rightarrow> string) \<Rightarrow> Backend \<Rightarrow> JobInfo \<Rightarrow> ioState \<Rightarrow> (clean_error + cleanView) \<times> ioState" where
  "readForClean env c md5 b j st =
     (case syncCache env c md5 b j st of
        (Inl err, st) \<Rightarrow> (Inl (CleanSync err), st)
      | (Inr (manifests, localOnlyFiles), st) \<Rightarrow>
          let st = st\<lparr>Calls := Calls st @ [CallList []]\<rparr>
          in case bList b [] of
               Inl e \<Rightarrow> (Inl (CleanList e), st)
             | Inr allObjects \<Rightarrow>
                 (case readManifests env c md5 b j st manifests of
                    (Inl err, st) \<Rightarrow> (Inl err, st)
                  | (Inr ms, st) \<Rightarrow>
                      (case readLocalOnly c md5 j (Cached st) localOnlyFiles of
                         Inl err \<Rightarrow> (Inl err, st)
                       | Inr ls \<Rightarrow>
                           (Inr \<lparr>viewManifests = ms, viewLocalOnly = ls, viewObjects = allObjects,
                                 viewDatasets = cleanDatasets (ms @ ls)\<rparr>, st))))"

section \<open>Locking the datasets\<close>

datatype try_lock = LockHeld | LockBusy | LockInitError string

fun lockDatasets ::
    "(string \<Rightarrow> try_lock) \<Rightarrow> string list \<Rightarrow> string list \<Rightarrow> string list \<Rightarrow> clean_error + (string list \<times> string list)" where
  "lockDatasets tryLock [] locked busy = Inr (locked, busy)"
| "lockDatasets tryLock (dataset # names) locked busy =
     (case tryLock dataset of
        LockInitError e \<Rightarrow> Inl (CleanLock dataset e)
      | LockBusy \<Rightarrow> lockDatasets tryLock names locked (dataset # busy)
      | LockHeld \<Rightarrow> lockDatasets tryLock names (dataset # locked) busy)"

definition cleanReadRounds :: nat where "cleanReadRounds = 3"

text \<open>
  The loop of \<^verbatim>\<open>Clean\<close> that reads the destination until every dataset it names was locked before
  the read. The destination may change between reads: \<open>bs round\<close> are its answers in that round, and
  \<open>locks round\<close> those of the locks taken after it.
\<close>

function cleanRounds ::
    "fsEnv \<Rightarrow> Codec \<Rightarrow> (string \<Rightarrow> string) \<Rightarrow> (nat \<Rightarrow> Backend) \<Rightarrow> (nat \<Rightarrow> string \<Rightarrow> try_lock) \<Rightarrow> JobInfo \<Rightarrow> nat
      \<Rightarrow> string list \<Rightarrow> string list \<Rightarrow> ioState \<Rightarrow> (clean_error + (cleanView \<times> string list \<times> string list)) \<times> ioState" where
  "cleanRounds env c md5 bs locks j round locked busy st =
     (case readForClean env c md5 (bs round) j st of
        (Inl err, st) \<Rightarrow> (Inl err, st)
      | (Inr view, st) \<Rightarrow>
          let names = filter (\<lambda>d. d \<notin> set locked \<and> d \<notin> set busy) (viewDatasets view)
          in if names = [] then (Inr (view, locked, busy), st)
             else if round \<ge> cleanReadRounds then (Inl KeepsChanging, st)
             else case lockDatasets (locks round) (sort names) locked busy of
                    Inl err \<Rightarrow> (Inl err, st)
                  | Inr (locked, busy) \<Rightarrow> cleanRounds env c md5 bs locks j (round + 1) locked busy st)"
  by pat_completeness auto

termination
  by (relation "measure (\<lambda>(_, _, _, _, _, _, round, _, _, _). cleanReadRounds - round)") auto

section \<open>What is deleted\<close>

definition cleanPrefix :: "JobInfo \<Rightarrow> string" where
  "cleanPrefix j = ManifestPrefix j @ (if Separator j = [] then DefaultSeparator else Separator j)"

definition cleanSeparators :: "JobInfo \<Rightarrow> cleanView \<Rightarrow> string list" where
  "cleanSeparators j view =
     foldl (\<lambda>seps sep. if sep \<in> set seps then seps else seps @ [sep]) [DefaultSeparator]
       (Separator j # map (\<lambda>m. Separator (cmManifest m)) (viewManifests view @ viewLocalOnly view))"

text \<open>The local-only manifests \<^verbatim>\<open>--cleanLocal\<close> removes; all others stay live.\<close>

definition discarded :: "bool \<Rightarrow> string list \<Rightarrow> cleanManifest \<Rightarrow> bool" where
  "discarded cleanLocal busy m \<longleftrightarrow> \<not> (\<not> cleanLocal \<or> cmForeign m \<or> VolumeName (cmManifest m) \<in> set busy)"

definition liveManifests :: "bool \<Rightarrow> string list \<Rightarrow> cleanView \<Rightarrow> cleanManifest list" where
  "liveManifests cleanLocal busy view =
     viewManifests view @ filter (\<lambda>m. \<not> discarded cleanLocal busy m) (viewLocalOnly view)"

definition manifestVolumes :: "cleanManifest \<Rightarrow> string list" where
  "manifestVolumes m = map ObjectName (Volumes (cmManifest m))"

definition namedVolumes :: "cleanManifest list \<Rightarrow> string list" where
  "namedVolumes ms = concat (map manifestVolumes ms)"

definition isCandidate :: "JobInfo \<Rightarrow> cleanView \<Rightarrow> string list \<Rightarrow> string list \<Rightarrow> string \<Rightarrow> bool" where
  "isCandidate j view named busy obj =
     (let seps = cleanSeparators j view;
          nested = nestedDestinations (viewObjects view) (cleanPrefix j);
          otherSets = otherPrefixSets
            (withoutNestedOwnManifests (viewObjects view) nested (ManifestPrefix j) (Separator j) seps)
            (ManifestPrefix j) (Separator j) seps
      in if hasPrefix obj (cleanPrefix j) \<or> isManifestObject obj (ManifestPrefix j) (Separator j) then False
         else if nestedUnder obj nested \<noteq> [] \<and> obj \<notin> set named then False
         else case parseBackupVolume obj seps of
                None \<Rightarrow> False
              | Some (dataset, sep) \<Rightarrow>
                  if dataset \<notin> set (viewDatasets view) then False
                  else if sep @ backupSetName obj \<in> set otherSets \<and> obj \<notin> set named then False
                  else dataset \<notin> set busy)"

text \<open>\<open>missing\<close>: the first volume of a set that is not at the destination.\<close>

definition missing :: "cleanView \<Rightarrow> cleanManifest \<Rightarrow> string option" where
  "missing view m = List.find (\<lambda>v. v \<notin> set (viewObjects view)) (manifestVolumes m)"

definition judged :: "string list \<Rightarrow> cleanManifest \<Rightarrow> bool" where
  "judged busy m \<longleftrightarrow> VolumeName (cmManifest m) \<notin> set busy"

definition keptSet :: "JobInfo \<Rightarrow> cleanView \<Rightarrow> cleanManifest \<Rightarrow> bool" where
  "keptSet j view m \<longleftrightarrow> missing view m = None \<or> \<not> Force j \<or> cmObject m = []"

record cleanPlan =
  planDeletes :: "string list"
  planLocalDeletes :: "string list"

definition cleanPlanOf :: "JobInfo \<Rightarrow> bool \<Rightarrow> string list \<Rightarrow> cleanView \<Rightarrow> clean_error + cleanPlan" where
  "cleanPlanOf j cleanLocal busy view =
     (if viewManifests view = [] \<and> viewObjects view \<noteq> [] then Inl (NoManifests (length (viewObjects view)))
      else let live = liveManifests cleanLocal busy view;
               named = namedVolumes live;
               candidates = filter (isCandidate j view named busy) (viewObjects view);
               keep = namedVolumes (filter (\<lambda>m. judged busy m \<and> keptSet j view m) live);
               forced = filter (\<lambda>m. judged busy m \<and> \<not> keptSet j view m) live
           in Inr \<lparr>planDeletes = filter (\<lambda>obj. obj \<notin> set keep) candidates @ map cmObject forced,
                   planLocalDeletes = map cmPath (filter (discarded cleanLocal busy) (viewLocalOnly view))
                     @ map cmPath forced\<rparr>)"

text \<open>
  \<open>finder\<close> is the destination's search for volumes in the key layout of an older version, if it has
  one: only its error matters here.
\<close>

definition cleanDecide ::
    "fsEnv \<Rightarrow> Codec \<Rightarrow> (string \<Rightarrow> string) \<Rightarrow> (nat \<Rightarrow> Backend) \<Rightarrow> (nat \<Rightarrow> string \<Rightarrow> try_lock)
      \<Rightarrow> (string list \<Rightarrow> string list \<Rightarrow> string + string) option \<Rightarrow> JobInfo \<Rightarrow> bool \<Rightarrow> ioState
      \<Rightarrow> (clean_error + (cleanView \<times> string list \<times> cleanPlan)) \<times> ioState" where
  "cleanDecide env c md5 bs locks finder j cleanLocal st =
     (case cleanRounds env c md5 bs locks j 1 [] [] st of
        (Inl err, st) \<Rightarrow> (Inl err, st)
      | (Inr (view, locked, busy), st) \<Rightarrow>
          (case cleanPlanOf j cleanLocal busy view of
             Inl err \<Rightarrow> (Inl err, st)
           | Inr p \<Rightarrow>
               (case finder of
                  None \<Rightarrow> (Inr (view, busy, p), st)
                | Some findLegacy \<Rightarrow>
                    (case findLegacy (sort (viewDatasets view)) (cleanSeparators j view) of
                       Inl e \<Rightarrow> (Inl (CleanLegacy e), st)
                     | Inr key \<Rightarrow> (Inr (view, busy, p), st)))))"

section \<open>Deleting\<close>

text \<open>
  Five workers take objects from a channel that is filled and closed before they start. A worker
  whose delete fails for good returns and cancels the others, which may still take objects until
  they see it; the run itself may be cancelled at any time. \<open>dsFlight\<close> are the deletes in progress, \<open>dsWorkers\<close> the idle workers.
\<close>

record deleteState =
  dsQueue :: "string list"
  dsFlight :: "string list"
  dsDone :: "string list"
  dsWorkers :: nat
  dsFailed :: "string option"

definition deleteStart :: "string list \<Rightarrow> deleteState" where
  "deleteStart deletes = \<lparr>dsQueue = deletes, dsFlight = [], dsDone = [], dsWorkers = 5, dsFailed = None\<rparr>"

inductive deleteStep :: "deleteState \<Rightarrow> deleteState \<Rightarrow> bool" where
  take_object: "dsQueue s = obj # queue \<Longrightarrow> dsWorkers s = Suc n \<Longrightarrow>
    deleteStep s (s\<lparr>dsQueue := queue, dsFlight := obj # dsFlight s, dsWorkers := n\<rparr>)"
| deleted: "obj \<in> set (dsFlight s) \<Longrightarrow>
    deleteStep s (s\<lparr>dsFlight := remove1 obj (dsFlight s), dsDone := obj # dsDone s, dsWorkers := Suc (dsWorkers s)\<rparr>)"
| failed: "obj \<in> set (dsFlight s) \<Longrightarrow>
    deleteStep s (s\<lparr>dsFlight := remove1 obj (dsFlight s), dsFailed := (case dsFailed s of None \<Rightarrow> Some obj | Some e \<Rightarrow> Some e)\<rparr>)"
| drained: "dsQueue s = [] \<Longrightarrow> dsWorkers s = Suc n \<Longrightarrow> deleteStep s (s\<lparr>dsWorkers := n\<rparr>)"
| cancelled: "dsWorkers s = Suc n \<Longrightarrow>
    deleteStep s (s\<lparr>dsWorkers := n, dsFailed := (case dsFailed s of None \<Rightarrow> Some ''context canceled'' | Some e \<Rightarrow> Some e)\<rparr>)"

text \<open>\<^verbatim>\<open>group.Wait\<close> returns when every worker has, with the first error.\<close>

definition deleteFinished :: "deleteState \<Rightarrow> bool" where
  "deleteFinished s \<longleftrightarrow> dsFlight s = [] \<and> dsWorkers s = 0"

fun removeLocal :: "(string \<Rightarrow> string option) \<Rightarrow> string list \<Rightarrow> dir \<Rightarrow> clean_error option \<times> dir" where
  "removeLocal removeErr [] d = (None, d)"
| "removeLocal removeErr (path # paths) d =
     (case removeErr path of
        Some e \<Rightarrow> (Some (CleanLocalDelete e), d)
      | None \<Rightarrow> removeLocal removeErr paths (AList.delete path d))"

text \<open>
  What \<^verbatim>\<open>Clean\<close> does once it has a plan: nothing in a dry run; else the deletes, which end in some
  finished state \<open>s\<close>, and only if none failed the local manifests.
\<close>

inductive cleanApplies ::
    "fsEnv \<Rightarrow> bool \<Rightarrow> cleanPlan \<Rightarrow> dir \<Rightarrow> clean_error option \<Rightarrow> string list \<Rightarrow> dir \<Rightarrow> bool" where
  dry: "cleanApplies env True p d None [] d"
| failing: "deleteStep\<^sup>*\<^sup>* (deleteStart (planDeletes p)) s \<Longrightarrow> deleteFinished s \<Longrightarrow> dsFailed s = Some obj \<Longrightarrow>
    cleanApplies env False p d (Some (CleanDelete obj)) (dsDone s) d"
| removed: "deleteStep\<^sup>*\<^sup>* (deleteStart (planDeletes p)) s \<Longrightarrow> deleteFinished s \<Longrightarrow> dsFailed s = None \<Longrightarrow>
    removeLocal (fsRemoveErr env) (planLocalDeletes p) d = (err, d') \<Longrightarrow>
    cleanApplies env False p d err (dsDone s) d'"

end
