(* ===== verification/CleanProperties.thy ===== *)
theory CleanProperties
  imports Clean
begin

text \<open>
  What \<^verbatim>\<open>clean\<close> deletes and what it never deletes: the volumes of live backup sets, of other jobs'
  sets and of datasets that a send is writing stay, whatever the interleaving of its workers.
\<close>

section \<open>The view\<close>

lemma atDestination_manifest: "m \<in> set (atDestination b j) \<Longrightarrow> isManifestObject m (ManifestPrefix j) (Separator j)"
  by (auto simp: atDestination_def split: sum.splits)

lemma readLocalOnly_objects: "readLocalOnly c md5 j d files = Inr ms \<Longrightarrow> m \<in> set ms \<Longrightarrow> cmObject m = []"
  by (induction files arbitrary: ms) (auto split: sum.splits)

lemma readManifests_objects:
  "readManifests env c md5 b j st objs = (Inr ms, st') \<Longrightarrow> map cmObject ms = objs \<and> (\<forall>m\<in>set ms. \<not> cmForeign m)"
  by (induction objs arbitrary: st ms st') (auto split: sum.splits prod.splits)

lemma readForClean_ok:
  assumes "readForClean env c md5 b j st = (Inr view, st')"
  obtains localOnly st1 where "syncCache env c md5 b j st = (Inr (map cmObject (viewManifests view), localOnly), st1)"
    "\<forall>m\<in>set (viewLocalOnly view). cmObject m = []" "bList b [] = Inr (viewObjects view)"
    "viewDatasets view = cleanDatasets (viewManifests view @ viewLocalOnly view)"
    "\<forall>m\<in>set (viewManifests view). \<not> cmForeign m"
proof -
  obtain ms lf st1 where s: "syncCache env c md5 b j st = (Inr (ms, lf), st1)"
    using assms by (auto simp: readForClean_def split: sum.splits prod.splits)
  obtain all where l: "bList b [] = Inr all"
    using assms s by (auto simp: readForClean_def Let_def split: sum.splits prod.splits)
  obtain cms st2 where r: "readManifests env c md5 b j (st1\<lparr>Calls := Calls st1 @ [CallList []]\<rparr>) ms = (Inr cms, st2)"
    using assms s l by (auto simp: readForClean_def Let_def split: sum.splits prod.splits)
  obtain ls where ls: "readLocalOnly c md5 j (Cached st2) lf = Inr ls"
    using assms s l r by (auto simp: readForClean_def Let_def split: sum.splits)
  have "view = \<lparr>viewManifests = cms, viewLocalOnly = ls, viewObjects = all, viewDatasets = cleanDatasets (cms @ ls)\<rparr>"
    using assms s l r ls by (simp add: readForClean_def Let_def)
  then show ?thesis
    using s l readManifests_objects [OF r] readLocalOnly_objects [OF ls] by (intro that [of lf st1]) auto
qed

text \<open>What a read promises: local-only manifests have no object, the others are manifest objects.\<close>

definition goodView :: "JobInfo \<Rightarrow> cleanView \<Rightarrow> bool" where
  "goodView j view \<longleftrightarrow>
     (\<forall>m\<in>set (viewLocalOnly view). cmObject m = []) \<and>
     (\<forall>m\<in>set (viewManifests view). isManifestObject (cmObject m) (ManifestPrefix j) (Separator j))"

lemma readForClean_good:
  assumes "readForClean env c md5 b j st = (Inr view, st')" shows "goodView j view"
  using assms
proof (cases rule: readForClean_ok)
  case (1 lf st1)
  have "map cmObject (viewManifests view) = atDestination b j"
    by (rule syncCache_ok [OF 1(1)])
  then have "isManifestObject (cmObject m) (ManifestPrefix j) (Separator j)" if "m \<in> set (viewManifests view)" for m
    using that atDestination_manifest [of "cmObject m" b j] by (metis image_eqI set_map)
  then show ?thesis using 1(2) by (simp add: goodView_def)
qed


section \<open>Locks\<close>

lemma lockDatasets_spec:
  assumes "lockDatasets f names locked busy = Inr (locked', busy')"
  shows "set locked' = set locked \<union> {d \<in> set names. f d = LockHeld}"
    and "set busy' = set busy \<union> {d \<in> set names. f d = LockBusy}"
  using assms by (induction f names locked busy rule: lockDatasets.induct) (auto split: try_lock.splits)

definition lockedView where
  "lockedView env c md5 bs locks j view locked busy st' \<longleftrightarrow>
     (\<exists>r st0. readForClean env c md5 (bs r) j st0 = (Inr view, st') \<and> r \<le> cleanReadRounds
       \<and> (\<forall>d\<in>set (viewDatasets view). d \<in> set locked \<or> d \<in> set busy)
       \<and> (\<forall>d\<in>set locked. \<exists>q<r. locks q d = LockHeld) \<and> (\<forall>d\<in>set busy. \<exists>q<r. locks q d = LockBusy))"

lemma cleanRounds_from:
  assumes "cleanRounds env c md5 bs locks j round l0 b0 st = (Inr (view, locked, busy), st')" "round \<le> cleanReadRounds"
    "\<forall>d\<in>set l0. \<exists>q<round. locks q d = LockHeld" "\<forall>d\<in>set b0. \<exists>q<round. locks q d = LockBusy"
  shows "lockedView env c md5 bs locks j view locked busy st'"
  using assms
proof (induction "cleanReadRounds - round" arbitrary: round l0 b0 st rule: less_induct)
  case less
  obtain v st1 where v: "readForClean env c md5 (bs round) j st = (Inr v, st1)"
    using less.prems(1) by (subst (asm) cleanRounds.simps) (auto split: sum.splits prod.splits)
  define names where "names = filter (\<lambda>d. d \<notin> set l0 \<and> d \<notin> set b0) (viewDatasets v)"
  show ?case
  proof (cases "names = []")
    case True
    then have "view = v" "locked = l0" "busy = b0" "st' = st1"
      using less.prems(1) v by (subst (asm) cleanRounds.simps, simp add: names_def Let_def)+
    then show ?thesis using v less.prems(2-4) True unfolding lockedView_def by (auto simp: names_def filter_empty_conv)
  next
    case False
    then have early: "round < cleanReadRounds"
      using less.prems(1) v by (subst (asm) cleanRounds.simps) (auto simp: names_def Let_def split: if_splits)
    then obtain l1 b1 where lock: "lockDatasets (locks round) (sort names) l0 b0 = Inr (l1, b1)"
      and rest: "cleanRounds env c md5 bs locks j (round + 1) l1 b1 st1 = (Inr (view, locked, busy), st')"
      using less.prems(1) v False by (subst (asm) cleanRounds.simps) (auto simp: names_def [symmetric] Let_def split: sum.splits)
    have "\<forall>d\<in>set l1. \<exists>q<round + 1. locks q d = LockHeld" "\<forall>d\<in>set b1. \<exists>q<round + 1. locks q d = LockBusy"
      using lockDatasets_spec [OF lock] less.prems(3,4) less_Suc_eq by auto
    then show ?thesis using less.hyps [OF _ rest] early by simp
  qed
qed

text \<open>
  \<^verbatim>\<open>clean\<close> judges only what it has locked. When its reading loop ends, the view it decides by was
  read in one round \<open>r\<close>, and every dataset that view names was locked, or found to be locked by a
  running send, in an earlier round; with a destination that keeps changing it gives up.
\<close>

theorem cleanRounds_locked:
  assumes "cleanRounds env c md5 bs locks j 1 [] [] st = (Inr (view, locked, busy), st')"
  shows "\<exists>r st0. readForClean env c md5 (bs r) j st0 = (Inr view, st') \<and> r \<le> cleanReadRounds
    \<and> (\<forall>d\<in>set (viewDatasets view). d \<in> set locked \<or> d \<in> set busy)
    \<and> (\<forall>d\<in>set locked. \<exists>q<r. locks q d = LockHeld) \<and> (\<forall>d\<in>set busy. \<exists>q<r. locks q d = LockBusy)"
  using cleanRounds_from [OF assms] unfolding lockedView_def by (simp add: cleanReadRounds_def)

section \<open>The plan\<close>

lemma parseBackupVolume_Some:
  "parseBackupVolume name seps = Some (d, sep) \<Longrightarrow>
     sep \<in> set seps \<and> (\<exists>b i n. ParseBackupVolumeObjectName name sep = Some (d, b, i, n))"
  by (induction name seps rule: parseBackupVolume.induct) (auto split: option.splits)

lemma isCandidate_iff:
  assumes "isCandidate j view named busy obj"
  shows "\<not> isManifestObject obj (ManifestPrefix j) (Separator j)"
    and "\<exists>d sep. parseBackupVolume obj (cleanSeparators j view) = Some (d, sep) \<and> d \<in> set (viewDatasets view) \<and> d \<notin> set busy"
  using assms by (auto simp: isCandidate_def Let_def split: if_splits option.splits)

lemma cleanPlanOf_deletes:
  assumes "cleanPlanOf j cleanLocal busy view = Inr p"
  shows "obj \<in> set (planDeletes p) \<longleftrightarrow>
    obj \<in> set (viewObjects view) \<and> isCandidate j view (namedVolumes (liveManifests cleanLocal busy view)) busy obj
      \<and> (\<forall>m\<in>set (liveManifests cleanLocal busy view). judged busy m \<longrightarrow> keptSet j view m \<longrightarrow> obj \<notin> set (manifestVolumes m))
    \<or> (\<exists>m\<in>set (liveManifests cleanLocal busy view). judged busy m \<and> \<not> keptSet j view m \<and> obj = cmObject m)"
  using assms by (auto simp: cleanPlanOf_def namedVolumes_def Let_def split: if_splits)

lemma missing_Some: "missing view m = Some v \<Longrightarrow> v \<in> set (manifestVolumes m) \<and> v \<notin> set (viewObjects view)"
  by (auto simp: missing_def dest: find_Some_set)

lemma forced_at_destination:
  assumes "goodView j view" "m \<in> set (liveManifests cleanLocal busy view)" "\<not> keptSet j view m"
  shows "m \<in> set (viewManifests view)" and "Force j"
    and "\<exists>v\<in>set (manifestVolumes m). v \<notin> set (viewObjects view)"
  using assms missing_Some [of view m] by (auto simp: keptSet_def liveManifests_def goodView_def)

text \<open>
  C25. What \<^verbatim>\<open>clean\<close> deletes. Every object it decides to delete is a listed volume of a dataset it
  holds the lock of, of no live backup set, and no manifest; or, with \<^verbatim>\<open>--force\<close> only, the manifest of
  a set at the destination that misses a volume and whose dataset no send is writing.
\<close>

theorem clean_deletes_only:
  assumes "cleanRounds env c md5 bs locks j 1 [] [] st = (Inr (view, locked, busy), st')"
    and "cleanPlanOf j cleanLocal busy view = Inr p" and "obj \<in> set (planDeletes p)"
  shows "(\<exists>dataset sep base incr n. ParseBackupVolumeObjectName obj sep = Some (dataset, base, incr, n)
        \<and> dataset \<in> set locked \<and> dataset \<notin> set busy \<and> obj \<in> set (viewObjects view)
        \<and> \<not> isManifestObject obj (ManifestPrefix j) (Separator j)
        \<and> (\<forall>m\<in>set (viewManifests view). judged busy m \<and> missing view m = None \<longrightarrow> obj \<notin> set (manifestVolumes m)))
    \<or> (Force j \<and> (\<exists>m\<in>set (viewManifests view). obj = cmObject m \<and> VolumeName (cmManifest m) \<notin> set busy
        \<and> (\<exists>v\<in>set (manifestVolumes m). v \<notin> set (viewObjects view))))"
proof -
  note locked = cleanRounds_from [OF assms(1), unfolded lockedView_def]
  have good: "goodView j view" using locked readForClean_good by (auto simp: cleanReadRounds_def)
  from assms(3) consider (orphan) "obj \<in> set (viewObjects view)"
      "isCandidate j view (namedVolumes (liveManifests cleanLocal busy view)) busy obj"
      "\<forall>m\<in>set (liveManifests cleanLocal busy view). judged busy m \<longrightarrow> keptSet j view m \<longrightarrow> obj \<notin> set (manifestVolumes m)"
    | (forced) m where "m \<in> set (liveManifests cleanLocal busy view)" "judged busy m" "\<not> keptSet j view m" "obj = cmObject m"
    unfolding cleanPlanOf_deletes [OF assms(2)] by blast
  then show ?thesis
  proof cases
    case orphan
    obtain d sep where d: "parseBackupVolume obj (cleanSeparators j view) = Some (d, sep)" "d \<in> set (viewDatasets view)" "d \<notin> set busy"
      using isCandidate_iff(2) [OF orphan(2)] by blast
    then have "d \<in> set locked" using locked by (auto simp: cleanReadRounds_def)
    moreover have "\<forall>m\<in>set (viewManifests view). judged busy m \<and> missing view m = None \<longrightarrow> obj \<notin> set (manifestVolumes m)"
      using orphan(3) by (auto simp: liveManifests_def keptSet_def)
    ultimately show ?thesis
      using d(3) orphan(1) isCandidate_iff(1) [OF orphan(2)] parseBackupVolume_Some [OF d(1)] by blast
  next
    case forced
    then show ?thesis using forced_at_destination [OF good forced(1,3)] by (auto simp: judged_def)
  qed
qed

text \<open>
  C5. What \<^verbatim>\<open>clean\<close> keeps. No volume of a live backup set is deleted: not of a manifest at the
  destination whose volumes are all there, nor (without \<^verbatim>\<open>--force\<close>) of any other, nor of an
  interrupted send's cached manifest without \<^verbatim>\<open>--cleanLocal\<close>, nor of another job's, nor of a dataset
  that a running send holds.
\<close>

theorem clean_keeps_live:
  assumes "cleanRounds env c md5 bs locks j 1 [] [] st = (Inr (view, locked, busy), st')"
    and "cleanPlanOf j cleanLocal busy view = Inr p"
    and "m \<in> set (viewManifests view) \<and> (missing view m = None \<or> \<not> Force j)
      \<or> m \<in> set (viewLocalOnly view) \<and> (\<not> cleanLocal \<or> cmForeign m)
      \<or> m \<in> set (viewManifests view @ viewLocalOnly view) \<and> VolumeName (cmManifest m) \<in> set busy"
    and "v \<in> set (manifestVolumes m)" "\<not> isManifestObject v (ManifestPrefix j) (Separator j)"
    and "\<forall>d sep. parseBackupVolume v (cleanSeparators j view) = Some (d, sep) \<longrightarrow> d = VolumeName (cmManifest m)"
  shows "v \<notin> set (planDeletes p)"
proof
  assume v: "v \<in> set (planDeletes p)"
  have good: "goodView j view"
    using cleanRounds_from [OF assms(1), unfolded lockedView_def] readForClean_good by (auto simp: cleanReadRounds_def)
  have "v \<noteq> cmObject m'" if "m' \<in> set (liveManifests cleanLocal busy view)" "\<not> keptSet j view m'" for m'
    using forced_at_destination(1) [OF good that] good assms(5) by (auto simp: goodView_def)
  then have orphan: "isCandidate j view (namedVolumes (liveManifests cleanLocal busy view)) busy v"
    "\<forall>m\<in>set (liveManifests cleanLocal busy view). judged busy m \<longrightarrow> keptSet j view m \<longrightarrow> v \<notin> set (manifestVolumes m)"
    using v unfolding cleanPlanOf_deletes [OF assms(2)] by blast+
  then have notBusy: "VolumeName (cmManifest m) \<notin> set busy" using isCandidate_iff(2) [OF orphan(1)] assms(6) by auto
  then have "m \<in> set (liveManifests cleanLocal busy view)" "keptSet j view m"
    using assms(3) good by (auto simp: liveManifests_def discarded_def keptSet_def goodView_def)
  then show False using orphan(2) notBusy assms(4) by (simp add: judged_def)
qed


section \<open>The workers\<close>

inductive_cases deleteStepE: "deleteStep s s'"

definition deleteMeasure :: "deleteState \<Rightarrow> nat" where
  "deleteMeasure s = 3 * length (dsQueue s) + 2 * length (dsFlight s) + dsWorkers s"

lemma deleteStep_measure: "deleteStep s s' \<Longrightarrow> deleteMeasure s' < deleteMeasure s"
proof (induction rule: deleteStep.induct)
  case (deleted obj s)
  then obtain k where "length (dsFlight s) = Suc k" by (cases "dsFlight s") auto
  with deleted show ?case by (simp add: deleteMeasure_def length_remove1)
next
  case (failed obj s)
  then obtain k where "length (dsFlight s) = Suc k" by (cases "dsFlight s") auto
  with failed show ?case by (simp add: deleteMeasure_def length_remove1)
qed (auto simp: deleteMeasure_def)

lemma deleteStep_stuck: "(\<nexists>s'. deleteStep s s') \<longleftrightarrow> deleteFinished s"
proof
  assume stuck: "\<nexists>s'. deleteStep s s'"
  have "dsFlight s = []"
    using stuck deleteStep.deleted by (metis list.set_intros(1) neq_Nil_conv)
  moreover have "dsWorkers s = 0"
    using stuck deleteStep.cancelled not0_implies_Suc by blast
  ultimately show "deleteFinished s" by (simp add: deleteFinished_def)
qed (auto simp: deleteFinished_def elim!: deleteStepE)

text \<open>
  The workers of \<^verbatim>\<open>clean\<close> end. Whatever their interleaving, every sequence of their steps is
  finite, and they stop exactly when all of them have returned and no delete is in progress.
\<close>

theorem delete_workers_end:
  "wfp (\<lambda>s' s. deleteStep s s') \<and> ((\<nexists>s'. deleteStep s s') \<longleftrightarrow> deleteFinished s)"
proof -
  have "wfp (\<lambda>s' s. deleteStep s s')"
    by (rule wfp_if_convertible_to_nat [of _ deleteMeasure]) (rule deleteStep_measure)
  then show ?thesis using deleteStep_stuck by blast
qed

definition deleteInvariant :: "string list \<Rightarrow> deleteState \<Rightarrow> bool" where
  "deleteInvariant deletes s \<longleftrightarrow>
     mset (dsQueue s) + mset (dsFlight s) + mset (dsDone s) \<subseteq># mset deletes \<and>
     (dsFailed s = None \<longrightarrow> mset (dsQueue s) + mset (dsFlight s) + mset (dsDone s) = mset deletes) \<and>
     (dsFailed s = None \<longrightarrow> dsWorkers s + length (dsFlight s) < 5 \<longrightarrow> dsQueue s = [])"

lemma deleteInvariant_step: "deleteStep s s' \<Longrightarrow> deleteInvariant deletes s \<Longrightarrow> deleteInvariant deletes s'"
proof (induction rule: deleteStep.induct)
  case (take_object s obj queue n)
  then show ?case by (auto simp: deleteInvariant_def)
next
  case (deleted obj s)
  then obtain k where "length (dsFlight s) = Suc k" by (cases "dsFlight s") auto
  moreover have "mset (dsFlight s) = add_mset obj (mset (remove1 obj (dsFlight s)))" using deleted by simp
  ultimately show ?case using deleted by (simp add: deleteInvariant_def length_remove1 del: mset_remove1)
next
  case (failed obj s)
  let ?all = "mset (dsQueue s) + mset (dsFlight s) + mset (dsDone s)"
  have "?all \<subseteq># mset deletes" using failed by (simp add: deleteInvariant_def)
  moreover have "mset (dsQueue s) + mset (remove1 obj (dsFlight s)) + mset (dsDone s) \<subseteq># ?all" by simp
  ultimately have "mset (dsQueue s) + mset (remove1 obj (dsFlight s)) + mset (dsDone s) \<subseteq># mset deletes"
    by (metis subset_mset.order_trans)
  then show ?case unfolding deleteInvariant_def by (simp del: mset_remove1 split: option.split)
next
  case (drained s n)
  then show ?case by (auto simp: deleteInvariant_def)
next
  case (cancelled s n)
  then show ?case by (auto simp: deleteInvariant_def split: option.splits)
qed

lemma deleteInvariant_reachable:
  assumes "deleteStep\<^sup>*\<^sup>* (deleteStart deletes) s" shows "deleteInvariant deletes s"
  using assms
proof (induction rule: rtranclp_induct)
  case base
  then show ?case by (simp add: deleteInvariant_def deleteStart_def)
next
  case (step s s')
  then show ?case using deleteInvariant_step by blast
qed

lemma deletes_done:
  assumes "deleteStep\<^sup>*\<^sup>* (deleteStart deletes) s" "deleteFinished s"
  shows "set (dsDone s) \<subseteq> set deletes" and "dsFailed s = None \<Longrightarrow> mset (dsDone s) = mset deletes"
proof -
  note inv = deleteInvariant_reachable [OF assms(1)]
  have "mset (dsDone s) \<subseteq># mset (dsQueue s) + mset (dsFlight s) + mset (dsDone s)" by simp
  then have "mset (dsDone s) \<subseteq># mset deletes"
    using inv unfolding deleteInvariant_def by (blast intro: subset_mset.order_trans)
  then show "set (dsDone s) \<subseteq> set deletes" by (metis set_mset_mono set_mset_mset)
  show "dsFailed s = None \<Longrightarrow> mset (dsDone s) = mset deletes"
    using inv assms(2) by (auto simp: deleteInvariant_def deleteFinished_def)
qed

lemma removeLocal_None:
  "removeLocal f paths d = (None, d') \<Longrightarrow> map_of d' x = (if x \<in> set paths then None else map_of d x)"
  by (induction paths arbitrary: d) (auto simp: delete_conv' split: option.splits if_splits)

lemma clean_applies_rules:
  assumes "cleanApplies env dryRun p d err deleted d'"
  shows "set deleted \<subseteq> set (planDeletes p)" and "dryRun \<Longrightarrow> deleted = [] \<and> d' = d"
    and "d' \<noteq> d \<Longrightarrow> mset deleted = mset (planDeletes p)"
    and "err = None \<Longrightarrow> \<not> dryRun \<Longrightarrow>
      mset deleted = mset (planDeletes p) \<and> map_of d' f = (if f \<in> set (planLocalDeletes p) then None else map_of d f)"
  using assms deletes_done removeLocal_None by (cases, auto)+

text \<open>
  C27. How \<^verbatim>\<open>clean\<close> deletes. It deletes only what it decided to; a dry run deletes nothing, here or at
  the destination; the cached manifests are touched only once every object is gone, so a later run
  still finds the volumes a failed delete left behind; and a run without error deletes everything.
\<close>

theorem clean_applies:
  assumes "cleanApplies env dryRun p d err deleted d'"
  shows "set deleted \<subseteq> set (planDeletes p) \<and> (dryRun \<longrightarrow> deleted = [] \<and> d' = d)
       \<and> (d' \<noteq> d \<longrightarrow> mset deleted = mset (planDeletes p))
       \<and> (err = None \<longrightarrow> \<not> dryRun \<longrightarrow> mset deleted = mset (planDeletes p)
            \<and> (\<forall>f. map_of d' f = (if f \<in> set (planLocalDeletes p) then None else map_of d f)))"
  using clean_applies_rules [OF assms] by blast


section \<open>Jobs that share a destination\<close>

lemma setNameParts_key: "volumeNameParts j isManifest pgp = (parts, ext) \<Longrightarrow>
    parts = setNameParts (VolumeName j) (Name (BaseSnapshot j)) (Name (IncrementalSnapshot j))"
  by (auto simp: volumeNameParts_def setNameParts_def Let_def)

lemma wellNamed_parts:
  assumes "wellNamed j" "Separator j = [s]"
  shows "list_all (list_all (\<lambda>c. c \<noteq> s)) (setNameParts (VolumeName j) (Name (BaseSnapshot j)) (Name (IncrementalSnapshot j)))"
proof -
  have "\<not> inDatasetName s" using assms by (simp add: wellNamed_def disallowedSeps_def)
  moreover have "list_all inDatasetName ''to''" by code_simp
  ultimately show ?thesis using assms(1)
    by (auto simp: wellNamed_def setNameParts_def list_all_iff)
qed

lemma setsOfHead_other:
  assumes "parts = setNameParts v b i" "list_all (list_all (\<lambda>c. c \<noteq> s)) parts"
  shows "[s] @ joinWith parts [s] \<in> set (setsOfHead (pre @ [s] @ joinWith parts [s]) [s])"
proof -
  have "splitOn (joinWith parts [s]) [s] = parts"
    using assms by (intro splitOn_joinWith [of "\<lambda>c. c \<noteq> s"]) (auto simp: setNameParts_def)
  then have split: "splitOn (pre @ [s] @ joinWith parts [s]) [s] = splitOn pre [s] @ parts"
    using splitOn_char_append [of pre s] by simp
  obtain x xs where pre: "splitOn pre [s] = x # xs" using splitOn_nonempty [of "[s]" pre] by (cases "splitOn pre [s]") auto
  show ?thesis
  proof (cases "i = []")
    case True
    then show ?thesis using split pre assms(1) by (simp add: setsOfHead_def lastParts_def setNameParts_def)
  next
    case False
    then show ?thesis using split pre assms(1) by (simp add: setsOfHead_def lastParts_def setNameParts_def nth_append)
  qed
qed

lemma ManifestObjectName_shape:
  assumes "volumeNameParts j True pgp = (parts, ext)"
  shows "manifestObjectName j pre pgp = (pre @ Separator j @ joinWith parts (Separator j)) @ ''.manifest'' @ joinWith ([] # ext) ''.''"
    and "lastIndexOf (manifestObjectName j pre pgp) ''.manifest'' = Some (length (pre @ Separator j @ joinWith parts (Separator j)))"
proof -
  have ne: "parts \<noteq> []" and ext: "ext = [''gz''] \<or> ext = [''gz'', ''pgp'']"
    using assms by (auto simp: volumeNameParts_def Let_def)
  show shape: "manifestObjectName j pre pgp = (pre @ Separator j @ joinWith parts (Separator j)) @ ''.manifest'' @ joinWith ([] # ext) ''.''"
    using assms ne ext by (auto simp: manifestObjectName_def joinWith_Cons)
  have "indexOf (tl (''.manifest'' @ joinWith ([] # ext) ''.'')) ''.manifest'' = None"
    using ext by (elim disjE; simp; code_simp)
  then show "lastIndexOf (manifestObjectName j pre pgp) ''.manifest'' = Some (length (pre @ Separator j @ joinWith parts (Separator j)))"
    unfolding shape by (intro lastIndexOf_append) (simp_all only: indexOf_None, auto)
qed

lemma backupSetName_BackupVolumeObjectName:
  assumes "wellNamed j"
  shows "backupSetName (BackupVolumeObjectName j n) = joinWith
    (setNameParts (VolumeName j) (Name (BaseSnapshot j)) (Name (IncrementalSnapshot j))) (Separator j)"
proof -
  obtain parts exts where p: "volumeNameParts j False (EncryptKey j \<noteq> None \<or> SignKey j \<noteq> None) = (parts, exts)" by fastforce
  note ok = volumeExtension_parts [OF assms p]
  have "lastIndexOf (volumeObjectName parts (Separator j) exts n) ''.zstream.'' = Some (length (joinWith parts (Separator j)))"
    unfolding volumeObjectName_def
    using ok notin_formatInt [of "CHR ''.''" n] by (intro lastIndexOf_zstream) auto
  then show ?thesis
    unfolding BackupVolumeObjectName_shape [OF p] backupSetName_def setNameParts_key [OF p, symmetric]
    by (simp add: volumeObjectName_def)
qed

lemma otherPrefixSetsI:
  assumes "obj \<in> set objs" "lastIndexOf obj ''.manifest'' = Some idx" "\<not> isManifestObject obj pre sep"
    "parseBackupVolume obj seps = None" "s \<in> set seps" "key \<in> set (setsOfHead (take idx obj) s)"
  shows "key \<in> set (otherPrefixSets objs pre sep seps)"
proof -
  let ?f = "\<lambda>obj. case lastIndexOf obj ''.manifest'' of None \<Rightarrow> [] | Some idx \<Rightarrow>
    if isManifestObject obj pre sep \<or> parseBackupVolume obj seps \<noteq> None then [] else concat (map (setsOfHead (take idx obj)) seps)"
  have "key \<in> set (?f obj)" using assms(2-6) by auto
  then have "key \<in> set (concat (map ?f objs))" using assms(1) by (simp only: set_concat set_map) blast
  then show ?thesis by (simp only: otherPrefixSets_def)
qed

lemma otherPrefixSets_indexes:
  assumes "wellNamed j" "Separator j = [s]" "[s] \<in> set seps" "ManifestObjectName j \<in> set objs"
    and "\<not> isManifestObject (ManifestObjectName j) pre sep" "parseBackupVolume (ManifestObjectName j) seps = None"
  shows "[s] @ backupSetName (BackupVolumeObjectName j n) \<in> set (otherPrefixSets objs pre sep seps)"
proof -
  let ?pgp = "EncryptKey j \<noteq> None \<or> SignKey j \<noteq> None"
  obtain parts ext where p: "volumeNameParts j True ?pgp = (parts, ext)" by fastforce
  note key = setNameParts_key [OF p] and shape = ManifestObjectName_shape [OF p, of "ManifestPrefix j"]
  have "[s] @ joinWith parts [s] \<in> set (setsOfHead (ManifestPrefix j @ [s] @ joinWith parts [s]) [s])"
    using setsOfHead_other [OF key] wellNamed_parts [OF assms(1,2)] key by simp
  moreover have "take (length (ManifestPrefix j @ [s] @ joinWith parts [s])) (ManifestObjectName j) = ManifestPrefix j @ [s] @ joinWith parts [s]"
    using shape(1) assms(2) by (simp add: ManifestObjectName_def)
  moreover have "lastIndexOf (ManifestObjectName j) ''.manifest'' = Some (length (ManifestPrefix j @ [s] @ joinWith parts [s]))"
    using shape(2) assms(2) by (simp add: ManifestObjectName_def)
  ultimately have "[s] @ joinWith parts [s] \<in> set (otherPrefixSets objs pre sep seps)"
    using otherPrefixSetsI [OF assms(4) _ assms(5,6,3)] by metis
  then show ?thesis using backupSetName_BackupVolumeObjectName [OF assms(1), of n] key assms(2) by simp
qed



section \<open>Witnesses\<close>

text \<open>A destination with one complete set and one orphan volume of the same dataset.\<close>

definition exVol :: "string \<Rightarrow> VolumeInfo" where
  "exVol n = \<lparr>ObjectName = n, VolumeNumber = 1, SHA256Sum = [], MD5Sum = [], CRC32CSum32 = 0, VolSize = 0, VolStreamBytes = 0,
     StreamSHA256 = [], IsManifest = False, IsFinalManifest = False\<rparr>"

definition exKept :: string where "exKept = ''t|a.zstream.gz.vol1''"
definition exOrphan :: string where "exOrphan = ''t|b.zstream.gz.vol1''"

definition exCleanCodec :: Codec where
  "exCleanCodec = exCodec\<lparr>cDecode := (\<lambda>s. Inr (exManifest\<lparr>Volumes := [exVol exKept]\<rparr>))\<rparr>"

definition exCleanBackend :: "string list \<Rightarrow> nat \<Rightarrow> Backend" where
  "exCleanBackend others n = (exBackend ''x'')\<lparr>bList := (\<lambda>p. Inr ([exObject, exKept, exOrphan] @ others))\<rparr>"

definition exCm :: cleanManifest where
  "exCm = \<lparr>cmObject = exObject, cmPath = exMd5 exObject, cmManifest = exManifest\<lparr>Volumes := [exVol exKept]\<rparr>, cmForeign = False\<rparr>"

definition exView :: "string list \<Rightarrow> cleanView" where
  "exView others = \<lparr>viewManifests = [exCm], viewLocalOnly = [], viewObjects = [exObject, exKept, exOrphan] @ others,
     viewDatasets = [''t'']\<rparr>"

definition exIo :: ioState where
  "exIo = \<lparr>Cached = [(exMd5 exObject, exFile)], Calls = []\<rparr>"

definition exRead :: "string list \<Rightarrow> (clean_error + (cleanView \<times> string list \<times> string list)) \<times> ioState" where
  "exRead others = cleanRounds exFs exCleanCodec exMd5 (exCleanBackend others) (\<lambda>r d. LockHeld) exCacheJob 1 [] [] exIo"

lemma ex_rounds:
  "cleanRounds exFs exCleanCodec exMd5 (exCleanBackend []) (\<lambda>r d. LockHeld) exCacheJob 1 [] [] exIo
     = (Inr (exView [], [''t''], []), snd (exRead []))"
  by code_simp


definition exCleanPlan :: cleanPlan where
  "exCleanPlan = \<lparr>planDeletes = [exOrphan], planLocalDeletes = []\<rparr>"

lemma ex_clean_plan: "cleanPlanOf exCacheJob False [] (exView []) = Inr exCleanPlan"
  by code_simp

lemma cleanRounds_locked_witness:
  "\<exists>r st0. readForClean exFs exCleanCodec exMd5 (exCleanBackend [] r) exCacheJob st0 = (Inr (exView []), snd (exRead []))
     \<and> r \<le> cleanReadRounds"
  using cleanRounds_locked [OF ex_rounds] by blast

lemma clean_deletes_only_witness:
  "\<exists>dataset sep base incr n. ParseBackupVolumeObjectName exOrphan sep = Some (dataset, base, incr, n) \<and> dataset \<in> set [''t'']"
proof -
  have "exOrphan \<in> set (planDeletes exCleanPlan)" "\<not> Force exCacheJob" by code_simp+
  then show ?thesis using clean_deletes_only [OF ex_rounds ex_clean_plan] by blast
qed

lemma clean_keeps_live_witness: "exKept \<notin> set (planDeletes exCleanPlan)"
proof (rule clean_keeps_live [OF ex_rounds ex_clean_plan])
  show "exCm \<in> set (viewManifests (exView [])) \<and> (missing (exView []) exCm = None \<or> \<not> Force exCacheJob)
      \<or> exCm \<in> set (viewLocalOnly (exView [])) \<and> (\<not> False \<or> cmForeign exCm)
      \<or> exCm \<in> set (viewManifests (exView []) @ viewLocalOnly (exView [])) \<and> VolumeName (cmManifest exCm) \<in> set []"
    by (simp add: exView_def) code_simp
  show "exKept \<in> set (manifestVolumes exCm)" "\<not> isManifestObject exKept (ManifestPrefix exCacheJob) (Separator exCacheJob)"
    by code_simp+
  have "parseBackupVolume exKept (cleanSeparators exCacheJob (exView [])) = Some (''t'', ''|'')" by code_simp
  moreover have "VolumeName (cmManifest exCm) = ''t''" by code_simp
  ultimately show "\<forall>d sep. parseBackupVolume exKept (cleanSeparators exCacheJob (exView [])) = Some (d, sep) \<longrightarrow> d = VolumeName (cmManifest exCm)"
    by simp
qed

text \<open>The workers delete one object and stop.\<close>

lemma ex_workers: "deleteStep\<^sup>*\<^sup>* (deleteStart [x]) \<lparr>dsQueue = [], dsFlight = [], dsDone = [x], dsWorkers = 0, dsFailed = None\<rparr>"
proof -
  let ?s = "\<lambda>fl dn n. \<lparr>dsQueue = [], dsFlight = fl, dsDone = dn, dsWorkers = n, dsFailed = None\<rparr>"
  have "deleteStep (deleteStart [x]) (?s [x] [] 4)"
    using deleteStep.take_object [of "deleteStart [x]" x "[]" 4] by (simp add: deleteStart_def)
  moreover have "deleteStep (?s [x] [] 4) (?s [] [x] 5)"
    using deleteStep.deleted [of x "?s [x] [] 4"] by simp
  moreover have "deleteStep\<^sup>*\<^sup>* (?s [] [x] n) (?s [] [x] 0)" for n
  proof (induction n)
    case (Suc n)
    then show ?case using deleteStep.drained [of "?s [] [x] (Suc n)" n] by (simp add: converse_rtranclp_into_rtranclp)
  qed simp
  ultimately show ?thesis by (meson converse_rtranclp_into_rtranclp)
qed

lemma ex_applies: "cleanApplies exFs False exCleanPlan [(''f'', exFile)] None [exOrphan] [(''f'', exFile)]"
  using cleanApplies.removed [of exCleanPlan, OF _ _ _ , where s = "\<lparr>dsQueue = [], dsFlight = [], dsDone = [exOrphan], dsWorkers = 0, dsFailed = None\<rparr>"
      and env = exFs and d = "[(''f'', exFile)]"] ex_workers [of exOrphan]
  by (simp add: exCleanPlan_def deleteFinished_def)

lemma clean_applies_witness: "mset [exOrphan] = mset (planDeletes exCleanPlan)"
  using clean_applies [OF ex_applies] by blast

text \<open>A second job, with another manifest prefix, that has a backup of the snapshot \<open>b\<close> there.\<close>

definition exOther :: JobInfo where
  "exOther = zeroJobInfo\<lparr>VolumeName := ''t'', BaseSnapshot := zeroSnapshot\<lparr>Name := ''b''\<rparr>, Separator := ''|'',
     ManifestPrefix := ''n'', Compressor := ''internal''\<rparr>"

lemma ex_rounds_other:
  "cleanRounds exFs exCleanCodec exMd5 (exCleanBackend [''n|t|b.manifest.gz'']) (\<lambda>r d. LockHeld) exCacheJob 1 [] [] exIo
     = (Inr (exView [''n|t|b.manifest.gz''], [''t''], []), snd (exRead [''n|t|b.manifest.gz'']))"
  by code_simp

lemma ex_other_plan:
  "cleanPlanOf exCacheJob False [] (exView [''n|t|b.manifest.gz'']) = Inr \<lparr>planDeletes = [], planLocalDeletes = []\<rparr>"
  by code_simp



section \<open>A separator that overlaps itself\<close>

text \<open>
  \<^verbatim>\<open>otherPrefixSets\<close> splits a manifest's name at the separator from the left. With the separator
  \<^verbatim>\<open>||\<close> and a second job whose \<^verbatim>\<open>--manifestPrefix\<close> ends in \<^verbatim>\<open>|\<close>, the split is off by one character, the
  second job's set is not found, and its volumes are deleted as orphans.
\<close>

definition exOverlapJob :: JobInfo where
  "exOverlapJob = zeroJobInfo\<lparr>ManifestPrefix := ''m'', Separator := ''||''\<rparr>"

definition exOverlapOther :: JobInfo where
  "exOverlapOther = exOther\<lparr>Separator := ''||'', ManifestPrefix := ''a|''\<rparr>"

definition exOverlapView :: cleanView where
  "exOverlapView = \<lparr>viewManifests = [\<lparr>cmObject = ''m||t||a.manifest.gz'', cmPath = [],
       cmManifest = exManifest\<lparr>Separator := ''||''\<rparr>, cmForeign = False\<rparr>],
     viewLocalOnly = [],
     viewObjects = [''m||t||a.manifest.gz'', ManifestObjectName exOverlapOther, BackupVolumeObjectName exOverlapOther 1],
     viewDatasets = [''t'']\<rparr>"

lemma clean_overlapping_separator:
  "cleanPlanOf exOverlapJob False [] exOverlapView
     = Inr \<lparr>planDeletes = [BackupVolumeObjectName exOverlapOther 1], planLocalDeletes = []\<rparr>"
  by code_simp

end
