(* ===== verification/NameProperties.thy ===== *)
theory NameProperties
  imports ObjectNames Chains Examples
begin

text \<open>
  The properties of object names, of the options of a send, and of chains of backups that the other
  components rely on.
\<close>

section \<open>Object names\<close>

text \<open>
  C33. Volume names round trip: for a job whose flags and names are valid, the parser of \<^verbatim>\<open>clean\<close> recovers
  the dataset, both snapshots and the number of every volume the job writes.
\<close>

theorem volume_name_roundtrip:
  assumes "wellNamed j" and "1 \<le> n" and "n \<le> maxInt64"
  shows "ParseBackupVolumeObjectName (BackupVolumeObjectName j n) (Separator j)
    = Some (VolumeName j, Name (BaseSnapshot j), Name (IncrementalSnapshot j), n)"
  by (rule parse_BackupVolumeObjectName [OF assms])

text \<open>
  No two backup sets share a volume: the volumes of jobs that differ in the dataset, the base or
  the incremental source have different names, and so do two volumes of one job.
\<close>

theorem volume_names_distinct:
  assumes "wellNamed j" "wellNamed j'" "Separator j = Separator j'"
    and "1 \<le> n" "n \<le> maxInt64" "1 \<le> n'" "n' \<le> maxInt64"
    and "BackupVolumeObjectName j n = BackupVolumeObjectName j' n'"
  shows "VolumeName j = VolumeName j' \<and> Name (BaseSnapshot j) = Name (BaseSnapshot j')
    \<and> Name (IncrementalSnapshot j) = Name (IncrementalSnapshot j') \<and> n = n'"
proof -
  have "setKey j = setKey j' \<and> n = n'"
    by (rule volume_names.enc_eqD [OF _ _ assms(8), of "Separator j"]) (use assms(1-7) in simp_all)
  then show ?thesis by (simp only: setKey_def prod.inject)
qed

text \<open>
  The parser accepts nothing else: what it accepts is the name of a volume of a full or an
  incremental set of the dataset and snapshots it returns, with at most a compressor and the
  \<^verbatim>\<open>pgp\<close> extension, a number from 1 on without leading zeros, and no leading slash.
\<close>

theorem volume_name_sound:
  assumes "ParseBackupVolumeObjectName name sep = Some (v, b, i, n)"
  shows "\<exists>exts. name = joinWith (if i = [] then [v, b] else [v, i, ''to'', b]) sep
      @ ''.zstream.'' @ joinWith (exts @ [''vol'' @ formatInt n]) ''.''
    \<and> (exts = [] \<or> (\<exists>e. e \<noteq> [] \<and> (exts = [e] \<or> exts = [e, ''pgp''] \<and> e \<noteq> ''pgp'')))
    \<and> 1 \<le> n \<and> v \<noteq> [] \<and> b \<noteq> [] \<and> \<not> hasPrefix v ''/'' \<and> sep \<noteq> []"
proof -
  obtain exts where exts: "volumeExtensionsOK exts" "name = volumeObjectName (setNameParts v b i) sep exts n"
    "sep \<noteq> []" "1 \<le> n" "v \<noteq> []" "b \<noteq> []" "\<not> hasPrefix v ''/''"
    using ParseBackupVolumeObjectName_shape [OF assms] by blast
  have "exts = [] \<or> (\<exists>e. e \<noteq> [] \<and> (exts = [e] \<or> exts = [e, ''pgp''] \<and> e \<noteq> ''pgp''))"
    using exts(1) by (auto simp: volumeExtensionsOK_def split: list.splits)
  then show ?thesis using exts(2-) by (intro exI [of _ exts]) (simp add: volumeObjectName_def setNameParts_def)
qed

text \<open>A job with a full backup of the snapshot \<open>a\<close>, and its volume names.\<close>

definition exNamed :: "string \<Rightarrow> JobInfo" where
  "exNamed snap = zeroJobInfo\<lparr>VolumeName := ''t'', BaseSnapshot := zeroSnapshot\<lparr>Name := snap\<rparr>, Separator := ''|'',
     Compressor := ''internal''\<rparr>"

lemma ex_named: "wellNamed (exNamed ''a'')" by code_simp

lemma ex_fields:
  "VolumeName (exNamed s) = ''t''" "Name (BaseSnapshot (exNamed s)) = s" "Name (IncrementalSnapshot (exNamed s)) = []"
  "Separator (exNamed s) = ''|''"
  by (simp_all add: exNamed_def zeroJobInfo_def zeroManifest_def zeroSnapshot_def Manifest.defs)

lemma one_le_maxInt64: "(1::int) \<le> maxInt64" by (simp add: maxInt64_def)

lemma volume_name_roundtrip_witness:
  "ParseBackupVolumeObjectName (BackupVolumeObjectName (exNamed ''a'') 1) ''|'' = Some (''t'', ''a'', [], 1)"
  using volume_name_roundtrip [OF ex_named order_refl one_le_maxInt64] by (simp add: ex_fields)

lemma volume_names_distinct_witness:
  "BackupVolumeObjectName (exNamed ''a'') 1 \<noteq> BackupVolumeObjectName (exNamed ''b'') 1"
proof
  assume "BackupVolumeObjectName (exNamed ''a'') 1 = BackupVolumeObjectName (exNamed ''b'') 1"
  moreover have "wellNamed (exNamed ''b'')" by code_simp
  ultimately show False
    using volume_names_distinct [OF ex_named _ _ order_refl one_le_maxInt64 order_refl one_le_maxInt64, of "exNamed ''b''"]
    by (simp add: ex_fields)
qed

lemma volume_name_sound_witness:
  "\<exists>exts. BackupVolumeObjectName (exNamed ''a'') 1 = ''t|a'' @ ''.zstream.'' @ joinWith (exts @ [''vol'' @ formatInt 1]) ''.''"
proof -
  have "ParseBackupVolumeObjectName (BackupVolumeObjectName (exNamed ''a'') 1) ''|'' = Some (''t'', ''a'', [], 1)" by code_simp
  from volume_name_sound [OF this] show ?thesis by auto
qed

text \<open>
  Listing by the prefix of a set also returns volumes of another set, when that set's snapshot is
  named as the first set's volumes are.
\<close>

lemma prefix_lists_another_set:
  "wellNamed (exNamed ''a'') \<and> wellNamed (exNamed ''a.zstream.gz.vol'')
    \<and> setKey (exNamed ''a'') \<noteq> setKey (exNamed ''a.zstream.gz.vol'')
    \<and> hasPrefix (BackupVolumeObjectName (exNamed ''a.zstream.gz.vol'') 1) (BackupVolumeObjectPrefix (exNamed ''a''))"
  by code_simp

text \<open>
  A blank passes as a separator although the names of ZFS snapshots may hold blanks; the volumes of
  such a job are not recognised by the parser.
\<close>

lemma blank_separator_not_parsed:
  "\<not> disallowedSeps '' '' \<and>
     ParseBackupVolumeObjectName (BackupVolumeObjectName ((exNamed ''a b'')\<lparr>Separator := '' ''\<rparr>) 1) '' '' = None"
  by code_simp

section \<open>Volumes and flags\<close>

text \<open>
  What a resumed send keeps of its manifest: the longest run of volumes numbered 1, 2, and so on;
  the bytes counted are exactly theirs, and the next volume gets the next number.
\<close>

theorem resume_prefix:
  assumes "TotalBytesStreamedAndVols j = (tot, volnum, j')"
  shows "\<exists>k\<le>length (Volumes j). volnum = int k + 1 \<and> Volumes j' = take k (Volumes j)
    \<and> tot = sum_list (map VolStreamBytes (Volumes j'))
    \<and> map VolumeNumber (Volumes j') = map int [1..<k + 1]
    \<and> (k < length (Volumes j) \<longrightarrow> VolumeNumber (Volumes j ! k) \<noteq> int k + 1)"
  by (rule TotalBytesStreamedAndVols_spec [OF assms])

definition exVolume :: "int \<Rightarrow> VolumeInfo" where
  "exVolume n = \<lparr>ObjectName = [], VolumeNumber = n, SHA256Sum = [], MD5Sum = [], CRC32CSum32 = 0, VolSize = 0,
     VolStreamBytes = 7, StreamSHA256 = [], IsManifest = False, IsFinalManifest = False\<rparr>"

lemma resume_prefix_witness:
  "\<exists>k\<le>3. (3::int) = int k + 1"
proof -
  have "TotalBytesStreamedAndVols (zeroManifest\<lparr>Volumes := [exVolume 1, exVolume 2, exVolume 4]\<rparr>)
    = (14, 3, zeroManifest\<lparr>Volumes := [exVolume 1, exVolume 2]\<rparr>)" by code_simp
  from resume_prefix [OF this] show ?thesis by auto
qed

lemma flags_rules:
  assumes "ValidateSendFlags j = None"
  shows "\<exists>c\<in>set (Separator j). \<not> inDatasetName c"
    and "0 < MaxParallelUploads j \<and> 0 \<le> MaxFileBuffer j \<and> 1 \<le> CompressionLevel j \<and> CompressionLevel j \<le> 9"
    and "VolumeSize j \<noteq> 0"
    and "d \<in> set (Destinations j) \<Longrightarrow> hasPrefix d ''s3://'' \<Longrightarrow> uint (VolumeSize j) \<le> 9900 * UploadChunkSize j"
proof -
  have chunk: "5 \<le> UploadChunkSize j" "UploadChunkSize j \<le> 100" and vol: "ValidateVolumeSize j = None"
    using assms by (auto simp: ValidateSendFlags_def split: if_splits)
  show "\<exists>c\<in>set (Separator j). \<not> inDatasetName c"
    using assms by (auto simp: ValidateSendFlags_def disallowedSeps_def list_all_iff split: if_splits)
  show "0 < MaxParallelUploads j \<and> 0 \<le> MaxFileBuffer j \<and> 1 \<le> CompressionLevel j \<and> CompressionLevel j \<le> 9"
    using assms by (auto simp: ValidateSendFlags_def split: if_splits)
  show "VolumeSize j \<noteq> 0" using vol by (auto simp: ValidateVolumeSize_def split: if_splits)
  show "uint (VolumeSize j) \<le> 9900 * UploadChunkSize j" if "d \<in> set (Destinations j)" "hasPrefix d ''s3://''"
  proof -
    have "VolumeSize j \<le> S3MaxVolumeParts * of_int (UploadChunkSize j)"
      using vol that by (auto simp: ValidateVolumeSize_def Let_def list_ex_iff split: if_splits)
    moreover have "uint (S3MaxVolumeParts * of_int (UploadChunkSize j)) = 9900 * UploadChunkSize j"
    proof -
      have "S3MaxVolumeParts * of_int (UploadChunkSize j) = of_int (9900 * UploadChunkSize j)"
        by (simp add: S3MaxVolumeParts_def)
      then show ?thesis using chunk by (simp only: unsigned_of_int) (simp add: take_bit_int_eq_self)
    qed
    ultimately show ?thesis by (simp add: word_le_def)
  qed
qed

text \<open>
  Flags that pass are within the limits of the destinations: the separator has a character no ZFS
  dataset path holds, and a volume for S3 fits into 9,900 parts of the upload chunk size, computed
  without wrap-around.
\<close>

theorem flags_bounds:
  assumes "ValidateSendFlags j = None"
  shows "(\<exists>c\<in>set (Separator j). \<not> inDatasetName c)
       \<and> 0 < MaxParallelUploads j \<and> 0 \<le> MaxFileBuffer j \<and> 1 \<le> CompressionLevel j \<and> CompressionLevel j \<le> 9
       \<and> VolumeSize j \<noteq> 0
       \<and> (\<forall>d\<in>set (Destinations j). hasPrefix d ''s3://'' \<longrightarrow> uint (VolumeSize j) \<le> 9900 * UploadChunkSize j)"
  using flags_rules [OF assms] by blast

definition exFlags :: JobInfo where
  "exFlags = zeroJobInfo\<lparr>MaxParallelUploads := 4, MaxBackoffTime := 1, CompressionLevel := 6, Separator := ''|'',
     UploadChunkSize := 10, VolumeSize := 200, Destinations := [''s3://b'']\<rparr>"

lemma flags_bounds_witness: "uint (VolumeSize exFlags) \<le> 9900 * UploadChunkSize exFlags"
proof -
  have "ValidateSendFlags exFlags = None" by code_simp
  moreover have "''s3://b'' \<in> set (Destinations exFlags)" "hasPrefix ''s3://b'' ''s3://''" by code_simp+
  ultimately show ?thesis using flags_bounds by blast
qed

section \<open>Chains\<close>

lemma chain_walk_rules:
  assumes "ms \<noteq> []" and "\<forall>m\<in>set ms. timeFits (BaseSnapshot m) \<and> (\<not> isFull m \<longrightarrow> timeFits (IncrementalSnapshot m))"
  shows "brokenLink ms = None \<longleftrightarrow> restorable ms (hd ms)"
    and "restorable ms (hd ms) \<Longrightarrow> \<exists>p. follow (parentIn ms) (chainDepth ms) (hd ms) = Some p \<and> isFull p
      \<and> (\<forall>k<chainDepth ms. \<forall>q. follow (parentIn ms) k (hd ms) = Some q \<longrightarrow> \<not> isFull q)"
proof -
  show "brokenLink ms = None \<longleftrightarrow> restorable ms (hd ms)" using brokenLink_None_iff assms(1) by blast
  assume "restorable ms (hd ms)"
  then have root: "chain.rooted ms (hd ms)" by (simp add: restorable_rooted)
  have mem: "hd ms \<in> set ms" using assms(1) by simp
  obtain n p where n: "n < card (set ms)" "follow (parentIn ms) n (hd ms) = Some p" "isFull p"
    by (rule chain.rooted_bound [OF mem root])
  let ?P = "\<lambda>k. \<exists>q. follow (parentIn ms) k (hd ms) = Some q \<and> isFull q"
  have "n \<le> length ms" using n(1) card_length [of ms] by linarith
  then have cd: "chainDepth ms = (LEAST k. ?P k)"
    using chainDepthLoop_follow [OF assms(2) n(2,3) _ mem, of 0] assms(1) by (cases ms) (simp_all add: chainDepth_def)
  have "?P n" using n(2,3) by blast
  then have "?P (chainDepth ms)" unfolding cd by (rule LeastI)
  moreover have first: "\<not> ?P k" if "k < chainDepth ms" for k
    using that unfolding cd by (rule not_less_Least)
  ultimately obtain p where p: "follow (parentIn ms) (chainDepth ms) (hd ms) = Some p" "isFull p" by blast
  show "\<exists>p. follow (parentIn ms) (chainDepth ms) (hd ms) = Some p \<and> isFull p
      \<and> (\<forall>k<chainDepth ms. \<forall>q. follow (parentIn ms) k (hd ms) = Some q \<longrightarrow> \<not> isFull q)"
    by (rule exI [of _ p]) (use p first in blast)
qed

text \<open>
  C32. The planner's and the simulator's walks along a chain agree with the definition of a restorable
  backup: no link is broken exactly when the newest backup reaches a full, and then the depth that
  \<^verbatim>\<open>chainDepth\<close> counts through its index is the number of incrementals on the way to the first full.
\<close>

theorem chain_walks:
  assumes "ms \<noteq> []" and "\<forall>m\<in>set ms. timeFits (BaseSnapshot m) \<and> (\<not> isFull m \<longrightarrow> timeFits (IncrementalSnapshot m))"
  shows "(brokenLink ms = None \<longleftrightarrow> restorable ms (hd ms))
       \<and> (restorable ms (hd ms) \<longrightarrow> (\<exists>p. follow (parentIn ms) (chainDepth ms) (hd ms) = Some p \<and> isFull p
            \<and> (\<forall>k<chainDepth ms. \<forall>q. follow (parentIn ms) k (hd ms) = Some q \<longrightarrow> \<not> isFull q)))"
  using chain_walk_rules [OF assms] by blast

lemma chain_walks_witness: "brokenLink exDest = None \<longleftrightarrow> restorable exDest (hd exDest)"
proof (rule chain_walks [THEN conjunct1])
  show "exDest \<noteq> []" by (simp add: exDest_def)
  show "\<forall>m\<in>set exDest. timeFits (BaseSnapshot m) \<and> (\<not> isFull m \<longrightarrow> timeFits (IncrementalSnapshot m))" unfolding timeFits_def by code_simp
qed

end
