(* ===== verification/Listing.thy ===== *)
theory Listing
  imports CacheProperties Chains
begin

text \<open>
  \<^verbatim>\<open>backup/list.go\<close>: reading all manifests of a destination in one order, the filter of \<^verbatim>\<open>list\<close>, and
  linking each incremental to the backup it continues from. A manifest is named by its index in the
  list, as the Go code names it by its pointer.
\<close>

section \<open>Reading and sorting\<close>

text \<open>\<^verbatim>\<open>strings.Compare\<close> is the byte order of strings, which \<^verbatim>\<open>List_Lexorder\<close> gives lists of characters.\<close>

definition olderBackup :: "Manifest \<Rightarrow> Manifest \<Rightarrow> bool" where
  "olderBackup x y =
     (if VolumeName x \<noteq> VolumeName y then VolumeName x < VolumeName y
      else let a = CreationTime (BaseSnapshot x); b = CreationTime (BaseSnapshot y)
           in if a \<noteq> b then a < b else \<not> isFull x \<and> isFull y)"

interpretation oldest: strict_weak olderBackup
  by unfold_locales (auto simp: olderBackup_def Let_def split: if_splits)

fun readAll ::
    "fsEnv \<Rightarrow> Codec \<Rightarrow> (string \<Rightarrow> string) \<Rightarrow> Backend \<Rightarrow> JobInfo \<Rightarrow> ioState \<Rightarrow> string list
      \<Rightarrow> (cache_error + Manifest list) \<times> ioState" where
  "readAll env c md5 b j st [] = (Inr [], st)"
| "readAll env c md5 b j st (obj # objs) =
     (case readCachedManifest env c md5 b j st obj of
        (Inl err, st) \<Rightarrow> (Inl err, st)
      | (Inr m, st) \<Rightarrow>
          (case readAll env c md5 b j st objs of
             (Inl err, st) \<Rightarrow> (Inl err, st)
           | (Inr ms, st) \<Rightarrow> (Inr (m # ms), st)))"

definition readAndSortManifests ::
    "fsEnv \<Rightarrow> Codec \<Rightarrow> (string \<Rightarrow> string) \<Rightarrow> Backend \<Rightarrow> JobInfo \<Rightarrow> ioState \<Rightarrow> string list
      \<Rightarrow> (cache_error + Manifest list) \<times> ioState" where
  "readAndSortManifests env c md5 b j st manifests =
     (case readAll env c md5 b j st manifests of
        (Inl err, st) \<Rightarrow> (Inl err, st)
      | (Inr ms, st) \<Rightarrow> (Inr (sliceStable olderBackup ms), st))"

text \<open>The filter of \<^verbatim>\<open>List\<close>: a volume, or a prefix of volumes that ends in a star, and two dates.\<close>

definition listed :: "string \<Rightarrow> time \<Rightarrow> time \<Rightarrow> Manifest \<Rightarrow> bool" where
  "listed startswith before after m =
     (if startswith \<noteq> [] \<and>
         (if last startswith = CHR ''*''
          then length startswith \<noteq> 1 \<and> \<not> hasPrefix (VolumeName m) (butlast startswith)
          else startswith \<noteq> VolumeName m) then False
      else if \<not> isZero before \<and> \<not> CreationTime (BaseSnapshot m) < before then False
      else if \<not> isZero after \<and> \<not> CreationTime (BaseSnapshot m) > after then False
      else True)"

definition List_filter :: "string \<Rightarrow> time \<Rightarrow> time \<Rightarrow> Manifest list \<Rightarrow> Manifest list" where
  "List_filter startswith before after ms = filter (listed startswith before after) ms"

section \<open>Linking\<close>

definition manifestKey :: "string \<Rightarrow> SnapshotInfo \<Rightarrow> string" where
  "manifestKey vol s = vol @ [CHR 0x00] @ Name s @ [CHR 0x00] @ formatInt (unix (CreationTime s))"

text \<open>The index of designated parents: a full always wins, an incremental only if it is the first.\<close>

definition designate :: "(nat \<Rightarrow> string) \<Rightarrow> (nat \<Rightarrow> bool) \<Rightarrow> (string \<rightharpoonup> nat) \<Rightarrow> nat \<Rightarrow> (string \<rightharpoonup> nat)" where
  "designate key full byID i = (if full i \<or> byID (key i) = None then byID(key i \<mapsto> i) else byID)"

definition indexManifests :: "(string \<Rightarrow> string) \<Rightarrow> Manifest list \<Rightarrow> (string \<rightharpoonup> nat)" where
  "indexManifests md5 ms =
     foldl (designate (\<lambda>i. md5 (manifestKey (VolumeName (ms ! i)) (BaseSnapshot (ms ! i)))) (\<lambda>i. isFull (ms ! i)))
       Map.empty [0..<length ms]"

definition linkParent :: "(string \<Rightarrow> string) \<Rightarrow> Manifest list \<Rightarrow> nat \<Rightarrow> nat option" where
  "linkParent md5 ms i =
     (let m = ms ! i
      in if isFull m then None
         else indexManifests md5 ms (md5 (manifestKey (VolumeName m) (IncrementalSnapshot m))))"

definition manifestTree :: "Manifest list \<Rightarrow> string \<Rightarrow> nat list option" where
  "manifestTree ms vol =
     (let is = filter (\<lambda>i. VolumeName (ms ! i) = vol) [0..<length ms]
      in if is = [] then None else Some is)"

text \<open>\<^verbatim>\<open>linkManifests\<close>: the manifests of each volume, and the parent of each manifest.\<close>

definition linkManifests :: "(string \<Rightarrow> string) \<Rightarrow> Manifest list \<Rightarrow> (string \<Rightarrow> nat list option) \<times> (nat \<Rightarrow> nat option)" where
  "linkManifests md5 ms = (manifestTree ms, linkParent md5 ms)"

section \<open>What links mean\<close>

text \<open>
  The keys tell snapshots of volumes apart when MD5 has no collision among them, no name holds a
  NUL byte, and the creation times are whole seconds, as those of ZFS are.
\<close>

definition keysOf :: "Manifest list \<Rightarrow> string set" where
  "keysOf ms = {manifestKey (VolumeName m) s | m s. m \<in> set ms \<and> (s = BaseSnapshot m \<or> s = IncrementalSnapshot m)}"

definition wholeSeconds :: "SnapshotInfo \<Rightarrow> bool" where
  "wholeSeconds s \<longleftrightarrow> CreationTime s mod 1000000000 = 0"

definition plainManifest :: "Manifest \<Rightarrow> bool" where
  "plainManifest m \<longleftrightarrow> CHR 0x00 \<notin> set (VolumeName m) \<and>
     CHR 0x00 \<notin> set (Name (BaseSnapshot m)) \<and> CHR 0x00 \<notin> set (Name (IncrementalSnapshot m)) \<and>
     wholeSeconds (BaseSnapshot m) \<and> wholeSeconds (IncrementalSnapshot m)"

lemma manifestKey_eq:
  assumes "CHR 0x00 \<notin> set v" "CHR 0x00 \<notin> set v'" "CHR 0x00 \<notin> set (Name s)" "CHR 0x00 \<notin> set (Name s')"
    and "wholeSeconds s" "wholeSeconds s'"
  shows "manifestKey v s = manifestKey v' s' \<longleftrightarrow> v = v' \<and> SnapshotInfo_Equal s s'"
proof -
  have "unix (CreationTime s) = unix (CreationTime s') \<longleftrightarrow> CreationTime s = CreationTime s'"
    using assms(5,6) by (simp add: unix_def wholeSeconds_def) (metis mod_0_imp_dvd dvd_div_eq_iff)
  then show ?thesis
    using assms(1-4) by (simp add: manifestKey_def append_first_occ_eq SnapshotInfo_Equal_def)
qed

lemma designate_None: "foldl (designate key full) Map.empty [0..<n] k = None \<longleftrightarrow> (\<forall>i<n. key i \<noteq> k)"
  by (induction n) (auto simp: designate_def less_Suc_eq)

lemma designate_Some: "foldl (designate key full) Map.empty [0..<n] k = Some i \<Longrightarrow> i < n \<and> key i = k"
proof (induction n)
  case (Suc n)
  then show ?case by (auto simp: designate_def split: if_splits)
qed simp

lemma designate_full:
  "foldl (designate key full) Map.empty [0..<n] k = Some i \<Longrightarrow> q < n \<Longrightarrow> key q = k \<Longrightarrow> full q \<Longrightarrow> full i"
proof (induction n)
  case (Suc n)
  let ?by = "foldl (designate key full) Map.empty [0..<n]"
  have step: "designate key full ?by n k = Some i" using Suc.prems(1) by simp
  show ?case
  proof (cases "q = n")
    case True
    then show ?thesis using step Suc.prems by (auto simp: designate_def)
  next
    case False
    then have q: "q < n" using Suc.prems(2) by simp
    then have "?by k \<noteq> None" using designate_None [of key full n k] Suc.prems(3) by blast
    then have "full i \<or> ?by k = Some i" using step by (auto simp: designate_def split: if_splits)
    then show ?thesis using Suc.IH q Suc.prems(3,4) by blast
  qed
qed simp

lemma linkParent_key:
  assumes "linkParent md5 ms i = Some p"
  shows "p < length ms" "\<not> isFull (ms ! i)"
    "md5 (manifestKey (VolumeName (ms ! p)) (BaseSnapshot (ms ! p))) = md5 (manifestKey (VolumeName (ms ! i)) (IncrementalSnapshot (ms ! i)))"
  using assms by (auto simp: linkParent_def indexManifests_def Let_def split: if_splits dest: designate_Some)

lemma linkManifests_rules:
  assumes "inj_on md5 (keysOf ms)" and "\<forall>m\<in>set ms. plainManifest m"
    and "snd (linkManifests md5 ms) = parent" and "i < length ms" "\<not> isFull (ms ! i)"
  shows "parent i = Some p \<Longrightarrow> p < length ms \<and> VolumeName (ms ! p) = VolumeName (ms ! i)
      \<and> SnapshotInfo_Equal (BaseSnapshot (ms ! p)) (IncrementalSnapshot (ms ! i))"
    and "parent i = Some p \<Longrightarrow> q < length ms \<Longrightarrow> VolumeName (ms ! q) = VolumeName (ms ! i) \<Longrightarrow>
      SnapshotInfo_Equal (BaseSnapshot (ms ! q)) (IncrementalSnapshot (ms ! i)) \<Longrightarrow> isFull (ms ! q) \<Longrightarrow> isFull (ms ! p)"
    and "parent i = None \<Longrightarrow> q < length ms \<Longrightarrow> VolumeName (ms ! q) = VolumeName (ms ! i) \<Longrightarrow>
      \<not> SnapshotInfo_Equal (BaseSnapshot (ms ! q)) (IncrementalSnapshot (ms ! i))"
proof -
  let ?key = "\<lambda>i. md5 (manifestKey (VolumeName (ms ! i)) (BaseSnapshot (ms ! i)))"
  let ?k = "md5 (manifestKey (VolumeName (ms ! i)) (IncrementalSnapshot (ms ! i)))"
  have parent: "parent i = foldl (designate ?key (\<lambda>i. isFull (ms ! i))) Map.empty [0..<length ms] ?k"
    using assms(5) by (simp add: assms(3) [symmetric] linkManifests_def linkParent_def indexManifests_def Let_def)
  have key: "?key q = ?k \<longleftrightarrow> VolumeName (ms ! q) = VolumeName (ms ! i)
      \<and> SnapshotInfo_Equal (BaseSnapshot (ms ! q)) (IncrementalSnapshot (ms ! i))" if "q < length ms" for q
  proof -
    have "ms ! q \<in> set ms" "ms ! i \<in> set ms" using that assms(4) by simp_all
    then have "manifestKey (VolumeName (ms ! q)) (BaseSnapshot (ms ! q)) \<in> keysOf ms"
      "manifestKey (VolumeName (ms ! i)) (IncrementalSnapshot (ms ! i)) \<in> keysOf ms" "plainManifest (ms ! q)" "plainManifest (ms ! i)"
      using assms(2) unfolding keysOf_def by blast+
    then show ?thesis using inj_on_eq_iff [OF assms(1)] by (simp add: manifestKey_eq plainManifest_def)
  qed
  show "parent i = Some p \<Longrightarrow> p < length ms \<and> VolumeName (ms ! p) = VolumeName (ms ! i)
      \<and> SnapshotInfo_Equal (BaseSnapshot (ms ! p)) (IncrementalSnapshot (ms ! i))"
    using designate_Some key unfolding parent by blast
  show "parent i = Some p \<Longrightarrow> q < length ms \<Longrightarrow> VolumeName (ms ! q) = VolumeName (ms ! i) \<Longrightarrow>
      SnapshotInfo_Equal (BaseSnapshot (ms ! q)) (IncrementalSnapshot (ms ! i)) \<Longrightarrow> isFull (ms ! q) \<Longrightarrow> isFull (ms ! p)"
    using designate_full [of ?key "\<lambda>i. isFull (ms ! i)"] key unfolding parent by blast
  show "parent i = None \<Longrightarrow> q < length ms \<Longrightarrow> VolumeName (ms ! q) = VolumeName (ms ! i) \<Longrightarrow>
      \<not> SnapshotInfo_Equal (BaseSnapshot (ms ! q)) (IncrementalSnapshot (ms ! i))"
    using designate_None [of ?key "\<lambda>i. isFull (ms ! i)"] key unfolding parent by blast
qed

text \<open>
  C24. Links are right. Each incremental is linked to a backup of its source snapshot of the same
  volume, to a full one if there is any, and is left without a parent only when there is none.
\<close>

theorem linkManifests_correct:
  assumes "inj_on md5 (keysOf ms)" and "\<forall>m\<in>set ms. plainManifest m"
    and "snd (linkManifests md5 ms) = parent" and "i < length ms" "\<not> isFull (ms ! i)"
  shows "(\<forall>p. parent i = Some p \<longrightarrow> p < length ms \<and> VolumeName (ms ! p) = VolumeName (ms ! i)
            \<and> SnapshotInfo_Equal (BaseSnapshot (ms ! p)) (IncrementalSnapshot (ms ! i)))
       \<and> (\<forall>q<length ms. VolumeName (ms ! q) = VolumeName (ms ! i)
            \<longrightarrow> SnapshotInfo_Equal (BaseSnapshot (ms ! q)) (IncrementalSnapshot (ms ! i))
            \<longrightarrow> (\<exists>p. parent i = Some p \<and> (isFull (ms ! q) \<longrightarrow> isFull (ms ! p))))"
proof (intro conjI allI impI)
  fix p
  assume "parent i = Some p"
  then show "p < length ms" "VolumeName (ms ! p) = VolumeName (ms ! i)"
    "SnapshotInfo_Equal (BaseSnapshot (ms ! p)) (IncrementalSnapshot (ms ! i))"
    using linkManifests_rules(1) [OF assms] by blast+
next
  fix q
  assume q: "q < length ms" "VolumeName (ms ! q) = VolumeName (ms ! i)"
    "SnapshotInfo_Equal (BaseSnapshot (ms ! q)) (IncrementalSnapshot (ms ! i))"
  show "\<exists>p. parent i = Some p \<and> (isFull (ms ! q) \<longrightarrow> isFull (ms ! p))"
  proof (cases "parent i")
    case None
    show ?thesis using linkManifests_rules(3) [OF assms None q(1,2)] q(3) by contradiction
  next
    case (Some p)
    then show ?thesis using linkManifests_rules(2) [OF assms Some q] by blast
  qed
qed


section \<open>Witnesses\<close>

definition exLink :: "string \<Rightarrow> int \<Rightarrow> string \<Rightarrow> int \<Rightarrow> Manifest" where
  "exLink base t source u = zeroManifest\<lparr>VolumeName := ''t'', BaseSnapshot := \<lparr>CreationTime = t * second, Name = base, Bookmark = False, GUID = []\<rparr>,
     IncrementalSnapshot := \<lparr>CreationTime = u * second, Name = source, Bookmark = False, GUID = []\<rparr>\<rparr>"

definition exLinks :: "Manifest list" where
  "exLinks = [exLink ''a'' 1 [] 0, exLink ''b'' 2 ''a'' 1, exLink ''c'' 3 ''b'' 2]"

lemma ex_links: "\<forall>m\<in>set exLinks. plainManifest m" unfolding plainManifest_def wholeSeconds_def by code_simp

lemma linkManifests_correct_witness:
  "VolumeName (exLinks ! 1) = VolumeName (exLinks ! 2) \<and> SnapshotInfo_Equal (BaseSnapshot (exLinks ! 1)) (IncrementalSnapshot (exLinks ! 2))"
proof -
  have link: "snd (linkManifests (\<lambda>s. s) exLinks) 2 = Some 1" and two: "2 < length exLinks" "\<not> isFull (exLinks ! 2)"
    by code_simp+
  have "inj_on (\<lambda>s. s) (keysOf exLinks)" by simp
  from linkManifests_correct [OF this ex_links refl two] link show ?thesis by blast
qed

end
