(* ===== verification/Restore.thy ===== *)
theory Restore
  imports Listing
begin

text \<open>
  \<^verbatim>\<open>backup/restore.go\<close>: the chain of backups \<^verbatim>\<open>receive --auto\<close> restores, the refusals that protect
  what is already on the pool, and the verified download of a backup's volumes. What \<^verbatim>\<open>zfs\<close> reports
  (snapshots, guids, mountpoints, descendants) is an argument.
\<close>

section \<open>The target\<close>

definition restoreVolume :: "JobInfo \<Rightarrow> string" where
  "restoreVolume j =
     (let parts = splitOn (VolumeName j) ''/'';
          parts = (if FullPath j then LocalVolume j # tl parts else parts);
          volume = (if FullPath j then joinWith parts ''/'' else LocalVolume j)
      in if LastPath j then volume @ ''/'' @ last parts else volume)"

definition sourceIsLocal :: "Manifest \<Rightarrow> SnapshotInfo list \<Rightarrow> bool" where
  "sourceIsLocal b local = fst (validateSnapShotExistsFromSnaps (IncrementalSnapshot b) local False)"

definition localSnapshotMismatch :: "SnapshotInfo \<Rightarrow> SnapshotInfo list \<Rightarrow> SnapshotInfo option" where
  "localSnapshotMismatch snap local =
     List.find (\<lambda>s. \<not> (Name s \<noteq> Name snap \<or> Bookmark s \<or> SnapshotInfo_Equal s snap)) local"

section \<open>Which backup of a snapshot\<close>

text \<open>
  The links are the function \<open>parent\<close> on the indices of the manifests \<open>ms\<close>. Following them from \<open>p\<close>
  with the set \<open>seen\<close>: does the chain reach a snapshot in \<open>local\<close>?
\<close>

partial_function (option) chainReaches ::
    "Manifest list \<Rightarrow> (nat \<Rightarrow> nat option) \<Rightarrow> SnapshotInfo list \<Rightarrow> nat list \<Rightarrow> nat option \<Rightarrow> bool option" where
  "chainReaches ms parent local seen p =
     (case p of
        None \<Rightarrow> Some False
      | Some i \<Rightarrow>
          if i \<in> set seen then Some False
          else if fst (validateSnapShotExistsFromSnaps (BaseSnapshot (ms ! i)) local False) then Some True
          else if isFull (ms ! i) then Some False
          else if sourceIsLocal (ms ! i) local then Some True
          else chainReaches ms parent local (i # seen) (parent i))"

declare chainReaches.simps [code]

fun firstReaching ::
    "Manifest list \<Rightarrow> (nat \<Rightarrow> nat option) \<Rightarrow> SnapshotInfo list \<Rightarrow> nat list \<Rightarrow> nat option option" where
  "firstReaching ms parent local [] = Some None"
| "firstReaching ms parent local (b # bs) =
     Option.bind (chainReaches ms parent local [] (Some b)) (\<lambda>r.
       if r then Some (Some b) else firstReaching ms parent local bs)"

definition backupThatApplies ::
    "Manifest list \<Rightarrow> (nat \<Rightarrow> nat option) \<Rightarrow> SnapshotInfo list \<Rightarrow> nat list \<Rightarrow> nat option option" where
  "backupThatApplies ms parent local backups =
     Option.bind (firstReaching ms parent local backups) (\<lambda>r.
       case r of
         Some b \<Rightarrow> Some (Some b)
       | None \<Rightarrow>
           (case List.find (\<lambda>b. isFull (ms ! b)) backups of
              Some b \<Rightarrow> Some (Some b)
            | None \<Rightarrow> Some (case backups of [] \<Rightarrow> None | b # _ \<Rightarrow> Some b)))"

section \<open>The chain to restore\<close>

datatype restore_error =
    NoSnapshotsForVolume string
  | SnapshotNotAtBackend string
  | OtherGUID string
  | GuidUnknown string
  | ManifestLoop string
  | NoParentSnapshot string
  | MixedStreams string string
  | WouldDestroy string
  | UnlistedTarget string
  | OriginError string

definition refuseOtherGUID :: "(string \<Rightarrow> string + string) \<Rightarrow> SnapshotInfo \<Rightarrow> restore_error option" where
  "refuseOtherGUID guidOf snap =
     (if GUID snap = [] then None
      else case guidOf (Name snap) of
             Inl e \<Rightarrow> Some (GuidUnknown e)
           | Inr guid \<Rightarrow> if guid = GUID snap then None else Some (OtherGUID (Name snap)))"

text \<open>
  The loop of \<^verbatim>\<open>AutoRestore\<close>: the backups to restore, newest first. The set \<^verbatim>\<open>inChain\<close> of the Go code
  holds exactly the backups appended so far.
\<close>

partial_function (option) restoreWalk ::
    "Manifest list \<Rightarrow> (nat \<Rightarrow> nat option) \<Rightarrow> (string \<Rightarrow> string + string) \<Rightarrow> SnapshotInfo list \<Rightarrow> SnapshotInfo list \<Rightarrow> nat list \<Rightarrow> nat
      \<Rightarrow> (restore_error + nat list) option" where
  "restoreWalk ms parent guidOf local sources jobs i =
     (if fst (validateSnapShotExistsFromSnaps (BaseSnapshot (ms ! i)) local False)
      then (case refuseOtherGUID guidOf (BaseSnapshot (ms ! i)) of
              Some err \<Rightarrow> Some (Inl err)
            | None \<Rightarrow> Some (Inr jobs))
      else if i \<in> set jobs then Some (Inl (ManifestLoop (Name (BaseSnapshot (ms ! i)))))
      else if isFull (ms ! i) \<or> sourceIsLocal (ms ! i) sources then Some (Inr (jobs @ [i]))
      else case parent i of
             None \<Rightarrow> Some (Inl (NoParentSnapshot (Name (IncrementalSnapshot (ms ! i)))))
           | Some p \<Rightarrow>
               if Raw (ms ! i) \<noteq> Raw (ms ! p)
               then Some (Inl (MixedStreams (Name (BaseSnapshot (ms ! i))) (Name (BaseSnapshot (ms ! p)))))
               else restoreWalk ms parent guidOf local sources (jobs @ [i]) p)"

declare restoreWalk.simps [code]

section \<open>What --force may destroy\<close>

datatype loss =
    ReplacesTarget
  | DestroysNewer "string list" "string list"
  | ReplicationOlder "string list"
  | ReplicationBelowUnknown string
  | ReplicationBelow "string list"

definition snapshotsNotOlder :: "SnapshotInfo list \<Rightarrow> SnapshotInfo \<Rightarrow> string list \<times> string list" where
  "snapshotsNotOlder snaps source =
     (map Name (filter (\<lambda>s. Name s \<noteq> Name source \<and> CreationTime s > CreationTime source) snaps),
      map Name (filter (\<lambda>s. Name s \<noteq> Name source \<and> CreationTime s = CreationTime source) snaps))"

definition replicationIncremental :: "Manifest list \<Rightarrow> bool" where
  "replicationIncremental chain = list_ex (\<lambda>b. Replication b \<and> \<not> isFull b) chain"

definition replicationLoss ::
    "(string + string list) \<Rightarrow> SnapshotInfo list \<Rightarrow> SnapshotInfo \<Rightarrow> bool \<Rightarrow> loss list" where
  "replicationLoss descendants snaps source exists =
     (let older = map Name (filter (\<lambda>s. Name s \<noteq> Name source \<and> CreationTime s < CreationTime source) snaps);
          loss = (if older \<noteq> [] then [ReplicationOlder older] else [])
      in if \<not> exists then loss
         else case descendants of
                Inl e \<Rightarrow> loss @ [ReplicationBelowUnknown e]
              | Inr below \<Rightarrow> if below \<noteq> [] then loss @ [ReplicationBelow below] else loss)"

definition destroyLoss ::
    "(string + string list) \<Rightarrow> Manifest list \<Rightarrow> SnapshotInfo list \<Rightarrow> bool \<Rightarrow> loss list" where
  "destroyLoss descendants chain local exists =
     (case chain of
        [] \<Rightarrow> []
      | b # _ \<Rightarrow>
          let snaps = filter (\<lambda>s. \<not> Bookmark s) local;
              source = IncrementalSnapshot b;
              (newer, tied) = snapshotsNotOlder snaps source;
              loss = (if Name source = [] then (if exists \<and> snaps = [] then [ReplacesTarget] else [])
                      else if newer @ tied \<noteq> [] then [DestroysNewer newer tied] else [])
          in loss @ (if replicationIncremental chain then replicationLoss descendants snaps source exists else []))"

definition refuseDestroy ::
    "JobInfo \<Rightarrow> (string + string list) \<Rightarrow> Manifest list \<Rightarrow> string \<Rightarrow> SnapshotInfo list \<Rightarrow> bool \<Rightarrow> restore_error option" where
  "refuseDestroy j descendants chain volume local exists =
     (if \<not> Force j \<or> AllowDestroy j \<or> chain = [] then None
      else if destroyLoss descendants chain local exists = [] then None
      else Some (WouldDestroy volume))"

text \<open>A failed listing of the target: its error, and whether it says that the target does not exist.\<close>

definition refuseUnlistedTarget :: "JobInfo \<Rightarrow> string \<Rightarrow> (string \<times> bool) option \<Rightarrow> restore_error option" where
  "refuseUnlistedTarget j volume listErr =
     (case listErr of
        None \<Rightarrow> None
      | Some (e, notExist) \<Rightarrow> if \<not> Force j \<or> AllowDestroy j \<or> notExist then None else Some (UnlistedTarget volume))"

section \<open>AutoRestore\<close>

text \<open>What \<^verbatim>\<open>zfs\<close> answers about the host: the target's snapshots, the origin, guids, what is below.\<close>

record hostView =
  hvListing :: "(string \<times> bool) + SnapshotInfo list"
  hvOrigin :: "string + SnapshotInfo list"
  hvGuid :: "string \<Rightarrow> string + string"
  hvBelow :: "string + string list"

definition originSnapshot :: "hostView \<Rightarrow> string + SnapshotInfo" where
  "originSnapshot h =
     (case hvOrigin h of
        Inl e \<Rightarrow> Inl e
      | Inr snaps \<Rightarrow> (case snaps of [s] \<Rightarrow> Inr s | _ \<Rightarrow> Inl ''could not find origin snapshot''))"

definition restoreSources :: "JobInfo \<Rightarrow> hostView \<Rightarrow> SnapshotInfo list \<Rightarrow> restore_error + SnapshotInfo list" where
  "restoreSources j h local =
     (if Origin j = [] then Inr local
      else case originSnapshot h of Inl e \<Rightarrow> Inl (OriginError e) | Inr s \<Rightarrow> Inr (local @ [s]))"

text \<open>
  \<^verbatim>\<open>AutoRestore\<close> from the sorted manifests of the destination up to its first receive: the backups to
  receive, oldest first. \<open>None\<close> would be a walk that does not end.
\<close>

definition AutoRestore ::
    "(string \<Rightarrow> string) \<Rightarrow> JobInfo \<Rightarrow> hostView \<Rightarrow> Manifest list \<Rightarrow> (restore_error + Manifest list) option" where
  "AutoRestore md5 j h ms =
     (let (tree, parent) = linkManifests md5 ms
      in case tree (VolumeName j) of
           None \<Rightarrow> Some (Inl (NoSnapshotsForVolume (VolumeName j)))
         | Some volumeSnaps \<Rightarrow>
             let wanted = (if Name (BaseSnapshot j) = [] then Name (BaseSnapshot (ms ! last volumeSnaps)) else Name (BaseSnapshot j));
                 local = (case hvListing h of Inl e \<Rightarrow> [] | Inr ls \<Rightarrow> ls);
                 listErr = (case hvListing h of Inl e \<Rightarrow> Some e | Inr ls \<Rightarrow> None);
                 matches = filter (\<lambda>i. Name (BaseSnapshot (ms ! i)) = wanted) volumeSnaps
             in case restoreSources j h local of
                  Inl err \<Rightarrow> Some (Inl err)
                | Inr sources \<Rightarrow>
                    Option.bind (backupThatApplies ms parent sources matches) (\<lambda>applies.
                      case applies of
                        None \<Rightarrow> Some (Inl (SnapshotNotAtBackend wanted))
                      | Some i \<Rightarrow>
                          Option.bind (restoreWalk ms parent (hvGuid h) local sources [] i) (\<lambda>walk.
                            case walk of
                              Inl err \<Rightarrow> Some (Inl err)
                            | Inr jobs \<Rightarrow>
                                let chain = map ((!) ms) (rev jobs)
                                in case refuseUnlistedTarget j (restoreVolume j) listErr of
                                     Some err \<Rightarrow> Some (Inl err)
                                   | None \<Rightarrow>
                                       (case refuseDestroy j (hvBelow h) chain (restoreVolume j) local (listErr = None) of
                                          Some err \<Rightarrow> Some (Inl err)
                                        | None \<Rightarrow> Some (Inr chain)))))"

end
