(* ===== verification/RestoreProperties.thy ===== *)
theory RestoreProperties
  imports Restore
begin

text \<open>
  What \<^verbatim>\<open>receive --auto\<close> guarantees: it always decides, the chain it restores can be received in turn,
  and with \<^verbatim>\<open>--force\<close> alone it destroys nothing that is on the target.
\<close>

section \<open>The walk ends\<close>

definition linksIn :: "Manifest list \<Rightarrow> (nat \<Rightarrow> nat option) \<Rightarrow> bool" where
  "linksIn ms parent \<longleftrightarrow> (\<forall>i p. parent i = Some p \<longrightarrow> p < length ms)"

lemma linkManifests_in: "linksIn ms (snd (linkManifests md5 ms))"
  by (auto simp: linksIn_def linkManifests_def dest: linkParent_key(1))

text \<open>The indices not seen yet: what shrinks along a walk.\<close>

definition unseen :: "Manifest list \<Rightarrow> nat list \<Rightarrow> nat" where
  "unseen ms seen = card ({..<length ms} - set seen)"

lemma unseen_less: "i < length ms \<Longrightarrow> i \<notin> set seen \<Longrightarrow> unseen ms (i # seen) < unseen ms seen"
  unfolding unseen_def by (intro psubset_card_mono) auto

lemma unseen_snoc: "unseen ms (seen @ [i]) = unseen ms (i # seen)"
  by (simp add: unseen_def)

lemma chainReaches_returns:
  assumes "linksIn ms parent" and "\<And>i. p = Some i \<Longrightarrow> i < length ms"
  shows "\<exists>r. chainReaches ms parent local seen p = Some r"
  using assms(2)
proof (induction "unseen ms seen" arbitrary: seen p rule: less_induct)
  case less
  show ?case
  proof (cases "\<exists>i. p = Some i \<and> i \<notin> set seen")
    case False
    then show ?thesis by (subst chainReaches.simps) (auto split: option.splits)
  next
    case True
    then obtain i where i: "p = Some i" "i \<notin> set seen" "i < length ms" using less.prems by blast
    have "\<exists>r. chainReaches ms parent local (i # seen) (parent i) = Some r"
      using less.hyps [OF unseen_less [OF i(3,2)]] assms(1) by (simp add: linksIn_def)
    then show ?thesis using i by (subst chainReaches.simps) auto
  qed
qed

lemma firstReaching_returns:
  assumes "linksIn ms parent" "\<forall>b\<in>set bs. b < length ms"
  shows "\<exists>r. firstReaching ms parent local bs = Some r \<and> (\<forall>b. r = Some b \<longrightarrow> b \<in> set bs)"
  using assms(2)
proof (induction bs)
  case (Cons b bs)
  obtain r where "chainReaches ms parent local [] (Some b) = Some r"
    using chainReaches_returns [OF assms(1), of "Some b" local "[]"] Cons.prems by auto
  then show ?case using Cons by (cases r) auto
qed simp

lemma backupThatApplies_returns:
  assumes "linksIn ms parent" "\<forall>b\<in>set bs. b < length ms"
  shows "\<exists>r. backupThatApplies ms parent local bs = Some r \<and> (\<forall>b. r = Some b \<longrightarrow> b \<in> set bs) \<and> (r = None \<longleftrightarrow> bs = [])"
proof -
  obtain r where r: "firstReaching ms parent local bs = Some r" "\<forall>b. r = Some b \<longrightarrow> b \<in> set bs"
    using firstReaching_returns [OF assms] by blast
  show ?thesis
  proof (cases r)
    case (Some b)
    then show ?thesis using r by (cases bs) (auto simp: backupThatApplies_def)
  next
    case None
    then show ?thesis using r
      by (cases bs) (auto simp: backupThatApplies_def split: option.splits dest: find_Some_set)
  qed
qed

lemma restoreWalk_returns:
  assumes "linksIn ms parent" and "i < length ms"
  shows "\<exists>r. restoreWalk ms parent guidOf local sources jobs i = Some r"
  using assms(2)
proof (induction "unseen ms jobs" arbitrary: jobs i rule: less_induct)
  case less
  show ?case
  proof (cases "i \<in> set jobs")
    case True
    then show ?thesis by (subst restoreWalk.simps) (auto split: option.splits)
  next
    case False
    have "\<exists>r. restoreWalk ms parent guidOf local sources (jobs @ [i]) p = Some r" if "parent i = Some p" for p
      using less.hyps [of "jobs @ [i]" p] unseen_less [OF less.prems False] that assms(1)
      by (simp add: unseen_snoc linksIn_def)
    then show ?thesis using False by (subst restoreWalk.simps) (auto split: option.splits)
  qed
qed

lemma manifestTree_in: "manifestTree ms vol = Some is \<Longrightarrow> i \<in> set is \<Longrightarrow> i < length ms \<and> VolumeName (ms ! i) = vol"
  by (auto simp: manifestTree_def Let_def split: if_splits)

text \<open>
  \<^verbatim>\<open>receive --auto\<close> decides. Whatever manifests the destination holds, even ones that form a loop,
  the walk along their links ends with a chain to restore or with an error.
\<close>

theorem AutoRestore_returns: "\<exists>r. AutoRestore md5 j h ms = Some r"
proof (cases "manifestTree ms (VolumeName j)")
  case None
  then show ?thesis by (simp add: AutoRestore_def linkManifests_def)
next
  case (Some vs)
  let ?par = "snd (linkManifests md5 ms)"
  note par = linkManifests_in [of ms md5]
  have applies: "\<exists>r. backupThatApplies ms ?par sources (filter Q vs) = Some r \<and> (\<forall>b. r = Some b \<longrightarrow> b < length ms)" for sources Q
    using backupThatApplies_returns [OF par, of "filter Q vs" sources] manifestTree_in [OF Some] by fastforce
  have walk: "\<exists>r. restoreWalk ms ?par g l s [] i = Some r" if "i < length ms" for g l s i
    by (rule restoreWalk_returns [OF par that])
  let ?wanted = "if Name (BaseSnapshot j) = [] then Name (BaseSnapshot (ms ! last vs)) else Name (BaseSnapshot j)"
  let ?Q = "\<lambda>i. Name (BaseSnapshot (ms ! i)) = ?wanted"
  let ?local = "case hvListing h of Inl e \<Rightarrow> [] | Inr ls \<Rightarrow> ls"
  show ?thesis
  proof (cases "restoreSources j h ?local")
    case (Inl e)
    then show ?thesis using Some by (simp add: AutoRestore_def linkManifests_def Let_def)
  next
    case (Inr sources)
    obtain r where r: "backupThatApplies ms ?par sources (filter ?Q vs) = Some r" "\<forall>b. r = Some b \<longrightarrow> b < length ms"
      using applies by blast
    show ?thesis
    proof (cases r)
      case None
      then show ?thesis using Some Inr r by (simp add: AutoRestore_def linkManifests_def Let_def)
    next
      case S: (Some i)
      then obtain w where "restoreWalk ms ?par (hvGuid h) ?local sources [] i = Some w" using walk r(2) by blast
      then show ?thesis using Some Inr r(1) S
        by (cases w) (simp_all add: AutoRestore_def linkManifests_def Let_def split: option.split)
    qed
  qed
qed


section \<open>The chain can be received\<close>

text \<open>
  The contract: streams received in turn into a dataset that has the snapshots \<open>have\<close>, where an
  incremental needs its source, as a snapshot, among them and those received before it.
\<close>

fun receivable :: "SnapshotInfo list \<Rightarrow> Manifest list \<Rightarrow> bool" where
  "receivable have [] = True"
| "receivable have (m # ms) =
     ((isFull m \<or> snapshotOnPool (IncrementalSnapshot m) have) \<and> receivable ((BaseSnapshot m)\<lparr>Bookmark := False\<rparr> # have) ms)"

lemma receivable_snoc:
  "receivable have (ms @ [m]) \<longleftrightarrow> receivable have ms \<and>
     (isFull m \<or> snapshotOnPool (IncrementalSnapshot m) (rev (map (\<lambda>m. (BaseSnapshot m)\<lparr>Bookmark := False\<rparr>) ms) @ have))"
  by (induction ms arbitrary: "have") auto

fun walkOK :: "Manifest list \<Rightarrow> (nat \<Rightarrow> nat option) \<Rightarrow> SnapshotInfo list \<Rightarrow> SnapshotInfo list \<Rightarrow> nat \<Rightarrow> nat list \<Rightarrow> bool" where
  "walkOK ms parent local sources i [] = snapshotOnPool (BaseSnapshot (ms ! i)) local"
| "walkOK ms parent local sources i (k # ks) =
     (k = i \<and> (ks = [] \<and> (isFull (ms ! i) \<or> snapshotOnPool (IncrementalSnapshot (ms ! i)) sources)
        \<or> (\<exists>p. parent i = Some p \<and> \<not> isFull (ms ! i) \<and> Raw (ms ! i) = Raw (ms ! p) \<and> walkOK ms parent local sources p ks)))"

lemma restoreWalk_walkOK:
  assumes "restoreWalk ms parent guidOf local sources jobs i = Some (Inr res)"
  shows "\<exists>js. res = jobs @ js \<and> walkOK ms parent local sources i js"
proof -
  have "\<forall>res. r = Inr res \<longrightarrow> (\<exists>js. res = jobs @ js \<and> walkOK ms parent local sources i js)"
    if "restoreWalk ms parent guidOf local sources jobs i = Some r" for r
  proof (rule restoreWalk.raw_induct
      [of "\<lambda>ms parent guidOf local sources jobs i r. \<forall>res. r = Inr res \<longrightarrow> (\<exists>js. res = jobs @ js \<and> walkOK ms parent local sources i js)",
       OF _ that])
    fix walk :: "Manifest list \<Rightarrow> (nat \<Rightarrow> nat option) \<Rightarrow> (string \<Rightarrow> string + string) \<Rightarrow> SnapshotInfo list \<Rightarrow> SnapshotInfo list
        \<Rightarrow> nat list \<Rightarrow> nat \<Rightarrow> (restore_error + nat list) option"
      and ms parent guidOf local sources jobs i r
    assume IH: "\<And>ms parent guidOf local sources jobs i r. walk ms parent guidOf local sources jobs i = Some r \<Longrightarrow>
        \<forall>res. r = Inr res \<longrightarrow> (\<exists>js. res = jobs @ js \<and> walkOK ms parent local sources i js)"
      and step: "(if fst (validateSnapShotExistsFromSnaps (BaseSnapshot (ms ! i)) local False)
      then (case refuseOtherGUID guidOf (BaseSnapshot (ms ! i)) of
              Some err \<Rightarrow> Some (Inl err)
            | None \<Rightarrow> Some (Inr jobs))
      else if i \<in> set jobs then Some (Inl (ManifestLoop (Name (BaseSnapshot (ms ! i)))))
      else if isFull (ms ! i) \<or> sourceIsLocal (ms ! i) sources then Some (Inr (jobs @ [i]))
      else case parent i of
             None \<Rightarrow> Some (Inl (NoParentSnapshot (Name (IncrementalSnapshot (ms ! i)))))
           | Some p \<Rightarrow>
               if Raw (ms ! i) \<noteq> Raw (ms ! p)
               then Some (Inl (MixedStreams (Name (BaseSnapshot (ms ! i))) (Name (BaseSnapshot (ms ! p)))))
               else walk ms parent guidOf local sources (jobs @ [i]) p) = Some r"
    consider (here) "snapshotOnPool (BaseSnapshot (ms ! i)) local" "\<forall>res. r = Inr res \<longrightarrow> res = jobs"
      | (stop) "isFull (ms ! i) \<or> snapshotOnPool (IncrementalSnapshot (ms ! i)) sources" "r = Inr (jobs @ [i])"
      | (error) err where "r = Inl err"
      | (go) p where "parent i = Some p" "\<not> isFull (ms ! i)" "Raw (ms ! i) = Raw (ms ! p)"
          "walk ms parent guidOf local sources (jobs @ [i]) p = Some r"
      using step by (auto simp: validate_present_snapshot sourceIsLocal_def split: if_splits option.splits)
    then show "\<forall>res. r = Inr res \<longrightarrow> (\<exists>js. res = jobs @ js \<and> walkOK ms parent local sources i js)"
    proof cases
      case here
      then show ?thesis by (auto intro: exI [of _ "[]"])
    next
      case stop
      then show ?thesis by (auto intro!: exI [of _ "[i]"])
    next
      case error
      then show ?thesis by simp
    next
      case go
      show ?thesis
      proof (intro allI impI)
        fix res assume "r = Inr res"
        then obtain js where "res = (jobs @ [i]) @ js" "walkOK ms parent local sources p js" using IH [OF go(4)] by blast
        then show "\<exists>js. res = jobs @ js \<and> walkOK ms parent local sources i js"
          using go(1-3) by (intro exI [of _ "i # js"]) simp
      qed
    qed
  qed
  then show ?thesis using assms by blast
qed

lemma walkOK_hd: "walkOK ms parent local sources i js \<Longrightarrow> js \<noteq> [] \<Longrightarrow> hd js = i"
  by (cases js) auto

lemma snapshotOnPool_mono: "snapshotOnPool s a \<Longrightarrow> set a \<subseteq> set b \<Longrightarrow> snapshotOnPool s b"
  by (auto simp: snapshotOnPool_def list_ex_iff)

lemma snapshotOnPool_Equal: "snapshotOnPool s a \<Longrightarrow> SnapshotInfo_Equal s t \<Longrightarrow> snapshotOnPool t a"
  by (auto simp: snapshotOnPool_def list_ex_iff intro: SnapshotInfo_Equal_trans)

lemma walkOK_receivable:
  assumes "walkOK ms parent local sources i js" "set local \<subseteq> set sources"
    and "\<And>i p. parent i = Some p \<Longrightarrow> \<not> isFull (ms ! i) \<Longrightarrow> i \<in> set js \<Longrightarrow> SnapshotInfo_Equal (BaseSnapshot (ms ! p)) (IncrementalSnapshot (ms ! i))"
  shows "receivable sources (map ((!) ms) (rev js))"
  using assms
proof (induction js arbitrary: i)
  case Nil
  then show ?case by simp
next
  case (Cons k ks)
  have k: "k = i" using Cons.prems(1) by simp
  show ?case
  proof (cases "ks = [] \<and> (isFull (ms ! i) \<or> snapshotOnPool (IncrementalSnapshot (ms ! i)) sources)")
    case True
    then show ?thesis using k by simp
  next
    case False
    then obtain p where p: "parent i = Some p" "\<not> isFull (ms ! i)" "walkOK ms parent local sources p ks"
      using Cons.prems(1) by auto
    have eq: "SnapshotInfo_Equal (BaseSnapshot (ms ! p)) (IncrementalSnapshot (ms ! i))" using Cons.prems(3) [OF p(1,2)] k by simp
    let ?got = "rev (map (\<lambda>m. (BaseSnapshot m)\<lparr>Bookmark := False\<rparr>) (map ((!) ms) (rev ks))) @ sources"
    have "snapshotOnPool (BaseSnapshot (ms ! p)) ?got"
    proof (cases ks)
      case Nil
      then show ?thesis using p(3) snapshotOnPool_mono [OF _ Cons.prems(2)] by simp
    next
      case (Cons q qs)
      then have "q = p" using p(3) by simp
      then show ?thesis using Cons by (simp add: snapshotOnPool_def)
    qed
    then have "snapshotOnPool (IncrementalSnapshot (ms ! i)) ?got" using eq by (rule snapshotOnPool_Equal)
    then show ?thesis using Cons.IH [OF p(3) Cons.prems(2)] Cons.prems(3) k by (simp add: receivable_snoc)
  qed
qed


lemma walkOK_members:
  assumes "walkOK ms parent local sources i js" "linksIn ms parent" "i < length ms" "k \<in> set js"
  shows "k < length ms" and "Raw (ms ! k) = Raw (ms ! i)"
proof -
  have "k < length ms \<and> Raw (ms ! k) = Raw (ms ! i)"
    using assms(1,3,4)
  proof (induction js arbitrary: i)
    case (Cons q qs)
    show ?case
    proof (cases "k = i")
      case False
      then obtain p where "parent i = Some p" "Raw (ms ! i) = Raw (ms ! p)" "walkOK ms parent local sources p qs" "k \<in> set qs"
        using Cons.prems by auto
      then show ?thesis using Cons.IH [of p] assms(2) by (simp add: linksIn_def)
    qed (use Cons.prems in simp)
  qed simp
  then show "k < length ms" "Raw (ms ! k) = Raw (ms ! i)" by blast+
qed

lemma AutoRestore_ok:
  assumes "AutoRestore md5 j h ms = Some (Inr chain)"
    and "local = (case hvListing h of Inl e \<Rightarrow> [] | Inr ls \<Rightarrow> ls)" and "restoreSources j h local = Inr sources"
  obtains i jobs where "i < length ms" "VolumeName (ms ! i) = VolumeName j"
    "Name (BaseSnapshot j) \<noteq> [] \<longrightarrow> Name (BaseSnapshot (ms ! i)) = Name (BaseSnapshot j)"
    "walkOK ms (snd (linkManifests md5 ms)) local sources i jobs" "chain = map ((!) ms) (rev jobs)"
    "refuseDestroy j (hvBelow h) chain (restoreVolume j) local (\<exists>ls. hvListing h = Inr ls) = None"
proof -
  let ?par = "snd (linkManifests md5 ms)"
  obtain vs where vs: "manifestTree ms (VolumeName j) = Some vs"
    using assms(1) by (auto simp: AutoRestore_def linkManifests_def split: option.splits)
  define wanted where "wanted = (if Name (BaseSnapshot j) = [] then Name (BaseSnapshot (ms ! last vs)) else Name (BaseSnapshot j))"
  let ?matches = "filter (\<lambda>i. Name (BaseSnapshot (ms ! i)) = wanted) vs"
  have in_ms: "\<forall>b\<in>set ?matches. b < length ms" using manifestTree_in [OF vs] by auto
  obtain a where a: "backupThatApplies ms ?par sources ?matches = Some a" "\<forall>b. a = Some b \<longrightarrow> b \<in> set ?matches"
    using backupThatApplies_returns [OF linkManifests_in in_ms] by blast
  obtain i where i: "a = Some i"
    using assms vs a(1) by (cases a) (auto simp: AutoRestore_def linkManifests_def Let_def wanted_def)
  then have mem: "i \<in> set ?matches" using a(2) by blast
  obtain w where w: "restoreWalk ms ?par (hvGuid h) local sources [] i = Some w"
    using restoreWalk_returns [OF linkManifests_in] in_ms mem by blast
  have listErr: "((case hvListing h of Inl e \<Rightarrow> Some e | Inr ls \<Rightarrow> None) = None) = (\<exists>ls. hvListing h = Inr ls)"
    by (cases "hvListing h") auto
  obtain jobs where jobs: "w = Inr jobs" "chain = map ((!) ms) (rev jobs)"
    "refuseDestroy j (hvBelow h) chain (restoreVolume j) local (\<exists>ls. hvListing h = Inr ls) = None"
    using assms vs a(1) i w
    by (cases w) (auto simp: AutoRestore_def linkManifests_def Let_def wanted_def [symmetric] listErr split: option.splits)
  have "walkOK ms ?par local sources i jobs" using restoreWalk_walkOK w jobs(1) by fastforce
  then show ?thesis
    using that [of i jobs] jobs(2,3) mem manifestTree_in [OF vs, of i] by (auto simp: wanted_def)
qed

lemma restoreSources_local: "restoreSources j h local = Inr sources \<Longrightarrow> set local \<subseteq> set sources"
  by (auto simp: restoreSources_def split: if_splits sum.splits)

lemma AutoRestore_chain_rules:
  assumes "AutoRestore md5 j h ms = Some (Inr chain)"
    and "inj_on md5 (keysOf ms)" "\<forall>m\<in>set ms. plainManifest m"
    and "local = (case hvListing h of Inl e \<Rightarrow> [] | Inr ls \<Rightarrow> ls)" "restoreSources j h local = Inr sources"
  shows "receivable sources chain"
    and "chain \<noteq> [] \<Longrightarrow> VolumeName (last chain) = VolumeName j
      \<and> (Name (BaseSnapshot j) \<noteq> [] \<longrightarrow> Name (BaseSnapshot (last chain)) = Name (BaseSnapshot j))"
    and "m \<in> set chain \<Longrightarrow> m \<in> set ms \<and> Raw m = Raw (last chain)"
    and "chain = [] \<Longrightarrow> \<exists>m\<in>set ms. VolumeName m = VolumeName j \<and> snapshotOnPool (BaseSnapshot m) local
      \<and> (Name (BaseSnapshot j) \<noteq> [] \<longrightarrow> Name (BaseSnapshot m) = Name (BaseSnapshot j))"
proof -
  let ?par = "snd (linkManifests md5 ms)"
  obtain i jobs where i: "i < length ms" "VolumeName (ms ! i) = VolumeName j"
      "Name (BaseSnapshot j) \<noteq> [] \<longrightarrow> Name (BaseSnapshot (ms ! i)) = Name (BaseSnapshot j)"
    and walk: "walkOK ms ?par local sources i jobs" and chain: "chain = map ((!) ms) (rev jobs)"
    by (rule AutoRestore_ok [OF assms(1,4,5)])
  note members = walkOK_members [OF walk linkManifests_in i(1)]
  show "receivable sources chain"
    unfolding chain using linkManifests_rules(1) [OF assms(2,3) refl] members(1)
    by (intro walkOK_receivable [OF walk restoreSources_local [OF assms(5)]]) blast
  have last: "last chain = ms ! i" if "jobs \<noteq> []"
    using that walkOK_hd [OF walk that] by (simp add: chain last_map last_rev)
  show "chain \<noteq> [] \<Longrightarrow> VolumeName (last chain) = VolumeName j
      \<and> (Name (BaseSnapshot j) \<noteq> [] \<longrightarrow> Name (BaseSnapshot (last chain)) = Name (BaseSnapshot j))"
    using last i(2,3) by (auto simp: chain)
  show "m \<in> set chain \<Longrightarrow> m \<in> set ms \<and> Raw m = Raw (last chain)"
    using last members by (fastforce simp: chain)
  show "chain = [] \<Longrightarrow> \<exists>m\<in>set ms. VolumeName m = VolumeName j \<and> snapshotOnPool (BaseSnapshot m) local
      \<and> (Name (BaseSnapshot j) \<noteq> [] \<longrightarrow> Name (BaseSnapshot m) = Name (BaseSnapshot j))"
    using walk i chain by (intro bexI [of _ "ms ! i"]) auto
qed


lemma AutoRestore_destroys_rules:
  assumes "AutoRestore md5 j h ms = Some (Inr (b # rest))" and "hvListing h = Inr local" "restoreSources j h local = Inr sources"
    and "Force j" "\<not> AllowDestroy j"
  shows "isFull b \<Longrightarrow> \<exists>s\<in>set local. \<not> Bookmark s"
    and "\<not> isFull b \<Longrightarrow> s \<in> set local \<Longrightarrow> \<not> Bookmark s \<Longrightarrow> Name s \<noteq> Name (IncrementalSnapshot b) \<Longrightarrow>
      CreationTime s < CreationTime (IncrementalSnapshot b)"
    and "c \<in> set (b # rest) \<Longrightarrow> Replication c \<Longrightarrow> \<not> isFull c \<Longrightarrow> hvBelow h = Inr []
      \<and> (\<not> isFull b \<longrightarrow> s \<in> set local \<longrightarrow> \<not> Bookmark s \<longrightarrow> Name s = Name (IncrementalSnapshot b))"
proof -
  have loc: "local = (case hvListing h of Inl e \<Rightarrow> [] | Inr ls \<Rightarrow> ls)" using assms(2) by simp
  have "refuseDestroy j (hvBelow h) (b # rest) (restoreVolume j) local (\<exists>ls. hvListing h = Inr ls) = None"
    by (rule AutoRestore_ok [OF assms(1) loc assms(3)])
  then have none: "destroyLoss (hvBelow h) (b # rest) local True = []"
    using assms(2,4,5) by (auto simp: refuseDestroy_def split: if_splits)
  let ?src = "IncrementalSnapshot b" and ?snaps = "filter (\<lambda>s. \<not> Bookmark s) local"
  show "\<exists>s\<in>set local. \<not> Bookmark s" if "isFull b"
    using none that by (auto simp: destroyLoss_def Let_def split_beta filter_empty_conv split: if_splits)
  have newer: "CreationTime s < CreationTime ?src"
    if "\<not> isFull b" "s \<in> set local" "\<not> Bookmark s" "Name s \<noteq> Name ?src" for s
  proof -
    have "fst (snapshotsNotOlder ?snaps ?src) = []" "snd (snapshotsNotOlder ?snaps ?src) = []"
      using none that(1) by (auto simp: destroyLoss_def Let_def split_beta split: if_splits)
    then have "\<not> CreationTime s > CreationTime ?src" "CreationTime s \<noteq> CreationTime ?src"
      using that(2-4) by (auto simp: snapshotsNotOlder_def filter_empty_conv)
    then show ?thesis by linarith
  qed
  then show "\<not> isFull b \<Longrightarrow> s \<in> set local \<Longrightarrow> \<not> Bookmark s \<Longrightarrow> Name s \<noteq> Name ?src \<Longrightarrow> CreationTime s < CreationTime ?src"
    by blast
  show "hvBelow h = Inr [] \<and> (\<not> isFull b \<longrightarrow> s \<in> set local \<longrightarrow> \<not> Bookmark s \<longrightarrow> Name s = Name ?src)"
    if "c \<in> set (b # rest)" "Replication c" "\<not> isFull c"
  proof -
    have "replicationIncremental (b # rest)" using that by (auto simp: replicationIncremental_def list_ex_iff)
    then have "replicationLoss (hvBelow h) ?snaps ?src True = []"
      using none by (simp add: destroyLoss_def Let_def split_beta)
    then have "hvBelow h = Inr []" "\<forall>s\<in>set ?snaps. Name s = Name ?src \<or> \<not> CreationTime s < CreationTime ?src"
      by (auto simp: replicationLoss_def Let_def filter_empty_conv split: if_splits sum.splits)
    then show ?thesis using newer [of s] by auto
  qed
qed


section \<open>Witnesses\<close>

text \<open>Restoring the newest backup of a chain of three onto a target that has the first snapshot.\<close>

definition exRestoreJob :: JobInfo where
  "exRestoreJob = zeroJobInfo\<lparr>VolumeName := ''t'', LocalVolume := ''r'', Force := True\<rparr>"

definition exHost :: hostView where
  "exHost = \<lparr>hvListing = Inr [BaseSnapshot (exLinks ! 0)], hvOrigin = Inl [], hvGuid = (\<lambda>n. Inl []), hvBelow = Inr []\<rparr>"

lemma ex_restore: "AutoRestore (\<lambda>s. s) exRestoreJob exHost exLinks = Some (Inr [exLinks ! 1, exLinks ! 2])"
  by code_simp

lemma ex_sources: "restoreSources exRestoreJob exHost [BaseSnapshot (exLinks ! 0)] = Inr [BaseSnapshot (exLinks ! 0)]"
  by (simp add: restoreSources_def exRestoreJob_def zeroJobInfo_def zeroManifest_def Manifest.defs)

lemma ex_listing: "hvListing exHost = Inr [BaseSnapshot (exLinks ! 0)]" by (simp add: exHost_def)



end
