(* ===== verification/Zfs.thy ===== *)
theory Zfs
  imports Calendar ObjectNames
begin

text \<open>
  \<^verbatim>\<open>zfs/zfs.go\<close>: the arguments of the \<^verbatim>\<open>zfs\<close> commands the program runs, and the parsers of what they
  print. The command itself is outside the program: its output is an argument.
\<close>

section \<open>Lines\<close>

text \<open>
  \<^verbatim>\<open>bufio.Scanner\<close>: lines without their end, a carriage return before it dropped, an empty last line
  not returned. A line of 64 KiB or more ends the scan with an error.
\<close>

definition maxScanToken :: nat where "maxScanToken = 64 * 1024"

definition rawLines :: "string \<Rightarrow> string list" where
  "rawLines s = (let ps = splitOn s [CHR 0x0A] in if last ps = [] then butlast ps else ps)"

definition dropCR :: "string \<Rightarrow> string" where
  "dropCR line = (if line \<noteq> [] \<and> last line = CHR 0x0D then butlast line else line)"

definition scanLines :: "string \<Rightarrow> string list \<times> bool" where
  "scanLines s =
     (let short = (\<lambda>l. length l < maxScanToken)
      in (map dropCR (takeWhile short (rawLines s)), \<not> list_all short (rawLines s)))"

abbreviation tab :: string where "tab \<equiv> [CHR 0x09]"

text \<open>\<open>s[strings.Index(s, c)+1:]\<close>: all of \<open>s\<close> when \<open>c\<close> is not in it.\<close>

definition afterFirst :: "char \<Rightarrow> string \<Rightarrow> string" where
  "afterFirst c s = (case indexOf s [c] of None \<Rightarrow> s | Some i \<Rightarrow> drop (i + 1) s)"

definition epoch :: "int \<Rightarrow> time" where
  "epoch s = s * 1000000000"

section \<open>The listing of zfs list\<close>

datatype list_error =
    WrongFields nat string
  | BadCreation nat string
  | UnknownType nat string
  | LineTooLong
  | OtherDataset nat string
  | NoCreation nat string
  | NoName nat
  | BadJSON string

definition parseListLine :: "nat \<Rightarrow> string \<Rightarrow> list_error + SnapshotInfo" where
  "parseListLine lineNo line =
     (case splitOn line tab of
        [name, creation, kind] \<Rightarrow>
          (case parseInt64 creation of
             None \<Rightarrow> Inl (BadCreation lineNo creation)
           | Some c \<Rightarrow>
               let s = zeroSnapshot\<lparr>CreationTime := epoch c\<rparr>
               in if kind = ''bookmark'' then Inr (s\<lparr>Name := afterFirst (CHR ''#'') name, Bookmark := True\<rparr>)
                  else if kind = ''snapshot'' then Inr (s\<lparr>Name := afterFirst (CHR ''@'') name\<rparr>)
                  else Inl (UnknownType lineNo kind))
      | _ \<Rightarrow> Inl (WrongFields lineNo line))"

fun parseListLines :: "nat \<Rightarrow> string list \<Rightarrow> list_error + SnapshotInfo list" where
  "parseListLines lineNo [] = Inr []"
| "parseListLines lineNo (l # ls) =
     (case parseListLine lineNo l of
        Inl err \<Rightarrow> Inl err
      | Inr s \<Rightarrow> (case parseListLines (lineNo + 1) ls of Inl err \<Rightarrow> Inl err | Inr ss \<Rightarrow> Inr (s # ss)))"

definition parseListOutput :: "string \<Rightarrow> list_error + SnapshotInfo list" where
  "parseListOutput out =
     (let (ls, tooLong) = scanLines out
      in case parseListLines 1 ls of
           Inl err \<Rightarrow> Inl err
         | Inr ss \<Rightarrow> if tooLong then Inl LineTooLong else Inr ss)"

definition zfs_IsNotExist :: "string \<Rightarrow> bool" where
  "zfs_IsNotExist err = containsStr err ''dataset does not exist''"

section \<open>Listings in files\<close>

text \<open>The first timestamp of the form \<^verbatim>\<open>2006-01-02_15:04:05\<close> in a name.\<close>

definition timestampShape :: "string \<Rightarrow> bool" where
  "timestampShape s \<longleftrightarrow> length s = 19 \<and>
     list_all2 (\<lambda>p c. if p = CHR ''d'' then isDigit c else c = p) ''dddd-dd-dd_dd:dd:dd'' s"

fun findTimestamp :: "string \<Rightarrow> string option" where
  "findTimestamp [] = None"
| "findTimestamp (c # s) = (if timestampShape (take 19 (c # s)) then Some (take 19 (c # s)) else findTimestamp s)"

definition monthDays :: "int \<Rightarrow> int \<Rightarrow> int" where
  "monthDays y m = (if m = 12 then 31 else daysOfDate y (m + 1) 1 - daysOfDate y m 1)"

text \<open>\<^verbatim>\<open>time.ParseInLocation\<close> for that layout: each part in its range.\<close>

definition parseSanoid :: "location \<Rightarrow> string \<Rightarrow> time option" where
  "parseSanoid loc ts =
     (let val = (\<lambda>i n. int (digitsVal (take n (drop i ts))));
          y = val 0 4; mo = val 5 2; d = val 8 2; h = val 11 2; mi = val 14 2; s = val 17 2
      in if 1 \<le> mo \<and> mo \<le> 12 \<and> 1 \<le> d \<and> d \<le> monthDays y mo \<and> h < 24 \<and> mi < 60 \<and> s < 60
         then Some (goDate loc y mo d h mi s 0) else None)"

definition SnapshotNameTime :: "location \<Rightarrow> string \<Rightarrow> time option" where
  "SnapshotNameTime loc name = Option.bind (findTimestamp name) (parseSanoid loc)"

fun commentAt :: "char option \<Rightarrow> string \<Rightarrow> string" where
  "commentAt prev [] = []"
| "commentAt prev (c # s) =
     (if c = CHR ''#'' \<and> (prev = None \<or> prev = Some (CHR '' '') \<or> prev = Some (CHR 0x09)) then []
      else c # commentAt (Some c) s)"

definition StripComment :: "string \<Rightarrow> string" where
  "StripComment line = trimSpace (commentAt None line)"

record listing =
  lDataset :: string
  lSnapshots :: "SnapshotInfo list"
  lNameDated :: "string list"

definition indexAny :: "string \<Rightarrow> char list \<Rightarrow> nat option" where
  "indexAny s cs = (let i = length (takeWhile (\<lambda>c. c \<notin> set cs) s) in if i < length s then Some i else None)"

definition listing_add :: "location \<Rightarrow> nat \<Rightarrow> string \<Rightarrow> string \<Rightarrow> string \<Rightarrow> listing \<Rightarrow> list_error + listing" where
  "listing_add loc row name creation kind l =
     (let cut = indexAny name ''@#'';
          l' = (case cut of None \<Rightarrow> l | Some i \<Rightarrow> if lDataset l = [] then l\<lparr>lDataset := take i name\<rparr> else l)
      in if (case cut of None \<Rightarrow> False | Some i \<Rightarrow> lDataset l \<noteq> [] \<and> take i name \<noteq> lDataset l)
         then Inl (OtherDataset row name)
         else if kind \<noteq> [] \<and> kind \<noteq> ''snapshot'' \<and> kind \<noteq> ''bookmark'' then Inl (UnknownType row kind)
         else let bm = (if kind = [] then containsStr name ''#'' else kind = ''bookmark'');
                  n = afterFirst (if bm then CHR ''#'' else CHR ''@'') name;
                  s = zeroSnapshot\<lparr>Name := n, Bookmark := bm\<rparr>
              in if creation = []
                 then (case SnapshotNameTime loc n of
                         None \<Rightarrow> Inl (NoCreation row name)
                       | Some t \<Rightarrow> Inr (l'\<lparr>lSnapshots := lSnapshots l' @ [s\<lparr>CreationTime := t\<rparr>], lNameDated := lNameDated l' @ [n]\<rparr>))
                 else (case parseInt64 creation of
                         None \<Rightarrow> Inl (BadCreation row creation)
                       | Some c \<Rightarrow> Inr (l'\<lparr>lSnapshots := lSnapshots l' @ [s\<lparr>CreationTime := epoch c\<rparr>]\<rparr>)))"

definition listing_addRow :: "location \<Rightarrow> nat \<Rightarrow> string \<Rightarrow> listing \<Rightarrow> list_error + listing" where
  "listing_addRow loc row line l =
     (let fs = (if containsStr line tab then filter (\<lambda>f. f \<noteq> []) (map trimSpace (splitOn line tab)) else Prelude.fields line)
      in if length fs > 3 then Inl (WrongFields row line)
         else let fs = fs @ [[], []] in listing_add loc row (fs ! 0) (fs ! 1) (fs ! 2) l)"

fun parseTextRows :: "location \<Rightarrow> nat \<Rightarrow> string list \<Rightarrow> listing \<Rightarrow> list_error + listing" where
  "parseTextRows loc lineNo [] l = Inr l"
| "parseTextRows loc lineNo (t # ts) l =
     (let line = StripComment t
      in if line = [] then parseTextRows loc (lineNo + 1) ts l
         else case listing_addRow loc lineNo line l of
                Inl err \<Rightarrow> Inl err
              | Inr l' \<Rightarrow> parseTextRows loc (lineNo + 1) ts l')"

definition parseTextSnapshotList :: "location \<Rightarrow> string \<Rightarrow> list_error + listing" where
  "parseTextSnapshotList loc text =
     (let (ls, tooLong) = scanLines text
      in case parseTextRows loc 1 ls \<lparr>lDataset = [], lSnapshots = [], lNameDated = []\<rparr> of
           Inl err \<Rightarrow> Inl err
         | Inr l \<Rightarrow> if tooLong then Inl LineTooLong else Inr l)"

text \<open>
  A JSON listing: \<open>json\<close> gives its rows, the creation as the text of the number or string, or its
  error. Rows are counted from 1.
\<close>

fun parseJSONRows :: "location \<Rightarrow> nat \<Rightarrow> (string \<times> string \<times> string) list \<Rightarrow> listing \<Rightarrow> list_error + listing" where
  "parseJSONRows loc row [] l = Inr l"
| "parseJSONRows loc row ((name, creation, kind) # rows) l =
     (if name = [] then Inl (NoName row)
      else case listing_add loc row name creation kind l of
             Inl err \<Rightarrow> Inl err
           | Inr l' \<Rightarrow> parseJSONRows loc (row + 1) rows l')"

definition ParseListing :: "(string \<Rightarrow> string + (string \<times> string \<times> string) list) \<Rightarrow> location \<Rightarrow> string \<Rightarrow> list_error + listing" where
  "ParseListing json loc text =
     (let trimmed = trimSpace text
      in if trimmed \<noteq> [] \<and> (hd trimmed = CHR ''['' \<or> hd trimmed = CHR ''{'')
         then (case json trimmed of
                 Inl e \<Rightarrow> Inl (BadJSON e)
               | Inr rows \<Rightarrow> parseJSONRows loc 1 rows \<lparr>lDataset = [], lSnapshots = [], lNameDated = []\<rparr>)
         else parseTextSnapshotList loc text)"

section \<open>Rows of other commands\<close>

fun splitN :: "nat \<Rightarrow> string \<Rightarrow> string \<Rightarrow> string list" where
  "splitN n s sep =
     (if n \<le> 1 then [s]
      else case indexOf s sep of None \<Rightarrow> [s] | Some i \<Rightarrow> take i s # splitN (n - 1) (drop (i + length sep) s) sep)"

declare splitN.simps [simp del]

record Mountpoint =
  mpDataset :: string
  mpValue :: string
  mpSource :: string

definition GetMountpoint :: "string \<Rightarrow> string + string \<times> string" where
  "GetMountpoint out = (case splitN 2 (trimSpace out) tab of [v, s] \<Rightarrow> Inr (v, s) | _ \<Rightarrow> Inl out)"

fun parseMountRows :: "string list \<Rightarrow> string + Mountpoint list" where
  "parseMountRows [] = Inr []"
| "parseMountRows (line # ls) =
     (if line = [] then parseMountRows ls
      else case splitN 3 line tab of
             [d, v, s] \<Rightarrow>
               (case parseMountRows ls of Inl e \<Rightarrow> Inl e | Inr rows \<Rightarrow> Inr (\<lparr>mpDataset = d, mpValue = v, mpSource = s\<rparr> # rows))
           | _ \<Rightarrow> Inl line)"

definition GetMountpoints :: "string \<Rightarrow> string + Mountpoint list" where
  "GetMountpoints out = parseMountRows (splitOn (trimSpace out) [CHR 0x0A])"

definition Descendants :: "string \<Rightarrow> string \<Rightarrow> string list" where
  "Descendants dataset out = filter (\<lambda>line. hasPrefix line (dataset @ ''/'')) (splitOn (trimSpace out) [CHR 0x0A])"

fun parseMounted :: "string list \<Rightarrow> (string \<rightharpoonup> string) \<Rightarrow> string + (string \<rightharpoonup> string)" where
  "parseMounted [] m = Inr m"
| "parseMounted (line # ls) m =
     (if line = [] then parseMounted ls m
      else case splitOn line tab of
             [n, path, mounted] \<Rightarrow> parseMounted ls (if mounted = ''yes'' then m(path \<mapsto> n) else m)
           | _ \<Rightarrow> Inl line)"

definition MountedFilesystems :: "string \<Rightarrow> string + (string \<rightharpoonup> string)" where
  "MountedFilesystems out = parseMounted (splitOn (trimSpace out) [CHR 0x0A]) Map.empty"

section \<open>Commands\<close>

text \<open>\<open>zfsPath\<close> is the command to run, \<^verbatim>\<open>ZFSPath\<close>, which a flag can set.\<close>

definition GetZFSSendCommand :: "string \<Rightarrow> 'a Manifest_scheme \<Rightarrow> string list" where
  "GetZFSSendCommand zfsPath j =
     [zfsPath, ''send'']
     @ (if Replication j then [''-R''] else [])
     @ (if SkipMissing j then [''-s''] else [])
     @ (if Deduplication j then [''-D''] else [])
     @ (if Properties j then [''-p''] else [])
     @ (if Compressor j = ZfsCompressor then [''-c''] else [])
     @ (if Raw j then [''-w''] else [])
     @ (if Name (IncrementalSnapshot j) \<noteq> []
        then [if IntermediaryIncremental j then ''-I'' else ''-i'',
              (if Bookmark (IncrementalSnapshot j) then VolumeName j @ ''#'' else []) @ Name (IncrementalSnapshot j)]
        else [])
     @ [VolumeName j @ ''@'' @ Name (BaseSnapshot j)]"

definition sendDryRunArgs :: "string list \<Rightarrow> string list" where
  "sendDryRunArgs args = [''send'', ''-n'', ''-P''] @ drop 2 args"

definition GetZFSReceiveCommand :: "string \<Rightarrow> JobInfo \<Rightarrow> string list" where
  "GetZFSReceiveCommand zfsPath j =
     [zfsPath, ''receive'']
     @ (if FullPath j then [''-d''] else [])
     @ (if LastPath j then [''-e''] else [])
     @ (if NotMounted j then [''-u''] else [])
     @ (if Force j then [''-F''] else [])
     @ (if Origin j \<noteq> [] then [''-o'', ''origin='' @ Origin j] else [])
     @ [LocalVolume j]"

text \<open>\<^verbatim>\<open>strconv.ParseUint(s, 10, 64)\<close>: digits only, below \<open>2 ^ 64\<close>.\<close>

definition parseUint64 :: "string \<Rightarrow> int option" where
  "parseUint64 s = Option.bind (parseDigits s) (\<lambda>n. if int n < 18446744073709551616 then Some (int n) else None)"

fun findSize :: "string list \<Rightarrow> int option" where
  "findSize [] = None"
| "findSize (line # ls) =
     (let fs = Prelude.fields line in if length fs = 2 \<and> fs ! 0 = ''size'' then parseUint64 (fs ! 1) else findSize ls)"

definition parseSendSizeEstimate :: "string \<Rightarrow> int option" where
  "parseSendSizeEstimate out = findSize (splitOn out [CHR 0x0A])"

definition GetSnapshotGUID_target :: "string \<Rightarrow> SnapshotInfo \<Rightarrow> string" where
  "GetSnapshotGUID_target volume snap = volume @ (if Bookmark snap then ''#'' else ''@'') @ Name snap"


section \<open>The listing round trip\<close>

text \<open>What \<^verbatim>\<open>zfs list -H -p -o name,creation,type\<close> prints for a snapshot or bookmark of a dataset.\<close>

definition zfsRow :: "string \<Rightarrow> SnapshotInfo \<Rightarrow> string" where
  "zfsRow dataset s =
     dataset @ (if Bookmark s then ''#'' else ''@'') @ Name s @ tab @ formatInt (unix (CreationTime s)) @ tab
       @ (if Bookmark s then ''bookmark'' else ''snapshot'')"

definition zfsList :: "string \<Rightarrow> SnapshotInfo list \<Rightarrow> string" where
  "zfsList dataset snaps = concat (map (\<lambda>s. zfsRow dataset s @ [CHR 0x0A]) snaps)"

definition listable :: "string \<Rightarrow> SnapshotInfo \<Rightarrow> bool" where
  "listable dataset s \<longleftrightarrow>
     list_all (\<lambda>c. c \<noteq> CHR 0x09 \<and> c \<noteq> CHR 0x0A) (dataset @ Name s) \<and> CHR ''@'' \<notin> set dataset \<and> CHR ''#'' \<notin> set dataset \<and>
     CreationTime s mod 1000000000 = 0 \<and> inInt64 (unix (CreationTime s)) \<and> GUID s = [] \<and> length (zfsRow dataset s) < maxScanToken"

lemma afterFirst_append: "c \<notin> set a \<Longrightarrow> afterFirst c (a @ [c] @ b) = b"
proof -
  assume "c \<notin> set a"
  then have "indexOf (a @ [c] @ b) [c] = Some (length a)"
    by (intro indexOf_first_sep [of "\<lambda>d. d \<noteq> c"]) (auto simp: list_all_iff)
  then show ?thesis by (simp add: afterFirst_def)
qed

lemma splitOn_lines:
  assumes "\<forall>l\<in>set ls. CHR 0x0A \<notin> set l"
  shows "splitOn (concat (map (\<lambda>l. l @ [CHR 0x0A]) ls)) [CHR 0x0A] = ls @ [[]]"
  using assms
proof (induction ls)
  case Nil
  then show ?case by (simp add: splitOn_unfold)
next
  case (Cons l ls)
  have "indexOf l [CHR 0x0A] = None" using Cons.prems by (auto simp: indexOf_None)
  then have "splitOn l [CHR 0x0A] = [l]" by (simp add: splitOn_unfold)
  then show ?case using Cons splitOn_char_append [of l "CHR 0x0A"] by simp
qed

lemma zfsRow_split:
  assumes "listable dataset s"
  shows "splitOn (zfsRow dataset s) tab = [dataset @ (if Bookmark s then ''#'' else ''@'') @ Name s,
    formatInt (unix (CreationTime s)), if Bookmark s then ''bookmark'' else ''snapshot'']"
proof -
  have "CHR 0x09 \<notin> set (formatInt (unix (CreationTime s)))" by (rule notin_formatInt) (simp_all add: isDigit_def)
  then have "list_all (list_all (\<lambda>c. c \<noteq> CHR 0x09)) [dataset @ (if Bookmark s then ''#'' else ''@'') @ Name s,
      formatInt (unix (CreationTime s)), if Bookmark s then ''bookmark'' else ''snapshot'']"
    using assms by (auto simp: listable_def list_all_iff)
  moreover have "zfsRow dataset s = joinWith [dataset @ (if Bookmark s then ''#'' else ''@'') @ Name s,
      formatInt (unix (CreationTime s)), if Bookmark s then ''bookmark'' else ''snapshot''] tab"
    by (simp add: zfsRow_def)
  ultimately show ?thesis using splitOn_joinWith [of "\<lambda>c. c \<noteq> CHR 0x09" tab] by (simp del: joinWith.simps)
qed

lemma parseListLine_zfsRow:
  assumes "listable dataset s" shows "parseListLine n (zfsRow dataset s) = Inr s"
proof -
  have t: "epoch (unix (CreationTime s)) = CreationTime s"
    using assms mult_div_mod_eq [of 1000000000 "CreationTime s"] by (simp add: epoch_def unix_def listable_def)
  have "afterFirst (CHR ''#'') (dataset @ ''#'' @ Name s) = Name s" "afterFirst (CHR ''@'') (dataset @ ''@'' @ Name s) = Name s"
    using assms afterFirst_append [of "CHR ''#''" dataset "Name s"] afterFirst_append [of "CHR ''@''" dataset "Name s"]
    by (simp_all add: listable_def)
  then show ?thesis
    using assms zfsRow_split [OF assms] parseInt64_formatInt t
    by (cases "Bookmark s") (simp_all add: parseListLine_def listable_def zeroSnapshot_def Let_def)
qed

lemma zfsRow_line:
  assumes "listable dataset s"
  shows "CHR 0x0A \<notin> set (zfsRow dataset s)" and "dropCR (zfsRow dataset s) = zfsRow dataset s" and "zfsRow dataset s \<noteq> []"
proof -
  have "CHR 0x0A \<notin> set (formatInt (unix (CreationTime s)))" by (rule notin_formatInt) (simp_all add: isDigit_def)
  then show "CHR 0x0A \<notin> set (zfsRow dataset s)" using assms by (auto simp: zfsRow_def listable_def list_all_iff)
  show "dropCR (zfsRow dataset s) = zfsRow dataset s" "zfsRow dataset s \<noteq> []"
    by (simp_all add: zfsRow_def dropCR_def)
qed

text \<open>
  Listings are read back as they were printed: from the output of \<^verbatim>\<open>zfs list\<close> for a dataset the
  program recovers every snapshot and bookmark, its name and its creation time, in order.
\<close>

theorem parseListOutput_roundtrip:
  assumes "\<forall>s\<in>set snaps. listable dataset s"
  shows "parseListOutput (zfsList dataset snaps) = Inr snaps"
proof -
  let ?rows = "map (zfsRow dataset) snaps"
  have "zfsList dataset snaps = concat (map (\<lambda>l. l @ [CHR 0x0A]) ?rows)" by (simp add: zfsList_def comp_def)
  then have "splitOn (zfsList dataset snaps) [CHR 0x0A] = ?rows @ [[]]"
    using splitOn_lines [of ?rows] zfsRow_line(1) assms by auto
  then have raw: "rawLines (zfsList dataset snaps) = ?rows" by (simp add: rawLines_def)
  have short: "list_all (\<lambda>l. length l < maxScanToken) ?rows" using assms by (auto simp: list_all_iff listable_def)
  have "map dropCR ?rows = ?rows" using zfsRow_line(2) assms by auto
  moreover have "takeWhile (\<lambda>l. length l < maxScanToken) ?rows = ?rows"
    by (rule takeWhile_eq_all_conv [THEN iffD2]) (use short in \<open>simp add: list_all_iff\<close>)
  ultimately have "scanLines (zfsList dataset snaps) = (?rows, False)"
    using short by (simp only: scanLines_def Let_def raw simp_thms)
  moreover have "parseListLines n ?rows = Inr snaps" for n
    using assms by (induction snaps arbitrary: n) (auto simp: parseListLine_zfsRow)
  ultimately show ?thesis by (simp add: parseListOutput_def)
qed

definition exListed :: "SnapshotInfo list" where
  "exListed = [\<lparr>CreationTime = 2000000000, Name = ''b c'', Bookmark = False, GUID = []\<rparr>,
               \<lparr>CreationTime = 1000000000, Name = ''a'', Bookmark = True, GUID = []\<rparr>]"

lemma parseListOutput_roundtrip_witness: "parseListOutput (zfsList ''p/d'' exListed) = Inr exListed"
proof (rule parseListOutput_roundtrip)
  have f: "formatInt 1 = ''1''" "formatInt 2 = ''2''" by code_simp+
  have "length (zfsRow ''p/d'' s) < maxScanToken" if "s \<in> set exListed" for s
    using that by (auto simp: exListed_def zfsRow_def unix_def f maxScanToken_def)
  then show "\<forall>s\<in>set exListed. listable ''p/d'' s"
    by (auto simp: listable_def exListed_def unix_def inInt64_def minInt64_def maxInt64_def)
qed

end
