(* ===== verification/Receive.thy ===== *)
theory Receive
  imports RestoreProperties Zfs
begin

text \<open>
  Receiving one backup (\<^verbatim>\<open>receive\<close> of \<^verbatim>\<open>backup/restore.go\<close>): the checks before the first byte, the
  refusal to mount over live data, the verified download of each volume, and the pipeline that hands
  volumes downloaded in parallel to \<^verbatim>\<open>zfs receive\<close> in order.
\<close>

section \<open>Mountpoints\<close>

definition streamHasMountpoint :: "'a Manifest_scheme \<Rightarrow> bool" where
  "streamHasMountpoint manifest \<longleftrightarrow> Properties manifest \<or> Replication manifest"

definition mounts :: "string \<Rightarrow> bool" where
  "mounts mountpoint \<longleftrightarrow> mountpoint \<noteq> ''none'' \<and> mountpoint \<noteq> ''legacy'' \<and> mountpoint \<noteq> ''-''"

definition restoredName :: "string \<Rightarrow> string \<Rightarrow> string \<Rightarrow> string" where
  "restoredName volume topDataset source = volume @ trimPrefix source topDataset"

datatype receive_error =
    MountOverSource string string
  | MountOverPath string string string
  | MountedUnknown string
  | OtherLocalSnapshot string
  | ReceiveGuid restore_error
  | SourceMissing string
  | ReceiveOrigin string
  | ReceiveDestroy restore_error
  | UntrustedCompressor string

text \<open>
  \<open>rows\<close> is what \<^verbatim>\<open>zfs get mountpoint\<close> says of the source on this host, \<open>mounted\<close> the mounted
  filesystems by path. The recorded mountpoints are an association list, sorted by dataset as the Go
  code visits its map.
\<close>

definition ownMountpoint :: "Mountpoint \<Rightarrow> bool" where
  "ownMountpoint row \<longleftrightarrow> mounts (mpValue row) \<and> (mpSource row = ''local'' \<or> mpSource row = ''received'')"

definition refuseMountOverRecordedPath ::
    "(string + (string \<rightharpoonup> string)) \<Rightarrow> Manifest \<Rightarrow> string \<Rightarrow> receive_error option" where
  "refuseMountOverRecordedPath mounted manifest volume =
     (if SourceMountpoints manifest = [] then None
      else case mounted of
             Inl e \<Rightarrow> Some (MountedUnknown e)
           | Inr m \<Rightarrow>
               map_option (\<lambda>(source, path).
                   MountOverPath (restoredName volume (VolumeName manifest) source) (case m path of Some d \<Rightarrow> d | None \<Rightarrow> []) path)
                 (List.find (\<lambda>(source, path). m path \<noteq> None \<and> m path \<noteq> Some (restoredName volume (VolumeName manifest) source))
                   (sort_key fst (SourceMountpoints manifest))))"

definition refuseMountOverSource ::
    "(string + Mountpoint list) \<Rightarrow> (string + (string \<rightharpoonup> string)) \<Rightarrow> JobInfo \<Rightarrow> Manifest \<Rightarrow> string \<Rightarrow> receive_error option" where
  "refuseMountOverSource rows mounted j manifest volume =
     (if \<not> streamHasMountpoint manifest \<or> NotMounted j then None
      else let rs = (case rows of Inl e \<Rightarrow> [] | Inr rs \<Rightarrow> rs)
           in case (if volume \<noteq> VolumeName manifest then List.find ownMountpoint rs else None) of
                Some row \<Rightarrow> Some (MountOverSource (restoredName volume (VolumeName manifest) (mpDataset row)) (mpDataset row))
              | None \<Rightarrow> refuseMountOverRecordedPath mounted manifest volume)"

text \<open>What a send records of the source's mountpoints.\<close>

definition mountpointInStream :: "'a Manifest_scheme \<Rightarrow> Mountpoint \<Rightarrow> bool" where
  "mountpointInStream j row =
     (if mpSource row = ''local'' \<or> mpSource row = ''received'' then True
      else case cutPrefix (mpSource row) ''inherited from '' of
             None \<Rightarrow> False
           | Some parent \<Rightarrow>
               mpDataset row \<noteq> VolumeName j \<and> Replication j \<and>
               (parent = VolumeName j \<or> hasPrefix parent (VolumeName j @ ''/'')))"

definition recordSourceMountpoints :: "(string + Mountpoint list) \<Rightarrow> 'a Manifest_scheme \<Rightarrow> 'a Manifest_scheme" where
  "recordSourceMountpoints rows j =
     j\<lparr>SourceMountpoints :=
        (if \<not> streamHasMountpoint j then []
         else case rows of
                Inl e \<Rightarrow> []
              | Inr rs \<Rightarrow>
                  foldl (\<lambda>acc row. if mounts (mpValue row) \<and> mountpointInStream j row
                                   then AList.update (mpDataset row) (mpValue row) acc else acc) [] rs)\<rparr>"

section \<open>The checks of receive\<close>

datatype receive_outcome = NothingToDo | Refused receive_error | Proceed

text \<open>
  From the manifest to the first download. \<open>checkDestroy\<close> is false for the steps of \<^verbatim>\<open>AutoRestore\<close>,
  which has checked the whole chain. \<open>trusted\<close> is \<^verbatim>\<open>files.CheckDecompressor\<close>.
\<close>

definition receiveChecks ::
    "JobInfo \<Rightarrow> hostView \<Rightarrow> (string + Mountpoint list) \<Rightarrow> (string + (string \<rightharpoonup> string)) \<Rightarrow> (string \<Rightarrow> string \<Rightarrow> bool) \<Rightarrow> bool \<Rightarrow> Manifest
      \<Rightarrow> receive_outcome" where
  "receiveChecks j h rows mounted trusted checkDestroy manifest =
     (let volume = restoreVolume j;
          local = (case hvListing h of Inl e \<Rightarrow> [] | Inr ls \<Rightarrow> ls);
          listErr = (case hvListing h of Inl e \<Rightarrow> Some e | Inr ls \<Rightarrow> None);
          source = IncrementalSnapshot manifest
      in if fst (validateSnapShotExistsFromSnaps (BaseSnapshot manifest) local False)
         then (case refuseOtherGUID (hvGuid h) (BaseSnapshot manifest) of
                 Some err \<Rightarrow> Refused (ReceiveGuid err) | None \<Rightarrow> NothingToDo)
         else if localSnapshotMismatch (BaseSnapshot manifest) local \<noteq> None
         then Refused (OtherLocalSnapshot (Name (BaseSnapshot manifest)))
         else case (if Name source = [] then None
                    else case restoreSources j h local of
                           Inl err \<Rightarrow> Some (ReceiveDestroy err)
                         | Inr sources \<Rightarrow>
                             if fst (validateSnapShotExistsFromSnaps source sources False) then None
                             else Some (SourceMissing (Name source))) of
                Some err \<Rightarrow> Refused err
              | None \<Rightarrow>
                  (case (if checkDestroy then refuseUnlistedTarget j volume listErr else None) of
                     Some err \<Rightarrow> Refused (ReceiveDestroy err)
                   | None \<Rightarrow>
                       (case (if checkDestroy then refuseDestroy j (hvBelow h) [manifest] volume local (listErr = None) else None) of
                          Some err \<Rightarrow> Refused (ReceiveDestroy err)
                        | None \<Rightarrow>
                            (case refuseMountOverSource rows mounted j manifest volume of
                               Some err \<Rightarrow> Refused err
                             | None \<Rightarrow>
                                 if trusted (Compressor manifest) (TrustedCompressor j) then Proceed
                                 else Refused (UntrustedCompressor (Compressor manifest))))))"

section \<open>Downloading a volume\<close>

datatype attempt = Delivered string | Retry string | Permanent string

text \<open>
  \<^verbatim>\<open>processSequence\<close> with a file buffer: one attempt to download a volume. \<open>notExist\<close> says whether the
  destination's error is that the object does not exist; \<open>createErr\<close>, \<open>writeErr\<close> and \<open>closeErr\<close> are the
  errors of the temporary file; SHA256 is the parameter \<open>sha256\<close>. At most one byte more than the
  manifest records is read.
\<close>

record volumeIO =
  vioNotExist :: "string \<Rightarrow> bool"
  vioCreateErr :: "string option"
  vioWriteErr :: "string option"
  vioCloseErr :: "string option"

definition volumeLimit :: "VolumeInfo \<Rightarrow> int" where
  "volumeLimit v = (if uint (VolSize v) < maxInt64 then uint (VolSize v) + 1 else maxInt64)"

definition processSequence :: "volumeIO \<Rightarrow> (string \<Rightarrow> string) \<Rightarrow> Backend \<Rightarrow> VolumeInfo \<Rightarrow> attempt" where
  "processSequence io sha256 b v =
     (case bDownload b (ObjectName v) of
        Inl e \<Rightarrow> if vioNotExist io e then Permanent e else Retry e
      | Inr (chunks, e) \<Rightarrow>
          (case vioCreateErr io of
             Some err \<Rightarrow> Permanent err
           | None \<Rightarrow>
               let bytes = concat chunks;
                   cut = int (length bytes) \<ge> volumeLimit v;
                   data = (if cut then take (nat (volumeLimit v)) bytes else bytes)
               in case (if cut then None else e) of
                    Some err \<Rightarrow> Retry err
                  | None \<Rightarrow>
                      (case vioWriteErr io of
                         Some err \<Rightarrow> Permanent err
                       | None \<Rightarrow>
                           (case vioCloseErr io of
                              Some err \<Rightarrow> Permanent err
                            | None \<Rightarrow>
                                if int (length data) \<noteq> uint (VolSize v) \<or> sha256 data \<noteq> SHA256Sum v
                                then Permanent (ObjectName v) else Delivered data))))"

lemma processSequence_ok:
  assumes "processSequence io sha256 b v = Delivered data"
  shows "sha256 data = SHA256Sum v" "int (length data) = uint (VolSize v)"
    and "\<exists>chunks e. bDownload b (ObjectName v) = Inr (chunks, e) \<and> prefix data (concat chunks)"
    and "uint (VolSize v) < maxInt64 \<Longrightarrow> \<exists>chunks. bDownload b (ObjectName v) = Inr (chunks, None) \<and> data = concat chunks"
  using assms by (auto simp: processSequence_def Let_def volumeLimit_def take_is_prefix split: sum.splits option.splits if_splits)


text \<open>
  \<^verbatim>\<open>downloadSequenceVolume\<close>: attempts until one is not worth repeating. The retry policy is the
  library's; \<open>bs\<close> are the destination's answers in the attempts it allows.
\<close>

fun downloadSequenceVolume :: "volumeIO \<Rightarrow> (string \<Rightarrow> string) \<Rightarrow> Backend list \<Rightarrow> VolumeInfo \<Rightarrow> string + string" where
  "downloadSequenceVolume io sha256 [] v = Inl (ObjectName v)"
| "downloadSequenceVolume io sha256 (b # bs) v =
     (case processSequence io sha256 b v of
        Delivered data \<Rightarrow> Inr data
      | Permanent e \<Rightarrow> Inl e
      | Retry e \<Rightarrow> if bs = [] then Inl e else downloadSequenceVolume io sha256 bs v)"


section \<open>The pipeline\<close>

text \<open>
  As many workers as there are buffer slots take the volumes in order; a worker then waits for a
  slot, downloads, and puts the volume into its own channel. One goroutine passes the volumes on in
  the order of the manifest, and the stream frees a volume's slot once it is extracted. A failure
  cancels everything, so it only cuts a run short.
\<close>

record pipe =
  pCap :: nat
  pQueue :: "nat list"
  pIdle :: nat
  pWait :: "nat list"
  pSlots :: nat
  pFlight :: "nat list"
  pReady :: "nat list"
  pNext :: nat
  pStream :: "nat option"
  pOut :: "nat list"

definition pipeStart :: "nat \<Rightarrow> nat \<Rightarrow> pipe" where
  "pipeStart buffer n =
     (let cap = (if buffer = 0 then 1 else buffer)
      in \<lparr>pCap = cap, pQueue = [0..<n], pIdle = cap, pWait = [], pSlots = 0, pFlight = [], pReady = [], pNext = 0,
          pStream = None, pOut = []\<rparr>)"

inductive pipeStep :: "pipe \<Rightarrow> pipe \<Rightarrow> bool" where
  take_sequence: "pQueue s = i # q \<Longrightarrow> pIdle s = Suc k \<Longrightarrow> pipeStep s (s\<lparr>pQueue := q, pIdle := k, pWait := i # pWait s\<rparr>)"
| acquire: "i \<in> set (pWait s) \<Longrightarrow> pSlots s < pCap s \<Longrightarrow>
    pipeStep s (s\<lparr>pWait := remove1 i (pWait s), pSlots := Suc (pSlots s), pFlight := i # pFlight s\<rparr>)"
| arrive: "i \<in> set (pFlight s) \<Longrightarrow>
    pipeStep s (s\<lparr>pFlight := remove1 i (pFlight s), pReady := i # pReady s, pIdle := Suc (pIdle s)\<rparr>)"
| hand_on: "pNext s \<in> set (pReady s) \<Longrightarrow> pStream s = None \<Longrightarrow>
    pipeStep s (s\<lparr>pReady := remove1 (pNext s) (pReady s), pStream := Some (pNext s), pNext := Suc (pNext s)\<rparr>)"
| unpack: "pStream s = Some i \<Longrightarrow> pSlots s = Suc k \<Longrightarrow>
    pipeStep s (s\<lparr>pStream := None, pOut := pOut s @ [i], pSlots := k\<rparr>)"

definition pipeInvariant :: "pipe \<Rightarrow> bool" where
  "pipeInvariant s \<longleftrightarrow>
     pOut s = [0..<length (pOut s)] \<and>
     pSlots s = length (pFlight s) + length (pReady s) + (case pStream s of None \<Rightarrow> 0 | Some i \<Rightarrow> 1) \<and>
     pSlots s \<le> pCap s \<and>
     (case pStream s of None \<Rightarrow> pNext s = length (pOut s) | Some i \<Rightarrow> i = length (pOut s) \<and> pNext s = Suc i)"

lemma length_remove1_Suc: "x \<in> set xs \<Longrightarrow> Suc (length (remove1 x xs)) = length xs"
  by (induction xs) auto

lemma pipeInvariant_step: "pipeStep s s' \<Longrightarrow> pipeInvariant s \<Longrightarrow> pipeInvariant s'"
proof (induction rule: pipeStep.induct)
  case (take_sequence s i q k)
  then show ?case by (cases "pStream s") (simp_all add: pipeInvariant_def)
next
  case (acquire i s)
  then show ?case by (cases "pStream s") (simp_all add: pipeInvariant_def)
next
  case (arrive i s)
  then show ?case using length_remove1_Suc [OF arrive(1)] by (cases "pStream s") (simp_all add: pipeInvariant_def)
next
  case (hand_on s)
  then show ?case using length_remove1_Suc [OF hand_on(1)] by (cases "pStream s") (simp_all add: pipeInvariant_def)
next
  case (unpack s i k)
  then show ?case by (cases "pStream s") (simp_all add: pipeInvariant_def)
qed

lemma pipe_rules:
  assumes "pipeStep\<^sup>*\<^sup>* (pipeStart buffer n) s"
  shows "pOut s = [0..<length (pOut s)]" and "length (pFlight s) + length (pReady s) \<le> (if buffer = 0 then 1 else buffer)"
proof -
  have "pipeInvariant s \<and> pCap s = (if buffer = 0 then 1 else buffer)"
    using assms
  proof (induction rule: rtranclp_induct)
    case base
    then show ?case by (simp add: pipeInvariant_def pipeStart_def Let_def)
  next
    case (step y z)
    then have "pCap z = pCap y" by (auto elim: pipeStep.cases)
    then show ?case using step pipeInvariant_step by simp
  qed
  then show "pOut s = [0..<length (pOut s)]" "length (pFlight s) + length (pReady s) \<le> (if buffer = 0 then 1 else buffer)"
    by (auto simp: pipeInvariant_def)
qed

text \<open>
  C26. The volumes of a backup reach \<^verbatim>\<open>zfs receive\<close> in order. In every state of the pipeline, whatever
  the interleaving of its downloads, the volumes extracted so far are the first ones of the manifest,
  none skipped or repeated, and no more volumes than buffer slots are being downloaded or waiting.
\<close>

theorem receive_in_order:
  assumes "pipeStep\<^sup>*\<^sup>* (pipeStart buffer n) s"
  shows "pOut s = [0..<length (pOut s)] \<and> length (pFlight s) + length (pReady s) \<le> (if buffer = 0 then 1 else buffer)"
  using pipe_rules [OF assms] by blast

text \<open>
  The order of the two waits matters: a worker takes a volume before it has a slot. If it is then
  delayed while the other workers fill the buffer with later volumes, nobody can go on.
\<close>

definition pipeStuck :: pipe where
  "pipeStuck = \<lparr>pCap = 2, pQueue = [], pIdle = 1, pWait = [0], pSlots = 2, pFlight = [], pReady = [2, 1], pNext = 0,
     pStream = None, pOut = []\<rparr>"

lemma pipe_deadlock: "pipeStep\<^sup>*\<^sup>* (pipeStart 2 3) pipeStuck \<and> (\<nexists>s. pipeStep pipeStuck s)"
proof
  let ?s = "\<lambda>q id w sl fl r. \<lparr>pCap = 2, pQueue = q, pIdle = id, pWait = w, pSlots = sl, pFlight = fl, pReady = r, pNext = 0,
     pStream = None, pOut = []\<rparr>"
  have "pipeStart 2 3 = ?s [0, 1, 2] 2 [] 0 [] []" by (simp add: pipeStart_def upt_rec)
  moreover have "pipeStep (?s [0, 1, 2] 2 [] 0 [] []) (?s [1, 2] 1 [0] 0 [] [])"
    using pipeStep.take_sequence [of "?s [0, 1, 2] 2 [] 0 [] []" 0 "[1, 2]" 1] by simp
  moreover have "pipeStep (?s [1, 2] 1 [0] 0 [] []) (?s [2] 0 [1, 0] 0 [] [])"
    using pipeStep.take_sequence [of "?s [1, 2] 1 [0] 0 [] []" 1 "[2]" 0] by simp
  moreover have "pipeStep (?s [2] 0 [1, 0] 0 [] []) (?s [2] 0 [0] 1 [1] [])"
    using pipeStep.acquire [of 1 "?s [2] 0 [1, 0] 0 [] []"] by simp
  moreover have "pipeStep (?s [2] 0 [0] 1 [1] []) (?s [2] 1 [0] 1 [] [1])"
    using pipeStep.arrive [of 1 "?s [2] 0 [0] 1 [1] []"] by simp
  moreover have "pipeStep (?s [2] 1 [0] 1 [] [1]) (?s [] 0 [2, 0] 1 [] [1])"
    using pipeStep.take_sequence [of "?s [2] 1 [0] 1 [] [1]" 2 "[]" 0] by simp
  moreover have "pipeStep (?s [] 0 [2, 0] 1 [] [1]) (?s [] 0 [0] 2 [2] [1])"
    using pipeStep.acquire [of 2 "?s [] 0 [2, 0] 1 [] [1]"] by (simp add: numeral_2_eq_2)
  moreover have "pipeStep (?s [] 0 [0] 2 [2] [1]) pipeStuck"
    using pipeStep.arrive [of 2 "?s [] 0 [0] 2 [2] [1]"] by (simp add: pipeStuck_def)
  ultimately show "pipeStep\<^sup>*\<^sup>* (pipeStart 2 3) pipeStuck" by (metis (no_types, lifting) converse_rtranclp_into_rtranclp rtranclp.rtrancl_refl)
  show "\<nexists>s. pipeStep pipeStuck s" by (auto simp: pipeStuck_def elim!: pipeStep.cases)
qed

section \<open>Mounts\<close>

lemma receive_mounts_rules:
  assumes "receiveChecks j h rows (Inr mounted) trusted checkDestroy manifest = Proceed"
    and "streamHasMountpoint manifest" "\<not> NotMounted j"
  shows "(source, path) \<in> set (SourceMountpoints manifest) \<Longrightarrow>
      mounted path = None \<or> mounted path = Some (restoredName (restoreVolume j) (VolumeName manifest) source)"
    and "restoreVolume j \<noteq> VolumeName manifest \<Longrightarrow> rows = Inr rs \<Longrightarrow> row \<in> set rs \<Longrightarrow>
      mpSource row = ''local'' \<or> mpSource row = ''received'' \<Longrightarrow> \<not> mounts (mpValue row)"
proof -
  let ?vol = "restoreVolume j"
  have none: "refuseMountOverSource rows (Inr mounted) j manifest ?vol = None"
    using assms(1) by (auto simp: receiveChecks_def Let_def split: if_splits option.splits)
  have own: "?vol \<noteq> VolumeName manifest \<Longrightarrow> List.find ownMountpoint (case rows of Inl e \<Rightarrow> [] | Inr rs \<Rightarrow> rs) = None"
    and rec: "refuseMountOverRecordedPath (Inr mounted) manifest ?vol = None"
    using none assms(2,3) by (auto simp: refuseMountOverSource_def Let_def split: if_splits option.splits)
  show "mounted path = None \<or> mounted path = Some (restoredName ?vol (VolumeName manifest) source)"
    if "(source, path) \<in> set (SourceMountpoints manifest)"
    using rec that by (auto simp: refuseMountOverRecordedPath_def find_None_iff split: if_splits)
  show "\<not> mounts (mpValue row)" if "?vol \<noteq> VolumeName manifest" "rows = Inr rs" "row \<in> set rs"
      "mpSource row = ''local'' \<or> mpSource row = ''received''"
    using own that by (auto simp: find_None_iff ownMountpoint_def)
qed



section \<open>Witnesses\<close>

definition exVolumeIO :: volumeIO where
  "exVolumeIO = \<lparr>vioNotExist = (\<lambda>e. False), vioCreateErr = None, vioWriteErr = None, vioCloseErr = None\<rparr>"

definition exListedVolume :: VolumeInfo where
  "exListedVolume = \<lparr>ObjectName = ''v'', VolumeNumber = 1, SHA256Sum = ''x'', MD5Sum = [], CRC32CSum32 = 0, VolSize = 1,
     VolStreamBytes = 1, StreamSHA256 = [], IsManifest = False, IsFinalManifest = False\<rparr>"

definition exDown :: Backend where
  "exDown = (exBackend ''x'')\<lparr>bDownload := (\<lambda>n. Inl ''timeout'')\<rparr>"

lemma ex_download: "downloadSequenceVolume exVolumeIO (\<lambda>s. s) [exDown, exBackend ''x''] exListedVolume = Inr ''x''"
  by code_simp


lemma receive_in_order_witness:
  "pOut pipeStuck = [0..<length (pOut pipeStuck)] \<and> length (pFlight pipeStuck) + length (pReady pipeStuck) \<le> 2"
  using receive_in_order [OF pipe_deadlock [THEN conjunct1]] by simp

definition exMountManifest :: Manifest where
  "exMountManifest = (exLinks ! 0)\<lparr>Properties := True, SourceMountpoints := [(''t'', ''/data'')]\<rparr>"

definition exMountHost :: hostView where
  "exMountHost = exHost\<lparr>hvListing := Inl (''dataset does not exist'', True)\<rparr>"

lemma ex_receive:
  "receiveChecks exRestoreJob exMountHost (Inl ''no such dataset'') (Inr [''/home'' \<mapsto> ''p/home'']) (\<lambda>a b. True) True exMountManifest = Proceed"
  by code_simp


end
