(* ===== verification/SendStream.thy ===== *)
theory SendStream
  imports ObjectNames
begin

text \<open>
  The splitter of \<^verbatim>\<open>backup/backup.go\<close> (\<^verbatim>\<open>sendStream\<close>): it cuts the output of \<^verbatim>\<open>zfs send\<close> into volumes,
  and on a resume skips the bytes that the volumes of the interrupted attempt hold, after checking
  that they are the same bytes.
\<close>

section \<open>Volumes being written\<close>

text \<open>
  What is outside the splitter: checksums, the number of bytes a volume has written once it was given
  some bytes of the stream (\<open>seCounter\<close>; compression and encryption decide it), the contents of the
  closed volume, and the errors of creating, writing and closing volume \<open>n\<close>. \<open>seHandErr\<close> is the
  cancellation that may come while a volume is handed on.
\<close>

record splitEnv =
  seSha256 :: "string \<Rightarrow> string"
  seMd5 :: "string \<Rightarrow> string"
  seCrc32c :: "string \<Rightarrow> 32 word"
  seCounter :: "int \<Rightarrow> string \<Rightarrow> 64 word"
  seContents :: "int \<Rightarrow> string \<Rightarrow> string"
  seCreateErr :: "int \<Rightarrow> string option"
  seWriteErr :: "int \<Rightarrow> string \<Rightarrow> string option"
  seCloseErr :: "int \<Rightarrow> string option"
  seHandErr :: "int \<Rightarrow> string option"

datatype split_error =
    CreateFailed int string
  | WriteFailed int string
  | CloseFailed int string
  | SendCanceled string
  | StreamRead string
  | StreamShort "64 word"
  | StreamDiffers

definition BufferSize :: nat where "BufferSize = 256 * 1024"

definition copyChunk :: nat where "copyChunk = BufferSize * 2"

text \<open>The number of bytes at which a volume is full: 50 KiB before \<^verbatim>\<open>--volsize\<close>, in 64 bits.\<close>

definition volumeCut :: "JobInfo \<Rightarrow> 64 word" where
  "volumeCut j = VolumeSize j * 1048576 - 50 * 1024"

text \<open>
  \<^verbatim>\<open>CreateBackupVolume\<close> names a volume, the splitter records what it holds of the stream, and \<^verbatim>\<open>Close\<close>
  its size and checksums. \<open>read\<close> are all bytes read from the stream, \<open>last\<close> how many of them earlier
  volumes hold.
\<close>

definition finishedVolume :: "splitEnv \<Rightarrow> JobInfo \<Rightarrow> string \<Rightarrow> 64 word \<Rightarrow> int \<Rightarrow> string \<Rightarrow> VolumeInfo" where
  "finishedVolume env j read lastTotal n data =
     (let contents = seContents env n data
      in \<lparr>ObjectName = BackupVolumeObjectName j n, VolumeNumber = n, SHA256Sum = seSha256 env contents,
          MD5Sum = seMd5 env contents, CRC32CSum32 = seCrc32c env contents, VolSize = of_nat (length contents),
          VolStreamBytes = of_nat (length read) - lastTotal, StreamSHA256 = seSha256 env read,
          IsManifest = False, IsFinalManifest = False\<rparr>)"

definition finishVolume ::
    "splitEnv \<Rightarrow> JobInfo \<Rightarrow> string \<Rightarrow> 64 word \<Rightarrow> int \<Rightarrow> string \<Rightarrow> split_error + VolumeInfo" where
  "finishVolume env j read lastTotal n data =
     (case seCloseErr env n of
        Some e \<Rightarrow> Inl (CloseFailed n e)
      | None \<Rightarrow>
          (case (if MaxFileBuffer j = 0 then None else seHandErr env n) of
             Some e \<Rightarrow> Inl (SendCanceled e)
           | None \<Rightarrow> Inr (finishedVolume env j read lastTotal n data)))"

text \<open>With pipes a volume is handed on when it is created, not when it is closed.\<close>

definition createVolume :: "splitEnv \<Rightarrow> JobInfo \<Rightarrow> int \<Rightarrow> split_error option" where
  "createVolume env j n =
     (case seCreateErr env n of
        Some e \<Rightarrow> Some (CreateFailed n e)
      | None \<Rightarrow> if MaxFileBuffer j = 0 then map_option SendCanceled (seHandErr env n) else None)"

section \<open>The loop\<close>

text \<open>
  The first half of an iteration: unless the current volume has room, it is finished and the next one
  is created, if the stream goes on. \<open>Inl\<close> is a return, with the volumes finished on the way.
\<close>

definition nextVolume ::
    "splitEnv \<Rightarrow> JobInfo \<Rightarrow> string option \<Rightarrow> string \<Rightarrow> string \<Rightarrow> 64 word \<Rightarrow> int \<Rightarrow> (int \<times> string) option
      \<Rightarrow> (split_error option \<times> VolumeInfo list) + (VolumeInfo list \<times> 64 word \<times> int \<times> int \<times> string)" where
  "nextVolume env j fin read rest lastTotal volNum cur =
     (let create = (\<lambda>out lastTotal.
            if (cur \<noteq> None \<or> volNum > 1) \<and> rest = [] then Inl (map_option StreamRead fin, out)
            else case createVolume env j volNum of
                   Some e \<Rightarrow> Inl (Some e, out)
                 | None \<Rightarrow> Inr (out, lastTotal, volNum + 1, volNum, []))
      in case cur of
           None \<Rightarrow> create [] lastTotal
         | Some (n, data) \<Rightarrow>
             if seCounter env n data \<ge> volumeCut j
             then (case finishVolume env j read lastTotal n data of
                     Inl e \<Rightarrow> Inl (Some e, [])
                   | Inr v \<Rightarrow> create [v] (of_nat (length read)))
             else Inr ([], lastTotal, volNum, n, data))"

text \<open>
  The loop: \<open>read\<close> has been read from the stream, \<open>rest\<close> is still to come, \<open>fin\<close> is the error the stream
  ends with (\<open>None\<close> is the end of a stream that \<^verbatim>\<open>zfs send\<close> completed). The result is the error and the
  volumes finished before it.
\<close>

function splitLoop ::
    "splitEnv \<Rightarrow> JobInfo \<Rightarrow> string option \<Rightarrow> string \<Rightarrow> string \<Rightarrow> 64 word \<Rightarrow> int \<Rightarrow> (int \<times> string) option
      \<Rightarrow> split_error option \<times> VolumeInfo list" where
  "splitLoop env j fin read rest lastTotal volNum cur =
     (case nextVolume env j fin read rest lastTotal volNum cur of
        Inl r \<Rightarrow> r
      | Inr (out, lastTotal, volNum, n, data) \<Rightarrow>
          (case seWriteErr env n (data @ take copyChunk rest) of
             Some e \<Rightarrow> (Some (WriteFailed n e), out)
           | None \<Rightarrow>
               if length rest < copyChunk
               then (case fin of
                       Some e \<Rightarrow> (Some (StreamRead e), out)
                     | None \<Rightarrow>
                         (case finishVolume env j (read @ rest) lastTotal n (data @ rest) of
                            Inl e \<Rightarrow> (Some e, out)
                          | Inr v \<Rightarrow> (None, out @ [v])))
               else let (err, vols) = splitLoop env j fin (read @ take copyChunk rest) (drop copyChunk rest) lastTotal volNum
                          (Some (n, data @ take copyChunk rest))
                    in (err, out @ vols)))"
  by pat_completeness auto

lemma copyChunk_pos: "0 < copyChunk" by (simp add: copyChunk_def BufferSize_def)

termination splitLoop
proof (relation "measure (\<lambda>(env, j, fin, read, rest, lastTotal, volNum, cur). length rest)", goal_cases)
  case 1
  then show ?case by simp
next
  case (2 env j e read rest lastTotal volNum cur b y1 y2 y3 y4 y5)
  then show ?case using copyChunk_pos by simp
qed

declare splitLoop.simps [simp del]

section \<open>The whole stream\<close>

definition keptStreamSHA256 :: "'a Manifest_scheme \<Rightarrow> string" where
  "keptStreamSHA256 j = (if Volumes j = [] then [] else StreamSHA256 (last (Volumes j)))"

text \<open>
  \<^verbatim>\<open>sendStream\<close> up to its return: the job with the volumes it keeps, the error, and the new volumes. The
  number of bytes to skip is converted to a signed 64-bit number; a negative one skips nothing.
\<close>

definition splitStream ::
    "splitEnv \<Rightarrow> JobInfo \<Rightarrow> string \<Rightarrow> string option \<Rightarrow> JobInfo \<times> split_error option \<times> VolumeInfo list" where
  "splitStream env j bytes fin =
     (let (skip, volNum, j') = TotalBytesStreamedAndVols j
      in (j', if skip > 0
              then let n = nat (sint skip)
                   in if length bytes < n
                      then (Some (case fin of None \<Rightarrow> StreamShort skip | Some e \<Rightarrow> StreamRead e), [])
                      else if seSha256 env (take n bytes) \<noteq> keptStreamSHA256 j' then (Some StreamDiffers, [])
                      else splitLoop env j' fin (take n bytes) (drop n bytes) skip volNum None
              else splitLoop env j' fin [] bytes 0 volNum None))"

text \<open>
  The end of \<^verbatim>\<open>sendStream\<close>: \<^verbatim>\<open>zfs send\<close> that cannot start or exits with an error fails the send, also
  after its last byte was read; the length of the stream is recorded only on success.
\<close>

definition sendStream ::
    "splitEnv \<Rightarrow> JobInfo \<Rightarrow> string option \<Rightarrow> string \<Rightarrow> string option \<Rightarrow> JobInfo \<times> split_error option \<times> VolumeInfo list" where
  "sendStream env j startErr bytes exitErr =
     (case startErr of
        Some e \<Rightarrow> (j, Some (StreamRead e), [])
      | None \<Rightarrow>
          (case splitStream env j bytes exitErr of
             (j', Some err, vols) \<Rightarrow> (j', Some err, vols)
           | (j', None, vols) \<Rightarrow> (j'\<lparr>ZFSStreamBytes := of_nat (length bytes)\<rparr>, None, vols)))"


section \<open>What the splitter does\<close>

text \<open>
  The specification: \<open>parts\<close> is a cut of the stream after \<open>pre\<close>, and \<open>describes\<close> are the volumes that hold
  them, numbered from \<open>n\<close>. In \<open>cutWell\<close> every part but the last fills its volume, and no volume was
  already full before its last chunk.
\<close>

fun describes :: "splitEnv \<Rightarrow> JobInfo \<Rightarrow> string \<Rightarrow> int \<Rightarrow> string list \<Rightarrow> VolumeInfo list" where
  "describes env j pre n [] = []"
| "describes env j pre n (p # ps) =
     finishedVolume env j (pre @ p) (of_nat (length pre)) n p # describes env j (pre @ p) (n + 1) ps"

definition notFullBefore :: "splitEnv \<Rightarrow> JobInfo \<Rightarrow> int \<Rightarrow> string \<Rightarrow> bool" where
  "notFullBefore env j n p \<longleftrightarrow>
     (\<forall>k>0. k * copyChunk < length p \<longrightarrow> seCounter env n (take (k * copyChunk) p) < volumeCut j)"

fun cutWell :: "splitEnv \<Rightarrow> JobInfo \<Rightarrow> int \<Rightarrow> string list \<Rightarrow> bool" where
  "cutWell env j n [] = True"
| "cutWell env j n (p # ps) =
     (notFullBefore env j n p \<and> (ps \<noteq> [] \<longrightarrow> seCounter env n p \<ge> volumeCut j) \<and> cutWell env j (n + 1) ps)"

text \<open>The current volume: a whole number of chunks, and never full before the last of them.\<close>

definition chunked :: "splitEnv \<Rightarrow> JobInfo \<Rightarrow> int \<Rightarrow> string \<Rightarrow> bool" where
  "chunked env j n d \<longleftrightarrow> copyChunk dvd length d \<and> notFullBefore env j n d"

lemma chunked_Nil [simp]: "chunked env j n []" by (simp add: chunked_def notFullBefore_def)

lemma notFullBefore_extend:
  assumes "chunked env j n d" and "d = [] \<or> seCounter env n d < volumeCut j" and "length c \<le> copyChunk"
  shows "notFullBefore env j n (d @ c)"
  unfolding notFullBefore_def
proof (intro allI impI)
  fix k :: nat
  assume k: "0 < k" "k * copyChunk < length (d @ c)"
  obtain m where m: "length d = copyChunk * m" using assms(1) unfolding chunked_def by (elim conjE dvdE)
  have "k * copyChunk < (m + 1) * copyChunk" using k(2) m assms(3) by (simp add: algebra_simps)
  then have "k \<le> m" by (simp only: mult_less_cancel2 less_Suc_eq_le Suc_eq_plus1 [symmetric])
  show "seCounter env n (take (k * copyChunk) (d @ c)) < volumeCut j"
  proof (cases "k = m")
    case True
    then have "take (k * copyChunk) (d @ c) = d" using m by (simp add: mult.commute)
    moreover have "d \<noteq> []" using m True k(1) copyChunk_pos by auto
    ultimately show ?thesis using assms(2) by simp
  next
    case False
    then have "k * copyChunk < length d" using \<open>k \<le> m\<close> m copyChunk_pos by simp
    then show ?thesis using assms(1) k(1) by (simp add: chunked_def notFullBefore_def)
  qed
qed

lemma chunked_extend:
  assumes "chunked env j n d" and "d = [] \<or> seCounter env n d < volumeCut j" and "length c = copyChunk"
  shows "chunked env j n (d @ c)"
  using notFullBefore_extend [OF assms(1,2)] assms(1,3) by (simp add: chunked_def)

lemma finishVolume_Inr: "finishVolume env j read lt n d = Inr v \<Longrightarrow> v = finishedVolume env j read lt n d"
  by (auto simp: finishVolume_def split: option.splits)

text \<open>The state of the loop: \<open>pre\<close> is in finished volumes, \<open>d\<close> in volume \<open>n\<close>, which may not exist yet.\<close>

definition splitState ::
    "splitEnv \<Rightarrow> JobInfo \<Rightarrow> string \<Rightarrow> 64 word \<Rightarrow> int \<Rightarrow> (int \<times> string) option \<Rightarrow> string \<Rightarrow> int \<Rightarrow> string \<Rightarrow> bool" where
  "splitState env j read lastTotal volNum cur pre n d \<longleftrightarrow>
     read = pre @ d \<and> lastTotal = of_nat (length pre) \<and> chunked env j n d \<and>
     (case cur of None \<Rightarrow> n = volNum \<and> d = [] | Some c \<Rightarrow> c = (n, d) \<and> d \<noteq> [] \<and> volNum = n + 1)"

lemma nextVolume_cases:
  assumes "splitState env j read lastTotal volNum cur pre n d"
  obtains (stop) err out where "nextVolume env j fin read rest lastTotal volNum cur = Inl (err, out)"
      "err = None \<Longrightarrow> fin = None \<and> rest = [] \<and> (cur = None \<and> volNum > 1 \<and> out = [] \<or>
         cur \<noteq> None \<and> out = [finishedVolume env j read lastTotal n d])"
  | (same) "nextVolume env j fin read rest lastTotal volNum cur = Inr ([], lastTotal, n + 1, n, d)"
      "d = [] \<or> seCounter env n d < volumeCut j" "d = [] \<Longrightarrow> cur = None" "cur = None \<Longrightarrow> volNum > 1 \<Longrightarrow> rest \<noteq> []"
  | (new) "nextVolume env j fin read rest lastTotal volNum cur =
        Inr ([finishedVolume env j read lastTotal n d], of_nat (length read), n + 1 + 1, n + 1, [])"
      "seCounter env n d \<ge> volumeCut j" "rest \<noteq> []" "cur \<noteq> None"
proof (cases cur)
  case None
  then have n: "n = volNum" "d = []" using assms by (simp_all add: splitState_def)
  show ?thesis
  proof (cases "volNum > 1 \<and> rest = []")
    case True
    then have "nextVolume env j fin read rest lastTotal volNum cur = Inl (map_option StreamRead fin, [])"
      using None by (simp add: nextVolume_def)
    then show ?thesis by (rule stop) (use True None in auto)
  next
    case False
    then show ?thesis using None n
      by (cases "createVolume env j volNum") (auto simp: nextVolume_def intro: stop same)
  qed
next
  case (Some c)
  then have c: "c = (n, d)" "volNum = n + 1" "d \<noteq> []" using assms by (auto simp: splitState_def)
  show ?thesis
  proof (cases "seCounter env n d \<ge> volumeCut j")
    case False
    then show ?thesis using Some c by (intro same) (auto simp: nextVolume_def)
  next
    case full: True
    show ?thesis
    proof (cases "finishVolume env j read lastTotal n d")
      case (Inl e)
      then have "nextVolume env j fin read rest lastTotal volNum cur = Inl (Some e, [])"
        using Some c full by (simp add: nextVolume_def)
      then show ?thesis by (rule stop) simp
    next
      case (Inr v)
      then have v: "v = finishedVolume env j read lastTotal n d" by (rule finishVolume_Inr)
      show ?thesis
      proof (cases "rest = []")
        case True
        then have "nextVolume env j fin read rest lastTotal volNum cur = Inl (map_option StreamRead fin, [v])"
          using Some c full Inr by (simp add: nextVolume_def)
        then show ?thesis by (rule stop) (use True Some v in auto)
      next
        case False
        then show ?thesis using Some c full Inr v
          by (cases "createVolume env j volNum") (auto simp: nextVolume_def intro: stop new)
      qed
    qed
  qed
qed


text \<open>What a run of the loop that returns without an error has done.\<close>

definition splitDone ::
    "splitEnv \<Rightarrow> JobInfo \<Rightarrow> string option \<Rightarrow> string \<Rightarrow> int \<Rightarrow> string \<Rightarrow> VolumeInfo list \<Rightarrow> string list \<Rightarrow> bool" where
  "splitDone env j fin pre n todo vols parts \<longleftrightarrow>
     fin = None \<and> vols = describes env j pre n parts \<and> concat parts = todo \<and> cutWell env j n parts"

lemma splitDone_first:
  assumes "splitDone env j fin (pre @ d) (n + 1) rest vols parts" "parts \<noteq> []" "chunked env j n d" "seCounter env n d \<ge> volumeCut j"
  shows "splitDone env j fin pre n (d @ rest) (finishedVolume env j (pre @ d) (of_nat (length pre)) n d # vols) (d # parts)"
  using assms by (simp add: splitDone_def chunked_def)

lemma splitLoop_done:
  assumes "splitLoop env j fin read rest lastTotal volNum cur = (None, vols)"
    and "splitState env j read lastTotal volNum cur pre n d"
  shows "\<exists>parts. splitDone env j fin pre n (d @ rest) vols parts
    \<and> (cur = None \<and> rest = [] \<and> parts = (if volNum > 1 then [] else [[]]) \<or> parts \<noteq> [] \<and> [] \<notin> set parts)"
  using assms
proof (induction "length rest" arbitrary: read rest lastTotal volNum cur vols pre n d rule: less_induct)
  case less
  note st = less.prems(2)
  note step = less.prems(1) [unfolded splitLoop.simps [of env j fin read rest lastTotal volNum cur]]
  have readEq: "read = pre @ d" and lt: "lastTotal = of_nat (length pre)" and ch: "chunked env j n d"
    using st by (simp_all add: splitState_def)
  have fill: "\<exists>parts. splitDone env j fin pre' n' (d' @ rest) vols' parts \<and> parts \<noteq> [] \<and> (d' @ rest \<noteq> [] \<longrightarrow> [] \<notin> set parts)
        \<and> (d' @ rest = [] \<longrightarrow> parts = [[]])"
    if run: "(case seWriteErr env n' (d' @ take copyChunk rest) of
             Some e \<Rightarrow> (Some (WriteFailed n' e), out)
           | None \<Rightarrow>
               if length rest < copyChunk
               then (case fin of
                       Some e \<Rightarrow> (Some (StreamRead e), out)
                     | None \<Rightarrow>
                         (case finishVolume env j (read @ rest) (of_nat (length pre')) n' (d' @ rest) of
                            Inl e \<Rightarrow> (Some e, out)
                          | Inr v \<Rightarrow> (None, out @ [v])))
               else let (err, vols) = splitLoop env j fin (read @ take copyChunk rest) (drop copyChunk rest) (of_nat (length pre')) (n' + 1)
                          (Some (n', d' @ take copyChunk rest))
                    in (err, out @ vols)) = (None, out @ vols')"
      and read: "read = pre' @ d'" and room: "chunked env j n' d'" "d' = [] \<or> seCounter env n' d' < volumeCut j"
    for out pre' n' d' vols'
  proof (cases "length rest < copyChunk")
    case True
    with run obtain v where v: "fin = None" "finishVolume env j (read @ rest) (of_nat (length pre')) n' (d' @ rest) = Inr v" "vols' = [v]"
      by (auto split: option.splits sum.splits)
    have "notFullBefore env j n' (d' @ rest)" by (rule notFullBefore_extend [OF room]) (use True in simp)
    then show ?thesis using v finishVolume_Inr [OF v(2)] read
      by (intro exI [of _ "[d' @ rest]"]) (auto simp: splitDone_def)
  next
    case False
    then have len: "length (take copyChunk rest) = copyChunk" "length (drop copyChunk rest) < length rest"
      "take copyChunk rest \<noteq> []" "rest \<noteq> []"
      using copyChunk_pos by auto
    have loop: "splitLoop env j fin (read @ take copyChunk rest) (drop copyChunk rest) (of_nat (length pre')) (n' + 1)
        (Some (n', d' @ take copyChunk rest)) = (None, vols')"
      using run False by (auto simp: Let_def split: option.splits prod.splits)
    have "splitState env j (read @ take copyChunk rest) (of_nat (length pre')) (n' + 1) (Some (n', d' @ take copyChunk rest))
        pre' n' (d' @ take copyChunk rest)"
      using chunked_extend [OF room len(1)] len(3) read by (simp add: splitState_def)
    from less.hyps [OF len(2) loop this] obtain parts where
      "splitDone env j fin pre' n' (d' @ rest) vols' parts" "parts \<noteq> []" "[] \<notin> set parts"
      by (auto simp: append_assoc)
    then show ?thesis using len(4) by auto
  qed
  from st show ?case
  proof (cases rule: nextVolume_cases [where rest = rest and fin = fin])
    case (stop err out)
    then have r: "err = None" "out = vols" using step by simp_all
    with stop(2) consider "cur = None" "volNum > 1" "vols = []" "rest = []" "fin = None"
      | "cur \<noteq> None" "vols = [finishedVolume env j read lastTotal n d]" "rest = []" "fin = None" by auto
    then show ?thesis
    proof cases
      case 1
      then show ?thesis using st by (intro exI [of _ "[]"]) (simp add: splitDone_def splitState_def)
    next
      case 2
      moreover have "d \<noteq> []" using 2(1) st by (auto simp: splitState_def)
      ultimately show ?thesis using ch readEq lt
        by (intro exI [of _ "[d]"]) (auto simp: splitDone_def chunked_def)
    qed
  next
    case same
    then obtain parts where p: "splitDone env j fin pre n (d @ rest) vols parts" "parts \<noteq> []"
        "d @ rest \<noteq> [] \<longrightarrow> [] \<notin> set parts" "d @ rest = [] \<longrightarrow> parts = [[]]"
      using fill [where out = "[]" and pre' = pre and n' = n and d' = d and vols' = vols] step readEq lt ch by auto
    then show ?thesis using same(3,4) by (intro exI [of _ parts]) auto
  next
    case new
    obtain vols' where vols: "vols = finishedVolume env j read lastTotal n d # vols'"
      using step new(1) by (auto simp: Let_def split: option.splits if_splits sum.splits prod.splits)
    have "\<exists>parts. splitDone env j fin read (n + 1) ([] @ rest) vols' parts \<and> parts \<noteq> [] \<and> ([] @ rest \<noteq> [] \<longrightarrow> [] \<notin> set parts)
        \<and> ([] @ rest = [] \<longrightarrow> parts = [[]])"
      by (rule fill [where out = "[finishedVolume env j read lastTotal n d]"]) (use step [unfolded new(1) vols] in \<open>simp_all only: sum.case prod.case append.simps chunked_Nil append_Nil2 simp_thms\<close>)
    with new(3) obtain parts where p: "splitDone env j fin read (n + 1) rest vols' parts" "parts \<noteq> []" "[] \<notin> set parts"
      by auto
    moreover have "d \<noteq> []" using new(4) st by (auto simp: splitState_def)
    ultimately show ?thesis
      using splitDone_first [of env j fin pre d n rest vols' parts] new(2) readEq lt ch vols
      by (intro exI [of _ "d # parts"]) auto
  qed
qed


lemma describes_Volumes [simp]:
  "describes env (j\<lparr>Volumes := vs\<rparr>) pre n parts = describes env j pre n parts"
  "cutWell env (j\<lparr>Volumes := vs\<rparr>) n parts = cutWell env j n parts"
proof -
  have "BackupVolumeObjectName (j\<lparr>Volumes := vs\<rparr>) k = BackupVolumeObjectName j k" for k
    by (simp add: BackupVolumeObjectName_def BackupVolumeObjectPrefix_def volumeNameParts_def)
  then have "finishedVolume env (j\<lparr>Volumes := vs\<rparr>) = finishedVolume env j"
    by (intro ext) (simp add: finishedVolume_def Let_def)
  then show "describes env (j\<lparr>Volumes := vs\<rparr>) pre n parts = describes env j pre n parts"
    by (induction parts arbitrary: pre n) simp_all
  show "cutWell env (j\<lparr>Volumes := vs\<rparr>) n parts = cutWell env j n parts"
    by (induction parts arbitrary: n) (simp_all add: notFullBefore_def volumeCut_def)
qed

lemma describes_totals:
  "map VolumeNumber (describes env j pre n parts) = map (\<lambda>i. n + int i) [0..<length parts]"
  "sum_list (map VolStreamBytes (describes env j pre n parts)) = of_nat (length (concat parts))"
proof (induction parts arbitrary: pre n)
  case (Cons p ps)
  {
    case 1
    have "[0..<length (p # ps)] = 0 # map Suc [0..<length ps]" by (simp add: map_Suc_upt upt_conv_Cons del: upt_Suc)
    then show ?case by (simp add: Cons.IH(1) finishedVolume_def Let_def comp_def add.assoc del: upt_Suc)
  next
    case 2
    show ?case by (simp add: Cons.IH(2) finishedVolume_def Let_def)
  }
qed simp_all

lemma sint_small:
  assumes "uint w < 2 ^ 63" shows "nat (sint (w :: 64 word)) = unat w"
proof -
  have "signed_take_bit 63 (uint w) = uint w"
    by (rule signed_take_bit_int_eq_self) (use assms uint_ge_0 [of w] in linarith)+
  then have "sint w = uint w" by (simp add: sint_uint)
  then show ?thesis by (simp only: unat_eq_nat_uint)
qed

text \<open>The run of the splitter behind a successful \<^verbatim>\<open>sendStream\<close>.\<close>

lemma sendStream_ok:
  assumes "sendStream env j startErr bytes exitErr = (j', None, vols)"
    and "skip = sum_list (map VolStreamBytes (Volumes j'))" "uint skip < 2 ^ 63"
  obtains k parts where "Volumes j' = take k (Volumes j)" "k \<le> length (Volumes j)"
    "map VolumeNumber (Volumes j') = map int [1..<k + 1]"
    "startErr = None" "exitErr = None" "ZFSStreamBytes j' = of_nat (length bytes)" "unat skip \<le> length bytes"
    "skip = 0 \<or> seSha256 env (take (unat skip) bytes) = keptStreamSHA256 j'"
    "vols = describes env j (take (unat skip) bytes) (int k + 1) parts" "concat parts = drop (unat skip) bytes"
    "cutWell env j (int k + 1) parts" "[] \<in> set parts \<Longrightarrow> bytes = [] \<and> Volumes j' = [] \<and> parts = [[]]"
proof -
  obtain tot volNum j1 where tot: "TotalBytesStreamedAndVols j = (tot, volNum, j1)" by (cases "TotalBytesStreamedAndVols j")
  obtain k where k: "k \<le> length (Volumes j)" "volNum = int k + 1" "Volumes j1 = take k (Volumes j)"
      "tot = sum_list (map VolStreamBytes (Volumes j1))" "map VolumeNumber (Volumes j1) = map int [1..<k + 1]"
    using TotalBytesStreamedAndVols_spec [OF tot] by blast
  have j1: "j1 = j\<lparr>Volumes := take k (Volumes j)\<rparr>"
    using tot k(2) by (auto simp: TotalBytesStreamedAndVols_def Let_def split: prod.splits)
  obtain j2 where start: "startErr = None" and split: "splitStream env j bytes exitErr = (j2, None, vols)"
      and j2: "j' = j2\<lparr>ZFSStreamBytes := of_nat (length bytes)\<rparr>"
    using assms(1) by (auto simp: sendStream_def split: option.splits prod.splits)
  have "j2 = j1" using split tot by (simp add: splitStream_def Let_def)
  note split = split [unfolded this] and j' = j2 [unfolded this]
  have skip: "skip = tot" using assms(2) k(4) j' by simp
  have n: "nat (sint skip) = unat skip"
    by (rule sint_small [OF assms(3)])
  have loop: "splitLoop env j1 exitErr (take (unat skip) bytes) (drop (unat skip) bytes) skip volNum None = (None, vols)"
    and len: "unat skip \<le> length bytes"
    and sha: "skip = 0 \<or> seSha256 env (take (unat skip) bytes) = keptStreamSHA256 j1"
  proof -
    have "(if skip > 0
           then if length bytes < unat skip then (Some (case exitErr of None \<Rightarrow> StreamShort skip | Some e \<Rightarrow> StreamRead e), [])
                else if seSha256 env (take (unat skip) bytes) \<noteq> keptStreamSHA256 j1 then (Some StreamDiffers, [])
                else splitLoop env j1 exitErr (take (unat skip) bytes) (drop (unat skip) bytes) skip volNum None
           else splitLoop env j1 exitErr [] bytes 0 volNum None) = (None, vols)"
      using split unfolding splitStream_def tot Let_def prod.case n skip [symmetric] by (simp only: prod.inject)
    then show "splitLoop env j1 exitErr (take (unat skip) bytes) (drop (unat skip) bytes) skip volNum None = (None, vols)"
      "unat skip \<le> length bytes" "skip = 0 \<or> seSha256 env (take (unat skip) bytes) = keptStreamSHA256 j1"
      by (auto simp: word_gt_0 split: if_splits)
  qed
  have "splitState env j1 (take (unat skip) bytes) skip volNum None (take (unat skip) bytes) volNum []"
    using len by (simp add: splitState_def)
  from splitLoop_done [OF loop this] obtain parts where
    d: "splitDone env j1 exitErr (take (unat skip) bytes) volNum ([] @ drop (unat skip) bytes) vols parts"
    and e: "drop (unat skip) bytes = [] \<and> parts = (if volNum > 1 then [] else [[]]) \<or> parts \<noteq> [] \<and> [] \<notin> set parts" by blast
  have empty: "bytes = [] \<and> Volumes j' = [] \<and> parts = [[]]" if "[] \<in> set parts"
  proof -
    have k0: "k = 0" "drop (unat skip) bytes = []" "parts = [[]]" using e that k(2) by (auto split: if_splits)
    then have "skip = 0" using skip k(3,4) by simp
    then show ?thesis using k0 j' k(3) by simp
  qed
  have "keptStreamSHA256 j' = keptStreamSHA256 j1" "Volumes j' = Volumes j1" by (simp_all add: j' keptStreamSHA256_def)
  then show ?thesis
    by (intro that [of k parts])
      (use d j1 j' k start len sha empty in \<open>simp_all add: splitDone_def del: upt_Suc\<close>)
qed

text \<open>
  C16. The volumes hold the stream. When a send returns without an error, \<^verbatim>\<open>zfs send\<close> succeeded, and the
  bytes after those of the kept volumes were cut into parts, in order and without loss; each is the
  content of one new volume, with its name, number, size, checksums and the hash of the stream so far;
  every volume but the last was filled to the cut, none was continued beyond it, and none is empty
  unless the whole stream is.
\<close>

theorem sendStream_splits:
  assumes "sendStream env j startErr bytes exitErr = (j', None, vols)"
    and "skip = sum_list (map VolStreamBytes (Volumes j'))" "uint skip < 2 ^ 63"
  shows "startErr = None \<and> exitErr = None \<and>
    (\<exists>parts. concat parts = drop (unat skip) bytes
       \<and> vols = describes env j (take (unat skip) bytes) (int (length (Volumes j')) + 1) parts
       \<and> cutWell env j (int (length (Volumes j')) + 1) parts
       \<and> ([] \<in> set parts \<longrightarrow> bytes = [] \<and> Volumes j' = [] \<and> parts = [[]]))"
proof -
  obtain k parts where p: "Volumes j' = take k (Volumes j)" "k \<le> length (Volumes j)" "startErr = None" "exitErr = None"
    "vols = describes env j (take (unat skip) bytes) (int k + 1) parts" "concat parts = drop (unat skip) bytes"
    "cutWell env j (int k + 1) parts" "[] \<in> set parts \<Longrightarrow> bytes = [] \<and> Volumes j' = [] \<and> parts = [[]]"
    by (rule sendStream_ok [OF assms]) blast
  have "length (Volumes j') = k" using p(1,2) by simp
  then show ?thesis using p(3-8) by blast
qed

text \<open>
  C13. A resumed send is one set. The volumes kept from the interrupted attempt and the new ones are
  numbered from 1 without a gap, together they hold as many bytes as the stream, and the bytes skipped
  have the hash recorded with the last kept volume: a stream that differs is refused.
\<close>

theorem sendStream_resumes:
  assumes "sendStream env j startErr bytes exitErr = (j', None, vols)"
    and "skip = sum_list (map VolStreamBytes (Volumes j'))" "uint skip < 2 ^ 63"
  shows "map VolumeNumber (Volumes j' @ vols) = map int [1..<length (Volumes j' @ vols) + 1]
    \<and> sum_list (map VolStreamBytes (Volumes j' @ vols)) = of_nat (length bytes)
    \<and> ZFSStreamBytes j' = of_nat (length bytes) \<and> unat skip \<le> length bytes
    \<and> (skip = 0 \<or> seSha256 env (take (unat skip) bytes) = StreamSHA256 (last (Volumes j')))
    \<and> prefix (Volumes j') (Volumes j)"
proof -
  obtain k parts where p: "Volumes j' = take k (Volumes j)" "k \<le> length (Volumes j)"
    "map VolumeNumber (Volumes j') = map int [1..<k + 1]" "ZFSStreamBytes j' = of_nat (length bytes)" "unat skip \<le> length bytes"
    "skip = 0 \<or> seSha256 env (take (unat skip) bytes) = keptStreamSHA256 j'"
    "vols = describes env j (take (unat skip) bytes) (int k + 1) parts" "concat parts = drop (unat skip) bytes"
    by (rule sendStream_ok [OF assms]) blast
  have k: "length (Volumes j') = k" "length vols = length parts"
    using p(1,2) describes_totals(1) [of env j "take (unat skip) bytes" "int k + 1" parts] p(7)
    by (simp_all add: map_eq_conv) (metis length_map length_upt diff_zero)
  have new: "map VolumeNumber vols = map int [k + 1..<k + 1 + length parts]"
    unfolding p(7) describes_totals(1) by (intro nth_equalityI) (simp_all add: nth_append del: upt_Suc)
  have "[1..<k + 1] @ [k + 1..<k + 1 + length parts] = [1..<k + 1 + length parts]"
    by (rule upt_add_eq_append [symmetric]) simp
  then have nums: "map VolumeNumber (Volumes j' @ vols) = map int [1..<length (Volumes j' @ vols) + 1]"
    unfolding map_append p(3) new length_append k by (metis map_append add.assoc add.commute)
  have "sum_list (map VolStreamBytes (Volumes j' @ vols)) = skip + of_nat (length bytes - unat skip)"
    unfolding map_append sum_list_append assms(2) [symmetric] p(7) describes_totals(2) p(8) by simp
  also have "\<dots> = of_nat (length bytes)" using p(5) by (simp add: of_nat_diff)
  finally have tot: "sum_list (map VolStreamBytes (Volumes j' @ vols)) = of_nat (length bytes)" .
  have "skip = 0 \<or> seSha256 env (take (unat skip) bytes) = StreamSHA256 (last (Volumes j'))"
    using p(6) assms(2) by (auto simp: keptStreamSHA256_def split: if_splits)
  then show ?thesis using nums tot p(1,4,5) by (auto simp: take_is_prefix)
qed


section \<open>A resumed send\<close>

definition exSplit :: splitEnv where
  "exSplit = \<lparr>seSha256 = (\<lambda>s. s), seMd5 = (\<lambda>s. s), seCrc32c = (\<lambda>s. 0), seCounter = (\<lambda>n d. of_nat (length d)),
     seContents = (\<lambda>n d. CHR ''z'' # d), seCreateErr = (\<lambda>n. None), seWriteErr = (\<lambda>n d. None), seCloseErr = (\<lambda>n. None),
     seHandErr = (\<lambda>n. None)\<rparr>"

definition exKept :: VolumeInfo where
  "exKept = \<lparr>ObjectName = ''v'', VolumeNumber = 1, SHA256Sum = ''zab'', MD5Sum = ''zab'', CRC32CSum32 = 0, VolSize = 3,
     VolStreamBytes = 2, StreamSHA256 = ''ab'', IsManifest = False, IsFinalManifest = False\<rparr>"

definition exSendJob :: JobInfo where
  "exSendJob = zeroJobInfo\<lparr>VolumeName := ''t'', Separator := ''|'', VolumeSize := 1, MaxFileBuffer := 2, Volumes := [exKept]\<rparr>"

lemma ex_send:
  "sendStream exSplit exSendJob None ''abcd'' None
     = (exSendJob\<lparr>ZFSStreamBytes := 4\<rparr>, None, [finishedVolume exSplit exSendJob ''abcd'' 2 2 ''cd''])"
proof -
  have tot: "TotalBytesStreamedAndVols exSendJob = (2, 2, exSendJob)"
    by (simp add: TotalBytesStreamedAndVols_def exSendJob_def exKept_def)
  have "volumeCut exSendJob = 997376" by (simp add: volumeCut_def exSendJob_def)
  moreover have "keptStreamSHA256 exSendJob = ''ab''" by (simp add: keptStreamSHA256_def exSendJob_def exKept_def)
  moreover have "nat (sint (2 :: 64 word)) = 2" by (subst sint_small) simp_all
  ultimately show ?thesis
    by (simp add: sendStream_def splitStream_def tot Let_def splitLoop.simps nextVolume_def createVolume_def finishVolume_def
        exSplit_def copyChunk_def BufferSize_def numeral_2_eq_2)
qed

lemma ex_send_skip: "2 = sum_list (map VolStreamBytes (Volumes (exSendJob\<lparr>ZFSStreamBytes := 4\<rparr>)))" "uint (2 :: 64 word) < 2 ^ 63"
  by (simp_all add: exSendJob_def exKept_def)

lemma sendStream_splits_witness: "\<exists>parts. concat parts = ''cd'' \<and> cutWell exSplit exSendJob 2 parts"
proof -
  have "length (Volumes (exSendJob\<lparr>ZFSStreamBytes := 4\<rparr>)) = 1" by (simp add: exSendJob_def)
  moreover have "drop (unat (2 :: 64 word)) ''abcd'' = ''cd''" by simp
  ultimately show ?thesis using sendStream_splits [OF ex_send ex_send_skip] by auto
qed

lemma sendStream_resumes_witness:
  "map VolumeNumber [exKept, finishedVolume exSplit exSendJob ''abcd'' 2 2 ''cd''] = map int [1, 2]"
  using sendStream_resumes [OF ex_send ex_send_skip] by (simp add: exSendJob_def upt_rec)

end
