(* ===== verification/Resume.thy ===== *)
theory Resume
  imports CacheProperties Planner Zfs
begin

text \<open>
  What \<^verbatim>\<open>backup/backup.go\<close> does before it sends a byte: the backups at every destination, the refusal to
  overwrite a set, completing a set that only some destinations have, and resuming an interrupted
  attempt from what the caches record of it.
\<close>

section \<open>Destinations\<close>

text \<open>
  A destination is its URI, its backend, the optional interface \<^verbatim>\<open>backends.Sizer\<close>, and what uploading an
  object there returns. Each has a cache of its own, with the record of the requests made to it. The
  objects uploaded are recorded with their destination.
\<close>

record destination =
  dUri :: string
  dBackend :: Backend
  dSizer :: "(string \<Rightarrow> string + 64 word) option"
  dUpload :: "string \<Rightarrow> string \<Rightarrow> string option"

record sendState =
  ssIO :: "string \<Rightarrow> ioState"
  ssUploads :: "(string \<times> string \<times> string) list"

definition setIO :: "string \<Rightarrow> ioState \<Rightarrow> sendState \<Rightarrow> sendState" where
  "setIO uri io st = st\<lparr>ssIO := (ssIO st)(uri := io)\<rparr>"

section \<open>The backups at a destination\<close>

fun readOurs ::
    "fsEnv \<Rightarrow> Codec \<Rightarrow> (string \<Rightarrow> string) \<Rightarrow> Backend \<Rightarrow> JobInfo \<Rightarrow> string \<Rightarrow> ioState \<Rightarrow> string list
      \<Rightarrow> (cache_error + Manifest list) \<times> ioState" where
  "readOurs env c md5 b j volume st [] = (Inr [], st)"
| "readOurs env c md5 b j volume st (obj # objs) =
     (if \<not> manifestMayBeFor obj (ManifestPrefix j) volume then readOurs env c md5 b j volume st objs
      else case readCachedManifest env c md5 b j st obj of
             (Inl err, st) \<Rightarrow> (Inl err, st)
           | (Inr m, st) \<Rightarrow>
               (case readOurs env c md5 b j volume st objs of
                  (Inl err, st) \<Rightarrow> (Inl err, st)
                | (Inr ms, st) \<Rightarrow> (Inr (if VolumeName m = volume then m # ms else ms), st)))"

datatype target_error = TargetSync sync_error | TargetRead cache_error

definition getBackupsForTarget ::
    "fsEnv \<Rightarrow> Codec \<Rightarrow> (string \<Rightarrow> string) \<Rightarrow> Backend \<Rightarrow> JobInfo \<Rightarrow> string \<Rightarrow> bool \<Rightarrow> ioState
      \<Rightarrow> (target_error + Manifest list) \<times> ioState" where
  "getBackupsForTarget env c md5 b j volume noRestore st =
     (case syncCacheMode env c md5 b j noRestore volume st of
        (Inl err, st) \<Rightarrow> (Inl (TargetSync err), st)
      | (Inr (manifests, _), st) \<Rightarrow>
          (case readOurs env c md5 b j volume st manifests of
             (Inl err, st) \<Rightarrow> (Inl (TargetRead err), st)
           | (Inr ms, st) \<Rightarrow> (Inr (sortBackupsNewestFirst ms), st)))"

section \<open>The stream of a set\<close>

definition recordSnapshotGUIDs :: "(SnapshotInfo \<Rightarrow> string + string) \<Rightarrow> 'a Manifest_scheme \<Rightarrow> 'a Manifest_scheme" where
  "recordSnapshotGUIDs guidOf j =
     (let rec = (\<lambda>s. s\<lparr>GUID := case guidOf s of Inl e \<Rightarrow> [] | Inr guid \<Rightarrow> guid\<rparr>);
          j = j\<lparr>BaseSnapshot := rec (BaseSnapshot j)\<rparr>
      in if Name (IncrementalSnapshot j) \<noteq> [] then j\<lparr>IncrementalSnapshot := rec (IncrementalSnapshot j)\<rparr> else j)"

datatype send_error =
    OptionMismatch string
  | SetExists string
  | SetPartlyExists string
  | MixedSource string
  | MixedStreamKind plan_error
  | TargetFailed target_error
  | DestinationFailed string
  | VolumeMissing string string
  | VolumeOther string string
  | ManifestUnreadable read_error
  | ManifestDownload io_error
  | ManifestTooBig
  | NoGuid
  | OldAttempt
  | LocalFailed string
  | SnapshotGone string

definition sameStream :: "string \<Rightarrow> Manifest \<Rightarrow> 'a Manifest_scheme \<Rightarrow> send_error option" where
  "sameStream zfsPath original current =
     (if Compressor original \<noteq> Compressor current then Some (OptionMismatch ''compressor'')
      else if EncryptTo original \<noteq> EncryptTo current then Some (OptionMismatch ''encryptTo'')
      else if SignFrom original \<noteq> SignFrom current then Some (OptionMismatch ''signFrom'')
      else if EncryptKeyFingerprint original \<noteq> EncryptKeyFingerprint current then Some (OptionMismatch ''encryption key'')
      else if SignKeyFingerprint original \<noteq> SignKeyFingerprint current then Some (OptionMismatch ''signing key'')
      else if GUID (BaseSnapshot original) \<noteq> GUID (BaseSnapshot current)
      then Some (OptionMismatch (''guid of '' @ Name (BaseSnapshot current)))
      else if GUID (IncrementalSnapshot original) \<noteq> GUID (IncrementalSnapshot current)
      then Some (OptionMismatch (''guid of '' @ Name (IncrementalSnapshot current)))
      else if joinWith (GetZFSSendCommand zfsPath original) '' '' \<noteq> joinWith (GetZFSSendCommand zfsPath current) '' ''
      then Some (OptionMismatch ''zfs send command'')
      else None)"

definition comparableJob :: "JobInfo \<Rightarrow> Manifest \<Rightarrow> JobInfo" where
  "comparableJob current manifest =
     (let c = (if EncryptKeyFingerprint manifest = [] then current\<lparr>EncryptKeyFingerprint := []\<rparr> else current);
          c = (if SignKeyFingerprint manifest = [] then c\<lparr>SignKeyFingerprint := []\<rparr> else c);
          c = (if GUID (BaseSnapshot manifest) = [] \<or> GUID (BaseSnapshot c) = []
               then c\<lparr>BaseSnapshot := (BaseSnapshot c)\<lparr>GUID := GUID (BaseSnapshot manifest)\<rparr>\<rparr> else c)
      in if GUID (IncrementalSnapshot manifest) = [] \<or> GUID (IncrementalSnapshot c) = []
         then c\<lparr>IncrementalSnapshot := (IncrementalSnapshot c)\<lparr>GUID := GUID (IncrementalSnapshot manifest)\<rparr>\<rparr> else c)"

section \<open>The source of an incremental\<close>

definition isSource :: "SnapshotInfo \<Rightarrow> Manifest \<Rightarrow> bool" where
  "isSource source b \<longleftrightarrow> Name (BaseSnapshot b) = Name source \<and> SnapshotInfo_Equal (BaseSnapshot b) source \<and>
     (GUID (BaseSnapshot b) = [] \<or> GUID source = [] \<or> GUID (BaseSnapshot b) = GUID source)"

definition sourceBackup :: "Manifest list \<Rightarrow> SnapshotInfo \<Rightarrow> Manifest option \<times> Manifest option" where
  "sourceBackup backups source =
     (case List.find (isSource source) backups of
        Some b \<Rightarrow> (Some b, None)
      | None \<Rightarrow> (None, List.find (\<lambda>b. Name (BaseSnapshot b) = Name source) backups))"

fun mixedChainAt ::
    "fsEnv \<Rightarrow> Codec \<Rightarrow> (string \<Rightarrow> string) \<Rightarrow> JobInfo \<Rightarrow> bool \<Rightarrow> destination list \<Rightarrow> sendState \<Rightarrow> send_error option \<times> sendState" where
  "mixedChainAt env c md5 j dryRun [] st = (None, st)"
| "mixedChainAt env c md5 j dryRun (d # ds) st =
     (case getBackupsForTarget env c md5 (dBackend d) j (VolumeName j) dryRun (ssIO st (dUri d)) of
        (Inl err, io) \<Rightarrow> (Some (TargetFailed err), setIO (dUri d) io st)
      | (Inr backups, io) \<Rightarrow>
          let st = setIO (dUri d) io st
          in case sourceBackup backups (IncrementalSnapshot j) of
               (None, Some other) \<Rightarrow> (Some (MixedSource (dUri d)), st)
             | (None, None) \<Rightarrow> mixedChainAt env c md5 j dryRun ds st
             | (Some source, _) \<Rightarrow>
                 (case MixedChainError (VolumeName j) source (Raw j) of
                    Some err \<Rightarrow> (Some (MixedStreamKind err), st)
                  | None \<Rightarrow> mixedChainAt env c md5 j dryRun ds st))"

definition refuseMixedChain ::
    "fsEnv \<Rightarrow> Codec \<Rightarrow> (string \<Rightarrow> string) \<Rightarrow> JobInfo \<Rightarrow> bool \<Rightarrow> destination list \<Rightarrow> sendState \<Rightarrow> send_error option \<times> sendState" where
  "refuseMixedChain env c md5 j dryRun dests st =
     (if isFull j then (None, st) else mixedChainAt env c md5 j dryRun dests st)"

section \<open>Completing a set\<close>

text \<open>\<^verbatim>\<open>hashObject\<close>: the size and the hash of what a download returns.\<close>

definition hashObject :: "(string \<Rightarrow> string) \<Rightarrow> Backend \<Rightarrow> string \<Rightarrow> string + 64 word \<times> string" where
  "hashObject sha256 b objectName =
     (case bDownload b objectName of
        Inl e \<Rightarrow> Inl e
      | Inr (chunks, Some e) \<Rightarrow> Inl e
      | Inr (chunks, None) \<Rightarrow> Inr (of_nat (length (concat chunks)), sha256 (concat chunks)))"

definition volumeMatches :: "(string \<Rightarrow> string) \<Rightarrow> destination \<Rightarrow> VolumeInfo \<Rightarrow> string + bool" where
  "volumeMatches sha256 d vol =
     (case (case dSizer d of None \<Rightarrow> Inr (VolSize vol) | Some f \<Rightarrow> f (ObjectName vol)) of
        Inl e \<Rightarrow> Inl e
      | Inr sz \<Rightarrow>
          if sz = VolSize vol
          then (case hashObject sha256 (dBackend d) (ObjectName vol) of
                  Inl e \<Rightarrow> Inl e
                | Inr (n, hash) \<Rightarrow> Inr (n = VolSize vol \<and> hash = SHA256Sum vol))
          else Inr False)"

fun verifyEach :: "(string \<Rightarrow> string) \<Rightarrow> destination \<Rightarrow> VolumeInfo list \<Rightarrow> send_error option" where
  "verifyEach sha256 d [] = None"
| "verifyEach sha256 d (vol # vols) =
     (case volumeMatches sha256 d vol of
        Inl e \<Rightarrow> Some (DestinationFailed e)
      | Inr ok \<Rightarrow> if ok then verifyEach sha256 d vols else Some (VolumeOther (dUri d) (ObjectName vol)))"

definition verifyVolumesAt ::
    "(string \<Rightarrow> string) \<Rightarrow> JobInfo \<Rightarrow> Manifest \<Rightarrow> destination \<Rightarrow> sendState \<Rightarrow> send_error option \<times> sendState" where
  "verifyVolumesAt sha256 j manifest d st =
     (case bList (dBackend d) (BackupVolumeObjectPrefix j) of
        Inl e \<Rightarrow> (Some (DestinationFailed e), st)
      | Inr listed \<Rightarrow>
          (case List.find (\<lambda>vol. ObjectName vol \<notin> set listed) (Volumes manifest) of
             Some vol \<Rightarrow> (Some (VolumeMissing (dUri d) (ObjectName vol)), st)
           | None \<Rightarrow>
               (case PreDownload (dBackend d) (ssIO st (dUri d)) (map ObjectName (Volumes manifest)) of
                  (Some e, io) \<Rightarrow> (Some (DestinationFailed e), setIO (dUri d) io st)
                | (None, io) \<Rightarrow> (verifyEach sha256 d (Volumes manifest), setIO (dUri d) io st))))"

fun verifyAll ::
    "(string \<Rightarrow> string) \<Rightarrow> JobInfo \<Rightarrow> Manifest \<Rightarrow> destination list \<Rightarrow> sendState \<Rightarrow> send_error option \<times> sendState" where
  "verifyAll sha256 j manifest [] st = (None, st)"
| "verifyAll sha256 j manifest (d # ds) st =
     (case verifyVolumesAt sha256 j manifest d st of
        (Some err, st) \<Rightarrow> (Some err, st)
      | (None, st) \<Rightarrow> verifyAll sha256 j manifest ds st)"

text \<open>\<^verbatim>\<open>uploadManifest\<close> with the contents of its file: each destination gets the object, then its cache.\<close>

fun uploadManifest ::
    "fsEnv \<Rightarrow> (string \<Rightarrow> string) \<Rightarrow> string \<Rightarrow> string \<Rightarrow> destination list \<Rightarrow> sendState \<Rightarrow> send_error option \<times> sendState" where
  "uploadManifest env md5 contents name [] st = (None, st)"
| "uploadManifest env md5 contents name (d # ds) st =
     (case dUpload d name contents of
        Some e \<Rightarrow> (Some (DestinationFailed e), st)
      | None \<Rightarrow>
          let st = st\<lparr>ssUploads := ssUploads st @ [(dUri d, name, contents)]\<rparr>;
              io = ssIO st (dUri d);
              (err, dir) = WriteFileAtomic env (Cached io) (md5 name) (Inr contents);
              st = setIO (dUri d) (io\<lparr>Cached := dir\<rparr>) st
          in case err of
               Some e \<Rightarrow> (Some (LocalFailed name), st)
             | None \<Rightarrow> uploadManifest env md5 contents name ds st)"

text \<open>
  \<^verbatim>\<open>copyManifest\<close>: the manifest is downloaded to a temporary file (\<open>tmpErr\<close> is the error of creating it),
  read, compared with this send, and copied once its volumes are verified at every destination that
  lacks it.
\<close>

definition copyManifest ::
    "fsEnv \<Rightarrow> Codec \<Rightarrow> (string \<Rightarrow> string) \<Rightarrow> (string \<Rightarrow> string) \<Rightarrow> string \<Rightarrow> string option \<Rightarrow> JobInfo \<Rightarrow> destination \<Rightarrow> destination list
      \<Rightarrow> sendState \<Rightarrow> send_error option \<times> sendState" where
  "copyManifest env c md5 sha256 zfsPath tmpErr j have_d lagging st =
     (let name = ManifestObjectName j
      in case tmpErr of
           Some e \<Rightarrow> (Some (LocalFailed e), st)
         | None \<Rightarrow>
             (case PreDownload (dBackend have_d) (ssIO st (dUri have_d)) [name] of
                (Some e, io) \<Rightarrow> (Some (DestinationFailed e), setIO (dUri have_d) io st)
              | (None, io) \<Rightarrow>
                  (case downloadTo env c (dBackend have_d) (io\<lparr>Cached := []\<rparr>) name ''tmp'' of
                     (err, tmp) \<Rightarrow>
                       let st = setIO (dUri have_d) (io\<lparr>Calls := Calls tmp\<rparr>) st
                       in case err of
                            Some err \<Rightarrow> (Some (ManifestDownload err), st)
                          | None \<Rightarrow>
                         (case readCached c (Cached tmp) ''tmp'' of
                            Inl err \<Rightarrow> (Some (ManifestUnreadable err), st)
                          | Inr manifest \<Rightarrow>
                              (case sameStream zfsPath manifest (comparableJob j manifest) of
                                 Some err \<Rightarrow> (Some err, st)
                               | None \<Rightarrow>
                                   (case verifyAll sha256 j manifest lagging st of
                                      (Some err, st) \<Rightarrow> (Some err, st)
                                    | (None, st) \<Rightarrow>
                                        uploadManifest env md5 (case map_of (Cached tmp) ''tmp'' of Some e \<Rightarrow> FileData e | None \<Rightarrow> [])
                                          name lagging st))))))"

fun havingSet :: "string \<Rightarrow> destination list \<Rightarrow> string + (destination list \<times> destination list)" where
  "havingSet name [] = Inr ([], [])"
| "havingSet name (d # ds) =
     (case bList (dBackend d) name of
        Inl e \<Rightarrow> Inl e
      | Inr existing \<Rightarrow>
          (case havingSet name ds of
             Inl e \<Rightarrow> Inl e
           | Inr (have_it, missing) \<Rightarrow>
               Inr (if name \<in> set existing then (d # have_it, missing) else (have_it, d # missing))))"

text \<open>\<^verbatim>\<open>refuseExistingSet\<close>: whether the send is done, and its error.\<close>

definition refuseExistingSet ::
    "fsEnv \<Rightarrow> Codec \<Rightarrow> (string \<Rightarrow> string) \<Rightarrow> (string \<Rightarrow> string) \<Rightarrow> string \<Rightarrow> string option \<Rightarrow> JobInfo \<Rightarrow> destination list \<Rightarrow> bool
      \<Rightarrow> sendState \<Rightarrow> (bool \<times> send_error option) \<times> sendState" where
  "refuseExistingSet env c md5 sha256 zfsPath tmpErr j dests dryRun st =
     (let name = ManifestObjectName j
      in case havingSet name dests of
           Inl e \<Rightarrow> ((False, Some (DestinationFailed e)), st)
         | Inr ([], missing) \<Rightarrow> ((False, None), st)
         | Inr (h # _, []) \<Rightarrow> ((False, Some (SetExists name)), st)
         | Inr (h # _, missing) \<Rightarrow>
             if \<not> Resume j \<and> \<not> CompletePartial j then ((False, Some (SetPartlyExists name)), st)
             else if dryRun then ((True, None), st)
             else (case copyManifest env c md5 sha256 zfsPath tmpErr j h missing st of (err, st) \<Rightarrow> ((True, err), st)))"


section \<open>Manifests in the caches\<close>

definition partialManifestCachePath :: "(string \<Rightarrow> string) \<Rightarrow> JobInfo \<Rightarrow> string" where
  "partialManifestCachePath md5 j = md5 (ManifestObjectName j)"

fun discardPartialManifests ::
    "fsEnv \<Rightarrow> (string \<Rightarrow> string) \<Rightarrow> JobInfo \<Rightarrow> destination list \<Rightarrow> sendState \<Rightarrow> send_error option \<times> sendState" where
  "discardPartialManifests env md5 j [] st = (None, st)"
| "discardPartialManifests env md5 j (d # ds) st =
     (let path = partialManifestCachePath md5 j; io = ssIO st (dUri d)
      in if map_of (Cached io) path = None then discardPartialManifests env md5 j ds st
         else case removeFile env io path of
                (Some e, io) \<Rightarrow> (Some (LocalFailed e), st)
              | (None, io) \<Rightarrow>
                  let st = setIO (dUri d) io st
                  in case fsSyncErr env path of
                       Some e \<Rightarrow> (Some (LocalFailed e), st)
                     | None \<Rightarrow> discardPartialManifests env md5 j ds st)"

text \<open>
  \<^verbatim>\<open>saveManifest\<close>: the job is encoded (\<open>mEncode\<close>, JSON), sealed (\<open>mSeal\<close>: compressed, encrypted and signed,
  or an error) and copied to the cache of every destination; \<open>mCreateErr\<close> is the error of creating the
  volume. Its length is checked before it is cached. \<^verbatim>\<open>sort.Sort\<close> orders the volumes by number.
\<close>

record manifestIO =
  mCreateErr :: "string option"
  mEncode :: "JobInfo \<Rightarrow> string"
  mSeal :: "string \<Rightarrow> string + string"

definition sortVolumes :: "VolumeInfo list \<Rightarrow> VolumeInfo list" where
  "sortVolumes vols = sort_key VolumeNumber vols"

definition deleteURI :: string where "deleteURI = ''delete://''"

fun copyToCaches ::
    "fsEnv \<Rightarrow> string \<Rightarrow> string \<Rightarrow> string list \<Rightarrow> sendState \<Rightarrow> send_error option \<times> sendState" where
  "copyToCaches env path contents [] st = (None, st)"
| "copyToCaches env path contents (uri # uris) st =
     (if uri = deleteURI then copyToCaches env path contents uris st
      else let io = ssIO st uri;
               (err, dir) = WriteFileAtomic env (Cached io) path (Inr contents);
               st = setIO uri (io\<lparr>Cached := dir\<rparr>) st
           in case err of
                Some e \<Rightarrow> (Some (LocalFailed path), st)
              | None \<Rightarrow> copyToCaches env path contents uris st)"

definition saveManifest ::
    "fsEnv \<Rightarrow> Codec \<Rightarrow> (string \<Rightarrow> string) \<Rightarrow> manifestIO \<Rightarrow> JobInfo \<Rightarrow> sendState \<Rightarrow> (send_error + string) \<times> JobInfo \<times> sendState" where
  "saveManifest env c md5 mio j st =
     (let j = j\<lparr>Volumes := sortVolumes (Volumes j)\<rparr>
      in case mCreateErr mio of
           Some e \<Rightarrow> (Inl (LocalFailed e), j, st)
         | None \<Rightarrow>
             (case mSeal mio (mEncode mio j) of
                Inl e \<Rightarrow> (Inl (LocalFailed e), j, st)
              | Inr contents \<Rightarrow>
                  if length (mEncode mio j) > cMaxBytes c then (Inl ManifestTooBig, j, st)
                  else case copyToCaches env (partialManifestCachePath md5 j) contents (Destinations j) st of
                         (Some err, st) \<Rightarrow> (Inl err, j, st)
                       | (None, st) \<Rightarrow> (Inr contents, j, st)))"

section \<open>Resuming\<close>

text \<open>How many of the volumes, numbered on from \<open>n\<close>, a destination has, with the right size where it tells sizes.\<close>

fun verifiedRun :: "string list \<Rightarrow> (string \<Rightarrow> string + 64 word) option \<Rightarrow> nat \<Rightarrow> VolumeInfo list \<Rightarrow> string + nat" where
  "verifiedRun present sizer n [] = Inr n"
| "verifiedRun present sizer n (vol # vols) =
     (if VolumeNumber vol \<noteq> int n + 1 then Inr n
      else if ObjectName vol \<notin> set present then Inr n
      else case sizer of
             None \<Rightarrow> verifiedRun present sizer (n + 1) vols
           | Some f \<Rightarrow>
               (case f (ObjectName vol) of
                  Inl e \<Rightarrow> Inl e
                | Inr sz \<Rightarrow> if sz \<noteq> VolSize vol then Inr n else verifiedRun present sizer (n + 1) vols))"

fun verifiedAt :: "string \<Rightarrow> VolumeInfo list \<Rightarrow> nat \<Rightarrow> destination list \<Rightarrow> string + nat" where
  "verifiedAt pre cached keep [] = Inr keep"
| "verifiedAt pre cached keep (d # ds) =
     (case bList (dBackend d) pre of
        Inl e \<Rightarrow> Inl e
      | Inr listed \<Rightarrow>
          (case verifiedRun listed (dSizer d) 0 (take keep cached) of
             Inl e \<Rightarrow> Inl e
           | Inr keep \<Rightarrow> verifiedAt pre cached keep ds))"

definition verifiedVolumes :: "JobInfo \<Rightarrow> VolumeInfo list \<Rightarrow> destination list \<Rightarrow> string + VolumeInfo list" where
  "verifiedVolumes j cached dests =
     (let cached = sortVolumes cached
      in case verifiedAt (BackupVolumeObjectPrefix j) cached (length cached) dests of
           Inl e \<Rightarrow> Inl e
         | Inr keep \<Rightarrow> Inr (take keep cached))"

definition sameCached :: "VolumeInfo \<Rightarrow> VolumeInfo \<Rightarrow> bool" where
  "sameCached their mine \<longleftrightarrow> VolumeNumber their = VolumeNumber mine \<and> ObjectName their = ObjectName mine
     \<and> VolSize their = VolSize mine \<and> SHA256Sum their = SHA256Sum mine"

fun sameRun :: "VolumeInfo list \<Rightarrow> VolumeInfo list \<Rightarrow> nat" where
  "sameRun (mine # ms) (their # ts) = (if sameCached their mine then Suc (sameRun ms ts) else 0)"
| "sameRun _ _ = 0"

definition cachedVolumes :: "Codec \<Rightarrow> (string \<Rightarrow> string) \<Rightarrow> JobInfo \<Rightarrow> sendState \<Rightarrow> destination \<Rightarrow> VolumeInfo list" where
  "cachedVolumes c md5 j st d =
     (case readCached c (Cached (ssIO st (dUri d))) (partialManifestCachePath md5 j) of
        Inl err \<Rightarrow> []
      | Inr m \<Rightarrow> sortVolumes (Volumes m))"

definition cachedAtEveryDestination ::
    "Codec \<Rightarrow> (string \<Rightarrow> string) \<Rightarrow> JobInfo \<Rightarrow> VolumeInfo list \<Rightarrow> destination list \<Rightarrow> sendState \<Rightarrow> VolumeInfo list" where
  "cachedAtEveryDestination c md5 j cached dests st =
     (let cached = sortVolumes cached
      in take (foldl (\<lambda>keep d. sameRun (take keep cached) (cachedVolumes c md5 j st d)) (length cached) (tl dests)) cached)"

text \<open>
  \<^verbatim>\<open>tryResume\<close>: whether nothing is left to send, the error, the job with the volumes it keeps. The first
  error is that of creating a manifest volume, whose file is not used.
\<close>

definition tryResume ::
    "fsEnv \<Rightarrow> Codec \<Rightarrow> (string \<Rightarrow> string) \<Rightarrow> string \<Rightarrow> manifestIO \<Rightarrow> JobInfo \<Rightarrow> destination list \<Rightarrow> sendState
      \<Rightarrow> (bool \<times> send_error option) \<times> JobInfo \<times> sendState" where
  "tryResume env c md5 zfsPath mio j dests st =
     (let startOver = (case discardPartialManifests env md5 j dests st of (err, st) \<Rightarrow> ((False, err), j, st));
          path = partialManifestCachePath md5 j;
          cache = Cached (ssIO st (dUri (hd dests)))
      in case mCreateErr mio of
           Some e \<Rightarrow> ((False, Some (LocalFailed e)), j, st)
         | None \<Rightarrow>
             (case readCached c cache path of
                Inl NotExist \<Rightarrow> startOver
              | Inl (KeyError _) \<Rightarrow> ((False, Some (OptionMismatch ''key'')), j, st)
              | Inl _ \<Rightarrow> startOver
              | Inr original \<Rightarrow>
                  if GUID (BaseSnapshot j) = [] then ((False, Some NoGuid), j, st)
                  else case sameStream zfsPath original j of
                         Some err \<Rightarrow> ((False, Some err), j, st)
                       | None \<Rightarrow>
                           if list_ex (\<lambda>vol. StreamSHA256 vol = []) (Volumes original) then ((False, Some OldAttempt), j, st)
                           else case verifiedVolumes j (Volumes original) dests of
                                  Inl e \<Rightarrow> ((False, Some (DestinationFailed e)), j, st)
                                | Inr vols \<Rightarrow>
                                    let vols = cachedAtEveryDestination c md5 j vols dests st
                                    in if vols = [] then startOver
                                       else if \<not> isZero (EndTime original) \<and> length vols = length (Volumes original)
                                       then (case uploadManifest env md5 (case map_of cache path of Some e \<Rightarrow> FileData e | None \<Rightarrow> [])
                                                    (ManifestObjectName j) dests st of
                                               (err, st) \<Rightarrow> ((True, err), j, st))
                                       else let j = j\<lparr>Volumes := vols, StartTime := StartTime original\<rparr>
                                            in case saveManifest env c md5 mio j st of
                                                 (Inl err, j, st) \<Rightarrow> ((False, Some err), j, st)
                                               | (Inr contents, j, st) \<Rightarrow> ((False, None), j, st)))"


section \<open>What is kept\<close>

lemma ssIO_setIO [simp]: "ssIO (setIO uri io st) u = (if u = uri then io else ssIO st u)"
  and ssUploads_setIO [simp]: "ssUploads (setIO uri io st) = ssUploads st"
  by (simp_all add: setIO_def)

text \<open>A volume that the destination lists, with its size where the destination tells sizes.\<close>

definition listedAt :: "string \<Rightarrow> destination \<Rightarrow> VolumeInfo \<Rightarrow> bool" where
  "listedAt pre d vol \<longleftrightarrow>
     (\<exists>listed. bList (dBackend d) pre = Inr listed \<and> ObjectName vol \<in> set listed)
     \<and> (\<forall>f. dSizer d = Some f \<longrightarrow> f (ObjectName vol) = Inr (VolSize vol))"

lemma verifiedRun_spec:
  assumes "verifiedRun present sizer n vols = Inr k"
  shows "n \<le> k \<and> k \<le> n + length vols \<and>
    (\<forall>i<k - n. VolumeNumber (vols ! i) = int (n + i) + 1 \<and> ObjectName (vols ! i) \<in> set present
       \<and> (\<forall>f. sizer = Some f \<longrightarrow> f (ObjectName (vols ! i)) = Inr (VolSize (vols ! i))))"
  using assms
proof (induction vols arbitrary: n)
  case (Cons vol vols)
  show ?case
  proof (cases "VolumeNumber vol = int n + 1 \<and> ObjectName vol \<in> set present \<and> (\<forall>f. sizer = Some f \<longrightarrow> f (ObjectName vol) = Inr (VolSize vol))")
    case True
    then have run: "verifiedRun present sizer (n + 1) vols = Inr k"
      using Cons.prems by (auto split: option.splits)
    note IH = Cons.IH [OF run]
    have "VolumeNumber ((vol # vols) ! i) = int (n + i) + 1 \<and> ObjectName ((vol # vols) ! i) \<in> set present
       \<and> (\<forall>f. sizer = Some f \<longrightarrow> f (ObjectName ((vol # vols) ! i)) = Inr (VolSize ((vol # vols) ! i)))" if "i < k - n" for i
      using IH True that by (cases i) auto
    then show ?thesis using IH by auto
  next
    case False
    then have "k = n" using Cons.prems by (auto split: if_splits option.splits sum.splits)
    then show ?thesis by simp
  qed
qed simp

lemma verifiedAt_spec:
  assumes "verifiedAt pre cached keep dests = Inr k" and "keep \<le> length cached"
  shows "k \<le> keep \<and> (\<forall>d\<in>set dests. \<forall>i<k. VolumeNumber (cached ! i) = int i + 1 \<and> listedAt pre d (cached ! i))"
  using assms
proof (induction dests arbitrary: keep)
  case (Cons d ds)
  obtain listed keep' where l: "bList (dBackend d) pre = Inr listed"
    and run: "verifiedRun listed (dSizer d) 0 (take keep cached) = Inr keep'" and rest: "verifiedAt pre cached keep' ds = Inr k"
    using Cons.prems(1) by (auto split: sum.splits)
  note r = verifiedRun_spec [OF run]
  then have le: "keep' \<le> keep" using Cons.prems(2) by simp
  then have IH: "k \<le> keep'" "\<forall>d\<in>set ds. \<forall>i<k. VolumeNumber (cached ! i) = int i + 1 \<and> listedAt pre d (cached ! i)"
    using Cons.IH [OF rest] Cons.prems(2) by auto
  have "VolumeNumber (cached ! i) = int i + 1 \<and> listedAt pre d (cached ! i)" if "i < k" for i
  proof -
    have i: "i < keep' - 0" "i < keep" using that IH(1) le by simp_all
    then have "take keep cached ! i = cached ! i" by simp
    then show ?thesis using r i(1) l by (auto simp: listedAt_def)
  qed
  then show ?case using IH le by simp
qed simp

lemma sameRun_spec:
  "sameRun ms ts \<le> length ms \<and> sameRun ms ts \<le> length ts \<and> (\<forall>i < sameRun ms ts. sameCached (ts ! i) (ms ! i))"
proof (induction ms ts rule: sameRun.induct)
  case (1 mine ms their ts)
  then show ?case by (auto simp: nth_Cons split: nat.split)
qed simp_all

lemma sameRuns_spec:
  assumes "keep \<le> length cached" "k = foldl (\<lambda>keep d. sameRun (take keep cached) (vols d)) keep ds"
  shows "k \<le> keep \<and> (\<forall>d\<in>set ds. \<forall>i<k. i < length (vols d) \<and> sameCached (vols d ! i) (cached ! i))"
  using assms
proof (induction ds arbitrary: keep)
  case (Cons d ds)
  let ?keep = "sameRun (take keep cached) (vols d)"
  have r: "?keep \<le> keep" "?keep \<le> length (vols d)" "\<forall>i<?keep. sameCached (vols d ! i) (cached ! i)"
    using sameRun_spec [of "take keep cached" "vols d"] Cons.prems(1) by auto
  then have "k \<le> ?keep \<and> (\<forall>d\<in>set ds. \<forall>i<k. i < length (vols d) \<and> sameCached (vols d ! i) (cached ! i))"
    using Cons.prems by (intro Cons.IH) auto
  then show ?case using r by auto
qed simp

lemma set_sortVolumes [simp]: "set (sortVolumes vs) = set vs" by (simp add: sortVolumes_def)

lemma sortVolumes_sorted: "map VolumeNumber vs = map int [1..<length vs + 1] \<Longrightarrow> sortVolumes vs = vs"
proof -
  assume "map VolumeNumber vs = map int [1..<length vs + 1]"
  moreover have "sorted (map int [1..<length vs + 1])" unfolding sorted_map by (rule sorted_wrt_mono_rel [OF _ sorted_upt]) simp
  ultimately show ?thesis unfolding sortVolumes_def by (intro sort_key_id_if_sorted) simp
qed

text \<open>The volumes that a resume keeps: numbered from 1, at every destination, and in every cache.\<close>

lemma resume_kept:
  assumes "verifiedVolumes j cached dests = Inr vols" "kept = cachedAtEveryDestination c md5 j vols dests st" "dests \<noteq> []"
    and "cachedVolumes c md5 j st (hd dests) = sortVolumes cached"
  shows "map VolumeNumber kept = map int [1..<length kept + 1]" "set kept \<subseteq> set cached"
    and "v \<in> set kept \<Longrightarrow> d \<in> set dests \<Longrightarrow> listedAt (BackupVolumeObjectPrefix j) d v"
    and "v \<in> set kept \<Longrightarrow> d \<in> set dests \<Longrightarrow> \<exists>w\<in>set (cachedVolumes c md5 j st d). sameCached w v"
proof -
  let ?s = "sortVolumes cached"
  obtain keep where keep: "verifiedAt (BackupVolumeObjectPrefix j) ?s (length ?s) dests = Inr keep" and vols: "vols = take keep ?s"
    using assms(1) by (auto simp: verifiedVolumes_def Let_def split: sum.splits)
  note at = verifiedAt_spec [OF keep]
  have "map VolumeNumber vols = map int [1..<length vols + 1]"
    unfolding vols using at assms(3) by (intro nth_equalityI) (auto simp del: upt_Suc dest!: bspec [OF _ hd_in_set])
  then have sorted: "sortVolumes vols = vols" by (rule sortVolumes_sorted)
  define k where "k = foldl (\<lambda>keep d. sameRun (take keep vols) (cachedVolumes c md5 j st d)) (length vols) (tl dests)"
  have kept: "kept = take k vols" using assms(2) by (simp add: cachedAtEveryDestination_def Let_def sorted k_def)
  have runs: "k \<le> length vols \<and> (\<forall>d\<in>set (tl dests). \<forall>i<k. i < length (cachedVolumes c md5 j st d)
      \<and> sameCached (cachedVolumes c md5 j st d ! i) (vols ! i))"
    by (rule sameRuns_spec [OF _ k_def]) simp
  have nth: "kept ! i = ?s ! i" "i < keep" if "i < length kept" for i
    using that runs by (auto simp: kept vols)
  show "map VolumeNumber kept = map int [1..<length kept + 1]"
    using nth at assms(3) by (intro nth_equalityI) (auto simp del: upt_Suc dest!: bspec [OF _ hd_in_set])
  show sub: "set kept \<subseteq> set cached" unfolding kept vols by (auto dest!: in_set_takeD)
  show "listedAt (BackupVolumeObjectPrefix j) d v" if v: "v \<in> set kept" and d: "d \<in> set dests"
  proof -
    obtain i where "i < length kept" "v = kept ! i" using v by (auto simp: in_set_conv_nth)
    then show ?thesis using at nth [of i] d by simp
  qed
  show "\<exists>w\<in>set (cachedVolumes c md5 j st d). sameCached w v" if v: "v \<in> set kept" and d: "d \<in> set dests"
  proof (cases "d = hd dests")
    case True
    then show ?thesis using sub v assms(4) by (intro bexI [of _ v]) (auto simp: sameCached_def)
  next
    case False
    then have "d \<in> set (tl dests)" using d assms(3) by (cases dests) auto
    moreover obtain i where "i < length kept" "v = kept ! i" using v by (auto simp: in_set_conv_nth)
    ultimately show ?thesis using runs by (intro bexI [of _ "cachedVolumes c md5 j st d ! i"]) (auto simp: kept)
  qed
qed


section \<open>The caches after a resume\<close>

lemma discardPartialManifests_ok:
  assumes "discardPartialManifests env md5 j dests st = (None, st')"
  shows "(\<forall>d\<in>set dests. map_of (Cached (ssIO st' (dUri d))) (partialManifestCachePath md5 j) = None)
    \<and> (\<forall>u. map_of (Cached (ssIO st u)) (partialManifestCachePath md5 j) = None \<longrightarrow>
      map_of (Cached (ssIO st' u)) (partialManifestCachePath md5 j) = None)
    \<and> ssUploads st' = ssUploads st"
  using assms
proof (induction dests arbitrary: st)
  case (Cons a ds)
  let ?path = "partialManifestCachePath md5 j" and ?io = "ssIO st (dUri a)"
  obtain st1 where st1: "discardPartialManifests env md5 j ds st1 = (None, st')" "ssUploads st1 = ssUploads st"
    "map_of (Cached (ssIO st1 (dUri a))) ?path = None"
    "\<And>u. map_of (Cached (ssIO st u)) ?path = None \<Longrightarrow> map_of (Cached (ssIO st1 u)) ?path = None"
  proof (cases "map_of (Cached ?io) ?path = None")
    case True
    then show ?thesis using Cons.prems that [of st] by (simp add: Let_def)
  next
    case False
    then obtain io where io: "removeFile env ?io ?path = (None, io)" "discardPartialManifests env md5 j ds (setIO (dUri a) io st) = (None, st')"
      using Cons.prems by (auto simp: Let_def split: prod.splits option.splits)
    have "map_of (Cached io) ?path = None"
      using io(1) by (auto simp: removeFile_def delete_conv' split: option.splits)
    then show ?thesis using io(2) by (intro that [of "setIO (dUri a) io st"]) auto
  qed
  then show ?case using Cons.IH [OF st1(1)] by auto
qed simp

definition holdsFile :: "dir \<Rightarrow> string \<Rightarrow> string \<Rightarrow> bool" where
  "holdsFile d path contents \<longleftrightarrow> (\<exists>e. map_of d path = Some e \<and> \<not> IsDir e \<and> FileData e = contents)"

lemma WriteFileAtomic_ok:
  "WriteFileAtomic env d name (Inr bytes) = (None, d') \<Longrightarrow> holdsFile d' name bytes"
  by (auto simp: WriteFileAtomic_def holdsFile_def Let_def update_conv' split: option.splits)

lemma copyToCaches_ok:
  assumes "copyToCaches env path contents uris st = (None, st')"
  shows "(\<forall>uri\<in>set uris. uri \<noteq> deleteURI \<longrightarrow> holdsFile (Cached (ssIO st' uri)) path contents)
    \<and> (\<forall>u. holdsFile (Cached (ssIO st u)) path contents \<longrightarrow> holdsFile (Cached (ssIO st' u)) path contents)
    \<and> ssUploads st' = ssUploads st"
  using assms
proof (induction uris arbitrary: st)
  case (Cons a uris)
  obtain st1 where st1: "copyToCaches env path contents uris st1 = (None, st')" "ssUploads st1 = ssUploads st"
    "a \<noteq> deleteURI \<Longrightarrow> holdsFile (Cached (ssIO st1 a)) path contents"
    "\<And>u. holdsFile (Cached (ssIO st u)) path contents \<Longrightarrow> holdsFile (Cached (ssIO st1 u)) path contents"
  proof (cases "a = deleteURI")
    case True
    then show ?thesis using Cons.prems that [of st] by simp
  next
    case False
    then obtain dir where dir: "WriteFileAtomic env (Cached (ssIO st a)) path (Inr contents) = (None, dir)"
        "copyToCaches env path contents uris (setIO a (ssIO st a\<lparr>Cached := dir\<rparr>) st) = (None, st')"
      using Cons.prems by (auto simp: Let_def split: prod.splits option.splits)
    then show ?thesis using WriteFileAtomic_ok [OF dir(1)]
      by (intro that [of "setIO a (ssIO st a\<lparr>Cached := dir\<rparr>) st"]) auto
  qed
  then show ?case using Cons.IH [OF st1(1)] by auto
qed simp


lemma saveManifest_ok:
  assumes "saveManifest env c md5 mio j st = (Inr contents, j', st')"
  shows "j' = j\<lparr>Volumes := sortVolumes (Volumes j)\<rparr>" "mSeal mio (mEncode mio j') = Inr contents" "length (mEncode mio j') \<le> cMaxBytes c"
    and "copyToCaches env (partialManifestCachePath md5 j') contents (Destinations j') st = (None, st')"
  using assms by (auto simp: saveManifest_def Let_def split: option.splits sum.splits prod.splits if_splits)

lemma tryResume_cases:
  assumes "tryResume env c md5 zfsPath mio j dests st = ((done, None), j', st')"
  obtains (over) "\<not> done" "j' = j" "discardPartialManifests env md5 j dests st = (None, st')"
  | (kept) original vols where "\<not> done"
      "readCached c (Cached (ssIO st (dUri (hd dests)))) (partialManifestCachePath md5 j) = Inr original"
      "GUID (BaseSnapshot j) \<noteq> []" "sameStream zfsPath original j = None" "list_all (\<lambda>vol. StreamSHA256 vol \<noteq> []) (Volumes original)"
      "verifiedVolumes j (Volumes original) dests = Inr vols" "cachedAtEveryDestination c md5 j vols dests st \<noteq> []"
      "\<exists>contents. saveManifest env c md5 mio (j\<lparr>Volumes := cachedAtEveryDestination c md5 j vols dests st, StartTime := StartTime original\<rparr>) st
         = (Inr contents, j', st')"
  | (complete) original vols where "done" "j' = j"
      "readCached c (Cached (ssIO st (dUri (hd dests)))) (partialManifestCachePath md5 j) = Inr original"
      "sameStream zfsPath original j = None" "verifiedVolumes j (Volumes original) dests = Inr vols"
      "length (cachedAtEveryDestination c md5 j vols dests st) = length (Volumes original)" "\<not> isZero (EndTime original)"
proof -
  let ?path = "partialManifestCachePath md5 j" and ?cache = "Cached (ssIO st (dUri (hd dests)))"
  let ?over = "case discardPartialManifests env md5 j dests st of (err, st) \<Rightarrow> ((False, err), j, st)"
  have none: "mCreateErr mio = None" using assms by (auto simp: tryResume_def Let_def split: option.splits)
  show ?thesis
  proof (cases "readCached c ?cache ?path")
    case (Inl err)
    then have "?over = ((done, None), j', st')"
      using assms none by (cases err) (simp_all add: tryResume_def Let_def)
    then show ?thesis by (intro over) (auto split: prod.splits)
  next
    case (Inr original)
    note run = assms [unfolded tryResume_def Let_def none Inr option.case sum.case]
    have g: "GUID (BaseSnapshot j) \<noteq> []" "sameStream zfsPath original j = None" "\<not> list_ex (\<lambda>vol. StreamSHA256 vol = []) (Volumes original)"
      using run by (auto split: if_splits option.splits)
    obtain vols where vols: "verifiedVolumes j (Volumes original) dests = Inr vols"
      using run g by (cases "verifiedVolumes j (Volumes original) dests") auto
    let ?kept = "cachedAtEveryDestination c md5 j vols dests st"
    consider "?kept = []" | "?kept \<noteq> []" "\<not> isZero (EndTime original)" "length ?kept = length (Volumes original)"
      | "?kept \<noteq> []" "isZero (EndTime original) \<or> length ?kept \<noteq> length (Volumes original)" by blast
    then show ?thesis
    proof cases
      case 1
      then have "?over = ((done, None), j', st')" using run g vols by simp
      then show ?thesis by (intro over) (auto split: prod.splits)
    next
      case 2
      then have "done" "j' = j" using run g vols by (auto split: prod.splits)
      then show ?thesis by (rule complete) (use 2 Inr g vols in auto)
    next
      case 3
      then have "\<not> done" "\<exists>contents. saveManifest env c md5 mio (j\<lparr>Volumes := ?kept, StartTime := StartTime original\<rparr>) st = (Inr contents, j', st')"
        using run g vols by (auto split: prod.splits sum.splits if_splits)
      then show ?thesis by (intro kept [of original vols]) (use 3 Inr g vols in \<open>auto simp: list_all_iff list_ex_iff\<close>)
    qed
  qed
qed

section \<open>What completing a set uploads\<close>

definition listsObject :: "string \<Rightarrow> destination \<Rightarrow> bool" where
  "listsObject name d \<longleftrightarrow> (case bList (dBackend d) name of Inl e \<Rightarrow> False | Inr existing \<Rightarrow> name \<in> set existing)"

text \<open>The destination lists the volume, and what it returns for it has the size and the hash recorded.\<close>

definition holdsVolume :: "(string \<Rightarrow> string) \<Rightarrow> string \<Rightarrow> destination \<Rightarrow> VolumeInfo \<Rightarrow> bool" where
  "holdsVolume sha256 pre d vol \<longleftrightarrow> listedAt pre d vol \<and>
     (\<exists>chunks. bDownload (dBackend d) (ObjectName vol) = Inr (chunks, None)
        \<and> of_nat (length (concat chunks)) = VolSize vol \<and> sha256 (concat chunks) = SHA256Sum vol)"

lemma havingSet_spec:
  assumes "havingSet name dests = Inr (have_it, missing)"
  shows "have_it = filter (listsObject name) dests \<and> missing = filter (\<lambda>d. \<not> listsObject name d) dests"
  using assms
  by (induction dests arbitrary: have_it missing) (auto simp: listsObject_def split: sum.splits prod.splits if_splits)

lemma volumeMatches_ok:
  assumes "volumeMatches sha256 d vol = Inr True" "bList (dBackend d) pre = Inr listed" "ObjectName vol \<in> set listed"
  shows "holdsVolume sha256 pre d vol"
  using assms by (auto simp: volumeMatches_def hashObject_def holdsVolume_def listedAt_def split: option.splits sum.splits if_splits prod.splits)

lemma verifyEach_ok: "verifyEach sha256 d vols = None \<Longrightarrow> vol \<in> set vols \<Longrightarrow> volumeMatches sha256 d vol = Inr True"
  by (induction vols) (auto split: sum.splits if_splits)

lemma verifyVolumesAt_ok:
  assumes "verifyVolumesAt sha256 j manifest d st = (None, st')" "vol \<in> set (Volumes manifest)"
  shows "holdsVolume sha256 (BackupVolumeObjectPrefix j) d vol"
proof -
  obtain listed where l: "bList (dBackend d) (BackupVolumeObjectPrefix j) = Inr listed"
      "List.find (\<lambda>vol. ObjectName vol \<notin> set listed) (Volumes manifest) = None" "verifyEach sha256 d (Volumes manifest) = None"
    using assms(1) by (auto simp: verifyVolumesAt_def split: sum.splits option.splits prod.splits)
  then show ?thesis using assms(2) verifyEach_ok [OF l(3) assms(2)] by (intro volumeMatches_ok) (auto simp: find_None_iff)
qed

lemma verifyVolumesAt_uploads: "verifyVolumesAt sha256 j manifest d st = (r, st') \<Longrightarrow> ssUploads st' = ssUploads st"
  by (auto simp: verifyVolumesAt_def split: sum.splits option.splits prod.splits)

lemma verifyAll_spec:
  assumes "verifyAll sha256 j manifest ds st = (r, st')"
  shows "ssUploads st' = ssUploads st \<and>
    (r = None \<longrightarrow> (\<forall>d\<in>set ds. \<forall>vol\<in>set (Volumes manifest). holdsVolume sha256 (BackupVolumeObjectPrefix j) d vol))"
  using assms
proof (induction ds arbitrary: st)
  case (Cons d ds)
  obtain r1 st1 where v: "verifyVolumesAt sha256 j manifest d st = (r1, st1)" by fastforce
  note keep = verifyVolumesAt_uploads [OF v]
  show ?case
  proof (cases r1)
    case None
    then have rest: "verifyAll sha256 j manifest ds st1 = (r, st')" using Cons.prems v by simp
    show ?thesis using Cons.IH [OF rest] keep verifyVolumesAt_ok [OF v [unfolded None]] by simp
  next
    case (Some e)
    then show ?thesis using Cons.prems v keep by auto
  qed
qed simp

lemma uploadManifest_spec:
  assumes "uploadManifest env md5 contents name ds st = (r, st')"
  shows "\<exists>k. ssUploads st' = ssUploads st @ map (\<lambda>d. (dUri d, name, contents)) (take k ds) \<and> (r = None \<longrightarrow> length ds \<le> k)"
  using assms
proof (induction ds arbitrary: st)
  case (Cons d ds)
  let ?st = "st\<lparr>ssUploads := ssUploads st @ [(dUri d, name, contents)]\<rparr>"
  obtain e dir where w: "WriteFileAtomic env (Cached (ssIO st (dUri d))) (md5 name) (Inr contents) = (e, dir)" by fastforce
  let ?st1 = "setIO (dUri d) (ssIO st (dUri d)\<lparr>Cached := dir\<rparr>) ?st"
  consider (fails) x where "dUpload d name contents = Some x" | (cache) x where "dUpload d name contents = None" "e = Some x"
    | (on) "dUpload d name contents = None" "e = None" by (cases "dUpload d name contents"; cases e) auto
  then show ?case
  proof cases
    case fails
    then show ?thesis using Cons.prems by (intro exI [of _ 0]) auto
  next
    case cache
    then show ?thesis using Cons.prems w by (intro exI [of _ 1]) (auto simp: Let_def)
  next
    case on
    then have "uploadManifest env md5 contents name ds ?st1 = (r, st')" using Cons.prems w by (simp add: Let_def)
    from Cons.IH [OF this] obtain k where "ssUploads st' = ssUploads ?st1 @ map (\<lambda>d. (dUri d, name, contents)) (take k ds)"
      "r = None \<longrightarrow> length ds \<le> k" by blast
    then show ?thesis by (intro exI [of _ "Suc k"]) auto
  qed
qed simp

text \<open>
  A copy of a manifest is justified when its contents are what the destination that has it returned,
  they read as a manifest of the stream this send would send, and the other destinations hold every
  volume it lists.
\<close>

definition justifiedCopy ::
    "Codec \<Rightarrow> (string \<Rightarrow> string) \<Rightarrow> string \<Rightarrow> JobInfo \<Rightarrow> destination \<Rightarrow> destination list \<Rightarrow> string \<Rightarrow> bool" where
  "justifiedCopy c sha256 zfsPath j have_d lagging contents \<longleftrightarrow>
     (\<exists>chunks manifest. bDownload (dBackend have_d) (ManifestObjectName j) = Inr (chunks, None) \<and> contents = concat chunks
        \<and> readManifest c contents = Inr manifest \<and> sameStream zfsPath manifest (comparableJob j manifest) = None
        \<and> (\<forall>d\<in>set lagging. \<forall>vol\<in>set (Volumes manifest). holdsVolume sha256 (BackupVolumeObjectPrefix j) d vol))"

lemma copyManifest_uploads:
  assumes "copyManifest env c md5 sha256 zfsPath tmpErr j have_d lagging st = (r, st')"
  shows "(r \<noteq> None \<and> ssUploads st' = ssUploads st)
    \<or> (\<exists>contents k. justifiedCopy c sha256 zfsPath j have_d lagging contents
        \<and> ssUploads st' = ssUploads st @ map (\<lambda>d. (dUri d, ManifestObjectName j, contents)) (take k lagging)
        \<and> (r = None \<longrightarrow> length lagging \<le> k))"
proof -
  let ?name = "ManifestObjectName j"
  obtain e io where pre: "PreDownload (dBackend have_d) (ssIO st (dUri have_d)) [?name] = (e, io)" by fastforce
  obtain err tmp where tmp: "downloadTo env c (dBackend have_d) (io\<lparr>Cached := []\<rparr>) ?name ''tmp'' = (err, tmp)" by fastforce
  let ?st = "setIO (dUri have_d) (io\<lparr>Calls := Calls tmp\<rparr>) st"
  note run = assms [unfolded copyManifest_def Let_def pre tmp prod.case]
  show ?thesis
  proof (cases "tmpErr = None \<and> e = None \<and> err = None")
    case False
    then show ?thesis using run pre tmp by (auto split: option.splits prod.splits)
  next
    case True
    then have ok: "downloadTo env c (dBackend have_d) (io\<lparr>Cached := []\<rparr>) ?name ''tmp'' = (None, tmp)" using tmp by simp
    obtain cs where cs: "bDownload (dBackend have_d) ?name = Inr (cs, None)"
      "map_of (Cached tmp) = (map_of (Cached (io\<lparr>Cached := []\<rparr>)))(''tmp'' \<mapsto> \<lparr>IsDir = False, ModTime = fsNow env, FileData = concat cs\<rparr>)"
      by (rule downloadTo_ok [OF ok])
    have "readCached c (Cached tmp) ''tmp'' = readManifest c (concat cs)" by (simp add: readCached_def cs(2))
    note run = run [unfolded this cs(2)]
    show ?thesis
    proof (cases "readManifest c (concat cs)")
      case (Inl x)
      then show ?thesis using run True by auto
    next
      case (Inr manifest)
      show ?thesis
      proof (cases "sameStream zfsPath manifest (comparableJob j manifest)")
        case (Some x)
        then show ?thesis using run True Inr by auto
      next
        case None
        obtain q st1 where v: "verifyAll sha256 j manifest lagging ?st = (q, st1)" by fastforce
        note vs = verifyAll_spec [OF v]
        show ?thesis
        proof (cases q)
          case (Some x)
          then show ?thesis using run True Inr None v vs by auto
        next
          case q: None
          then have up: "uploadManifest env md5 (concat cs) ?name lagging st1 = (r, st')"
            using run True Inr None v by simp
          have "justifiedCopy c sha256 zfsPath j have_d lagging (concat cs)"
            unfolding justifiedCopy_def using cs(1) Inr None vs q by blast
          then show ?thesis using uploadManifest_spec [OF up] vs by auto
        qed
      qed
    qed
  qed
qed

text \<open>
  C4. A set is never overwritten, and completed only with its own volumes. \<^verbatim>\<open>refuseExistingSet\<close> lets a
  send go on only when no destination lists its manifest, and then it has changed nothing. Otherwise
  everything it uploads is that manifest, to destinations that do not list it, as the destination
  that has it returned it; it describes the stream this send would send; and each of the
  destinations that lack it holds every volume it lists, with the size and the SHA-256 recorded.
  When it reports the send as done outside a dry run, all of them have been sent the manifest.
\<close>

theorem refuseExistingSet_safe:
  assumes "refuseExistingSet env c md5 sha256 zfsPath tmpErr j dests dryRun st = ((finished, err), st')"
    and "lagging = filter (\<lambda>d. \<not> listsObject (ManifestObjectName j) d) dests"
  shows "(\<not> finished \<and> st' = st \<and> (err = None \<longrightarrow> lagging = dests))
    \<or> (finished \<and> dryRun \<and> err = None \<and> st' = st)
    \<or> (finished \<and> (Resume j \<or> CompletePartial j) \<and> err \<noteq> None \<and> ssUploads st' = ssUploads st)
    \<or> (finished \<and> (Resume j \<or> CompletePartial j) \<and> (\<exists>have_d contents k. have_d \<in> set dests
        \<and> listsObject (ManifestObjectName j) have_d \<and> justifiedCopy c sha256 zfsPath j have_d lagging contents
        \<and> ssUploads st' = ssUploads st @ map (\<lambda>d. (dUri d, ManifestObjectName j, contents)) (take k lagging)
        \<and> (err = None \<longrightarrow> length lagging \<le> k)))"
proof (cases "havingSet (ManifestObjectName j) dests")
  case (Inl e)
  then show ?thesis using assms(1) by (auto simp: refuseExistingSet_def)
next
  case (Inr hm)
  obtain have_it missing where hm: "hm = (have_it, missing)" by fastforce
  note sets = havingSet_spec [OF Inr [unfolded hm]]
  have missing: "missing = lagging" using sets assms(2) by simp
  note run = assms(1) [unfolded refuseExistingSet_def Let_def Inr hm sum.case prod.case]
  show ?thesis
  proof (cases have_it)
    case Nil
    then have "lagging = dests" using sets assms(2) by (metis filter_True filter_empty_conv)
    then show ?thesis using run Nil by auto
  next
    case (Cons h hs)
    then have h: "h \<in> set dests" "listsObject (ManifestObjectName j) h" using sets by (auto simp: filter_eq_Cons_iff)
    show ?thesis
    proof (cases "missing = [] \<or> (\<not> Resume j \<and> \<not> CompletePartial j) \<or> dryRun")
      case True
      then show ?thesis using run Cons by (cases missing) (auto split: if_splits)
    next
      case False
      then have f: "finished" and copy: "copyManifest env c md5 sha256 zfsPath tmpErr j h missing st = (err, st')"
        using run Cons by (auto split: list.splits prod.splits)
      show ?thesis using copyManifest_uploads [OF copy] f h False unfolding missing by blast
    qed
  qed
qed

text \<open>
  C14. What a resume builds on. When \<^verbatim>\<open>tryResume\<close> lets a send go on, either it keeps nothing and no cache
  describes the set any more, or the volumes it keeps are numbered from 1, were written by an attempt
  at the same stream, are listed at every destination with the size recorded, are recorded with the
  same size and hash in every destination's own cache, and every cache now holds the manifest of
  exactly those volumes.
\<close>

theorem tryResume_sound:
  assumes "tryResume env c md5 zfsPath mio j dests st = ((False, None), j', st')"
    and "dests \<noteq> []" "Destinations j = map dUri dests" "deleteURI \<notin> set (Destinations j)"
  shows "(j' = j \<and> (\<forall>d\<in>set dests. map_of (Cached (ssIO st' (dUri d))) (partialManifestCachePath md5 j) = None))
    \<or> (\<exists>original contents. readCached c (Cached (ssIO st (dUri (hd dests)))) (partialManifestCachePath md5 j) = Inr original
         \<and> sameStream zfsPath original j = None \<and> Volumes j' \<noteq> []
         \<and> map VolumeNumber (Volumes j') = map int [1..<length (Volumes j') + 1]
         \<and> (\<forall>v\<in>set (Volumes j'). v \<in> set (Volumes original) \<and> StreamSHA256 v \<noteq> []
              \<and> (\<forall>d\<in>set dests. listedAt (BackupVolumeObjectPrefix j) d v \<and> (\<exists>w\<in>set (cachedVolumes c md5 j st d). sameCached w v)))
         \<and> mSeal mio (mEncode mio j') = Inr contents
         \<and> (\<forall>d\<in>set dests. holdsFile (Cached (ssIO st' (dUri d))) (partialManifestCachePath md5 j) contents))"
  using assms(1)
proof (cases rule: tryResume_cases)
  case over
  then show ?thesis using discardPartialManifests_ok [OF over(3)] by simp
next
  case (kept original vols)
  let ?kept = "cachedAtEveryDestination c md5 j vols dests st"
  have "cachedVolumes c md5 j st (hd dests) = sortVolumes (Volumes original)" by (simp add: cachedVolumes_def kept(2))
  note k = resume_kept [OF kept(6) refl assms(2) this]
  obtain contents where save: "saveManifest env c md5 mio (j\<lparr>Volumes := ?kept, StartTime := StartTime original\<rparr>) st = (Inr contents, j', st')"
    using kept(8) by blast
  note s = saveManifest_ok [OF save]
  have vols: "Volumes j' = ?kept" and dests: "Destinations j' = map dUri dests" using s(1) sortVolumes_sorted [OF k(1)] assms(3) by simp_all
  have path: "partialManifestCachePath md5 j' = partialManifestCachePath md5 j"
    using s(1) by (simp add: partialManifestCachePath_def ManifestObjectName_def manifestObjectName_def volumeNameParts_def)
  have "\<forall>d\<in>set dests. holdsFile (Cached (ssIO st' (dUri d))) (partialManifestCachePath md5 j) contents"
  proof
    fix d assume "d \<in> set dests"
    then have d: "dUri d \<in> dUri ` set dests" by (rule imageI)
    then have "dUri d \<in> set (Destinations j')" using dests by simp
    moreover have "dUri d \<noteq> deleteURI" using d assms(3,4) by (intro notI) simp
    ultimately show "holdsFile (Cached (ssIO st' (dUri d))) (partialManifestCachePath md5 j) contents"
      using copyToCaches_ok [OF s(4)] unfolding path by simp
  qed
  then show ?thesis
    using k vols kept(2,4,5,7) s(2) by (intro disjI2 exI [of _ original] exI [of _ contents]) (auto simp: list_all_iff)
qed simp

section \<open>A concrete resume\<close>

text \<open>
  Two destinations that hold two volumes of an interrupted attempt, which both caches record; and a
  second destination that lacks the manifest of a set whose one volume it has.
\<close>

definition exVolume :: "nat \<Rightarrow> VolumeInfo" where
  "exVolume n = \<lparr>ObjectName = ''v'' @ [CHR ''0'', CHR ''1'', CHR ''2''] ! n # [], VolumeNumber = int n, SHA256Sum = ''z'', MD5Sum = [], CRC32CSum32 = 0,
     VolSize = 1, VolStreamBytes = 1, StreamSHA256 = ''h'', IsManifest = False, IsFinalManifest = False\<rparr>"

definition exPartial :: Manifest where
  "exPartial = exManifest\<lparr>BaseSnapshot := zeroSnapshot\<lparr>Name := ''a'', GUID := ''7''\<rparr>, Volumes := [exVolume 1, exVolume 2]\<rparr>"

definition exResumeJob :: JobInfo where
  "exResumeJob = exCacheJob\<lparr>VolumeName := ''t'', BaseSnapshot := zeroSnapshot\<lparr>Name := ''a'', GUID := ''7''\<rparr>,
     Resume := True, Destinations := [''f://1'', ''f://2'']\<rparr>"

definition exResumeCodec :: Codec where
  "exResumeCodec = exCodec\<lparr>cDecode := (\<lambda>s. Inr exPartial)\<rparr>"

definition exVolumesAt :: "string \<Rightarrow> string list \<Rightarrow> destination" where
  "exVolumesAt uri objects = \<lparr>dUri = uri,
     dBackend = \<lparr>bList = (\<lambda>p. Inr objects), bDownload = (\<lambda>n. Inr ([''z''], None)), bPreDownload = (\<lambda>ns. None), bNotReadable = None\<rparr>,
     dSizer = Some (\<lambda>n. Inr 1), dUpload = (\<lambda>n s. None)\<rparr>"

definition exPartialCache :: sendState where
  "exPartialCache = \<lparr>ssIO = (\<lambda>uri. \<lparr>Cached = [(partialManifestCachePath exMd5 exResumeJob, exFile)], Calls = []\<rparr>), ssUploads = []\<rparr>"

definition exManifestIO :: manifestIO where
  "exManifestIO = \<lparr>mCreateErr = None, mEncode = (\<lambda>j. ''m''), mSeal = Inr\<rparr>"

definition exResumed :: "(bool \<times> send_error option) \<times> JobInfo \<times> sendState" where
  "exResumed = tryResume exFs exResumeCodec exMd5 ''zfs'' exManifestIO exResumeJob
     [exVolumesAt ''f://1'' [''v1'', ''v2''], exVolumesAt ''f://2'' [''v1'']] exPartialCache"

lemma ex_resumed: "fst exResumed = (False, None) \<and> Volumes (fst (snd exResumed)) = [exVolume 1]" by code_simp

lemma tryResume_sound_witness:
  "holdsFile (Cached (ssIO (snd (snd exResumed)) ''f://2'')) (partialManifestCachePath exMd5 exResumeJob) ''m''"
proof -
  let ?d2 = "exVolumesAt ''f://2'' [''v1'']"
  let ?dests = "[exVolumesAt ''f://1'' [''v1'', ''v2''], ?d2]"
  have run: "tryResume exFs exResumeCodec exMd5 ''zfs'' exManifestIO exResumeJob ?dests exPartialCache
      = ((False, None), fst (snd exResumed), snd (snd exResumed))"
    using ex_resumed unfolding exResumed_def by (metis prod.collapse)
  have dests: "?dests \<noteq> []" "Destinations exResumeJob = map dUri ?dests" "deleteURI \<notin> set (Destinations exResumeJob)"
    by (simp_all add: exResumeJob_def deleteURI_def exVolumesAt_def)
  have "fst (snd exResumed) \<noteq> exResumeJob"
    using ex_resumed by (auto simp: exResumeJob_def exCacheJob_def zeroJobInfo_def zeroManifest_def Manifest.extend_def)
  with tryResume_sound [OF run dests] obtain contents where "mSeal exManifestIO (mEncode exManifestIO (fst (snd exResumed))) = Inr contents"
      "holdsFile (Cached (ssIO (snd (snd exResumed)) (dUri ?d2))) (partialManifestCachePath exMd5 exResumeJob) contents"
    by (meson list.set_intros)
  then show ?thesis by (simp add: exManifestIO_def exVolumesAt_def)
qed

definition exCompleted :: "(bool \<times> send_error option) \<times> sendState" where
  "exCompleted = refuseExistingSet exFs (exResumeCodec\<lparr>cDecode := (\<lambda>s. Inr (exPartial\<lparr>Volumes := [exVolume 1]\<rparr>))\<rparr>) exMd5 (\<lambda>s. s) ''zfs'' None exResumeJob
     [exVolumesAt ''f://1'' [exObject], exVolumesAt ''f://2'' [''v1'']] False exPartialCache"

lemma ex_completed: "fst exCompleted = (True, None)" by code_simp

lemma refuseExistingSet_safe_witness: "ssUploads (snd exCompleted) = [(''f://2'', exObject, ''z'')]"
proof -
  let ?dests = "[exVolumesAt ''f://1'' [exObject], exVolumesAt ''f://2'' [''v1'']]"
  let ?c = "exResumeCodec\<lparr>cDecode := (\<lambda>s. Inr (exPartial\<lparr>Volumes := [exVolume 1]\<rparr>))\<rparr>"
  have run: "refuseExistingSet exFs ?c exMd5 (\<lambda>s. s) ''zfs'' None exResumeJob ?dests False exPartialCache = ((True, None), snd exCompleted)"
    using ex_completed unfolding exCompleted_def by (metis prod.collapse)
  have name: "ManifestObjectName exResumeJob = exObject" by code_simp
  have lag: "filter (\<lambda>d. \<not> listsObject exObject d) ?dests = [exVolumesAt ''f://2'' [''v1'']]" by (simp add: listsObject_def exVolumesAt_def exObject_def)
  note safe = refuseExistingSet_safe [OF run refl, unfolded name lag]
  obtain have_d contents k
    where u: "have_d \<in> set ?dests" "justifiedCopy ?c (\<lambda>s. s) ''zfs'' exResumeJob have_d [exVolumesAt ''f://2'' [''v1'']] contents"
      "ssUploads (snd exCompleted) = ssUploads exPartialCache @ map (\<lambda>d. (dUri d, exObject, contents)) (take k [exVolumesAt ''f://2'' [''v1'']])"
      "length [exVolumesAt ''f://2'' [''v1'']] \<le> k"
    using safe by blast
  then have "contents = ''z''" by (auto simp: justifiedCopy_def exVolumesAt_def)
  then show ?thesis using u(3,4) by (cases k) (simp_all add: exPartialCache_def exVolumesAt_def)
qed

end
