(* ===== verification/Pipeline.thy ===== *)
theory Pipeline
  imports Resume
begin

text \<open>
  The upload pipeline of \<^verbatim>\<open>Backup\<close> (\<^verbatim>\<open>backup/backup.go\<close>): its goroutines and channels as a transition system,
  with volumes in files (\<^verbatim>\<open>MaxFileBuffer\<close> is not 0). A step is what one goroutine does between two
  points where another can run.
\<close>

section \<open>State\<close>

text \<open>What travels through the channels: a volume, or the manifest with the volumes it lists.\<close>

datatype piece = SentVolume VolumeInfo | SentManifest "VolumeInfo list"

primrec isManifestPiece :: "piece \<Rightarrow> bool" where
  "isManifestPiece (SentVolume v) = False"
| "isManifestPiece (SentManifest vols) = True"

text \<open>
  The pipeline of one destination (\<^verbatim>\<open>retryUploadChainer\<close>): its running workers, and the pieces that they
  have taken, checked, and uploaded but not handed on. A worker has at most one piece. The output
  channel has no buffer: a piece leaves it when the next stage takes it.
\<close>

record stage =
  stLive :: nat
  stTaken :: "piece list"
  stReady :: "piece list"
  stDone :: "piece list"
  stFailed :: bool
  stClosed :: bool

datatype stream_phase = StreamRunning | StreamEnded | StreamFailed
datatype sink_phase = SinkIdle | SinkSaving | SinkReturning | SinkDone
datatype final_phase = FinalWaiting | FinalWoken | FinalSaved "VolumeInfo list" | FinalSent | FinalStopped

text \<open>
  The volumes that a resume kept, those the splitter makes of the stream and whether \<^verbatim>\<open>sendStream\<close> fails
  after them, the capacity of the file buffer, the workers of each stage and the number of stages
  (the destinations, and the backend that deletes the files).
\<close>

record pipeConf =
  pcKept :: "VolumeInfo list"
  pcVols :: "VolumeInfo list"
  pcErr :: bool
  pcFileBuffer :: nat
  pcWorkers :: nat
  pcStages :: nat

text \<open>
  The splitter and its volume in progress; the channels \<^verbatim>\<open>fileBuffer\<close>, \<^verbatim>\<open>startCh\<close> and \<^verbatim>\<open>stepCh\<close>; the forwarder
  and the volume it has taken; \<^verbatim>\<open>pendingVolumes\<close>; the stages; the goroutine that collects the volumes, with
  \<^verbatim>\<open>jobInfo.Volumes\<close>; the one that writes the final manifest; and whether the context is canceled. Three
  fields only record what happened: the volumes counted into \<^verbatim>\<open>pending\<close>, the uploads in their order, and
  the manifests written to the caches. \<open>plDropped\<close> are the pieces of goroutines that gave up.
\<close>

record pipeline =
  plTodo :: "VolumeInfo list"
  plCurrent :: "VolumeInfo option"
  plStream :: stream_phase
  plBuffer :: nat
  plStart :: "VolumeInfo list"
  plHold :: "VolumeInfo option"
  plForwardDone :: bool
  plForwarded :: "VolumeInfo list"
  plPending :: int
  plZero :: bool
  plStep :: "piece list"
  plStepClosed :: bool
  plStages :: "nat \<Rightarrow> stage"
  plSink :: sink_phase
  plVolumes :: "VolumeInfo list"
  plFinal :: final_phase
  plCancelled :: bool
  plUploads :: "(nat \<times> piece) list"
  plCached :: "VolumeInfo list list"
  plDropped :: "piece list"

definition newStage :: "pipeConf \<Rightarrow> stage" where
  "newStage c = \<lparr>stLive = pcWorkers c, stTaken = [], stReady = [], stDone = [], stFailed = False, stClosed = False\<rparr>"

definition newPipeline :: "pipeConf \<Rightarrow> pipeline" where
  "newPipeline c = \<lparr>plTodo = pcVols c, plCurrent = None, plStream = StreamRunning, plBuffer = pcFileBuffer c, plStart = [],
     plHold = None, plForwardDone = False, plForwarded = [], plPending = 1, plZero = False, plStep = [], plStepClosed = False,
     plStages = (\<lambda>i. newStage c), plSink = SinkIdle, plVolumes = pcKept c, plFinal = FinalWaiting, plCancelled = False,
     plUploads = [], plCached = [], plDropped = []\<rparr>"

section \<open>Pending volumes\<close>

definition pendingAdd :: "pipeline \<Rightarrow> pipeline" where
  "pendingAdd s = s\<lparr>plPending := plPending s + 1\<rparr>"

definition pendingDone :: "pipeline \<Rightarrow> pipeline" where
  "pendingDone s = (let n = plPending s - 1 in s\<lparr>plPending := n, plZero := plZero s \<or> n = 0\<rparr>)"

section \<open>The splitter\<close>

text \<open>
  \<^verbatim>\<open>sendStream\<close>: a token of the file buffer for each volume (a closed buffer gives them all), the volume
  to \<^verbatim>\<open>startCh\<close> when it is finished, and the end of the stream, which closes the channel only on success.
\<close>

datatype splitter_act = Create | Emit | StreamEnds | StreamFails

fun splitterDo :: "pipeConf \<Rightarrow> splitter_act \<Rightarrow> pipeline \<Rightarrow> pipeline option" where
  "splitterDo c Create s =
     (if plStream s = StreamRunning \<and> plCurrent s = None \<and> plTodo s \<noteq> [] \<and> (0 < plBuffer s \<or> plSink s = SinkDone)
      then Some (s\<lparr>plCurrent := Some (hd (plTodo s)), plTodo := tl (plTodo s), plBuffer := plBuffer s - 1\<rparr>) else None)"
| "splitterDo c Emit s =
     (case plCurrent s of
        None \<Rightarrow> None
      | Some v \<Rightarrow> if plStream s = StreamRunning \<and> length (plStart s) < pcFileBuffer c
                  then Some (s\<lparr>plCurrent := None, plStart := plStart s @ [v]\<rparr>) else None)"
| "splitterDo c StreamEnds s =
     (if plStream s = StreamRunning \<and> plCurrent s = None \<and> plTodo s = [] \<and> \<not> pcErr c
      then Some (s\<lparr>plStream := StreamEnded\<rparr>) else None)"
| "splitterDo c StreamFails s =
     (if plStream s = StreamRunning \<and> (plCancelled s \<or> plCurrent s = None \<and> plTodo s = [] \<and> pcErr c)
      then Some (s\<lparr>plStream := StreamFailed\<rparr>) else None)"

section \<open>The forwarder\<close>

datatype forwarder_act = ForwardTake | ForwardPass | ForwardEnds | ForwardStops

fun forwarderDo :: "pipeConf \<Rightarrow> forwarder_act \<Rightarrow> pipeline \<Rightarrow> pipeline option" where
  "forwarderDo c ForwardTake s =
     (case plStart s of
        [] \<Rightarrow> None
      | v # vs \<Rightarrow> if \<not> plForwardDone s \<and> plHold s = None
                  then Some (pendingAdd (s\<lparr>plStart := vs, plHold := Some v, plForwarded := plForwarded s @ [v]\<rparr>)) else None)"
| "forwarderDo c ForwardPass s =
     (case plHold s of
        None \<Rightarrow> None
      | Some v \<Rightarrow> if \<not> plForwardDone s \<and> length (plStep s) < pcFileBuffer c
                  then Some (s\<lparr>plHold := None, plStep := plStep s @ [SentVolume v]\<rparr>) else None)"
| "forwarderDo c ForwardEnds s =
     (if \<not> plForwardDone s \<and> plHold s = None \<and> plStart s = [] \<and> plStream s = StreamEnded
      then Some (pendingDone (s\<lparr>plForwardDone := True\<rparr>)) else None)"
| "forwarderDo c ForwardStops s =
     (if \<not> plForwardDone s \<and> plCancelled s
      then Some (pendingDone (s\<lparr>plForwardDone := True, plHold := None,
             plDropped := plDropped s @ (case plHold s of None \<Rightarrow> [] | Some v \<Rightarrow> [SentVolume v])\<rparr>)) else None)"

section \<open>The stages\<close>

text \<open>The input of a stage: \<^verbatim>\<open>stepCh\<close> for the first, the output of the one before for the others.\<close>

definition canReceive :: "nat \<Rightarrow> piece \<Rightarrow> pipeline \<Rightarrow> bool" where
  "canReceive i p s \<longleftrightarrow> (case i of 0 \<Rightarrow> plStep s \<noteq> [] \<and> hd (plStep s) = p | Suc k \<Rightarrow> p \<in> set (stDone (plStages s k)))"

definition setStage :: "nat \<Rightarrow> stage \<Rightarrow> pipeline \<Rightarrow> pipeline" where
  "setStage i st s = s\<lparr>plStages := (plStages s)(i := st)\<rparr>"

definition received :: "nat \<Rightarrow> piece \<Rightarrow> pipeline \<Rightarrow> pipeline" where
  "received i p s =
     (case i of
        0 \<Rightarrow> s\<lparr>plStep := tl (plStep s)\<rparr>
      | Suc k \<Rightarrow> setStage k ((plStages s k)\<lparr>stDone := remove1 p (stDone (plStages s k))\<rparr>) s)"

definition inputClosed :: "nat \<Rightarrow> pipeline \<Rightarrow> bool" where
  "inputClosed i s \<longleftrightarrow> (case i of 0 \<Rightarrow> plStepClosed s \<and> plStep s = [] | Suc k \<Rightarrow> stClosed (plStages s k))"

definition idleWorker :: "stage \<Rightarrow> bool" where
  "idleWorker st \<longleftrightarrow> length (stTaken st) + length (stReady st) + length (stDone st) < stLive st"

text \<open>With more than one worker a stage has a context of its own, which the first failure cancels.\<close>

definition stageCancelled :: "pipeConf \<Rightarrow> nat \<Rightarrow> pipeline \<Rightarrow> bool" where
  "stageCancelled c i s \<longleftrightarrow> plCancelled s \<or> 1 < pcWorkers c \<and> stFailed (plStages s i)"

datatype worker_act = WTake piece | WCheck piece | WUpload piece | WUploadFails piece | WAbandon piece | WEnds | OutCloses

fun workerDo :: "pipeConf \<Rightarrow> nat \<Rightarrow> worker_act \<Rightarrow> pipeline \<Rightarrow> pipeline option" where
  "workerDo c i (WTake p) s =
     (if idleWorker (plStages s i) \<and> canReceive i p s
      then Some (let s = received i p s in setStage i ((plStages s i)\<lparr>stTaken := stTaken (plStages s i) @ [p]\<rparr>) s) else None)"
| "workerDo c i (WCheck p) s =
     (let st = plStages s i; st' = st\<lparr>stTaken := remove1 p (stTaken st)\<rparr>
      in if p \<notin> set (stTaken st) then None
         else if isManifestPiece p \<and> stageCancelled c i s
         then Some (setStage i (st'\<lparr>stLive := stLive st - 1, stFailed := True\<rparr>) s\<lparr>plDropped := plDropped s @ [p]\<rparr>)
         else Some (setStage i (st'\<lparr>stReady := stReady st @ [p]\<rparr>) s))"
| "workerDo c i (WUpload p) s =
     (let st = plStages s i
      in if p \<notin> set (stReady st) then None
         else Some (setStage i (st\<lparr>stReady := remove1 p (stReady st), stDone := stDone st @ [p]\<rparr>) s\<lparr>plUploads := plUploads s @ [(i, p)]\<rparr>))"
| "workerDo c i (WUploadFails p) s =
     (let st = plStages s i
      in if p \<notin> set (stReady st) then None
         else Some (setStage i (st\<lparr>stReady := remove1 p (stReady st), stLive := stLive st - 1, stFailed := True\<rparr>) s\<lparr>plDropped := plDropped s @ [p]\<rparr>))"
| "workerDo c i (WAbandon p) s =
     (let st = plStages s i
      in if p \<notin> set (stDone st) \<or> \<not> stageCancelled c i s then None
         else Some (setStage i (st\<lparr>stDone := remove1 p (stDone st), stLive := stLive st - 1, stFailed := True\<rparr>) s\<lparr>plDropped := plDropped s @ [p]\<rparr>))"
| "workerDo c i WEnds s =
     (let st = plStages s i
      in if idleWorker st \<and> (stageCancelled c i s \<or> inputClosed i s)
         then Some (setStage i (st\<lparr>stLive := stLive st - 1, stFailed := stFailed st \<or> \<not> inputClosed i s\<rparr>) s) else None)"
| "workerDo c i OutCloses s =
     (let st = plStages s i
      in if stLive st = 0 \<and> \<not> stClosed st then Some (setStage i (st\<lparr>stClosed := True\<rparr>) s) else None)"

section \<open>The collector\<close>

text \<open>
  The goroutine at the end of the pipeline: it adds the volume to the manifest, saves the manifest in
  the caches (sorted, \<^verbatim>\<open>saveManifest\<close>), counts the volume as done, and gives its token back.
\<close>

datatype sink_act = SinkTake piece | SinkSave | SinkSaveFails | SinkReturn | SinkEnds

fun sinkDo :: "pipeConf \<Rightarrow> sink_act \<Rightarrow> pipeline \<Rightarrow> pipeline option" where
  "sinkDo c (SinkTake p) s =
     (if plSink s = SinkIdle \<and> canReceive (pcStages c) p s
      then Some (let s = received (pcStages c) p s
                 in case p of
                      SentVolume v \<Rightarrow> s\<lparr>plVolumes := plVolumes s @ [v], plSink := SinkSaving\<rparr>
                    | SentManifest vols \<Rightarrow> s\<lparr>plSink := SinkDone\<rparr>) else None)"
| "sinkDo c SinkSave s =
     (if plSink s = SinkSaving
      then Some (pendingDone (let vols = sortVolumes (plVolumes s)
             in s\<lparr>plVolumes := vols, plCached := plCached s @ [vols], plSink := SinkReturning\<rparr>)) else None)"
| "sinkDo c SinkSaveFails s = (if plSink s = SinkSaving then Some (s\<lparr>plSink := SinkDone\<rparr>) else None)"
| "sinkDo c SinkReturn s =
     (if plSink s = SinkReturning \<and> plBuffer s < pcFileBuffer c
      then Some (s\<lparr>plBuffer := plBuffer s + 1, plSink := SinkIdle\<rparr>) else None)"
| "sinkDo c SinkEnds s =
     (if plSink s = SinkIdle \<and> (inputClosed (pcStages c) s \<or> plCancelled s) \<or> plSink s = SinkReturning \<and> plCancelled s
      then Some (s\<lparr>plSink := SinkDone\<rparr>) else None)"

section \<open>The final manifest\<close>

datatype final_act = FinalWake | FinalSave | FinalSaveFails | FinalPass | FinalStops

fun finalDo :: "pipeConf \<Rightarrow> final_act \<Rightarrow> pipeline \<Rightarrow> pipeline option" where
  "finalDo c FinalWake s =
     (if plFinal s = FinalWaiting \<and> plZero s \<and> \<not> plCancelled s then Some (s\<lparr>plFinal := FinalWoken\<rparr>) else None)"
| "finalDo c FinalSave s =
     (if plFinal s = FinalWoken
      then Some (let vols = sortVolumes (plVolumes s)
             in s\<lparr>plVolumes := vols, plCached := plCached s @ [vols], plFinal := FinalSaved vols\<rparr>) else None)"
| "finalDo c FinalSaveFails s = (if plFinal s = FinalWoken then Some (s\<lparr>plFinal := FinalStopped\<rparr>) else None)"
| "finalDo c FinalPass s =
     (case plFinal s of
        FinalSaved vols \<Rightarrow> if length (plStep s) < pcFileBuffer c
                           then Some (s\<lparr>plStep := plStep s @ [SentManifest vols], plStepClosed := True, plFinal := FinalSent\<rparr>) else None
      | _ \<Rightarrow> None)"
| "finalDo c FinalStops s =
     (case plFinal s of
        FinalWaiting \<Rightarrow> if plCancelled s then Some (s\<lparr>plFinal := FinalStopped\<rparr>) else None
      | FinalSaved vols \<Rightarrow> if plCancelled s then Some (s\<lparr>plFinal := FinalStopped\<rparr>) else None
      | _ \<Rightarrow> None)"

section \<open>Runs\<close>

text \<open>Cancelling the context is possible at any time: the caller may do it, and so does every failure.\<close>

datatype action = Splitter splitter_act | Forwarder forwarder_act | Worker nat worker_act | Sink sink_act | Final final_act | Cancel

fun pipeDo :: "pipeConf \<Rightarrow> action \<Rightarrow> pipeline \<Rightarrow> pipeline option" where
  "pipeDo c (Splitter a) s = splitterDo c a s"
| "pipeDo c (Forwarder a) s = forwarderDo c a s"
| "pipeDo c (Worker i a) s = (if i < pcStages c then workerDo c i a s else None)"
| "pipeDo c (Sink a) s = sinkDo c a s"
| "pipeDo c (Final a) s = finalDo c a s"
| "pipeDo c Cancel s = Some (s\<lparr>plCancelled := True\<rparr>)"

inductive pipeRun :: "pipeConf \<Rightarrow> pipeline \<Rightarrow> bool" for c where
  start: "pipeRun c (newPipeline c)"
| step: "pipeRun c s \<Longrightarrow> pipeDo c a s = Some s' \<Longrightarrow> pipeRun c s'"

end
