(* ===== verification/PipelineProofs.thy ===== *)
theory PipelineProofs
  imports Pipeline
begin

text \<open>
  The invariants of the upload pipeline, by induction on its runs: no volume is lost or duplicated,
  \<^verbatim>\<open>pending\<close> reaches zero only when every volume is in the manifest, what a manifest lists has been
  uploaded, and the manifest is uploaded after it.
\<close>

section \<open>No volume is lost\<close>

primrec volumesOf :: "piece list \<Rightarrow> VolumeInfo multiset" where
  "volumesOf [] = {#}"
| "volumesOf (p # ps) = (case p of SentVolume v \<Rightarrow> {#v#} | SentManifest vols \<Rightarrow> {#}) + volumesOf ps"

lemma volumesOf_append [simp]: "volumesOf (ps @ qs) = volumesOf ps + volumesOf qs"
  by (induction ps) (simp_all add: ac_simps)

lemma volumesOf_remove: "p \<in> set ps \<Longrightarrow> volumesOf ps = volumesOf [p] + volumesOf (remove1 p ps)"
  by (induction ps) (auto simp: ac_simps)

definition stageVolumes :: "stage \<Rightarrow> VolumeInfo multiset" where
  "stageVolumes st = volumesOf (stTaken st) + volumesOf (stReady st) + volumesOf (stDone st)"

text \<open>The volumes between the forwarder and the collector, and those that a failing goroutine left.\<close>

definition inFlight :: "pipeConf \<Rightarrow> pipeline \<Rightarrow> VolumeInfo multiset" where
  "inFlight c s = (case plHold s of None \<Rightarrow> {#} | Some v \<Rightarrow> {#v#}) + volumesOf (plStep s)
     + (\<Sum>i<pcStages c. stageVolumes (plStages s i)) + volumesOf (plDropped s)"

lemma sum_stages_upd:
  fixes f :: "stage \<Rightarrow> 'b::comm_monoid_add" and i n :: nat
  assumes "i < n"
  shows "(\<Sum>j<n. f ((g(i := x)) j)) = f x + (\<Sum>j\<in>{..<n} - {i}. f (g j))"
    and "(\<Sum>j<n. f (g j)) = f (g i) + (\<Sum>j\<in>{..<n} - {i}. f (g j))"
proof -
  have i: "i \<in> {..<n}" using assms by simp
  have "(\<Sum>j\<in>{..<n} - {i}. f ((g(i := x)) j)) = (\<Sum>j\<in>{..<n} - {i}. f (g j))" by (rule sum.cong) auto
  then show "(\<Sum>j<n. f ((g(i := x)) j)) = f x + (\<Sum>j\<in>{..<n} - {i}. f (g j))"
    using sum.remove [OF finite_lessThan i, of "\<lambda>j. f ((g(i := x)) j)"] by simp
  show "(\<Sum>j<n. f (g j)) = f (g i) + (\<Sum>j\<in>{..<n} - {i}. f (g j))" by (rule sum.remove [OF _ i]) simp
qed

lemma inFlight_setStage:
  assumes "i < pcStages c" "stageVolumes st + x = stageVolumes (plStages s i) + y"
  shows "inFlight c (setStage i st s) + x = inFlight c s + y"
proof -
  note sums = sum_stages_upd [OF assms(1), of stageVolumes "plStages s"]
  have "(\<Sum>j<pcStages c. stageVolumes (((plStages s)(i := st)) j)) + x = (\<Sum>j<pcStages c. stageVolumes (plStages s j)) + y"
    unfolding sums using assms(2) by (simp add: ac_simps)
  then show ?thesis by (simp add: inFlight_def setStage_def ac_simps)
qed

lemma inFlight_received:
  assumes "canReceive i p s" "i \<le> pcStages c"
  shows "inFlight c s = inFlight c (received i p s) + volumesOf [p]"
proof (cases i)
  case 0
  then obtain ps where "plStep s = p # ps" using assms(1) by (cases "plStep s") (auto simp: canReceive_def)
  then show ?thesis using 0 by (simp add: inFlight_def received_def ac_simps)
next
  case (Suc k)
  let ?st = "plStages s k"
  have p: "p \<in> set (stDone ?st)" using assms(1) Suc by (simp add: canReceive_def)
  have "inFlight c (setStage k (?st\<lparr>stDone := remove1 p (stDone ?st)\<rparr>) s) + volumesOf [p] = inFlight c s + {#}"
    using assms(2) Suc volumesOf_remove [OF p] by (intro inFlight_setStage) (simp_all add: stageVolumes_def ac_simps)
  then show ?thesis using Suc by (simp add: received_def)
qed

lemma inFlight_simps [simp]:
  "inFlight c (s\<lparr>plDropped := ps\<rparr>) + volumesOf (plDropped s) = inFlight c s + volumesOf ps"
  "inFlight c (s\<lparr>plUploads := us\<rparr>) = inFlight c s"
  by (simp_all add: inFlight_def ac_simps)

section \<open>The invariant\<close>

lemma pendingDone_simps [simp]:
  "plTodo (pendingDone s) = plTodo s" "plCurrent (pendingDone s) = plCurrent s" "plStream (pendingDone s) = plStream s"
  "plBuffer (pendingDone s) = plBuffer s" "plStart (pendingDone s) = plStart s" "plHold (pendingDone s) = plHold s"
  "plForwardDone (pendingDone s) = plForwardDone s" "plForwarded (pendingDone s) = plForwarded s"
  "plPending (pendingDone s) = plPending s - 1" "plZero (pendingDone s) = (plZero s \<or> plPending s = 1)"
  "plStep (pendingDone s) = plStep s" "plStepClosed (pendingDone s) = plStepClosed s" "plStages (pendingDone s) = plStages s"
  "plSink (pendingDone s) = plSink s" "plVolumes (pendingDone s) = plVolumes s" "plFinal (pendingDone s) = plFinal s"
  "plCancelled (pendingDone s) = plCancelled s" "plUploads (pendingDone s) = plUploads s" "plCached (pendingDone s) = plCached s"
  "plDropped (pendingDone s) = plDropped s"
  by (auto simp: pendingDone_def Let_def)

lemma setStage_simps [simp]:
  "plTodo (setStage i st s) = plTodo s" "plCurrent (setStage i st s) = plCurrent s" "plStream (setStage i st s) = plStream s"
  "plBuffer (setStage i st s) = plBuffer s" "plStart (setStage i st s) = plStart s" "plHold (setStage i st s) = plHold s"
  "plForwardDone (setStage i st s) = plForwardDone s" "plForwarded (setStage i st s) = plForwarded s"
  "plPending (setStage i st s) = plPending s" "plZero (setStage i st s) = plZero s"
  "plStep (setStage i st s) = plStep s" "plStepClosed (setStage i st s) = plStepClosed s"
  "plStages (setStage i st s) = (plStages s)(i := st)"
  "plSink (setStage i st s) = plSink s" "plVolumes (setStage i st s) = plVolumes s" "plFinal (setStage i st s) = plFinal s"
  "plCancelled (setStage i st s) = plCancelled s" "plUploads (setStage i st s) = plUploads s" "plCached (setStage i st s) = plCached s"
  "plDropped (setStage i st s) = plDropped s"
  by (simp_all add: setStage_def)

lemma received_simps [simp]:
  "plTodo (received i p s) = plTodo s" "plCurrent (received i p s) = plCurrent s" "plStream (received i p s) = plStream s"
  "plBuffer (received i p s) = plBuffer s" "plStart (received i p s) = plStart s" "plHold (received i p s) = plHold s"
  "plForwardDone (received i p s) = plForwardDone s" "plForwarded (received i p s) = plForwarded s"
  "plPending (received i p s) = plPending s" "plZero (received i p s) = plZero s"
  "plStepClosed (received i p s) = plStepClosed s"
  "plSink (received i p s) = plSink s" "plVolumes (received i p s) = plVolumes s" "plFinal (received i p s) = plFinal s"
  "plCancelled (received i p s) = plCancelled s" "plUploads (received i p s) = plUploads s" "plCached (received i p s) = plCached s"
  "plDropped (received i p s) = plDropped s"
  by (simp_all add: received_def split: nat.split)

text \<open>What a worker leaves unchanged.\<close>

definition workerFrame :: "pipeline \<Rightarrow> pipeline \<Rightarrow> bool" where
  "workerFrame s s' \<longleftrightarrow> plTodo s' = plTodo s \<and> plCurrent s' = plCurrent s \<and> plStream s' = plStream s \<and> plBuffer s' = plBuffer s
     \<and> plStart s' = plStart s \<and> plHold s' = plHold s \<and> plForwardDone s' = plForwardDone s \<and> plForwarded s' = plForwarded s
     \<and> plPending s' = plPending s \<and> plZero s' = plZero s \<and> plStepClosed s' = plStepClosed s \<and> plSink s' = plSink s
     \<and> plVolumes s' = plVolumes s \<and> plFinal s' = plFinal s \<and> plCancelled s' = plCancelled s \<and> plCached s' = plCached s"

lemma workerDo_frame: "workerDo c i a s = Some s' \<Longrightarrow> workerFrame s s'"
  by (cases a) (auto simp: workerFrame_def Let_def split: if_splits)

lemma workerDo_inFlight:
  assumes "workerDo c i a s = Some s'" "i < pcStages c"
  shows "inFlight c s' = inFlight c s"
proof -
  let ?st = "plStages s i"
  have drop: "inFlight c (setStage i st s\<lparr>plDropped := plDropped s @ [p]\<rparr>) = inFlight c s"
    if "stageVolumes ?st = stageVolumes st + volumesOf [p]" for st p
  proof -
    have "inFlight c (setStage i st s) + volumesOf [p] = inFlight c s + {#}"
      using assms(2) that by (intro inFlight_setStage) (simp_all add: ac_simps)
    moreover have "inFlight c (setStage i st s\<lparr>plDropped := plDropped s @ [p]\<rparr>) = inFlight c (setStage i st s) + volumesOf [p]"
      by (simp add: inFlight_def ac_simps)
    ultimately show ?thesis by simp
  qed
  have same: "inFlight c (setStage i st s) = inFlight c s" if "stageVolumes ?st = stageVolumes st" for st
    using inFlight_setStage [OF assms(2), of st "{#}" s "{#}"] that by simp
  show ?thesis
  proof (cases a)
    case (WTake p)
    let ?s = "received i p s"
    have r: "canReceive i p s" and s': "s' = setStage i ((plStages ?s i)\<lparr>stTaken := stTaken (plStages ?s i) @ [p]\<rparr>) ?s"
      using assms(1) WTake by (auto simp: Let_def split: if_splits)
    have "inFlight c s' + {#} = inFlight c ?s + volumesOf [p]"
      unfolding s' using assms(2) by (intro inFlight_setStage) (simp_all add: stageVolumes_def ac_simps)
    then show ?thesis using inFlight_received [OF r, of c] assms(2) by simp
  next
    case (WCheck p)
    then show ?thesis using assms(1) volumesOf_remove [of p "stTaken ?st"]
      by (auto simp: Let_def stageVolumes_def ac_simps split: if_splits intro!: drop same)
  next
    case (WUpload p)
    then show ?thesis using assms(1) volumesOf_remove [of p "stReady ?st"]
      by (auto simp: Let_def stageVolumes_def ac_simps split: if_splits intro!: same)
  next
    case (WUploadFails p)
    then show ?thesis using assms(1) volumesOf_remove [of p "stReady ?st"]
      by (auto simp: Let_def stageVolumes_def ac_simps split: if_splits intro!: drop)
  next
    case (WAbandon p)
    then show ?thesis using assms(1) volumesOf_remove [of p "stDone ?st"]
      by (auto simp: Let_def stageVolumes_def ac_simps split: if_splits intro!: drop)
  next
    case WEnds
    then show ?thesis using assms(1) by (auto simp: Let_def stageVolumes_def split: if_splits intro!: same)
  next
    case OutCloses
    then show ?thesis using assms(1) by (auto simp: Let_def stageVolumes_def split: if_splits intro!: same)
  qed
qed

text \<open>The order of the volumes, and where they are.\<close>

definition flowInv :: "pipeConf \<Rightarrow> pipeline \<Rightarrow> bool" where
  "flowInv c s \<longleftrightarrow>
     pcVols c = plForwarded s @ plStart s @ (case plCurrent s of None \<Rightarrow> [] | Some v \<Rightarrow> [v]) @ plTodo s
     \<and> (plStream s = StreamEnded \<longrightarrow> \<not> pcErr c \<and> plTodo s = [] \<and> plCurrent s = None)
     \<and> (plForwardDone s \<longrightarrow> plHold s = None \<and> (plCancelled s \<or> plStream s = StreamEnded \<and> plStart s = []))"

definition massInv :: "pipeConf \<Rightarrow> pipeline \<Rightarrow> bool" where
  "massInv c s \<longleftrightarrow> mset (plVolumes s) + inFlight c s = mset (pcKept c) + mset (plForwarded s)"

text \<open>What \<^verbatim>\<open>pending\<close> counts, at least: the forwarder, and the volumes that it took and the collector has not saved.\<close>

definition pendingInv :: "pipeConf \<Rightarrow> pipeline \<Rightarrow> bool" where
  "pendingInv c s \<longleftrightarrow> (if plForwardDone s then 0 else 1) + int (length (plForwarded s)) + int (length (pcKept c))
       + (if plSink s = SinkSaving then 1 else 0) \<le> plPending s + int (length (plVolumes s))"

definition countInv :: "pipeConf \<Rightarrow> pipeline \<Rightarrow> bool" where
  "countInv c s \<longleftrightarrow> flowInv c s \<and> massInv c s \<and> pendingInv c s"

lemma countInv_start: "countInv c (newPipeline c)"
  by (simp add: countInv_def flowInv_def massInv_def pendingInv_def newPipeline_def newStage_def inFlight_def stageVolumes_def)

lemma inFlight_fields [simp]:
  "inFlight c (s\<lparr>plVolumes := x0\<rparr>) = inFlight c s"
  "inFlight c (s\<lparr>plSink := x1\<rparr>) = inFlight c s"
  "inFlight c (s\<lparr>plCached := x2\<rparr>) = inFlight c s"
  "inFlight c (s\<lparr>plBuffer := x3\<rparr>) = inFlight c s"
  "inFlight c (s\<lparr>plFinal := x4\<rparr>) = inFlight c s"
  "inFlight c (s\<lparr>plCancelled := x5\<rparr>) = inFlight c s"
  "inFlight c (s\<lparr>plStream := x6\<rparr>) = inFlight c s"
  "inFlight c (s\<lparr>plTodo := x7\<rparr>) = inFlight c s"
  "inFlight c (s\<lparr>plCurrent := x8\<rparr>) = inFlight c s"
  "inFlight c (s\<lparr>plStart := x9\<rparr>) = inFlight c s"
  "inFlight c (s\<lparr>plForwardDone := x10\<rparr>) = inFlight c s"
  "inFlight c (s\<lparr>plForwarded := x11\<rparr>) = inFlight c s"
  "inFlight c (s\<lparr>plStepClosed := x12\<rparr>) = inFlight c s"
  "inFlight c (s\<lparr>plPending := x13\<rparr>) = inFlight c s"
  "inFlight c (s\<lparr>plZero := x14\<rparr>) = inFlight c s"
  "inFlight c (s\<lparr>plStep := plStep s @ [SentManifest vols]\<rparr>) = inFlight c s" "inFlight c (pendingDone s) = inFlight c s"
  by (simp_all add: inFlight_def)

lemma mset_sortVolumes [simp]: "mset (sortVolumes vs) = mset vs" by (simp add: sortVolumes_def)

lemma length_sortVolumes [simp]: "length (sortVolumes vs) = length vs" by (simp add: sortVolumes_def)

lemma sortVolumes_idem [simp]: "sortVolumes (sortVolumes vs) = sortVolumes vs"
  unfolding sortVolumes_def by (rule sort_key_id_if_sorted) simp

lemma countInv_splitter:
  assumes "countInv c s" "splitterDo c a s = Some s'"
  shows "countInv c s'"
proof -
  have "massInv c s'"
    using assms by (cases a) (auto simp: countInv_def massInv_def split: if_splits option.splits)
  moreover have "pendingInv c s'"
    using assms by (cases a) (auto simp: countInv_def pendingInv_def split: if_splits option.splits)
  moreover have "flowInv c s'"
    using assms by (cases a) (auto simp: countInv_def flowInv_def split: if_splits option.splits)
  ultimately show ?thesis by (simp add: countInv_def)
qed

lemma countInv_forwarder:
  assumes "countInv c s" "forwarderDo c a s = Some s'"
  shows "countInv c s'"
proof -
  have "massInv c s'"
    using assms by (cases a) (auto simp: countInv_def massInv_def inFlight_def pendingAdd_def split: if_splits option.splits list.splits)
  moreover have "pendingInv c s'"
    using assms by (cases a) (auto simp: countInv_def pendingInv_def pendingAdd_def split: if_splits option.splits list.splits)
  moreover have "flowInv c s'"
    using assms by (cases a) (auto simp: countInv_def flowInv_def pendingAdd_def split: if_splits option.splits list.splits)
  ultimately show ?thesis by (simp add: countInv_def)
qed

lemma countInv_worker: "countInv c s \<Longrightarrow> workerDo c i a s = Some s' \<Longrightarrow> i < pcStages c \<Longrightarrow> countInv c s'"
  using workerDo_frame [of c i a s s'] workerDo_inFlight [of c i a s s']
  by (simp add: countInv_def flowInv_def massInv_def pendingInv_def workerFrame_def)

text \<open>The last two goroutines leave what the first two do, and move volumes without losing any.\<close>

definition flowFrame :: "pipeline \<Rightarrow> pipeline \<Rightarrow> bool" where
  "flowFrame s s' \<longleftrightarrow> plTodo s' = plTodo s \<and> plCurrent s' = plCurrent s \<and> plStream s' = plStream s \<and> plStart s' = plStart s
     \<and> plHold s' = plHold s \<and> plForwardDone s' = plForwardDone s \<and> plForwarded s' = plForwarded s \<and> plCancelled s' = plCancelled s"

definition unsaved :: "pipeline \<Rightarrow> int" where
  "unsaved s = plPending s + int (length (plVolumes s)) - (if plSink s = SinkSaving then 1 else 0)"

lemma countInv_frame:
  assumes "countInv c s" "flowFrame s s'" "mset (plVolumes s') + inFlight c s' = mset (plVolumes s) + inFlight c s" "unsaved s \<le> unsaved s'"
  shows "countInv c s'"
  using assms by (simp add: countInv_def flowInv_def massInv_def pendingInv_def flowFrame_def unsaved_def)

lemma sinkDo_frame: "sinkDo c a s = Some s' \<Longrightarrow> flowFrame s s'"
  by (cases a) (auto simp: flowFrame_def Let_def split: if_splits piece.splits)

lemma finalDo_frame: "finalDo c a s = Some s' \<Longrightarrow> flowFrame s s'"
  by (cases a) (auto simp: flowFrame_def Let_def split: if_splits final_phase.splits)

lemma sinkDo_volumes:
  assumes step: "sinkDo c a s = Some s'"
  shows "mset (plVolumes s') + inFlight c s' = mset (plVolumes s) + inFlight c s"
proof (cases a)
  case (SinkTake p)
  then have r: "canReceive (pcStages c) p s" using step by (auto split: if_splits)
  have "mset (plVolumes s') + inFlight c s' = mset (plVolumes s) + (inFlight c (received (pcStages c) p s) + volumesOf [p])"
    using step SinkTake by (cases p) (auto simp: Let_def split: if_splits)
  then show ?thesis using inFlight_received [OF r, of c] by simp
qed (use step in \<open>auto simp: Let_def split: if_splits\<close>)

lemma finalDo_volumes: "finalDo c a s = Some s' \<Longrightarrow> mset (plVolumes s') + inFlight c s' = mset (plVolumes s) + inFlight c s"
  by (cases a) (auto simp: Let_def split: if_splits final_phase.splits)

lemma countInv_sink:
  assumes inv: "countInv c s" and step: "sinkDo c a s = Some s'"
  shows "countInv c s'"
proof (rule countInv_frame [OF inv sinkDo_frame [OF step] sinkDo_volumes [OF step]])
  show "unsaved s \<le> unsaved s'" using step by (cases a) (auto simp: unsaved_def Let_def split: if_splits piece.splits)
qed

lemma countInv_final:
  assumes inv: "countInv c s" and step: "finalDo c a s = Some s'"
  shows "countInv c s'"
proof (rule countInv_frame [OF inv finalDo_frame [OF step] finalDo_volumes [OF step]])
  show "unsaved s \<le> unsaved s'" using step by (cases a) (auto simp: unsaved_def Let_def split: if_splits final_phase.splits)
qed

lemma countInv_step:
  assumes "countInv c s" "pipeDo c a s = Some s'"
  shows "countInv c s'"
proof (cases a)
  case Cancel
  then show ?thesis using assms by (auto simp: countInv_def flowInv_def massInv_def pendingInv_def)
qed (use assms in \<open>auto split: if_splits intro: countInv_splitter countInv_forwarder countInv_worker countInv_sink countInv_final\<close>)

text \<open>All of the stream is in volumes that went through every stage, and in the manifest.\<close>

definition allCollected :: "pipeConf \<Rightarrow> pipeline \<Rightarrow> bool" where
  "allCollected c s \<longleftrightarrow> plStream s = StreamEnded \<and> plForwardDone s \<and> plForwarded s = pcVols c
     \<and> mset (plVolumes s) = mset (pcKept c) + mset (pcVols c)"

lemma countInv_mass: "countInv c s \<Longrightarrow> mset (plVolumes s) + inFlight c s = mset (pcKept c) + mset (plForwarded s)"
  by (simp add: countInv_def massInv_def)

lemma pending_zero:
  assumes "countInv c s" "plPending s = 0" "\<not> plCancelled s"
  shows "allCollected c s"
proof -
  note kept = countInv_mass [OF assms(1)]
  from arg_cong [OF this, of size] have "length (plVolumes s) + size (inFlight c s) = length (pcKept c) + length (plForwarded s)" by simp
  moreover have p: "(if plForwardDone s then 0 else 1) + int (length (plForwarded s)) + int (length (pcKept c)) \<le> int (length (plVolumes s))"
    using assms(1,2) by (simp add: countInv_def pendingInv_def split: if_splits)
  ultimately have "size (inFlight c s) = 0" and fwd: "plForwardDone s" by (simp_all del: size_eq_0_iff_empty split: if_splits)
  then have "inFlight c s = {#}" by simp
  then show ?thesis using assms kept fwd by (auto simp: countInv_def flowInv_def allCollected_def)
qed

lemma allCollected_inFlight:
  assumes "countInv c s" "allCollected c s"
  shows "inFlight c s = {#}"
  using countInv_mass [OF assms(1)] assms(2) by (simp add: allCollected_def)

definition finalInv :: "pipeConf \<Rightarrow> pipeline \<Rightarrow> bool" where
  "finalInv c s \<longleftrightarrow> (plZero s \<longrightarrow> plCancelled s \<or> allCollected c s)
     \<and> (plFinal s \<notin> {FinalWaiting, FinalStopped} \<longrightarrow> allCollected c s)
     \<and> (plStepClosed s \<longrightarrow> plFinal s = FinalSent)
     \<and> (\<forall>vols. plFinal s = FinalSaved vols \<longrightarrow> sortVolumes vols = vols \<and> mset vols = mset (pcKept c) + mset (pcVols c))"

lemma volumesOf_in: "SentVolume v \<in> set ps \<Longrightarrow> v \<in># volumesOf ps"
  by (induction ps) (auto split: piece.splits)

lemma inFlight_step: "volumesOf (plStep s) \<subseteq># inFlight c s"
  by (simp add: inFlight_def subset_mset.le_iff_add ac_simps)

lemma inFlight_received_volume:
  assumes "canReceive i (SentVolume v) s" "i \<le> pcStages c"
  shows "inFlight c s \<noteq> {#}"
  using inFlight_received [OF assms] by simp

lemma allCollected_step:
  assumes inv: "countInv c s" and all: "allCollected c s" and step: "pipeDo c a s = Some s'"
  shows "allCollected c s'"
proof (cases a)
  case (Splitter b)
  then show ?thesis using all step by (cases b) (auto simp: allCollected_def split: if_splits option.splits)
next
  case (Forwarder b)
  then show ?thesis using all step by (cases b) (auto simp: allCollected_def split: if_splits option.splits list.splits)
next
  case (Worker i b)
  then show ?thesis using all step workerDo_frame [of c i b s s'] by (auto simp: allCollected_def workerFrame_def split: if_splits)
next
  case (Sink b)
  show ?thesis
  proof (cases b)
    case (SinkTake p)
    then have r: "canReceive (pcStages c) p s" using step Sink by (auto split: if_splits)
    have "\<exists>vols. p = SentManifest vols"
      using inFlight_received_volume [of "pcStages c" _ s c] r allCollected_inFlight [OF inv all] by (cases p) auto
    then show ?thesis using all step Sink SinkTake by (auto simp: allCollected_def Let_def split: if_splits)
  qed (use all step Sink in \<open>auto simp: allCollected_def Let_def split: if_splits\<close>)
next
  case (Final b)
  then show ?thesis using all step by (cases b) (auto simp: allCollected_def Let_def split: if_splits final_phase.splits)
next
  case Cancel
  then show ?thesis using all step by (auto simp: allCollected_def)
qed

lemma zero_step:
  assumes "pipeDo c a s = Some s'" "plZero s'"
  shows "plZero s \<or> plPending s' = 0"
proof (cases a)
  case (Splitter b)
  then show ?thesis using assms by (cases b) (auto split: if_splits option.splits)
next
  case (Forwarder b)
  then show ?thesis using assms by (cases b) (auto simp: pendingAdd_def split: if_splits option.splits list.splits)
next
  case (Worker i b)
  then show ?thesis using assms workerDo_frame [of c i b s s'] by (auto simp: workerFrame_def split: if_splits)
next
  case (Sink b)
  then show ?thesis using assms by (cases b) (auto simp: Let_def split: if_splits piece.splits)
next
  case (Final b)
  then show ?thesis using assms by (cases b) (auto simp: Let_def split: if_splits final_phase.splits)
qed (use assms in auto)

text \<open>The steps of the last goroutine; no other changes its phase or closes \<^verbatim>\<open>stepCh\<close>.\<close>

lemma final_frame:
  assumes "pipeDo c a s = Some s'" "\<And>b. a \<noteq> Final b"
  shows "plFinal s' = plFinal s \<and> plStepClosed s' = plStepClosed s \<and> (plCancelled s \<longrightarrow> plCancelled s')"
proof (cases a)
  case (Splitter b)
  then show ?thesis using assms by (cases b) (auto split: if_splits option.splits)
next
  case (Forwarder b)
  then show ?thesis using assms by (cases b) (auto simp: pendingAdd_def split: if_splits option.splits list.splits)
next
  case (Worker i b)
  then show ?thesis using assms workerDo_frame [of c i b s s'] by (auto simp: workerFrame_def split: if_splits)
next
  case (Sink b)
  then show ?thesis using assms by (cases b) (auto simp: Let_def split: if_splits piece.splits)
qed (use assms in auto)

lemma finalDo_cancelled: "finalDo c a s = Some s' \<Longrightarrow> plCancelled s' = plCancelled s"
  using finalDo_frame [of c a s s'] by (simp add: flowFrame_def)

lemma pipeDo_cancelled:
  assumes "pipeDo c a s = Some s'" "plCancelled s"
  shows "plCancelled s'"
proof (cases "\<exists>b. a = Final b")
  case True
  then obtain b where "finalDo c b s = Some s'" using assms(1) by auto
  then show ?thesis using finalDo_cancelled [of c b s s'] assms(2) by simp
next
  case False
  then show ?thesis using final_frame [OF assms(1)] assms(2) by blast
qed

lemma finalInv_step:
  assumes inv: "countInv c s" and fin: "finalInv c s" and step: "pipeDo c a s = Some s'"
  shows "finalInv c s'"
proof -
  have all: "allCollected c s'" if "allCollected c s" by (rule allCollected_step [OF inv that step])
  have zero: "plCancelled s' \<or> allCollected c s'" if z: "plZero s'"
  proof (cases "plZero s")
    case True
    then have "plCancelled s \<or> allCollected c s" using fin by (simp add: finalInv_def)
    then show ?thesis using all pipeDo_cancelled [OF step] by blast
  next
    case False
    then have "plPending s' = 0" using zero_step [OF step z] by simp
    then show ?thesis using pending_zero [OF countInv_step [OF inv step]] by blast
  qed
  show ?thesis
  proof (cases "\<exists>b. a = Final b")
    case True
    then obtain b where a: "a = Final b" by blast
    have step: "finalDo c b s = Some s'" using step a by simp
    note mass = allCollected_inFlight [OF inv]
    have "plFinal s' \<notin> {FinalWaiting, FinalStopped} \<longrightarrow> allCollected c s'"
    proof (cases b)
      case FinalWake
      then show ?thesis using step zero by (auto split: if_splits)
    next
      case FinalSave
      then have "plFinal s = FinalWoken" using step by (simp split: if_splits)
      then show ?thesis using fin all by (simp add: finalInv_def)
    next
      case FinalPass
      then obtain vols where "plFinal s = FinalSaved vols" using step by (auto split: final_phase.splits)
      then show ?thesis using fin all by (simp add: finalInv_def)
    qed (use step in \<open>auto split: if_splits final_phase.splits\<close>)
    moreover have "plStepClosed s' \<longrightarrow> plFinal s' = FinalSent"
    proof -
      have "plStepClosed s \<longrightarrow> plFinal s = FinalSent" using fin by (simp add: finalInv_def)
      then show ?thesis using step by (cases b) (auto simp: Let_def split: if_splits final_phase.splits)
    qed
    moreover have "sortVolumes vols = vols \<and> mset vols = mset (pcKept c) + mset (pcVols c)" if saved: "plFinal s' = FinalSaved vols" for vols
    proof -
      have "b = FinalSave" using step saved by (cases b) (auto split: if_splits final_phase.splits)
      then have "plFinal s = FinalWoken" "vols = sortVolumes (plVolumes s)" using step saved by (auto simp: Let_def split: if_splits)
      then show ?thesis using fin by (simp add: finalInv_def allCollected_def)
    qed
    ultimately show ?thesis using zero unfolding finalInv_def by blast
  next
    case False
    then have "plFinal s' = plFinal s" "plStepClosed s' = plStepClosed s" using final_frame [OF step] by blast+
    then show ?thesis using zero fin all unfolding finalInv_def by metis
  qed
qed

lemma pipe_inv: "pipeRun c s \<Longrightarrow> countInv c s \<and> finalInv c s"
proof (induction rule: pipeRun.induct)
  case start
  have "finalInv c (newPipeline c)" by (simp add: finalInv_def newPipeline_def)
  then show ?case using countInv_start by blast
next
  case (step s a s')
  then show ?case using countInv_step [of c s a s'] finalInv_step [of c s a s'] by blast
qed

section \<open>What has been uploaded\<close>

definition reached :: "nat \<Rightarrow> piece \<Rightarrow> pipeline \<Rightarrow> bool" where
  "reached i p s \<longleftrightarrow> (\<forall>k<i. (k, p) \<in> set (plUploads s))"

definition stageInv :: "nat \<Rightarrow> stage \<Rightarrow> pipeline \<Rightarrow> bool" where
  "stageInv i st s \<longleftrightarrow> (\<forall>p\<in>set (stTaken st) \<union> set (stReady st). reached i p s) \<and> (\<forall>p\<in>set (stDone st). reached (Suc i) p s)"

definition stagesInv :: "pipeConf \<Rightarrow> pipeline \<Rightarrow> bool" where
  "stagesInv c s \<longleftrightarrow> (\<forall>i<pcStages c. stageInv i (plStages s i) s)"

lemma stageInv_uploads: "stageInv i st s \<Longrightarrow> set (plUploads s) \<subseteq> set (plUploads s') \<Longrightarrow> stageInv i st s'"
  by (auto simp: stageInv_def reached_def)

lemma reached_receive:
  assumes "stagesInv c s" "canReceive i p s" "i \<le> pcStages c"
  shows "reached i p s"
proof (cases i)
  case (Suc k)
  then have "stageInv k (plStages s k) s" "p \<in> set (stDone (plStages s k))" using assms by (simp_all add: stagesInv_def canReceive_def)
  then show ?thesis using Suc by (simp add: stageInv_def)
qed (simp add: reached_def)

lemma stagesInv_same:
  assumes "plUploads s' = plUploads s" "\<And>k. k < pcStages c \<Longrightarrow> stageInv k (plStages s' k) s"
  shows "stagesInv c s'"
  unfolding stagesInv_def
proof (intro allI impI)
  fix k assume "k < pcStages c"
  then show "stageInv k (plStages s' k) s'" by (rule stageInv_uploads [OF assms(2)]) (simp add: assms(1))
qed

lemma stages_received:
  assumes "stagesInv c s" "k < pcStages c"
  shows "stageInv k (plStages (received i p s) k) s"
proof -
  have "stageInv k (plStages s k) s" using assms by (simp add: stagesInv_def)
  then show ?thesis by (cases i) (auto simp: received_def stageInv_def dest: notin_set_remove1)
qed

lemma stagesInv_setStage:
  assumes "stagesInv c s" "stageInv i st s'" "set (plUploads s) \<subseteq> set (plUploads s')" "plStages s' = (plStages s)(i := st)"
  shows "stagesInv c s'"
  using assms stageInv_uploads [of _ _ s s'] by (auto simp: stagesInv_def)

lemma in_remove1D: "p \<in> set (remove1 q ps) \<Longrightarrow> p \<in> set ps"
  using set_remove1_subset by fast

text \<open>A worker that neither takes nor uploads only moves its piece on, or drops it.\<close>

lemma workerDo_quiet:
  assumes "workerDo c i a s = Some s'" "\<And>p. a \<noteq> WTake p" "\<And>p. a \<noteq> WUpload p"
  obtains st where "plStages s' = (plStages s)(i := st)" "plUploads s' = plUploads s" "plStep s' = plStep s"
    "set (stTaken st) \<union> set (stReady st) \<subseteq> set (stTaken (plStages s i)) \<union> set (stReady (plStages s i))"
    "set (stDone st) \<subseteq> set (stDone (plStages s i))"
proof -
  have "plStages s' = (plStages s)(i := plStages s' i) \<and> plUploads s' = plUploads s \<and> plStep s' = plStep s
    \<and> set (stTaken (plStages s' i)) \<union> set (stReady (plStages s' i)) \<subseteq> set (stTaken (plStages s i)) \<union> set (stReady (plStages s i))
    \<and> set (stDone (plStages s' i)) \<subseteq> set (stDone (plStages s i))"
    using assms by (cases a) (auto simp: Let_def split: if_splits dest!: in_remove1D)
  then show thesis using that by blast
qed

lemma stagesInv_worker:
  assumes inv: "stagesInv c s" and step: "workerDo c i a s = Some s'" and i: "i < pcStages c"
  shows "stagesInv c s'"
proof -
  let ?st = "plStages s i"
  have st: "stageInv i ?st s" using inv i by (simp add: stagesInv_def)
  have quiet: ?thesis if q: "\<And>p. a \<noteq> WTake p" "\<And>p. a \<noteq> WUpload p"
  proof (rule workerDo_quiet [OF step q])
    fix st assume new: "plStages s' = (plStages s)(i := st)" "plUploads s' = plUploads s"
      "set (stTaken st) \<union> set (stReady st) \<subseteq> set (stTaken ?st) \<union> set (stReady ?st)" "set (stDone st) \<subseteq> set (stDone ?st)"
    then have "stageInv i st s" using st unfolding stageInv_def by blast
    then have "stageInv i st s'" by (rule stageInv_uploads) (simp add: new)
    then show ?thesis by (rule stagesInv_setStage [OF inv]) (simp_all add: new)
  qed
  show ?thesis
  proof (cases a)
    case (WTake p)
    let ?s = "received i p s"
    have r: "canReceive i p s" and s': "s' = setStage i ((plStages ?s i)\<lparr>stTaken := stTaken (plStages ?s i) @ [p]\<rparr>) ?s"
      using step WTake by (auto simp: Let_def split: if_splits)
    have up: "plUploads s' = plUploads s" by (simp add: s')
    have "reached i p s" using reached_receive [OF inv r] i by simp
    then have "stageInv i ((plStages ?s i)\<lparr>stTaken := stTaken (plStages ?s i) @ [p]\<rparr>) s"
      using stages_received [OF inv i, of i p] by (auto simp: stageInv_def)
    then have "stageInv k (plStages s' k) s" if "k < pcStages c" for k
      using stages_received [OF inv that, of i p] by (simp add: s')
    then show ?thesis by (rule stagesInv_same [OF up])
  next
    case (WUpload p)
    then have p: "p \<in> set (stReady ?st)"
      and s': "s' = setStage i (?st\<lparr>stReady := remove1 p (stReady ?st), stDone := stDone ?st @ [p]\<rparr>) s\<lparr>plUploads := plUploads s @ [(i, p)]\<rparr>"
      using step by (auto simp: Let_def split: if_splits)
    have "reached i p s" using st p by (simp add: stageInv_def)
    then have "reached (Suc i) p s'" by (auto simp: reached_def s' less_Suc_eq)
    moreover have "stageInv i ?st s'" by (rule stageInv_uploads [OF st]) (auto simp: s')
    ultimately have "stageInv i (?st\<lparr>stReady := remove1 p (stReady ?st), stDone := stDone ?st @ [p]\<rparr>) s'"
      by (auto simp: stageInv_def dest!: in_remove1D)
    then show ?thesis by (rule stagesInv_setStage [OF inv]) (auto simp: s')
  qed (use quiet in simp_all)
qed

text \<open>The other goroutines upload nothing, and only the collector takes from a stage.\<close>

lemma others_stages:
  assumes "pipeDo c a s = Some s'" "\<And>i b. a \<noteq> Worker i b"
  shows "plUploads s' = plUploads s \<and> (plStages s' = plStages s \<or> (\<exists>p. a = Sink (SinkTake p) \<and> plStages s' = plStages (received (pcStages c) p s)))"
proof (cases a)
  case (Splitter b)
  then show ?thesis using assms by (cases b) (auto split: if_splits option.splits)
next
  case (Forwarder b)
  then show ?thesis using assms by (cases b) (auto simp: pendingAdd_def split: if_splits option.splits list.splits)
next
  case (Sink b)
  then show ?thesis using assms by (cases b) (auto simp: Let_def split: if_splits piece.splits)
next
  case (Final b)
  then show ?thesis using assms by (cases b) (auto simp: Let_def split: if_splits final_phase.splits)
qed (use assms in auto)

lemma stagesInv_step:
  assumes inv: "stagesInv c s" and step: "pipeDo c a s = Some s'"
  shows "stagesInv c s'"
proof (cases "\<exists>i b. a = Worker i b")
  case True
  then obtain i b where "workerDo c i b s = Some s'" "i < pcStages c" using step by (auto split: if_splits)
  then show ?thesis by (rule stagesInv_worker [OF inv])
next
  case False
  then have o: "plUploads s' = plUploads s" "plStages s' = plStages s \<or> (\<exists>p. plStages s' = plStages (received (pcStages c) p s))"
    using others_stages [OF step] by blast+
  have "stageInv k (plStages s' k) s" if "k < pcStages c" for k
    using o(2) stages_received [OF inv that] inv that by (auto simp: stagesInv_def)
  then show ?thesis by (rule stagesInv_same [OF o(1)])
qed

text \<open>Only volumes that a resume kept, or that every stage uploaded, get into a manifest.\<close>

definition storedVolume :: "pipeConf \<Rightarrow> (nat \<times> piece) list \<Rightarrow> VolumeInfo \<Rightarrow> bool" where
  "storedVolume c us v \<longleftrightarrow> v \<in> set (pcKept c) \<or> (\<forall>k<pcStages c. (k, SentVolume v) \<in> set us)"

definition cachesInv :: "pipeConf \<Rightarrow> pipeline \<Rightarrow> bool" where
  "cachesInv c s \<longleftrightarrow> (\<forall>v\<in>set (plVolumes s) \<union> \<Union> (set ` set (plCached s)). storedVolume c (plUploads s) v)"

lemma uploads_grow: "pipeDo c a s = Some s' \<Longrightarrow> set (plUploads s) \<subseteq> set (plUploads s')"
proof (cases "\<exists>i b. a = Worker i b")
  case True
  then obtain i b where a: "a = Worker i b" by blast
  then show "pipeDo c a s = Some s' \<Longrightarrow> set (plUploads s) \<subseteq> set (plUploads s')" by (cases b) (auto simp: Let_def split: if_splits)
next
  case False
  then show "pipeDo c a s = Some s' \<Longrightarrow> set (plUploads s) \<subseteq> set (plUploads s')" using others_stages [of c a s s'] by auto
qed

text \<open>What a step adds to the manifests: nothing, or the volume that the collector takes.\<close>

lemma manifests_step:
  assumes "pipeDo c a s = Some s'" "v \<in> set (plVolumes s') \<union> \<Union> (set ` set (plCached s'))"
  shows "v \<in> set (plVolumes s) \<union> \<Union> (set ` set (plCached s)) \<or> canReceive (pcStages c) (SentVolume v) s"
proof (cases a)
  case (Splitter b)
  then show ?thesis using assms by (cases b) (auto split: if_splits option.splits)
next
  case (Forwarder b)
  then show ?thesis using assms by (cases b) (auto simp: pendingAdd_def split: if_splits option.splits list.splits)
next
  case (Worker i b)
  then show ?thesis using assms workerDo_frame [of c i b s s'] by (auto simp: workerFrame_def split: if_splits)
next
  case (Sink b)
  then show ?thesis using assms by (cases b) (auto simp: Let_def split: if_splits piece.splits)
next
  case (Final b)
  then show ?thesis using assms by (cases b) (auto simp: Let_def split: if_splits final_phase.splits)
qed (use assms in auto)

lemma cachesInv_step:
  assumes inv: "cachesInv c s" "stagesInv c s" and step: "pipeDo c a s = Some s'"
  shows "cachesInv c s'"
  unfolding cachesInv_def
proof
  fix v assume "v \<in> set (plVolumes s') \<union> \<Union> (set ` set (plCached s'))"
  then have "storedVolume c (plUploads s) v"
    using manifests_step [OF step] inv(1) reached_receive [OF inv(2), of "pcStages c" "SentVolume v"]
    unfolding cachesInv_def storedVolume_def reached_def by blast
  then show "storedVolume c (plUploads s') v" using uploads_grow [OF step] by (auto simp: storedVolume_def)
qed

lemma uploads_inv: "pipeRun c s \<Longrightarrow> stagesInv c s \<and> cachesInv c s"
proof (induction rule: pipeRun.induct)
  case start
  show ?case by (simp add: stagesInv_def stageInv_def cachesInv_def storedVolume_def newPipeline_def newStage_def)
next
  case (step s a s')
  then show ?case using stagesInv_step [of c s a s'] cachesInv_step [of c s a s'] by blast
qed

section \<open>The manifest comes last\<close>

definition fullManifest :: "pipeConf \<Rightarrow> VolumeInfo list \<Rightarrow> bool" where
  "fullManifest c vols \<longleftrightarrow> sortVolumes vols = vols \<and> mset vols = mset (pcKept c) + mset (pcVols c)"

definition stagePieces :: "stage \<Rightarrow> piece set" where
  "stagePieces st = set (stTaken st) \<union> set (stReady st) \<union> set (stDone st)"

definition pieces :: "pipeConf \<Rightarrow> pipeline \<Rightarrow> piece set" where
  "pieces c s = set (plStep s) \<union> (\<Union>i<pcStages c. stagePieces (plStages s i))"

definition manifestInv :: "pipeConf \<Rightarrow> pipeline \<Rightarrow> bool" where
  "manifestInv c s \<longleftrightarrow> (\<forall>vols. SentManifest vols \<in> pieces c s \<longrightarrow> fullManifest c vols \<and> allCollected c s)"

lemma pieces_setStage:
  "pieces c (setStage i st s) \<subseteq> pieces c s \<union> stagePieces st"
  by (auto simp: pieces_def split: if_splits)

lemma pieces_received: "canReceive i p s \<Longrightarrow> i \<le> pcStages c \<Longrightarrow> insert p (pieces c (received i p s)) \<subseteq> pieces c s"
proof (cases i)
  case (Suc k)
  assume r: "canReceive i p s" "i \<le> pcStages c"
  then have "k < pcStages c" "p \<in> set (stDone (plStages s k))" using Suc by (simp_all add: canReceive_def)
  then show ?thesis using Suc by (auto simp: pieces_def received_def stagePieces_def split: if_splits dest!: in_remove1D)
qed (auto simp: pieces_def received_def canReceive_def intro: hd_in_set dest: list.set_sel(2))

lemma workerDo_pieces:
  assumes step: "workerDo c i a s = Some s'" and i: "i < pcStages c"
  shows "pieces c s' \<subseteq> pieces c s"
proof -
  let ?st = "plStages s i"
  have st: "stagePieces ?st \<subseteq> pieces c s" using i by (auto simp: pieces_def)
  have quiet: ?thesis if q: "\<And>p. a \<noteq> WTake p" "\<And>p. a \<noteq> WUpload p"
  proof (rule workerDo_quiet [OF step q])
    fix st' assume new: "plStages s' = (plStages s)(i := st')" "plStep s' = plStep s"
      "set (stTaken st') \<union> set (stReady st') \<subseteq> set (stTaken ?st) \<union> set (stReady ?st)" "set (stDone st') \<subseteq> set (stDone ?st)"
    then have "pieces c s' = pieces c (setStage i st' s)" "stagePieces st' \<subseteq> stagePieces ?st" by (auto simp: pieces_def stagePieces_def)
    then show ?thesis using pieces_setStage [of c i st' s] st by blast
  qed
  show ?thesis
  proof (cases a)
    case (WTake p)
    let ?s = "received i p s"
    have r: "canReceive i p s" and s': "s' = setStage i ((plStages ?s i)\<lparr>stTaken := stTaken (plStages ?s i) @ [p]\<rparr>) ?s"
      using step WTake by (auto simp: Let_def split: if_splits)
    have "pieces c s' \<subseteq> insert p (pieces c ?s)"
      using pieces_setStage [of c i _ ?s] i unfolding s' by (fastforce simp: pieces_def stagePieces_def)
    then show ?thesis using pieces_received [OF r, of c] i by fastforce
  next
    case (WUpload p)
    let ?st' = "?st\<lparr>stReady := remove1 p (stReady ?st), stDone := stDone ?st @ [p]\<rparr>"
    have "pieces c s' = pieces c (setStage i ?st' s)" "stagePieces ?st' \<subseteq> stagePieces ?st"
      using step WUpload by (auto simp: Let_def pieces_def stagePieces_def split: if_splits dest!: in_remove1D)
    then show ?thesis using pieces_setStage [of c i ?st' s] st by blast
  qed (use quiet in simp_all)
qed

lemma pieces_step:
  assumes step: "pipeDo c a s = Some s'" and new: "SentManifest vols \<in> pieces c s'"
  shows "SentManifest vols \<in> pieces c s \<or> a = Final FinalPass \<and> plFinal s = FinalSaved vols"
proof (cases a)
  case (Splitter b)
  then show ?thesis using assms by (cases b) (auto simp: pieces_def split: if_splits option.splits)
next
  case (Forwarder b)
  then show ?thesis using assms by (cases b) (auto simp: pieces_def pendingAdd_def split: if_splits option.splits list.splits)
next
  case (Worker i b)
  then show ?thesis using assms workerDo_pieces [of c i b s s'] by (auto split: if_splits)
next
  case (Sink b)
  show ?thesis
  proof (cases b)
    case (SinkTake p)
    then have r: "canReceive (pcStages c) p s" "pieces c s' = pieces c (received (pcStages c) p s)"
      using step Sink by (auto simp: Let_def pieces_def split: if_splits piece.splits)
    then show ?thesis using pieces_received [OF r(1), of c] new by auto
  qed (use assms Sink in \<open>auto simp: pieces_def Let_def split: if_splits\<close>)
next
  case (Final b)
  then show ?thesis using assms by (cases b) (auto simp: pieces_def Let_def split: if_splits final_phase.splits)
qed (use assms in \<open>auto simp: pieces_def\<close>)

lemma manifestInv_step:
  assumes inv: "manifestInv c s" and count: "countInv c s" "finalInv c s" and step: "pipeDo c a s = Some s'"
  shows "manifestInv c s'"
  unfolding manifestInv_def
proof (intro allI impI)
  fix vols assume "SentManifest vols \<in> pieces c s'"
  then have "SentManifest vols \<in> pieces c s \<or> plFinal s = FinalSaved vols" using pieces_step [OF step] by blast
  then have "fullManifest c vols \<and> allCollected c s"
    using inv count(2) by (auto simp: manifestInv_def finalInv_def fullManifest_def)
  then show "fullManifest c vols \<and> allCollected c s'" using allCollected_step [OF count(1) _ step] by blast
qed

text \<open>The order of the uploads: everything a manifest needs is uploaded before it, also itself at the stages before.\<close>

definition manifestsLast :: "pipeConf \<Rightarrow> (nat \<times> piece) list \<Rightarrow> bool" where
  "manifestsLast c us \<longleftrightarrow> (\<forall>xs i vols ys. us = xs @ (i, SentManifest vols) # ys \<longrightarrow>
     fullManifest c vols \<and> (\<forall>v\<in>set vols. storedVolume c xs v) \<and> (\<forall>k<i. (k, SentManifest vols) \<in> set xs))"

lemma manifestsLast_snoc:
  assumes "manifestsLast c us"
    and "\<And>vols. p = SentManifest vols \<Longrightarrow> fullManifest c vols \<and> (\<forall>v\<in>set vols. storedVolume c us v) \<and> (\<forall>k<i. (k, p) \<in> set us)"
  shows "manifestsLast c (us @ [(i, p)])"
  unfolding manifestsLast_def
proof (intro allI impI)
  fix xs k vols ys assume eq: "us @ [(i, p)] = xs @ (k, SentManifest vols) # ys"
  show "fullManifest c vols \<and> (\<forall>v\<in>set vols. storedVolume c xs v) \<and> (\<forall>j<k. (j, SentManifest vols) \<in> set xs)"
  proof (cases ys rule: rev_cases)
    case Nil
    then show ?thesis using eq assms(2) by auto
  next
    case (snoc zs z)
    then have "us = xs @ (k, SentManifest vols) # zs" using eq by simp
    then show ?thesis using assms(1) unfolding manifestsLast_def by blast
  qed
qed

lemma ready_manifest:
  assumes "pipeRun c s" "i < pcStages c" "SentManifest vols \<in> set (stReady (plStages s i))" "manifestInv c s"
  shows "fullManifest c vols \<and> (\<forall>v\<in>set vols. storedVolume c (plUploads s) v) \<and> (\<forall>k<i. (k, SentManifest vols) \<in> set (plUploads s))"
proof -
  have "SentManifest vols \<in> pieces c s" using assms(2,3) by (auto simp: pieces_def stagePieces_def)
  then have full: "fullManifest c vols" and all: "allCollected c s" using assms(4) by (auto simp: manifestInv_def)
  have "mset vols = mset (plVolumes s)" using full all by (simp add: fullManifest_def allCollected_def)
  then have "set vols = set (plVolumes s)" by (rule mset_eq_setD)
  then have "\<forall>v\<in>set vols. storedVolume c (plUploads s) v" using uploads_inv [OF assms(1)] by (simp add: cachesInv_def)
  moreover have "stageInv i (plStages s i) s" using uploads_inv [OF assms(1)] assms(2) by (simp add: stagesInv_def)
  ultimately show ?thesis using full assms(3) by (auto simp: stageInv_def reached_def)
qed

lemma workerUploads:
  assumes "pipeDo c a s = Some s'" "\<nexists>i p. a = Worker i (WUpload p)"
  shows "a = Worker i b \<Longrightarrow> plUploads s' = plUploads s"
  using assms by (cases b) (auto simp: Let_def split: if_splits)

lemma manifests_inv: "pipeRun c s \<Longrightarrow> manifestInv c s \<and> manifestsLast c (plUploads s)"
proof (induction rule: pipeRun.induct)
  case start
  show ?case by (auto simp: manifestInv_def pieces_def stagePieces_def manifestsLast_def newPipeline_def newStage_def)
next
  case (step s a s')
  have "manifestInv c s'" using manifestInv_step [of c s a s'] pipe_inv [OF step(1)] step by blast
  moreover have "manifestsLast c (plUploads s')"
  proof (cases "\<exists>i p. a = Worker i (WUpload p)")
    case True
    then obtain i p where "i < pcStages c" "p \<in> set (stReady (plStages s i))" "plUploads s' = plUploads s @ [(i, p)]"
      using step(2) by (auto simp: Let_def split: if_splits)
    then show ?thesis using step(3) ready_manifest [OF step(1)] by (auto intro!: manifestsLast_snoc)
  next
    case False
    then have "plUploads s' = plUploads s"
      using others_stages [OF step(2)] workerUploads [OF step(2)] by blast
    then show ?thesis using step(3) by simp
  qed
  ultimately show ?case by blast
qed

end
