(* ===== verification/PipelineProperties.thy ===== *)
theory PipelineProperties
  imports PipelineProofs
begin

text \<open>
  What the upload pipeline guarantees, whatever the order in which its goroutines run and wherever
  they fail: a manifest is uploaded only when everything it lists is at every destination, the caches
  describe only such volumes, no channel is used after it is closed, and the local files stay within
  the buffer. Without failures it never gets stuck and ends with the manifest at every destination.
\<close>

section \<open>Safety\<close>

lemma uploaded_collected:
  assumes "pipeRun c s" "(i, SentManifest vols) \<in> set (plUploads s)"
  shows "allCollected c s"
  using assms
proof (induction arbitrary: i vols rule: pipeRun.induct)
  case start
  then show ?case by (simp add: newPipeline_def)
next
  case (step s a s')
  have "allCollected c s"
  proof (cases "(i, SentManifest vols) \<in> set (plUploads s)")
    case True
    then show ?thesis by (rule step.IH)
  next
    case False
    then obtain k p where a: "a = Worker k (WUpload p)"
      using step(2,4) others_stages [OF step(2)] workerUploads [OF step(2)] by metis
    have up: "k < pcStages c" "p \<in> set (stReady (plStages s k))" "plUploads s' = plUploads s @ [(k, p)]"
      using step(2) unfolding a by (auto simp: Let_def split: if_splits)
    then have "SentManifest vols \<in> set (stReady (plStages s k))" using step(4) False by auto
    then have "SentManifest vols \<in> pieces c s" using up(1) by (auto simp: pieces_def stagePieces_def)
    then show ?thesis using manifests_inv [OF step(1)] by (auto simp: manifestInv_def)
  qed
  then show ?case using allCollected_step pipe_inv step(1,2) by blast
qed

lemma collected_stream: "pipeRun c s \<Longrightarrow> allCollected c s \<Longrightarrow> \<not> pcErr c"
  using pipe_inv [of c s] by (simp add: countInv_def flowInv_def allCollected_def)

text \<open>
  C3. The manifest comes last. In every run of the pipeline, with any failures and any order of its
  goroutines, a final manifest is uploaded anywhere only when \<^verbatim>\<open>sendStream\<close> has ended without an error; it
  lists the volumes kept by a resume and all volumes of the stream, sorted by number; each of them was
  kept, or uploaded to every destination before; and the destinations get it in their order.
\<close>

theorem finalManifest_complete:
  assumes "pipeRun c s" "plUploads s = xs @ (i, SentManifest vols) # ys"
  shows "\<not> pcErr c \<and> mset vols = mset (pcKept c @ pcVols c) \<and> sorted (map VolumeNumber vols)
    \<and> (\<forall>v\<in>set vols. v \<in> set (pcKept c) \<or> (\<forall>k<pcStages c. (k, SentVolume v) \<in> set xs))
    \<and> (\<forall>k<i. (k, SentManifest vols) \<in> set xs)"
proof -
  have m: "fullManifest c vols" "\<forall>v\<in>set vols. storedVolume c xs v" "\<forall>k<i. (k, SentManifest vols) \<in> set xs"
    using manifests_inv [OF assms(1)] assms(2) unfolding manifestsLast_def by blast+
  have "sorted (map VolumeNumber (sortVolumes vols))" by (simp add: sortVolumes_def)
  moreover have "\<not> pcErr c" by (rule collected_stream [OF assms(1) uploaded_collected [OF assms(1), of i vols]]) (simp add: assms(2))
  ultimately show ?thesis using m by (simp add: fullManifest_def storedVolume_def)
qed

text \<open>
  The caches are behind the destinations. Every manifest that the pipeline writes to the caches, for
  a later resume or as the last one, lists only volumes that were kept or that every destination has.
\<close>

theorem cachedManifest_uploaded:
  assumes "pipeRun c s" "vols \<in> set (plCached s)" "v \<in> set vols"
  shows "v \<in> set (pcKept c) \<or> (\<forall>k<pcStages c. (k, SentVolume v) \<in> set (plUploads s))"
  using uploads_inv [OF assms(1)] assms(2,3) by (auto simp: cachesInv_def storedVolume_def)

section \<open>Bounds\<close>

primrec held :: "nat \<Rightarrow> 'a option \<Rightarrow> nat" where
  "held n None = 0"
| "held n (Some x) = n"

primrec busySink :: "sink_phase \<Rightarrow> nat" where
  "busySink SinkIdle = 0"
| "busySink SinkSaving = 1"
| "busySink SinkReturning = 1"
| "busySink SinkDone = 0"

text \<open>The volumes that have a file and no token.\<close>

definition openFiles :: "pipeConf \<Rightarrow> pipeline \<Rightarrow> nat" where
  "openFiles c s = held 1 (plCurrent s) + length (plStart s) + size (inFlight c s) + busySink (plSink s)"

definition tokensInv :: "pipeConf \<Rightarrow> pipeline \<Rightarrow> bool" where
  "tokensInv c s \<longleftrightarrow> (plSink s \<noteq> SinkDone \<longrightarrow> plBuffer s + openFiles c s = pcFileBuffer c)"

lemma tokens_step:
  assumes step: "pipeDo c a s = Some s'" and on: "plSink s' \<noteq> SinkDone"
  shows "plSink s \<noteq> SinkDone \<and> plBuffer s' + openFiles c s' = plBuffer s + openFiles c s"
proof (cases a)
  case (Splitter b)
  then show ?thesis using assms by (cases b) (auto simp: openFiles_def split: if_splits option.splits)
next
  case (Forwarder b)
  have "plSink s' = plSink s \<and> plBuffer s' = plBuffer s \<and> plCurrent s' = plCurrent s \<and>
      length (plStart s') + size (inFlight c s') = length (plStart s) + size (inFlight c s)"
    using step Forwarder by (cases b) (auto simp: inFlight_def pendingAdd_def split: if_splits option.splits list.splits)
  then show ?thesis using on by (simp add: openFiles_def)
next
  case (Worker i b)
  then have "workerDo c i b s = Some s'" "i < pcStages c" using step by (auto split: if_splits)
  then show ?thesis using on workerDo_frame [of c i b s s'] workerDo_inFlight [of c i b s s']
    by (simp add: openFiles_def workerFrame_def)
next
  case (Sink b)
  have b: "sinkDo c b s = Some s'" using step Sink by simp
  show ?thesis
  proof (cases b)
    case (SinkTake p)
    then have r: "canReceive (pcStages c) p s" using b by (auto split: if_splits)
    then obtain v where p: "p = SentVolume v" using b SinkTake on by (cases p) (auto simp: Let_def split: if_splits)
    have "size (inFlight c s) = Suc (size (inFlight c (received (pcStages c) p s)))"
      using arg_cong [OF inFlight_received [OF r, of c], of size] by (simp add: p)
    then show ?thesis using b unfolding SinkTake p by (auto simp: openFiles_def Let_def split: if_splits)
  qed (use on b in \<open>auto simp: openFiles_def Let_def split: if_splits\<close>)
next
  case (Final b)
  then show ?thesis using assms by (cases b) (auto simp: openFiles_def Let_def split: if_splits final_phase.splits)
qed (use assms in \<open>auto simp: openFiles_def\<close>)

lemma tokens_inv: "pipeRun c s \<Longrightarrow> tokensInv c s"
proof (induction rule: pipeRun.induct)
  case start
  show ?case by (simp add: tokensInv_def openFiles_def inFlight_def stageVolumes_def newPipeline_def newStage_def)
next
  case (step s a s')
  then show ?case using tokens_step [OF step(2)] by (simp add: tokensInv_def)
qed

definition workersInv :: "pipeConf \<Rightarrow> stage \<Rightarrow> bool" where
  "workersInv c st \<longleftrightarrow> length (stTaken st) + length (stReady st) + length (stDone st) \<le> stLive st \<and> stLive st \<le> pcWorkers c
     \<and> (stClosed st \<longrightarrow> stLive st = 0)"

lemma workersInv_received:
  assumes "workersInv c (plStages s k)" "canReceive i p s"
  shows "workersInv c (plStages (received i p s) k)"
  using assms by (cases i) (auto simp: workersInv_def received_def canReceive_def length_remove1)

lemma length_remove_Suc: "p \<in> set ps \<Longrightarrow> length ps = Suc (length (remove1 p ps))"
  by (induction ps) auto

lemma workersInv_worker:
  assumes inv: "\<And>k. workersInv c (plStages s k)" and step: "workerDo c i a s = Some s'"
  shows "workersInv c (plStages s' k)"
proof (cases a)
  case (WTake p)
  then have r: "canReceive i p s" using step by (auto split: if_splits)
  have "workersInv c (plStages (received i p s) i)" by (rule workersInv_received [OF inv r])
  moreover have "length (stTaken (plStages (received i p s) i)) + length (stReady (plStages (received i p s) i)) + length (stDone (plStages (received i p s) i))
      < stLive (plStages (received i p s) i)"
    using step WTake by (cases i) (auto simp: idleWorker_def received_def split: if_splits)
  ultimately show ?thesis using step WTake workersInv_received [OF inv r, of k]
    by (auto simp: workersInv_def Let_def split: if_splits)
qed (use step inv [of k] inv [of i] in \<open>auto simp: workersInv_def Let_def idleWorker_def split: if_splits dest!: length_remove_Suc\<close>)

lemma workers_inv: "pipeRun c s \<Longrightarrow> workersInv c (plStages s k)"
proof (induction arbitrary: k rule: pipeRun.induct)
  case start
  show ?case by (simp add: workersInv_def newPipeline_def newStage_def)
next
  case (step s a s')
  show ?case
  proof (cases "\<exists>i b. a = Worker i b")
    case True
    then obtain i b where "workerDo c i b s = Some s'" using step(2) by (auto split: if_splits)
    then show ?thesis using workersInv_worker step(3) by blast
  next
    case False
    then have "plStages s' = plStages s \<or> (\<exists>p. a = Sink (SinkTake p) \<and> plStages s' = plStages (received (pcStages c) p s))"
      using others_stages [OF step(2)] by blast
    then show ?thesis
    proof (elim disjE exE conjE)
      fix p assume p: "a = Sink (SinkTake p)" "plStages s' = plStages (received (pcStages c) p s)"
      then have "canReceive (pcStages c) p s" using step(2) by (auto split: if_splits)
      then show ?thesis using workersInv_received [OF step(3)] p(2) by simp
    qed (use step(3) in simp)
  qed
qed


text \<open>
  C36. No goroutine sends on a closed channel, which would be a panic: neither the forwarder nor the
  goroutine of the final manifest after \<^verbatim>\<open>stepCh\<close> is closed, the splitter after \<^verbatim>\<open>startCh\<close> is, nor a worker
  after the output of its stage is.
\<close>

theorem no_send_on_closed:
  assumes "pipeRun c s" "pipeDo c a s = Some s'"
  shows "(a \<in> {Forwarder ForwardPass, Final FinalPass} \<longrightarrow> \<not> plStepClosed s)
    \<and> (a = Splitter Emit \<longrightarrow> plStream s \<noteq> StreamEnded)
    \<and> (\<forall>i p. a = Worker i (WUpload p) \<longrightarrow> \<not> stClosed (plStages s i))"
proof (intro conjI allI impI)
  have closed: "plForwardDone s \<and> plFinal s = FinalSent" if "plStepClosed s"
    using pipe_inv [OF assms(1)] that by (simp add: finalInv_def allCollected_def)
  show "\<not> plStepClosed s" if "a \<in> {Forwarder ForwardPass, Final FinalPass}"
    using that assms(2) closed by (auto split: if_splits option.splits)
  show "plStream s \<noteq> StreamEnded" if "a = Splitter Emit"
    using that assms(2) by (auto split: if_splits option.splits)
  show "\<not> stClosed (plStages s i)" if "a = Worker i (WUpload p)" for i p
    using that assms(2) workers_inv [OF assms(1), of i] by (auto simp: workersInv_def Let_def split: if_splits)
qed

section \<open>Progress\<close>

text \<open>The steps of a run in which nothing fails.\<close>

fun smooth :: "action \<Rightarrow> bool" where
  "smooth (Splitter a) = (a \<noteq> StreamFails)"
| "smooth (Forwarder a) = (a \<noteq> ForwardStops)"
| "smooth (Worker i a) = (case a of WUploadFails p \<Rightarrow> False | WAbandon p \<Rightarrow> False | _ \<Rightarrow> True)"
| "smooth (Sink a) = (a \<noteq> SinkSaveFails)"
| "smooth (Final a) = (a \<notin> {FinalSaveFails, FinalStops})"
| "smooth Cancel = False"

inductive smoothRun :: "pipeConf \<Rightarrow> pipeline \<Rightarrow> bool" for c where
  start: "smoothRun c (newPipeline c)"
| step: "smoothRun c s \<Longrightarrow> smooth a \<Longrightarrow> pipeDo c a s = Some s' \<Longrightarrow> smoothRun c s'"

lemma smoothRun_run: "smoothRun c s \<Longrightarrow> pipeRun c s"
  by (induction rule: smoothRun.induct) (auto intro: pipeRun.intros)

text \<open>The steps that are left, at most.\<close>

definition stageWeight :: "nat \<Rightarrow> nat \<Rightarrow> stage \<Rightarrow> nat" where
  "stageWeight n i st = (3 * (n - i) + 2) * length (stTaken st) + (3 * (n - i) + 1) * length (stReady st) + 3 * (n - i) * length (stDone st)
     + stLive st + (if stClosed st then 0 else 1)"

primrec sinkWeight :: "sink_phase \<Rightarrow> nat" where
  "sinkWeight SinkIdle = 1"
| "sinkWeight SinkSaving = 3"
| "sinkWeight SinkReturning = 2"
| "sinkWeight SinkDone = 0"

primrec finalWeight :: "nat \<Rightarrow> final_phase \<Rightarrow> nat" where
  "finalWeight n FinalWaiting = 3 * n + 6"
| "finalWeight n FinalWoken = 3 * n + 5"
| "finalWeight n (FinalSaved vols) = 3 * n + 4"
| "finalWeight n FinalSent = 0"
| "finalWeight n FinalStopped = 0"

definition remaining :: "pipeConf \<Rightarrow> pipeline \<Rightarrow> nat" where
  "remaining c s = (let n = pcStages c in
     (3 * n + 7) * length (plTodo s) + held (3 * n + 6) (plCurrent s) + (3 * n + 5) * length (plStart s)
     + held (3 * n + 4) (plHold s) + (3 * n + 3) * length (plStep s)
     + (\<Sum>i<n. stageWeight n i (plStages s i)) + sinkWeight (plSink s) + finalWeight n (plFinal s)
     + (if plStream s = StreamRunning then 1 else 0) + (if plForwardDone s then 0 else 1))"

lemma weight_setStage:
  assumes "i < n" "stageWeight n i st + x = stageWeight n i (plStages s i) + y"
  shows "(\<Sum>j<n. stageWeight n j (((plStages s)(i := st)) j)) + x = (\<Sum>j<n. stageWeight n j (plStages s j)) + y"
proof -
  have i: "i \<in> {..<n}" using assms(1) by simp
  have "(\<Sum>j\<in>{..<n} - {i}. stageWeight n j (((plStages s)(i := st)) j)) = (\<Sum>j\<in>{..<n} - {i}. stageWeight n j (plStages s j))"
    by (rule sum.cong) auto
  then show ?thesis
    using sum.remove [OF finite_lessThan i, of "\<lambda>j. stageWeight n j (((plStages s)(i := st)) j)"]
      sum.remove [OF finite_lessThan i, of "\<lambda>j. stageWeight n j (plStages s j)"] assms(2) by simp
qed

lemma remaining_setStage:
  assumes "i < pcStages c" "stageWeight (pcStages c) i st + x = stageWeight (pcStages c) i (plStages s i) + y"
  shows "remaining c (setStage i st s) + x = remaining c s + y"
  using weight_setStage [OF assms] by (simp add: remaining_def Let_def)

lemma remaining_received:
  assumes "canReceive i p s" "i \<le> pcStages c"
  shows "remaining c s = remaining c (received i p s) + 3 * (pcStages c - i) + 3"
proof (cases i)
  case 0
  then obtain ps where "plStep s = p # ps" using assms(1) by (cases "plStep s") (auto simp: canReceive_def)
  then show ?thesis using 0 by (simp add: remaining_def received_def Let_def)
next
  case (Suc k)
  let ?st = "plStages s k"
  have p: "p \<in> set (stDone ?st)" using assms(1) Suc by (simp add: canReceive_def)
  have k: "3 * (pcStages c - k) = 3 * (pcStages c - i) + 3" using assms(2) Suc by simp
  have "remaining c (setStage k (?st\<lparr>stDone := remove1 p (stDone ?st)\<rparr>) s) + 3 * (pcStages c - k) = remaining c s + 0"
    using assms(2) Suc length_remove_Suc [OF p] by (intro remaining_setStage) (simp_all add: stageWeight_def)
  then show ?thesis using Suc k by (simp add: received_def)
qed

lemma remaining_dropped [simp]: "remaining c (s\<lparr>plDropped := d\<rparr>) = remaining c s" "remaining c (s\<lparr>plUploads := u\<rparr>) = remaining c s"
  by (simp_all add: remaining_def)

lemma workerDo_remaining:
  assumes step: "workerDo c i a s = Some s'" and i: "i < pcStages c" and smooth: "smooth (Worker i a)"
  shows "remaining c s' < remaining c s"
proof -
  let ?st = "plStages s i" and ?w = "stageWeight (pcStages c) i"
  have less: "remaining c (setStage i st s) < remaining c s" if "?w st < ?w ?st" for st
    using remaining_setStage [OF i, of st "?w ?st - ?w st" s 0] that by simp
  show ?thesis
  proof (cases a)
    case (WTake p)
    let ?s = "received i p s"
    have r: "canReceive i p s" and s': "s' = setStage i ((plStages ?s i)\<lparr>stTaken := stTaken (plStages ?s i) @ [p]\<rparr>) ?s"
      using step WTake by (auto simp: Let_def split: if_splits)
    have "remaining c s' + 0 = remaining c ?s + (3 * (pcStages c - i) + 2)"
      unfolding s' by (rule remaining_setStage [OF i]) (simp add: stageWeight_def)
    then show ?thesis using remaining_received [OF r, of c] i by simp
  next
    case (WCheck p)
    then have "p \<in> set (stTaken ?st)" using step by (auto simp: Let_def split: if_splits)
    note len = length_remove_Suc [OF this]
    show ?thesis using step WCheck len by (auto simp: Let_def stageWeight_def split: if_splits intro!: less)
  next
    case (WUpload p)
    then have "p \<in> set (stReady ?st)" using step by (auto simp: Let_def split: if_splits)
    note len = length_remove_Suc [OF this]
    show ?thesis using step WUpload len by (auto simp: Let_def stageWeight_def split: if_splits intro!: less)
  next
    case WEnds
    then show ?thesis using step by (auto simp: Let_def stageWeight_def idleWorker_def split: if_splits intro!: less)
  next
    case OutCloses
    then show ?thesis using step by (auto simp: Let_def stageWeight_def split: if_splits intro!: less)
  qed (use smooth in simp_all)
qed

text \<open>
  A run of the pipeline in which nothing fails is finite: every step leaves less to do, whatever the
  goroutines do and in whatever state they do it.
\<close>

theorem smooth_terminates:
  assumes "smooth a" "pipeDo c a s = Some s'"
  shows "remaining c s' < remaining c s"
proof (cases a)
  case (Splitter b)
  then show ?thesis using assms by (cases b) (auto simp: remaining_def Let_def neq_Nil_conv split: if_splits option.splits)
next
  case (Forwarder b)
  then show ?thesis using assms by (cases b) (auto simp: remaining_def Let_def pendingAdd_def split: if_splits option.splits list.splits)
next
  case (Worker i b)
  then show ?thesis using assms workerDo_remaining [of c i b s s'] by (auto split: if_splits)
next
  case (Sink b)
  have b: "sinkDo c b s = Some s'" using assms Sink by simp
  show ?thesis
  proof (cases b)
    case (SinkTake p)
    then have r: "canReceive (pcStages c) p s" "plSink s = SinkIdle" using b by (auto split: if_splits)
    have "remaining c s' \<le> remaining c (received (pcStages c) p s) + 2"
      using b SinkTake r(2) by (cases p) (auto simp: remaining_def Let_def split: if_splits)
    then show ?thesis using remaining_received [OF r(1), of c] by simp
  qed (use b Sink assms(1) in \<open>auto simp: remaining_def Let_def split: if_splits\<close>)
next
  case (Final b)
  then show ?thesis using assms by (cases b) (auto simp: remaining_def Let_def split: if_splits final_phase.splits)
qed (use assms in simp_all)

text \<open>What holds as long as nothing fails: nothing is dropped, and \<^verbatim>\<open>pending\<close> is exact.\<close>

definition calmInv :: "pipeline \<Rightarrow> bool" where
  "calmInv s \<longleftrightarrow> \<not> plCancelled s \<and> plDropped s = [] \<and> (\<forall>k. \<not> stFailed (plStages s k)) \<and> plStream s \<noteq> StreamFailed
     \<and> plFinal s \<noteq> FinalStopped \<and> (plStepClosed s \<longleftrightarrow> plFinal s = FinalSent)"

lemma calm_stage: "calmInv s \<Longrightarrow> \<not> stageCancelled c i s"
  by (simp add: calmInv_def stageCancelled_def)

lemma received_failed: "stFailed (plStages (received i p s) k) = stFailed (plStages s k)"
  by (simp add: received_def split: nat.split)

lemma calm_worker:
  assumes "calmInv s" "workerDo c i a s = Some s'" "smooth (Worker i a)"
  shows "calmInv s'"
proof -
  have "plDropped s' = [] \<and> (\<forall>k. \<not> stFailed (plStages s' k))"
    using assms calm_stage [OF assms(1), of c i] by (cases a) (auto simp: calmInv_def Let_def received_failed split: if_splits)
  then show ?thesis using assms(1) workerDo_frame [OF assms(2)] by (simp add: calmInv_def workerFrame_def)
qed

lemma calm_step:
  assumes "calmInv s" "smooth a" "pipeDo c a s = Some s'"
  shows "calmInv s'"
proof (cases a)
  case (Splitter b)
  then show ?thesis using assms by (cases b) (auto simp: calmInv_def split: if_splits option.splits)
next
  case (Forwarder b)
  then show ?thesis using assms by (cases b) (auto simp: calmInv_def pendingAdd_def split: if_splits option.splits list.splits)
next
  case (Worker i b)
  then show ?thesis using assms calm_worker [of s c i b s'] by (auto split: if_splits)
next
  case (Sink b)
  then show ?thesis using assms by (cases b) (auto simp: calmInv_def Let_def received_failed split: if_splits piece.splits)
next
  case (Final b)
  then show ?thesis using assms by (cases b) (auto simp: calmInv_def Let_def split: if_splits final_phase.splits)
qed (use assms in simp_all)

primrec savingSink :: "sink_phase \<Rightarrow> int" where
  "savingSink SinkIdle = 0"
| "savingSink SinkSaving = 1"
| "savingSink SinkReturning = 0"
| "savingSink SinkDone = 0"

definition waitedFor :: "pipeConf \<Rightarrow> pipeline \<Rightarrow> int" where
  "waitedFor c s = (if plForwardDone s then 0 else 1) + int (size (inFlight c s)) + savingSink (plSink s)"

definition exactPending :: "pipeConf \<Rightarrow> pipeline \<Rightarrow> bool" where
  "exactPending c s \<longleftrightarrow> plPending s = waitedFor c s \<and> (plPending s = 0 \<longrightarrow> plZero s)"

lemma pending_balance:
  assumes smooth: "smooth a" and step: "pipeDo c a s = Some s'"
  shows "plPending s' - waitedFor c s' = plPending s - waitedFor c s"
proof (cases a)
  case (Splitter b)
  then show ?thesis using assms by (cases b) (auto simp: waitedFor_def split: if_splits option.splits)
next
  case (Forwarder b)
  have f: "forwarderDo c b s = Some s'" "b \<noteq> ForwardStops" using assms Forwarder by auto
  have "plPending s' - int (size (inFlight c s')) - (if plForwardDone s' then 0 else 1)
      = plPending s - int (size (inFlight c s)) - (if plForwardDone s then 0 else 1)"
    using f by (cases b) (auto simp: inFlight_def pendingAdd_def split: if_splits option.splits list.splits)
  moreover have "plSink s' = plSink s" using f by (cases b) (auto simp: pendingAdd_def split: if_splits option.splits list.splits)
  ultimately show ?thesis unfolding waitedFor_def by simp
next
  case (Worker i b)
  then have "workerDo c i b s = Some s'" "i < pcStages c" using step by (auto split: if_splits)
  then show ?thesis using workerDo_frame [of c i b s s'] workerDo_inFlight [of c i b s s']
    by (simp add: waitedFor_def workerFrame_def)
next
  case (Sink b)
  have b: "sinkDo c b s = Some s'" using step Sink by simp
  have fwd: "plForwardDone s' = plForwardDone s" using sinkDo_frame [OF b] by (simp add: flowFrame_def)
  have "plPending s' - int (size (inFlight c s')) - savingSink (plSink s') = plPending s - int (size (inFlight c s)) - savingSink (plSink s)"
  proof (cases b)
    case (SinkTake p)
    then have r: "canReceive (pcStages c) p s" using b by (auto split: if_splits)
    note size = arg_cong [OF inFlight_received [OF r, of c], of size]
    show ?thesis using b SinkTake size by (cases p) (auto simp: Let_def split: if_splits)
  qed (use b smooth Sink in \<open>auto simp: Let_def split: if_splits\<close>)
  then show ?thesis unfolding waitedFor_def fwd by simp
next
  case (Final b)
  then show ?thesis using assms by (cases b) (auto simp: waitedFor_def Let_def split: if_splits final_phase.splits)
qed (use assms in simp_all)

lemma pending_changes:
  assumes step: "pipeDo c a s = Some s'"
  shows "plZero s \<longrightarrow> plZero s'" "plPending s' = plPending s \<or> plPending s' = plPending s + 1 \<or> (plPending s' = 0 \<longrightarrow> plZero s')"
proof -
  have "(plZero s \<longrightarrow> plZero s') \<and> (plPending s' = plPending s \<or> plPending s' = plPending s + 1 \<or> (plPending s' = 0 \<longrightarrow> plZero s'))"
  proof (cases a)
    case (Splitter b)
    then show ?thesis using assms by (cases b) (auto split: if_splits option.splits)
  next
    case (Forwarder b)
    then show ?thesis using assms by (cases b) (auto simp: pendingAdd_def split: if_splits option.splits list.splits)
  next
    case (Worker i b)
    then show ?thesis using step workerDo_frame [of c i b s s'] by (auto simp: workerFrame_def split: if_splits)
  next
    case (Sink b)
    then show ?thesis using assms by (cases b) (auto simp: Let_def split: if_splits piece.splits)
  next
    case (Final b)
    then show ?thesis using assms by (cases b) (auto simp: Let_def split: if_splits final_phase.splits)
  qed (use assms in auto)
  then show "plZero s \<longrightarrow> plZero s'" "plPending s' = plPending s \<or> plPending s' = plPending s + 1 \<or> (plPending s' = 0 \<longrightarrow> plZero s')" by blast+
qed

lemma waitedFor_nonneg: "0 \<le> waitedFor c s"
  by (cases "plSink s") (simp_all add: waitedFor_def)

lemma exactPending_step:
  assumes inv: "exactPending c s" and smooth: "smooth a" and step: "pipeDo c a s = Some s'"
  shows "exactPending c s'"
proof -
  have eq: "plPending s' = waitedFor c s'" using inv pending_balance [OF smooth step] by (simp add: exactPending_def)
  have "plPending s' = 0 \<longrightarrow> plZero s'"
    using inv pending_changes [OF step] waitedFor_nonneg [of c s] unfolding exactPending_def by auto
  then show ?thesis using eq by (simp add: exactPending_def)
qed

lemma smooth_inv: "smoothRun c s \<Longrightarrow> calmInv s \<and> exactPending c s"
proof (induction rule: smoothRun.induct)
  case start
  show ?case by (simp add: calmInv_def exactPending_def waitedFor_def inFlight_def stageVolumes_def newPipeline_def newStage_def)
next
  case (step s a s')
  then show ?case using calm_step [of s a c s'] exactPending_step [of c s a s'] by blast
qed

text \<open>A worker stops only when its input is closed, and a closed input stays closed.\<close>

lemma inputClosed_step:
  assumes run: "pipeRun c s" and step: "pipeDo c a s = Some s'" and "inputClosed i s"
  shows "inputClosed i s'"
proof (cases i)
  case 0
  then have cl: "plStepClosed s" "plStep s = []" using assms(3) by (simp_all add: inputClosed_def)
  note no = no_send_on_closed [OF run step]
  have "plStep s' = [] \<and> plStepClosed s'"
  proof (cases a)
    case (Splitter b)
    then show ?thesis using step cl by (cases b) (auto split: if_splits option.splits)
  next
    case (Forwarder b)
    then show ?thesis using step cl no by (cases b) (auto simp: pendingAdd_def split: if_splits option.splits list.splits)
  next
    case (Worker k b)
    then show ?thesis using step cl
      by (cases b) (auto simp: Let_def received_def canReceive_def split: if_splits nat.splits)
  next
    case (Sink b)
    then show ?thesis using step cl by (cases b) (auto simp: Let_def received_def canReceive_def split: if_splits piece.splits nat.splits)
  next
    case (Final b)
    then show ?thesis using step cl no by (cases b) (auto simp: Let_def split: if_splits final_phase.splits)
  qed (use step cl in auto)
  then show ?thesis using 0 by (simp add: inputClosed_def)
next
  case (Suc k)
  have mono: "stClosed (plStages (received j p s) k) = stClosed (plStages s k)" for j p by (simp add: received_def split: nat.split)
  have "stClosed (plStages s' k)"
  proof (cases "\<exists>j b. a = Worker j b")
    case True
    then obtain j b where "workerDo c j b s = Some s'" using step by (auto split: if_splits)
    then show ?thesis using assms(3) Suc mono by (cases b) (auto simp: inputClosed_def Let_def split: if_splits)
  next
    case False
    then show ?thesis using others_stages [OF step] assms(3) Suc mono by (auto simp: inputClosed_def)
  qed
  then show ?thesis using Suc by (simp add: inputClosed_def)
qed

definition liveInv :: "pipeConf \<Rightarrow> pipeline \<Rightarrow> bool" where
  "liveInv c s \<longleftrightarrow> (\<forall>i<pcStages c. stLive (plStages s i) < pcWorkers c \<longrightarrow> inputClosed i s)"

lemma stLive_received [simp]: "stLive (plStages (received i p s) k) = stLive (plStages s k)"
  by (simp add: received_def split: nat.split)

lemma liveInv_step:
  assumes inv: "liveInv c s" and run: "pipeRun c s" and calm: "calmInv s" and smooth: "smooth a" and step: "pipeDo c a s = Some s'"
  shows "liveInv c s'"
  unfolding liveInv_def
proof (intro allI impI)
  fix k assume k: "k < pcStages c" "stLive (plStages s' k) < pcWorkers c"
  show "inputClosed k s'"
  proof (cases "stLive (plStages s' k) = stLive (plStages s k)")
    case True
    then show ?thesis using inv k inputClosed_step [OF run step, of k] by (simp add: liveInv_def)
  next
    case False
    have "\<exists>i b. a = Worker i b" using others_stages [OF step] False by (metis stLive_received)
    then obtain i b where a: "a = Worker i b" by blast
    then have w: "workerDo c i b s = Some s'" using step by (auto split: if_splits)
    have "inputClosed k s"
      using w False calm_stage [OF calm, of c i] smooth unfolding a by (cases b) (auto simp: Let_def split: if_splits)
    then show ?thesis by (rule inputClosed_step [OF run step])
  qed
qed

lemma closed_down:
  assumes "\<And>k. workersInv c (plStages s k)" "liveInv c s" "0 < pcWorkers c" "inputClosed i s" "i \<le> pcStages c"
  shows "inputClosed 0 s \<and> (\<forall>k<i. stagePieces (plStages s k) = {})"
  using assms(4,5)
proof (induction i)
  case (Suc i)
  have "stClosed (plStages s i)" using Suc.prems(1) by (simp add: inputClosed_def)
  then have st: "stLive (plStages s i) = 0" "stagePieces (plStages s i) = {}" using assms(1) [of i] by (auto simp: workersInv_def stagePieces_def)
  then have "inputClosed i s" using assms(2,3) Suc.prems(2) by (simp add: liveInv_def)
  then show ?case using Suc st by (auto simp: less_Suc_eq)
qed simp

lemma pieces_received_conv: "canReceive i p s \<Longrightarrow> i \<le> pcStages c \<Longrightarrow> pieces c s \<subseteq> insert p (pieces c (received i p s))"
proof (cases i)
  case 0
  assume "canReceive i p s"
  then obtain ps where "plStep s = p # ps" using 0 by (cases "plStep s") (auto simp: canReceive_def)
  then show ?thesis using 0 by (auto simp: pieces_def received_def)
next
  case (Suc k)
  have "stagePieces (plStages s j) \<subseteq> insert p (stagePieces (plStages (received i p s) j))" for j
    using Suc by (auto simp: received_def stagePieces_def in_set_remove1)
  moreover have "plStep (received i p s) = plStep s" using Suc by (simp add: received_def)
  ultimately show ?thesis unfolding pieces_def by fastforce
qed

lemma pieces_setStage_conv: "stagePieces (plStages s i) \<subseteq> stagePieces st \<Longrightarrow> pieces c s \<subseteq> pieces c (setStage i st s)"
  by (fastforce simp: pieces_def)

lemma in_remove1_conv: "x \<in> set ps \<Longrightarrow> x \<noteq> p \<Longrightarrow> x \<in> set (remove1 p ps)"
  by (simp add: in_set_remove1)

lemma worker_keeps:
  assumes step: "workerDo c i a s = Some s'" and i: "i < pcStages c" and calm: "calmInv s" and smooth: "smooth (Worker i a)"
  shows "pieces c s \<subseteq> pieces c s'"
proof -
  let ?st = "plStages s i"
  have up: "pieces c (t\<lparr>plUploads := u\<rparr>) = pieces c t" for t u by (simp add: pieces_def)
  note go = calm_stage [OF calm, of c i]
  show ?thesis
  proof (cases a)
    case (WTake p)
    let ?s = "received i p s"
    have r: "canReceive i p s" and s': "s' = setStage i ((plStages ?s i)\<lparr>stTaken := stTaken (plStages ?s i) @ [p]\<rparr>) ?s"
      using step WTake by (auto simp: Let_def split: if_splits)
    have "pieces c ?s \<subseteq> pieces c s'" unfolding s' by (rule pieces_setStage_conv) (auto simp: stagePieces_def)
    moreover have "p \<in> pieces c s'" using i by (auto simp: s' pieces_def stagePieces_def)
    ultimately show ?thesis using pieces_received_conv [OF r, of c] i by auto
  next
    case (WCheck p)
    then have "s' = setStage i (?st\<lparr>stTaken := remove1 p (stTaken ?st), stReady := stReady ?st @ [p]\<rparr>) s"
      using step go by (auto simp: Let_def split: if_splits)
    then show ?thesis by (auto simp: stagePieces_def intro!: pieces_setStage_conv [THEN subsetD] in_remove1_conv)
  next
    case (WUpload p)
    then have "pieces c s' = pieces c (setStage i (?st\<lparr>stReady := remove1 p (stReady ?st), stDone := stDone ?st @ [p]\<rparr>) s)"
      using step by (auto simp: Let_def up split: if_splits)
    then show ?thesis by (auto simp: stagePieces_def intro!: pieces_setStage_conv [THEN subsetD] in_remove1_conv)
  next
    case WEnds
    then show ?thesis using step by (auto simp: Let_def stagePieces_def split: if_splits intro!: pieces_setStage_conv [THEN subsetD])
  next
    case OutCloses
    then show ?thesis using step by (auto simp: Let_def stagePieces_def split: if_splits intro!: pieces_setStage_conv [THEN subsetD])
  qed (use smooth in simp_all)
qed

text \<open>The manifest, once sent, is on its way until the collector has it.\<close>

definition travelInv :: "pipeConf \<Rightarrow> pipeline \<Rightarrow> bool" where
  "travelInv c s \<longleftrightarrow> (\<forall>vols. SentManifest vols \<in> pieces c s \<longrightarrow> plFinal s = FinalSent)
     \<and> (plFinal s = FinalSent \<and> plSink s \<noteq> SinkDone \<longrightarrow> (\<exists>vols. SentManifest vols \<in> pieces c s))
     \<and> (plSink s = SinkDone \<longrightarrow> (\<exists>vols. reached (pcStages c) (SentManifest vols) s))"

lemma others_keep:
  assumes "smooth a" "pipeDo c a s = Some s'" "\<And>i b. a \<noteq> Worker i b" "\<And>p. a \<noteq> Sink (SinkTake p)"
  shows "pieces c s \<subseteq> pieces c s'"
proof -
  have "plStages s' = plStages s" using others_stages [OF assms(2)] assms(3,4) by blast
  moreover have "set (plStep s) \<subseteq> set (plStep s')"
  proof (cases a)
    case (Splitter b)
    then show ?thesis using assms by (cases b) (auto split: if_splits option.splits)
  next
    case (Forwarder b)
    then show ?thesis using assms by (cases b) (auto simp: pendingAdd_def split: if_splits option.splits list.splits)
  next
    case (Sink b)
    then show ?thesis using assms by (cases b) (auto simp: Let_def split: if_splits)
  next
    case (Final b)
    then show ?thesis using assms by (cases b) (auto simp: Let_def split: if_splits final_phase.splits)
  qed (use assms in auto)
  ultimately show ?thesis by (auto simp: pieces_def)
qed

lemma sink_frame:
  assumes "pipeDo c a s = Some s'" "\<And>b. a \<noteq> Sink b"
  shows "plSink s' = plSink s"
proof (cases a)
  case (Splitter b)
  then show ?thesis using assms by (cases b) (auto split: if_splits option.splits)
next
  case (Forwarder b)
  then show ?thesis using assms by (cases b) (auto simp: pendingAdd_def split: if_splits option.splits list.splits)
next
  case (Worker i b)
  then show ?thesis using assms workerDo_frame [of c i b s s'] by (auto simp: workerFrame_def split: if_splits)
next
  case (Final b)
  then show ?thesis using assms by (cases b) (auto simp: Let_def split: if_splits final_phase.splits)
qed (use assms in auto)

lemma final_sent_step:
  assumes "pipeDo c a s = Some s'"
  shows "plFinal s = FinalSent \<Longrightarrow> plFinal s' = FinalSent"
    and "plFinal s' = FinalSent \<Longrightarrow> plFinal s = FinalSent \<or> (\<exists>vols. SentManifest vols \<in> pieces c s' \<and> a = Final FinalPass)"
proof -
  have "(plFinal s = FinalSent \<longrightarrow> plFinal s' = FinalSent) \<and>
    (plFinal s' = FinalSent \<longrightarrow> plFinal s = FinalSent \<or> (\<exists>vols. SentManifest vols \<in> pieces c s' \<and> a = Final FinalPass))"
  proof (cases "\<exists>b. a = Final b")
    case True
    then obtain b where "finalDo c b s = Some s'" "a = Final b" using assms by auto
    then show ?thesis by (cases b) (auto simp: Let_def pieces_def split: if_splits final_phase.splits)
  next
    case False
    then show ?thesis using final_frame [OF assms] by auto
  qed
  then show "plFinal s = FinalSent \<Longrightarrow> plFinal s' = FinalSent"
    "plFinal s' = FinalSent \<Longrightarrow> plFinal s = FinalSent \<or> (\<exists>vols. SentManifest vols \<in> pieces c s' \<and> a = Final FinalPass)" by blast+
qed

lemma travel_sink:
  assumes inv: "travelInv c s" and step: "sinkDo c b s = Some s'" and smooth: "smooth (Sink b)"
    and stages: "stagesInv c s" and empty: "inputClosed (pcStages c) s \<Longrightarrow> plFinal s = FinalSent \<and> pieces c s = {}" and calm: "calmInv s"
  shows "(\<forall>vols. SentManifest vols \<in> pieces c s \<longrightarrow> SentManifest vols \<in> pieces c s' \<or> plSink s' = SinkDone)
    \<and> (plSink s' = SinkDone \<longrightarrow> (\<exists>vols. reached (pcStages c) (SentManifest vols) s')) \<and> (plSink s' \<noteq> SinkDone \<longrightarrow> plSink s \<noteq> SinkDone)"
proof (cases b)
  case (SinkTake p)
  then have r: "canReceive (pcStages c) p s" and pieces: "pieces c s' = pieces c (received (pcStages c) p s)"
      and up: "plUploads s' = plUploads s" and idle: "plSink s = SinkIdle"
    using step by (auto simp: Let_def pieces_def split: if_splits piece.splits)
  have "pieces c s \<subseteq> insert p (pieces c s')" using pieces_received_conv [OF r, of c] pieces by simp
  moreover have "plSink s' = (if isManifestPiece p then SinkDone else SinkSaving)"
    using step SinkTake by (cases p) (auto simp: Let_def split: if_splits)
  moreover have "reached (pcStages c) p s'" using reached_receive [OF stages r] up by (simp add: reached_def)
  ultimately show ?thesis using idle by (cases p) auto
next
  case SinkEnds
  then have "plSink s = SinkIdle \<and> inputClosed (pcStages c) s" using step calm by (auto simp: calmInv_def split: if_splits)
  then show ?thesis using empty inv by (auto simp: travelInv_def)
next
  case SinkSave
  then show ?thesis using step by (auto simp: pieces_def Let_def split: if_splits)
next
  case SinkReturn
  then show ?thesis using step by (auto simp: pieces_def Let_def split: if_splits)
qed (use smooth in simp_all)

lemma travelInv_step:
  assumes inv: "travelInv c s" and step: "pipeDo c a s = Some s'" and smooth: "smooth a"
    and stages: "stagesInv c s" and empty: "inputClosed (pcStages c) s \<Longrightarrow> plFinal s = FinalSent \<and> pieces c s = {}" and calm: "calmInv s"
  shows "travelInv c s'"
proof -
  have a: "plFinal s' = FinalSent" if "SentManifest vols \<in> pieces c s'" for vols
    using pieces_step [OF step that] inv final_sent_step(1) [OF step] step by (auto simp: travelInv_def split: if_splits)
  have keeps: "(\<forall>vols. SentManifest vols \<in> pieces c s \<longrightarrow> SentManifest vols \<in> pieces c s' \<or> plSink s' = SinkDone)
    \<and> (plSink s' = SinkDone \<longrightarrow> (\<exists>vols. reached (pcStages c) (SentManifest vols) s')) \<and> (plSink s' \<noteq> SinkDone \<longrightarrow> plSink s \<noteq> SinkDone)"
  proof (cases "\<exists>b. a = Sink b")
    case True
    then obtain b where "a = Sink b" by blast
    then show ?thesis using travel_sink [OF inv _ _ stages empty calm, of b s'] step smooth by simp
  next
    case False
    then have "pieces c s \<subseteq> pieces c s'"
      using others_keep [OF smooth step] worker_keeps [OF _ _ calm, of c _ _ s'] step smooth by (cases a) (auto split: if_splits)
    moreover have "plSink s' = plSink s" using sink_frame [OF step] False by blast
    moreover have "reached (pcStages c) p s \<Longrightarrow> reached (pcStages c) p s'" for p
      using uploads_grow [OF step] by (auto simp: reached_def)
    ultimately show ?thesis using inv unfolding travelInv_def by auto
  qed
  have "\<exists>vols. SentManifest vols \<in> pieces c s'" if "plFinal s' = FinalSent" "plSink s' \<noteq> SinkDone"
    using final_sent_step(2) [OF step that(1)] inv keeps that(2) unfolding travelInv_def by blast
  then show ?thesis using a keeps unfolding travelInv_def by blast
qed

lemma closed_empty:
  assumes run: "smoothRun c s" and inv: "liveInv c s" and w: "0 < pcWorkers c" and cl: "inputClosed (pcStages c) s"
  shows "plFinal s = FinalSent \<and> pieces c s = {}"
proof -
  have "inputClosed 0 s \<and> (\<forall>k<pcStages c. stagePieces (plStages s k) = {})"
    by (rule closed_down [OF workers_inv [OF smoothRun_run [OF run]] inv w cl]) simp
  then show ?thesis using smooth_inv [OF run] by (auto simp: inputClosed_def pieces_def calmInv_def)
qed

lemma progress_inv:
  assumes "smoothRun c s" "0 < pcWorkers c"
  shows "liveInv c s \<and> travelInv c s"
  using assms(1)
proof (induction rule: smoothRun.induct)
  case start
  show ?case by (simp add: liveInv_def travelInv_def pieces_def stagePieces_def newPipeline_def newStage_def)
next
  case (step s a s')
  note run = smoothRun_run [OF step(1)] and calm = conjunct1 [OF smooth_inv [OF step(1)]]
  have "liveInv c s'" using liveInv_step [OF _ run calm step(2,3)] step(4) by blast
  moreover have "travelInv c s'"
    by (rule travelInv_step [OF _ step(3,2) _ _ calm]) (use step(4) uploads_inv [OF run] closed_empty [OF step(1) _ assms(2)] in blast)+
  ultimately show ?case by blast
qed

text \<open>A pipeline that cannot go on without a failure.\<close>

definition stuck :: "pipeConf \<Rightarrow> pipeline \<Rightarrow> bool" where
  "stuck c s \<longleftrightarrow> (\<forall>a. smooth a \<longrightarrow> pipeDo c a s = None)"

lemma stuckD: "stuck c s \<Longrightarrow> smooth a \<Longrightarrow> pipeDo c a s = None"
  by (simp add: stuck_def)

lemma stuck_stages:
  assumes stuck: "stuck c s" and i: "i < pcStages c"
  shows "stTaken (plStages s i) = [] \<and> stReady (plStages s i) = []"
proof -
  have "p \<notin> set (stTaken (plStages s i))" for p
    using stuckD [OF stuck, of "Worker i (WCheck p)"] i by (auto simp: Let_def split: if_splits)
  moreover have "p \<notin> set (stReady (plStages s i))" for p
    using stuckD [OF stuck, of "Worker i (WUpload p)"] i by (auto simp: Let_def split: if_splits)
  ultimately show ?thesis by (metis list.set_intros(1) neq_Nil_conv)
qed

lemma stuck_receive:
  assumes stuck: "stuck c s" and run: "smoothRun c s" and w: "0 < pcWorkers c" and idle: "plSink s = SinkIdle" and "i \<le> pcStages c"
  shows "\<not> canReceive i p s"
  using assms(5)
proof (induction arbitrary: p rule: inc_induct)
  case base
  then show ?case using stuckD [OF stuck, of "Sink (SinkTake p)"] idle by (auto split: if_splits)
next
  case (step i)
  note inv = workers_inv [OF smoothRun_run [OF run]] and live = conjunct1 [OF progress_inv [OF run w]]
  have out: "stDone (plStages s i) = []" using step.IH by (auto simp: canReceive_def) (metis list.set_intros(1) neq_Nil_conv)
  show ?case
  proof (cases "stLive (plStages s i) = 0")
    case True
    then have "inputClosed i s" using live w step.hyps by (simp add: liveInv_def)
    then have "inputClosed 0 s \<and> (\<forall>k<i. stagePieces (plStages s k) = {})"
      using closed_down [OF inv live w, of i] step.hyps by simp
    then show ?thesis by (cases i) (auto simp: inputClosed_def canReceive_def stagePieces_def)
  next
    case False
    then have "idleWorker (plStages s i)" using stuck_stages [OF stuck] out step.hyps by (simp add: idleWorker_def)
    then show ?thesis using stuckD [OF stuck, of "Worker i (WTake p)"] step.hyps by (auto split: if_splits)
  qed
qed

lemma stuck_sink:
  assumes stuck: "stuck c s" and run: "smoothRun c s"
  shows "plSink s = SinkIdle \<or> plSink s = SinkDone"
proof (cases "plSink s")
  case SinkSaving
  then show ?thesis using stuckD [OF stuck, of "Sink SinkSave"] by simp
next
  case SinkReturning
  then have "plBuffer s < pcFileBuffer c" using tokens_inv [OF smoothRun_run [OF run]] by (simp add: tokensInv_def openFiles_def)
  then show ?thesis using stuckD [OF stuck, of "Sink SinkReturn"] SinkReturning by simp
qed simp_all

lemma stuck_forwarder:
  assumes stuck: "stuck c s" and run: "smoothRun c s" and c: "\<not> pcErr c" "0 < pcFileBuffer c"
    and idle: "plSink s = SinkIdle" and empty: "plHold s = None" "inFlight c s = {#}"
  shows "plForwardDone s"
proof (rule ccontr)
  assume on: "\<not> plForwardDone s"
  have start: "plStart s = []"
    using stuckD [OF stuck, of "Forwarder ForwardTake"] on empty(1) by (cases "plStart s") auto
  have "plStream s \<noteq> StreamEnded" using stuckD [OF stuck, of "Forwarder ForwardEnds"] on empty(1) start by auto
  then have stream: "plStream s = StreamRunning" using smooth_inv [OF run] by (cases "plStream s") (auto simp: calmInv_def)
  have cur: "plCurrent s = None"
    using stuckD [OF stuck, of "Splitter Emit"] stream start c(2) by (cases "plCurrent s") auto
  have "plTodo s \<noteq> []" using stuckD [OF stuck, of "Splitter StreamEnds"] stream cur c(1) by auto
  moreover have "plBuffer s = pcFileBuffer c"
    using tokens_inv [OF smoothRun_run [OF run]] idle cur start empty(2) by (simp add: tokensInv_def openFiles_def)
  ultimately show False using stuckD [OF stuck, of "Splitter Create"] stream cur c(2) by simp
qed

lemma stuck_done:
  assumes stuck: "stuck c s" and run: "smoothRun c s" and c: "\<not> pcErr c" "0 < pcWorkers c" "0 < pcFileBuffer c"
  shows "plSink s = SinkDone"
proof (rule ccontr)
  assume "plSink s \<noteq> SinkDone"
  then have idle: "plSink s = SinkIdle" using stuck_sink [OF stuck run] by blast
  have none: "\<not> canReceive i p s" if "i \<le> pcStages c" for i p by (rule stuck_receive [OF stuck run c(2) idle that])
  have step: "plStep s = []" using none [of 0] by (auto simp: canReceive_def)
  have out: "stDone (plStages s k) = []" if "k < pcStages c" for k
    using none [of "Suc k"] that by (auto simp: canReceive_def) (metis list.set_intros(1) neq_Nil_conv)
  have stages: "stagePieces (plStages s k) = {} \<and> stageVolumes (plStages s k) = {#}" if "k < pcStages c" for k
    using stuck_stages [OF stuck that] out [OF that] by (simp add: stagePieces_def stageVolumes_def)
  have pieces: "pieces c s = {}" using step stages by (simp add: pieces_def)
  note calm = conjunct1 [OF smooth_inv [OF run]] and flow = pipe_inv [OF smoothRun_run [OF run]]
  have hold: "plHold s = None"
    using stuckD [OF stuck, of "Forwarder ForwardPass"] step c(3) flow
    by (cases "plForwardDone s"; cases "plHold s") (auto simp: countInv_def flowInv_def)
  have flight: "inFlight c s = {#}" using hold step stages calm by (simp add: inFlight_def calmInv_def)
  have "plForwardDone s" by (rule stuck_forwarder [OF stuck run c(1,3) idle hold flight])
  then have zero: "plZero s" using smooth_inv [OF run] flight idle by (simp add: exactPending_def waitedFor_def)
  show False
  proof (cases "plFinal s")
    case FinalWaiting
    then show ?thesis using stuckD [OF stuck, of "Final FinalWake"] zero calm by (simp add: calmInv_def)
  next
    case FinalWoken
    then show ?thesis using stuckD [OF stuck, of "Final FinalSave"] by simp
  next
    case (FinalSaved vols)
    then show ?thesis using stuckD [OF stuck, of "Final FinalPass"] step c(3) by simp
  next
    case FinalSent
    then show ?thesis using progress_inv [OF run c(2)] idle pieces by (simp add: travelInv_def)
  next
    case FinalStopped
    then show ?thesis using calm by (simp add: calmInv_def)
  qed
qed

text \<open>
  C15. The pipeline never gets stuck. When \<^verbatim>\<open>sendStream\<close> does not fail, there is at least one worker per stage
  and room for one file, a run in which nothing has failed either can go on, or has uploaded one
  manifest at every destination.
\<close>

theorem pipeline_progress:
  assumes "smoothRun c s" "\<not> pcErr c" "0 < pcWorkers c" "0 < pcFileBuffer c"
  shows "(\<exists>a s'. smooth a \<and> pipeDo c a s = Some s') \<or> (\<exists>vols. \<forall>k<pcStages c. (k, SentManifest vols) \<in> set (plUploads s))"
proof (cases "stuck c s")
  case True
  then have "plSink s = SinkDone" using stuck_done [OF True assms] by blast
  then show ?thesis using progress_inv [OF assms(1,3)] by (auto simp: travelInv_def reached_def)
next
  case False
  then show ?thesis by (auto simp: stuck_def)
qed

section \<open>A run\<close>

text \<open>One volume, two destinations and the backend that deletes the file: the run from start to end.\<close>

definition exConf :: pipeConf where
  "exConf = \<lparr>pcKept = [], pcVols = [exVolume 1], pcErr = False, pcFileBuffer = 1, pcWorkers = 1, pcStages = 2\<rparr>"

definition exThrough :: "piece \<Rightarrow> action list" where
  "exThrough p = [Worker 0 (WTake p), Worker 0 (WCheck p), Worker 0 (WUpload p),
     Worker 1 (WTake p), Worker 1 (WCheck p), Worker 1 (WUpload p), Sink (SinkTake p)]"

definition exActions :: "action list" where
  "exActions = [Splitter Create, Splitter Emit, Splitter StreamEnds, Forwarder ForwardTake, Forwarder ForwardPass]
     @ exThrough (SentVolume (exVolume 1)) @ [Sink SinkSave, Sink SinkReturn, Forwarder ForwardEnds, Final FinalWake, Final FinalSave, Final FinalPass]
     @ exThrough (SentManifest [exVolume 1])"

fun runActions :: "pipeConf \<Rightarrow> action list \<Rightarrow> pipeline \<Rightarrow> pipeline option" where
  "runActions c [] s = Some s"
| "runActions c (a # as) s = (case pipeDo c a s of None \<Rightarrow> None | Some s' \<Rightarrow> runActions c as s')"

lemma runActions_smooth: "smoothRun c s \<Longrightarrow> list_all smooth as \<Longrightarrow> runActions c as s = Some s' \<Longrightarrow> smoothRun c s'"
  by (induction as arbitrary: s) (auto split: option.splits intro: smoothRun.step)

definition exEnd :: pipeline where "exEnd = the (runActions exConf exActions (newPipeline exConf))"

lemma ex_run: "smoothRun exConf exEnd"
proof -
  have "runActions exConf exActions (newPipeline exConf) \<noteq> None" by code_simp
  then have "runActions exConf exActions (newPipeline exConf) = Some exEnd" by (auto simp: exEnd_def)
  moreover have "list_all smooth exActions" by code_simp
  ultimately show ?thesis using runActions_smooth [OF smoothRun.start] by blast
qed

lemma ex_uploads: "plUploads exEnd = [(0, SentVolume (exVolume 1)), (1, SentVolume (exVolume 1))] @ (0, SentManifest [exVolume 1]) # [(1, SentManifest [exVolume 1])]"
  by code_simp

lemma finalManifest_complete_witness: "\<not> pcErr exConf \<and> mset [exVolume 1] = mset (pcKept exConf @ pcVols exConf)"
  using finalManifest_complete [OF smoothRun_run [OF ex_run] ex_uploads] by blast

lemma cachedManifest_uploaded_witness: "(1, SentVolume (exVolume 1)) \<in> set (plUploads exEnd)"
proof -
  have c: "[exVolume 1] \<in> set (plCached exEnd)" by code_simp
  show ?thesis using cachedManifest_uploaded [OF smoothRun_run [OF ex_run] c, of "exVolume 1"] by (simp add: exConf_def)
qed


definition exForwarding :: pipeline where "exForwarding = the (runActions exConf (take 4 exActions) (newPipeline exConf))"

lemma no_send_on_closed_witness: "\<not> plStepClosed exForwarding"
proof -
  have "runActions exConf (take 4 exActions) (newPipeline exConf) \<noteq> None" by code_simp
  then have "runActions exConf (take 4 exActions) (newPipeline exConf) = Some exForwarding" by (auto simp: exForwarding_def)
  moreover have "list_all smooth (take 4 exActions)" by code_simp
  ultimately have "smoothRun exConf exForwarding" using runActions_smooth [OF smoothRun.start] by blast
  then have run: "pipeRun exConf exForwarding" by (rule smoothRun_run)
  have "pipeDo exConf (Forwarder ForwardPass) exForwarding \<noteq> None" by code_simp
  then obtain s' where "pipeDo exConf (Forwarder ForwardPass) exForwarding = Some s'" by blast
  from no_send_on_closed [OF run this] show ?thesis by simp
qed

lemma smooth_terminates_witness: "remaining exConf (the (pipeDo exConf (Splitter Create) (newPipeline exConf))) < remaining exConf (newPipeline exConf)"
proof -
  have "pipeDo exConf (Splitter Create) (newPipeline exConf) \<noteq> None" by code_simp
  then show ?thesis using smooth_terminates [of "Splitter Create" exConf "newPipeline exConf"] by auto
qed

lemma pipeline_progress_witness: "\<exists>a s'. smooth a \<and> pipeDo exConf a (newPipeline exConf) = Some s'"
proof -
  have c: "\<not> pcErr exConf" "0 < pcWorkers exConf" "0 < pcFileBuffer exConf" by (simp_all add: exConf_def)
  have "\<not> (\<exists>vols. \<forall>k<pcStages exConf. (k, SentManifest vols) \<in> set (plUploads (newPipeline exConf)))"
    by (auto simp: newPipeline_def exConf_def intro: exI [of _ 0])
  then show ?thesis using pipeline_progress [OF smoothRun.start c] by blast
qed

end
