(* ===== verification/Locks.thy ===== *)
theory Locks
  imports Prelude
begin

text \<open>
  The lock that a send or a clean holds while it works on a dataset (\<^verbatim>\<open>backup/backup.go\<close>, \<^verbatim>\<open>bootLock\<close>): a
  lock file with the pid of its holder, taken as the vendored package \<^verbatim>\<open>lockfile\<close> does, and a file beside
  it that records the boot in which it was taken. Shown: two processes never hold it at the same time,
  whatever dies or restarts, and a lock from before a restart blocks nobody.
\<close>

section \<open>The files\<close>

text \<open>The contents of the two files, and what the system answers a process that uses them.\<close>

record lockFiles =
  lkFile :: "string option"
  lkBoot :: "string option"

record lockEnv =
  lePid :: int
  leRunning :: "int \<Rightarrow> bool"
  leBootID :: string
  leTempErr :: "string option"
  leLinkErr :: "string option"
  leStatErr :: "string option"
  leReadErr :: "string option"
  leRemoveErr :: "string option"
  leBootReadErr :: "string option"
  leBootWriteErr :: "string option"
  leBootRemoveErr :: "string option"

datatype lock_error =
    LockBusy
  | LockMissing
  | LockInvalidPid
  | LockDeadOwner
  | LockRogueDeletion
  | LockIO string

section \<open>The package lockfile\<close>

definition newline :: char where "newline = CHR 0x0A"

text \<open>
  \<^verbatim>\<open>fmt.Sscanln\<close> of one or two values: they are all of the first line. Decimal numbers only: the other
  notations that it reads are never written.
\<close>

definition firstLine :: "string \<Rightarrow> string" where
  "firstLine s = takeWhile (\<lambda>c. c \<noteq> newline) s"

definition scanPid :: "string \<Rightarrow> int option" where
  "scanPid s = (case Prelude.fields (firstLine s) of [pid] \<Rightarrow> parseInt64 pid | _ \<Rightarrow> None)"

definition scanBoot :: "string \<Rightarrow> (int \<times> string) option" where
  "scanBoot s = (case Prelude.fields (firstLine s) of
     [pid, boot] \<Rightarrow> (case parseInt64 pid of None \<Rightarrow> None | Some p \<Rightarrow> Some (p, boot)) | _ \<Rightarrow> None)"

definition scanPidLine :: "string \<Rightarrow> lock_error + int" where
  "scanPidLine content =
     (if content = [] then Inl LockInvalidPid
      else case scanPid content of
             None \<Rightarrow> Inl LockInvalidPid
           | Some pid \<Rightarrow> if pid \<le> 0 then Inl LockInvalidPid else Inr pid)"

definition GetOwner :: "lockEnv \<Rightarrow> lockFiles \<Rightarrow> lock_error + int" where
  "GetOwner env fs =
     (case lkFile fs of
        None \<Rightarrow> Inl LockMissing
      | Some content \<Rightarrow>
          (case leReadErr env of
             Some e \<Rightarrow> Inl (LockIO e)
           | None \<Rightarrow>
               (case scanPidLine content of
                  Inl e \<Rightarrow> Inl e
                | Inr pid \<Rightarrow> if leRunning env pid then Inr pid else Inl LockDeadOwner)))"

definition pidLine :: "int \<Rightarrow> string" where
  "pidLine pid = formatInt pid @ [newline]"

text \<open>
  \<^verbatim>\<open>Lockfile.TryLock\<close>. The file is linked into place, so it is ours only when there was none; a lock of a
  dead process, without a pid, or of this process is removed, and the next attempt takes it.
\<close>

function lockfile_TryLock :: "lockEnv \<Rightarrow> lockFiles \<Rightarrow> lock_error option \<times> lockFiles" where
  "lockfile_TryLock env fs =
     (case leTempErr env of
        Some e \<Rightarrow> (Some (LockIO e), fs)
      | None \<Rightarrow>
          (case leLinkErr env of
             Some e \<Rightarrow> (Some (LockIO e), fs)
           | None \<Rightarrow>
               (case lkFile fs of
                  None \<Rightarrow>
                    let fs = fs\<lparr>lkFile := Some (pidLine (lePid env))\<rparr>
                    in (map_option LockIO (leStatErr env), fs)
                | Some content \<Rightarrow>
                    (case leStatErr env of
                       Some e \<Rightarrow> (Some (LockIO e), fs)
                     | None \<Rightarrow>
                         let stale = (case GetOwner env fs of
                                        Inr pid \<Rightarrow> if pid \<noteq> lePid env then Some LockBusy else None
                                      | Inl LockDeadOwner \<Rightarrow> None
                                      | Inl LockInvalidPid \<Rightarrow> None
                                      | Inl e \<Rightarrow> Some e)
                         in case stale of
                              Some e \<Rightarrow> (Some e, fs)
                            | None \<Rightarrow>
                                (case leRemoveErr env of
                                   Some e \<Rightarrow> (Some (LockIO e), fs)
                                 | None \<Rightarrow> lockfile_TryLock env (fs\<lparr>lkFile := None\<rparr>))))))"
  by pat_completeness auto

termination lockfile_TryLock
  by (relation "measure (\<lambda>(env, fs). if lkFile fs = None then 0 else 1)") auto

declare lockfile_TryLock.simps [simp del]

definition lockfile_Unlock :: "lockEnv \<Rightarrow> lockFiles \<Rightarrow> lock_error option \<times> lockFiles" where
  "lockfile_Unlock env fs =
     (case GetOwner env fs of
        Inr pid \<Rightarrow>
          if pid = lePid env
          then (case leRemoveErr env of Some e \<Rightarrow> (Some (LockIO e), fs) | None \<Rightarrow> (None, fs\<lparr>lkFile := None\<rparr>))
          else (Some LockRogueDeletion, fs)
      | Inl LockInvalidPid \<Rightarrow> (Some LockRogueDeletion, fs)
      | Inl LockDeadOwner \<Rightarrow> (Some LockRogueDeletion, fs)
      | Inl LockMissing \<Rightarrow> (Some LockRogueDeletion, fs)
      | Inl e \<Rightarrow> (Some e, fs))"

section \<open>bootLock\<close>

text \<open>\<^verbatim>\<open>volumeLock\<close>: one lock per dataset, in the directory \<^verbatim>\<open>locks\<close> of the working directory.\<close>

definition volumeLock :: "(string \<Rightarrow> string) \<Rightarrow> string \<Rightarrow> string \<Rightarrow> string" where
  "volumeLock md5 dir volume = dir @ ''/locks/'' @ md5 volume @ ''.lck''"

definition bootLine :: "int \<Rightarrow> string \<Rightarrow> string" where
  "bootLine pid boot = formatInt pid @ '' '' @ boot @ [newline]"

definition fromAnotherBoot :: "lockEnv \<Rightarrow> lockFiles \<Rightarrow> bool" where
  "fromAnotherBoot env fs =
     (if leBootID env = [] \<or> leReadErr env \<noteq> None \<or> leBootReadErr env \<noteq> None then False
      else case (lkFile fs, lkBoot fs) of
             (Some owner, Some recorded) \<Rightarrow>
               (case (scanPid owner, scanBoot recorded) of
                  (Some lockPid, Some (bootPid, bootID)) \<Rightarrow> lockPid = bootPid \<and> bootID \<noteq> [] \<and> bootID \<noteq> leBootID env
                | _ \<Rightarrow> False)
           | _ \<Rightarrow> False)"

text \<open>What is recorded beside a lock that was taken.\<close>

definition recordBoot :: "lockEnv \<Rightarrow> lockFiles \<Rightarrow> lockFiles" where
  "recordBoot env fs =
     (if leBootID env \<noteq> []
      then (case leBootWriteErr env of Some e \<Rightarrow> fs | None \<Rightarrow> fs\<lparr>lkBoot := Some (bootLine (lePid env) (leBootID env))\<rparr>)
      else (case leBootRemoveErr env of Some e \<Rightarrow> fs | None \<Rightarrow> fs\<lparr>lkBoot := None\<rparr>))"

definition bootLock_TryLock :: "lockEnv \<Rightarrow> lockFiles \<Rightarrow> lock_error option \<times> lockFiles" where
  "bootLock_TryLock env fs =
     (let (err, fs) = lockfile_TryLock env fs
      in if err = Some LockBusy \<and> fromAnotherBoot env fs
         then (case leRemoveErr env of
                 Some e \<Rightarrow> (Some (LockIO e), fs)
               | None \<Rightarrow>
                   (case lockfile_TryLock env (fs\<lparr>lkFile := None\<rparr>) of
                      (Some e, fs) \<Rightarrow> (Some e, fs)
                    | (None, fs) \<Rightarrow> (None, recordBoot env fs)))
         else case err of
                Some e \<Rightarrow> (Some e, fs)
              | None \<Rightarrow> (None, recordBoot env fs))"

definition bootLock_Unlock :: "lockEnv \<Rightarrow> lockFiles \<Rightarrow> lock_error option \<times> lockFiles" where
  "bootLock_Unlock env fs =
     (let fs = (if GetOwner env fs = Inr (lePid env)
                then (case leBootRemoveErr env of Some e \<Rightarrow> fs | None \<Rightarrow> fs\<lparr>lkBoot := None\<rparr>) else fs)
      in lockfile_Unlock env fs)"

section \<open>What the files say\<close>

declare formatInt_nonempty [simp]

lemma fields_word: "list_all (\<lambda>c. \<not> isSpace c) w \<Longrightarrow> w \<noteq> [] \<Longrightarrow> Prelude.fields w = [w]"
  using fieldsFrom_word [of w "[]" "[]"] by (simp add: Prelude.fields_def)

lemma fields_two:
  assumes "list_all (\<lambda>c. \<not> isSpace c) v" "v \<noteq> []" "list_all (\<lambda>c. \<not> isSpace c) w" "w \<noteq> []"
  shows "Prelude.fields (v @ '' '' @ w) = [v, w]"
  using fieldsFrom_word [OF assms(1), of "[]" "'' '' @ w"] fieldsFrom_word [OF assms(3), of "[]" "[]"] assms(2,4)
  by (simp add: Prelude.fields_def isSpace_def)

lemma isSpace_newline [simp]: "isSpace newline" by (simp add: isSpace_def newline_def)

lemma firstLine_line: "list_all (\<lambda>c. c \<noteq> newline) s \<Longrightarrow> firstLine (s @ [newline]) = s"
  by (simp add: firstLine_def list_all_iff takeWhile_append2)

lemma no_space_line: "list_all (\<lambda>c. \<not> isSpace c) s \<Longrightarrow> list_all (\<lambda>c. c \<noteq> newline) s"
  by (auto simp: list_all_iff)

lemma scanPid_pidLine: "inInt64 p \<Longrightarrow> scanPid (pidLine p) = Some p"
  using firstLine_line [OF no_space_line [OF formatInt_no_space]]
  by (simp add: scanPid_def pidLine_def fields_word formatInt_no_space parseInt64_formatInt)

definition bootWord :: "string \<Rightarrow> bool" where
  "bootWord b \<longleftrightarrow> b \<noteq> [] \<and> list_all (\<lambda>c. \<not> isSpace c) b"

lemma scanBoot_bootLine:
  assumes "inInt64 p" "bootWord b"
  shows "scanBoot (bootLine p b) = Some (p, b)"
proof -
  have "firstLine (bootLine p b) = formatInt p @ '' '' @ b"
    using firstLine_line [of "formatInt p @ '' '' @ b"] no_space_line [OF formatInt_no_space, of p] no_space_line [of b] assms(2)
    by (simp add: bootLine_def bootWord_def newline_def)
  moreover have "Prelude.fields (formatInt p @ '' '' @ b) = [formatInt p, b]"
    using assms(2) by (intro fields_two) (simp_all add: formatInt_no_space bootWord_def)
  ultimately show ?thesis using assms(1) by (simp add: scanBoot_def parseInt64_formatInt)
qed

lemma GetOwner_pidLine:
  assumes "lkFile fs = Some (pidLine p)" "0 < p" "inInt64 p" "leReadErr env = None"
  shows "GetOwner env fs = (if leRunning env p then Inr p else Inl LockDeadOwner)"
  using assms by (simp add: GetOwner_def scanPidLine_def scanPid_pidLine) (simp add: pidLine_def)

text \<open>An attempt on a free lock, and on one that another running process holds.\<close>

lemma TryLock_free:
  assumes "lkFile fs = None" "lockfile_TryLock env fs = (r, fs')"
  shows "fs' = fs \<and> r \<noteq> None \<or> fs' = fs\<lparr>lkFile := Some (pidLine (lePid env))\<rparr>"
  using assms by (subst (asm) lockfile_TryLock.simps) (auto simp: Let_def split: option.splits)

lemma TryLock_held:
  assumes "lkFile fs = Some (pidLine p)" "0 < p" "inInt64 p" "leRunning env p" "p \<noteq> lePid env"
  shows "\<exists>e. lockfile_TryLock env fs = (Some e, fs)"
proof (cases "leReadErr env")
  case None
  then show ?thesis using GetOwner_pidLine [OF assms(1-3)] assms
    by (subst lockfile_TryLock.simps) (auto split: option.splits)
next
  case (Some e)
  then have "GetOwner env fs = Inl (LockIO e)" using assms(1) by (simp add: GetOwner_def)
  then show ?thesis using assms(1) by (subst lockfile_TryLock.simps) (auto split: option.splits)
qed

text \<open>When the lock was taken, the file holds the pid of the process, and nothing else changed.\<close>

lemma TryLock_taken:
  assumes "lockfile_TryLock env fs = (None, fs')"
  shows "fs' = fs\<lparr>lkFile := Some (pidLine (lePid env))\<rparr>"
proof (cases "lkFile fs")
  case None
  then show ?thesis using TryLock_free [OF None assms] by simp
next
  case (Some content)
  have "lockfile_TryLock env (fs\<lparr>lkFile := None\<rparr>) = (None, fs')"
    using assms Some by (subst (asm) lockfile_TryLock.simps) (auto simp: Let_def split: option.splits)
  then show ?thesis using TryLock_free [of "fs\<lparr>lkFile := None\<rparr>" env None fs'] by simp
qed

lemma bootLock_taken:
  assumes "bootLock_TryLock env fs = (None, fs')"
  shows "fs' = recordBoot env (fs\<lparr>lkFile := Some (pidLine (lePid env))\<rparr>)"
proof -
  obtain r fs1 where first: "lockfile_TryLock env fs = (r, fs1)" by fastforce
  show ?thesis
  proof (cases "r = Some LockBusy \<and> fromAnotherBoot env fs1")
    case True
    then obtain fs2 where second: "lockfile_TryLock env (fs1\<lparr>lkFile := None\<rparr>) = (None, fs2)" "fs' = recordBoot env fs2"
      using assms first by (auto simp: bootLock_TryLock_def split: option.splits prod.splits)
    have "\<exists>content. lkFile fs = Some content"
      using first True by (subst (asm) lockfile_TryLock.simps) (auto simp: Let_def split: option.splits)
    moreover have "fs1\<lparr>lkFile := None\<rparr> = fs\<lparr>lkFile := None\<rparr>"
      using first True TryLock_free [of "fs\<lparr>lkFile := None\<rparr>" env] by (subst (asm) lockfile_TryLock.simps) (auto simp: Let_def split: option.splits)
    ultimately show ?thesis using TryLock_taken [OF second(1)] second(2) by simp
  next
    case False
    then have "r = None" "fs' = recordBoot env fs1" using assms first by (auto simp: bootLock_TryLock_def split: option.splits)
    then show ?thesis using TryLock_taken first by blast
  qed
qed

section \<open>One holder\<close>

text \<open>
  A host: the files, the running processes, those of them that hold the lock, and the boot. Processes
  start, take and release the lock, and end at any time, with or without releasing it; the host
  restarts, which ends them all and changes the boot id. Pids are used again.
\<close>

record host =
  hFiles :: lockFiles
  hAlive :: "int set"
  hHolders :: "int set"
  hBoot :: string
  hBoots :: "string set"

definition processEnv :: "host \<Rightarrow> lockEnv \<Rightarrow> bool" where
  "processEnv h env \<longleftrightarrow> lePid env \<in> hAlive h \<and> leRunning env = (\<lambda>p. p \<in> hAlive h) \<and> leBootID env = hBoot h \<and> leBootWriteErr env = None"

inductive lockStep :: "host \<Rightarrow> host \<Rightarrow> bool" where
  started: "0 < p \<Longrightarrow> inInt64 p \<Longrightarrow> p \<notin> hAlive h \<Longrightarrow> lockStep h (h\<lparr>hAlive := insert p (hAlive h)\<rparr>)"
| takes: "processEnv h env \<Longrightarrow> bootLock_TryLock env (hFiles h) = (None, fs) \<Longrightarrow>
    lockStep h (h\<lparr>hFiles := fs, hHolders := insert (lePid env) (hHolders h)\<rparr>)"
| refused: "processEnv h env \<Longrightarrow> bootLock_TryLock env (hFiles h) = (Some e, fs) \<Longrightarrow> lePid env \<notin> hHolders h \<Longrightarrow> lockStep h (h\<lparr>hFiles := fs\<rparr>)"
| releases: "processEnv h env \<Longrightarrow> lePid env \<in> hHolders h \<Longrightarrow> bootLock_Unlock env (hFiles h) = (r, fs) \<Longrightarrow>
    lockStep h (h\<lparr>hFiles := fs, hHolders := hHolders h - {lePid env}\<rparr>)"
| ended: "lockStep h (h\<lparr>hAlive := hAlive h - {p}, hHolders := hHolders h - {p}\<rparr>)"
| restarts: "bootWord b \<Longrightarrow> b \<notin> hBoots h \<Longrightarrow>
    lockStep h (h\<lparr>hAlive := {}, hHolders := {}, hBoot := b, hBoots := insert b (hBoots h)\<rparr>)"

inductive lockRun :: "host \<Rightarrow> bool" where
  start: "hHolders h = {} \<Longrightarrow> hAlive h = {} \<Longrightarrow> bootWord (hBoot h) \<Longrightarrow> lockRun h"
| step: "lockRun h \<Longrightarrow> lockStep h h' \<Longrightarrow> lockRun h'"

definition lockInv :: "host \<Rightarrow> bool" where
  "lockInv h \<longleftrightarrow> bootWord (hBoot h) \<and> (\<forall>p\<in>hAlive h. 0 < p \<and> inInt64 p) \<and> hHolders h \<subseteq> hAlive h
     \<and> (\<forall>p\<in>hHolders h. lkFile (hFiles h) = Some (pidLine p) \<and> lkBoot (hFiles h) = Some (bootLine p (hBoot h)))"

lemma pidLine_inj [simp]: "pidLine p = pidLine q \<longleftrightarrow> p = q" by (simp add: pidLine_def)

text \<open>While a process holds the lock, another one gets nothing and changes nothing.\<close>

lemma held_elsewhere:
  assumes inv: "lockInv h" and env: "processEnv h env" and p: "p \<in> hHolders h" "p \<noteq> lePid env"
  shows "\<exists>e. bootLock_TryLock env (hFiles h) = (Some e, hFiles h)"
proof -
  have h: "lkFile (hFiles h) = Some (pidLine p)" "lkBoot (hFiles h) = Some (bootLine p (hBoot h))" "0 < p" "inInt64 p" "p \<in> hAlive h" "bootWord (hBoot h)"
    using inv p by (auto simp: lockInv_def)
  obtain e where busy: "lockfile_TryLock env (hFiles h) = (Some e, hFiles h)"
    using TryLock_held [OF h(1,3,4), of env] env p h(5) by (auto simp: processEnv_def)
  have "\<not> fromAnotherBoot env (hFiles h)"
    using h env by (simp add: fromAnotherBoot_def scanPid_pidLine scanBoot_bootLine processEnv_def)
  then show ?thesis using busy by (auto simp: bootLock_TryLock_def)
qed

lemma one_holder:
  assumes "lockInv h" "p \<in> hHolders h" "q \<in> hHolders h"
  shows "p = q"
proof -
  have "lkFile (hFiles h) = Some (pidLine r)" if "r \<in> hHolders h" for r using assms(1) that by (simp add: lockInv_def)
  from this [OF assms(2)] this [OF assms(3)] show ?thesis by simp
qed

lemma recordBoot_written: "processEnv h env \<Longrightarrow> bootWord (hBoot h) \<Longrightarrow> recordBoot env fs = fs\<lparr>lkBoot := Some (bootLine (lePid env) (hBoot h))\<rparr>"
  by (simp add: recordBoot_def processEnv_def bootWord_def)

lemma lockInv_step:
  assumes "lockInv h" "lockStep h h'"
  shows "lockInv h'"
  using assms(2,1)
proof (cases rule: lockStep.cases)
  case (takes env fs)
  have none: "p = lePid env" if "p \<in> hHolders h" for p
    using held_elsewhere [OF assms(1) takes(2) that] takes(3) by auto
  have "fs = hFiles h\<lparr>lkFile := Some (pidLine (lePid env)), lkBoot := Some (bootLine (lePid env) (hBoot h))\<rparr>"
    using bootLock_taken [OF takes(3)] recordBoot_written [OF takes(2)] assms(1) by (simp add: lockInv_def)
  then show ?thesis using assms(1) takes(1,2) none by (auto simp: lockInv_def processEnv_def)
next
  case (refused env e fs)
  have "fs = hFiles h" if "hHolders h \<noteq> {}"
    using held_elsewhere [OF assms(1) refused(2)] refused(3,4) that by fastforce
  then show ?thesis using assms(1) refused(1) by (cases "hHolders h = {}") (auto simp: lockInv_def)
next
  case (releases env r fs)
  have "p = lePid env" if "p \<in> hHolders h" for p
    by (rule one_holder [OF assms(1) that releases(3)])
  then show ?thesis using assms(1) releases(1) by (auto simp: lockInv_def)
qed (auto simp: lockInv_def)

lemma lock_inv: "lockRun h \<Longrightarrow> lockInv h"
proof (induction rule: lockRun.induct)
  case (start h)
  then show ?case by (simp add: lockInv_def)
qed (rule lockInv_step)


text \<open>
  A lock from before a restart blocks nobody. When the lock and the file beside it were written by one
  process in another boot, taking the lock succeeds, even though another process has that pid now.
\<close>

theorem stale_lock_taken:
  assumes "lkFile fs = Some (pidLine p)" "lkBoot fs = Some (bootLine p b)" "0 < p" "inInt64 p" "bootWord b"
    and "leBootID env \<noteq> []" "b \<noteq> leBootID env"
    and "leTempErr env = None" "leLinkErr env = None" "leStatErr env = None" "leReadErr env = None" "leRemoveErr env = None"
      "leBootReadErr env = None"
  shows "\<exists>fs'. bootLock_TryLock env fs = (None, fs') \<and> lkFile fs' = Some (pidLine (lePid env))"
proof -
  have free: "lockfile_TryLock env (fs\<lparr>lkFile := None\<rparr>) = (None, fs\<lparr>lkFile := Some (pidLine (lePid env))\<rparr>)"
    using assms by (subst lockfile_TryLock.simps) simp
  have rec: "lkFile (recordBoot env fs') = lkFile fs'" for fs' by (simp add: recordBoot_def split: option.splits)
  show ?thesis
  proof (cases "leRunning env p \<and> p \<noteq> lePid env")
    case True
    then have "lockfile_TryLock env fs = (Some LockBusy, fs)"
      using GetOwner_pidLine [OF assms(1,3,4,11)] assms by (subst lockfile_TryLock.simps) simp
    moreover have "fromAnotherBoot env fs"
      using assms by (simp add: fromAnotherBoot_def scanPid_pidLine scanBoot_bootLine bootWord_def)
    ultimately show ?thesis using free rec assms(12) by (simp add: bootLock_TryLock_def)
  next
    case False
    then have "lockfile_TryLock env fs = lockfile_TryLock env (fs\<lparr>lkFile := None\<rparr>)"
      using GetOwner_pidLine [OF assms(1,3,4,11)] assms by (subst lockfile_TryLock.simps) auto
    then show ?thesis using free rec by (simp add: bootLock_TryLock_def)
  qed
qed

section \<open>A host\<close>

definition exLockEnv :: "int \<Rightarrow> string \<Rightarrow> int set \<Rightarrow> lockEnv" where
  "exLockEnv p boot alive = \<lparr>lePid = p, leRunning = (\<lambda>q. q \<in> alive), leBootID = boot, leTempErr = None, leLinkErr = None, leStatErr = None,
     leReadErr = None, leRemoveErr = None, leBootReadErr = None, leBootWriteErr = None, leBootRemoveErr = None\<rparr>"

definition exStale :: lockFiles where "exStale = \<lparr>lkFile = Some (pidLine 7), lkBoot = Some (bootLine 7 ''x'')\<rparr>"

definition exLockHost :: host where
  "exLockHost = \<lparr>hFiles = exStale, hAlive = {}, hHolders = {}, hBoot = ''y'', hBoots = {''x'', ''y''}\<rparr>"

definition exHeld :: host where
  "exHeld = exLockHost\<lparr>hFiles := \<lparr>lkFile = Some (pidLine 1), lkBoot = Some (bootLine 1 ''y'')\<rparr>, hAlive := {1}, hHolders := {1}\<rparr>"

lemma ex_held: "lockRun exHeld"
proof -
  let ?h = "exLockHost\<lparr>hAlive := {1}\<rparr>" and ?env = "exLockEnv 1 ''y'' {1}"
  have "bootWord ''y''" by code_simp
  then have "lockRun exLockHost" by (intro lockRun.start) (simp_all add: exLockHost_def)
  moreover have "lockStep exLockHost ?h" using lockStep.started [of 1 exLockHost] by (simp add: exLockHost_def inInt64_def minInt64_def maxInt64_def)
  moreover have "bootLock_TryLock ?env (hFiles ?h) = (None, hFiles exHeld)" by code_simp
  then have "lockStep ?h exHeld"
    using lockStep.takes [of ?h ?env] by (simp add: exHeld_def exLockHost_def processEnv_def exLockEnv_def)
  ultimately show ?thesis by (blast intro: lockRun.step)
qed


lemma stale_lock_taken_witness:
  "\<exists>fs'. bootLock_TryLock (exLockEnv 1 ''y'' {1, 7}) exStale = (None, fs') \<and> lkFile fs' = Some (pidLine 1)"
  using stale_lock_taken [of exStale 7 "''x''" "exLockEnv 1 ''y'' {1, 7}"]
  by (simp add: exStale_def exLockEnv_def inInt64_def minInt64_def maxInt64_def bootWord_def isSpace_def)

end
