(* ===== verification/Sending.thy ===== *)
theory Sending
  imports Resume Receive SendStream Locks
begin

text \<open>
  From the options of a send to the first byte of its stream (\<^verbatim>\<open>ProcessSmartOptions\<close> and the first half of
  \<^verbatim>\<open>Backup\<close>, \<^verbatim>\<open>backup/backup.go\<close>): the backups at every destination and the plan, whether a set that some
  destinations lack may be completed, the estimate of the manifest, the lock, and the refusals; and
  the dry run, which makes the same checks.
\<close>

section \<open>Completing a partial set\<close>

text \<open>\<^verbatim>\<open>partialVolumesPresent\<close> lists by the longest common prefix of the names of the volumes.\<close>

function shrinkPrefix :: "string \<Rightarrow> string \<Rightarrow> string" where
  "shrinkPrefix pre name = (if hasPrefix name pre then pre else shrinkPrefix (butlast pre) name)"
  by pat_completeness auto

termination shrinkPrefix
proof (relation "measure (\<lambda>(pre, name). length pre)", goal_cases)
  case (2 pre name)
  then show ?case by (cases pre rule: rev_cases) (auto simp: hasPrefix_def)
qed simp

declare shrinkPrefix.simps [simp del]

definition volumesPrefix :: "VolumeInfo list \<Rightarrow> string" where
  "volumesPrefix vols = foldl (\<lambda>pre vol. shrinkPrefix pre (ObjectName vol)) (ObjectName (hd vols)) (tl vols)"

text \<open>The loop over the destinations: the backups of each, and its backend or the error of preparing it.\<close>

fun volumesPresentAt :: "Manifest \<Rightarrow> string \<Rightarrow> (Manifest list \<times> (string + destination)) list \<Rightarrow> string + bool" where
  "volumesPresentAt partial pre [] = Inr True"
| "volumesPresentAt partial pre ((backups, d) # rest) =
     (if backups \<noteq> [] \<and> sameSets (take 1 backups) [partial] then volumesPresentAt partial pre rest
      else case d of
             Inl e \<Rightarrow> Inl e
           | Inr d \<Rightarrow>
               (case bList (dBackend d) pre of
                  Inl e \<Rightarrow> Inl e
                | Inr names \<Rightarrow>
                    if list_all (\<lambda>vol. ObjectName vol \<in> set names) (Volumes partial)
                    then volumesPresentAt partial pre rest else Inr False))"

definition partialVolumesPresent ::
    "(string \<Rightarrow> string + destination) \<Rightarrow> JobInfo \<Rightarrow> Manifest \<Rightarrow> Manifest list list \<Rightarrow> string + bool" where
  "partialVolumesPresent prepare j partial destBackups =
     (if Volumes partial = [] then Inr False
      else volumesPresentAt partial (volumesPrefix (Volumes partial)) (zip destBackups (map prepare (Destinations j))))"

definition PartialSetCompletable ::
    "(string \<Rightarrow> string + destination) \<Rightarrow> JobInfo \<Rightarrow> Manifest list list \<Rightarrow> string + bool" where
  "PartialSetCompletable prepare j destBackups =
     (if Resume j then Inr True
      else case partialSet destBackups of
             None \<Rightarrow> Inr False
           | Some partial \<Rightarrow> partialVolumesPresent prepare j partial destBackups)"

section \<open>The plan\<close>

text \<open>
  What a run of the program finds: the file system, the destinations, the host, the answers of \<^verbatim>\<open>zfs\<close>, and
  the JSON of a job and of a volume whose times have the longest form. The cache of a destination is
  the one that \<^verbatim>\<open>getCacheDir\<close> made.
\<close>

record sendEnv =
  snFs :: fsEnv
  snCodec :: Codec
  snMd5 :: "string \<Rightarrow> string"
  snSha256 :: "string \<Rightarrow> string"
  snZfsPath :: string
  snTmpErr :: "string option"
  snManifest :: manifestIO
  snBackend :: "string \<Rightarrow> string + destination"
  snCacheErr :: "string \<Rightarrow> string option"
  snLock :: lockEnv
  snGuid :: "SnapshotInfo \<Rightarrow> string + string"
  snMounts :: "string + Mountpoint list"
  snPool :: "string + SnapshotInfo list"
  snEstimate :: "string + 64 word"
  snJsonJob :: "Manifest \<Rightarrow> string + string"
  snJsonVolume :: "VolumeInfo \<Rightarrow> string + string"
  snNow :: time

datatype backup_error =
    Refusal send_error
  | LockFailed lock_error
  | NoBackend string
  | NoCache string string
  | ListFailed string
  | ReadFailed target_error
  | NotPlanned select_error
  | JsonFailed string
  | ManifestOverLimit "64 word"
  | DivideByZero
  | NoBaseSnapshot string
  | NoIncrementalSnapshot string

fun backupsAtAll ::
    "sendEnv \<Rightarrow> JobInfo \<Rightarrow> bool \<Rightarrow> string list \<Rightarrow> sendState \<Rightarrow> (backup_error + Manifest list list) \<times> sendState" where
  "backupsAtAll env j dryRun [] st = (Inr [], st)"
| "backupsAtAll env j dryRun (uri # uris) st =
     (case snBackend env uri of
        Inl e \<Rightarrow> (Inl (NoBackend e), st)
      | Inr d \<Rightarrow>
          (case getBackupsForTarget (snFs env) (snCodec env) (snMd5 env) (dBackend d) j (VolumeName j) dryRun (ssIO st uri) of
             (Inl err, io) \<Rightarrow> (Inl (ReadFailed err), setIO uri io st)
           | (Inr backups, io) \<Rightarrow>
               (case backupsAtAll env j dryRun uris (setIO uri io st) of
                  (Inl err, st) \<Rightarrow> (Inl err, st)
                | (Inr rest, st) \<Rightarrow> (Inr (backups # rest), st))))"

definition ProcessSmartOptions :: "sendEnv \<Rightarrow> JobInfo \<Rightarrow> bool \<Rightarrow> sendState \<Rightarrow> (backup_error + JobInfo) \<times> sendState" where
  "ProcessSmartOptions env j dryRun st =
     (case snPool env of
        Inl e \<Rightarrow> (Inl (ListFailed e), st)
      | Inr snapshots \<Rightarrow>
          (case backupsAtAll env j dryRun (Destinations j) st of
             (Inl err, st) \<Rightarrow> (Inl err, st)
           | (Inr destBackups, st) \<Rightarrow>
               (case PartialSetCompletable (snBackend env) j destBackups of
                  Inl e \<Rightarrow> (Inl (NoBackend e), st)
                | Inr completable \<Rightarrow>
                    (case selectSmartSnapshots (snNow env) j snapshots destBackups completable of
                       Inl err \<Rightarrow> (Inl (NotPlanned err), st)
                     | Inr j \<Rightarrow> (Inr j, st)))))"

section \<open>The size of the manifest\<close>

definition costVolume :: "JobInfo \<Rightarrow> 64 word \<Rightarrow> 64 word \<Rightarrow> VolumeInfo" where
  "costVolume j volumes volumeBytes =
     \<lparr>ObjectName = BackupVolumeObjectName j (sint volumes), VolumeNumber = sint volumes, SHA256Sum = replicate 64 (CHR ''f''),
      MD5Sum = replicate 32 (CHR ''f''), CRC32CSum32 = - 1, VolSize = volumeBytes, VolStreamBytes = volumeBytes,
      StreamSHA256 = replicate 64 (CHR ''f''), IsManifest = False, IsFinalManifest = False\<rparr>"

definition manifestCost :: "sendEnv \<Rightarrow> JobInfo \<Rightarrow> 64 word \<Rightarrow> 64 word \<Rightarrow> string + 64 word \<times> 64 word" where
  "manifestCost env j volumes volumeBytes =
     (case snJsonJob env (Manifest.truncate (j\<lparr>Volumes := []\<rparr>)) of
        Inl e \<Rightarrow> Inl e
      | Inr data \<Rightarrow>
          (case snJsonVolume env (costVolume j volumes volumeBytes) of
             Inl e \<Rightarrow> Inl e
           | Inr vol \<Rightarrow> Inr (of_nat (length data) + 1, of_nat (length vol) + 1)))"

text \<open>The limit as an unsigned integer of 64 bits. A division by zero would be a panic.\<close>

definition manifestLimit :: "64 word" where "manifestLimit = 1073741824"

lemma manifestLimit_eq: "manifestLimit = of_nat MaxManifestBytes"
  by (simp add: manifestLimit_def MaxManifestBytes_def)

definition checkManifestFits :: "sendEnv \<Rightarrow> JobInfo \<Rightarrow> backup_error + 64 word" where
  "checkManifestFits env j =
     (case snEstimate env of
        Inl e \<Rightarrow> Inr 0
      | Inr streamBytes \<Rightarrow>
          (let volumeBytes = volumeCut j; volumes = streamBytes div volumeBytes + 1
           in if volumeBytes = 0 then Inl DivideByZero
              else case manifestCost env j volumes volumeBytes of
                     Inl e \<Rightarrow> Inl (JsonFailed e)
                   | Inr (base, perVolume) \<Rightarrow>
                       if base + perVolume * volumes \<le> manifestLimit then Inr streamBytes
                       else if perVolume = 0 then Inl DivideByZero
                       else let maxVolumes = (manifestLimit - min base (manifestLimit)) div perVolume;
                                others = max maxVolumes 2 - 1
                            in if others = 0 then Inl DivideByZero
                               else Inl (ManifestOverLimit ((streamBytes div others + 50 * 1024) div 1048576 + 1))))"

section \<open>Checks before a send\<close>

text \<open>\<^verbatim>\<open>validateSnapShotExists\<close>: a pool that cannot be listed has no snapshots.\<close>

definition validateSnapShotExists :: "sendEnv \<Rightarrow> SnapshotInfo \<Rightarrow> bool \<Rightarrow> bool \<times> SnapshotInfo" where
  "validateSnapShotExists env snapshot includeBookmarks =
     (case snPool env of
        Inl e \<Rightarrow> (False, snapshot)
      | Inr snapshots \<Rightarrow> validateSnapShotExistsFromSnaps snapshot snapshots includeBookmarks)"

definition validateSnapshots :: "sendEnv \<Rightarrow> JobInfo \<Rightarrow> backup_error + JobInfo" where
  "validateSnapshots env j =
     (case validateSnapShotExists env (BaseSnapshot j) False of
        (False, base) \<Rightarrow> Inl (NoBaseSnapshot (Name base))
      | (True, base) \<Rightarrow>
          let j = j\<lparr>BaseSnapshot := base\<rparr>
          in if Name (IncrementalSnapshot j) = [] then Inr j
             else case validateSnapShotExists env (IncrementalSnapshot j) True of
                    (False, incr) \<Rightarrow> Inl (NoIncrementalSnapshot (Name incr))
                  | (True, incr) \<Rightarrow> Inr (j\<lparr>IncrementalSnapshot := incr\<rparr>))"

fun prepareAll :: "sendEnv \<Rightarrow> bool \<Rightarrow> string list \<Rightarrow> backup_error + destination list" where
  "prepareAll env caches [] = Inr []"
| "prepareAll env caches (uri # uris) =
     (case snBackend env uri of
        Inl e \<Rightarrow> Inl (NoBackend e)
      | Inr d \<Rightarrow>
          (case (if caches then snCacheErr env uri else None) of
             Some e \<Rightarrow> Inl (NoCache uri e)
           | None \<Rightarrow>
               (case prepareAll env caches uris of
                  Inl err \<Rightarrow> Inl err
                | Inr ds \<Rightarrow> Inr (d\<lparr>dUri := uri\<rparr> # ds))))"

text \<open>\<^verbatim>\<open>dryRunRefusals\<close> and \<^verbatim>\<open>reportDryRun\<close>: the job it would send, when it would send one.\<close>

definition dryRunRefusals :: "sendEnv \<Rightarrow> JobInfo \<Rightarrow> sendState \<Rightarrow> (bool \<times> backup_error option) \<times> JobInfo \<times> sendState" where
  "dryRunRefusals env j st =
     (case prepareAll env False (Destinations j) of
        Inl err \<Rightarrow> ((False, Some err), j, st)
      | Inr dests \<Rightarrow>
          (let j = recordSnapshotGUIDs (snGuid env) j
           in case refuseExistingSet (snFs env) (snCodec env) (snMd5 env) (snSha256 env) (snZfsPath env) (snTmpErr env) j dests True st of
                ((True, err), st) \<Rightarrow> ((True, map_option Refusal err), j, st)
              | ((False, Some err), st) \<Rightarrow> ((False, Some (Refusal err)), j, st)
              | ((False, None), st) \<Rightarrow>
                  (case checkManifestFits env j of
                     Inl err \<Rightarrow> ((False, Some err), j, st)
                   | Inr n \<Rightarrow>
                       (case refuseMixedChain (snFs env) (snCodec env) (snMd5 env) j True dests st of
                          (err, st) \<Rightarrow> ((False, map_option Refusal err), j, st)))))"

definition reportDryRun :: "sendEnv \<Rightarrow> JobInfo \<Rightarrow> sendState \<Rightarrow> (backup_error option \<times> JobInfo option) \<times> sendState" where
  "reportDryRun env j st =
     (case validateSnapshots env j of
        Inl err \<Rightarrow> ((Some err, None), st)
      | Inr j \<Rightarrow>
          (case dryRunRefusals env j st of
             ((finished, Some err), j, st) \<Rightarrow> ((Some err, None), st)
           | ((True, None), j, st) \<Rightarrow> ((None, None), st)
           | ((False, None), j, st) \<Rightarrow> ((None, Some j), st)))"

text \<open>
  \<^verbatim>\<open>Backup\<close> from taking the lock to its first goroutine: it returns, or goes on to send to the
  destinations with the job as it then is. The estimate is the total of the progress lines.
\<close>

datatype send_outcome = Returns "backup_error option" | Sends "destination list" "64 word"

definition underLock :: "sendEnv \<Rightarrow> JobInfo \<Rightarrow> destination list \<Rightarrow> sendState \<Rightarrow> send_outcome \<times> JobInfo \<times> sendState" where
  "underLock env j dests st =
     (let j = recordSourceMountpoints (snMounts env) (recordSnapshotGUIDs (snGuid env) (RecordKeyFingerprints j))
      in case refuseExistingSet (snFs env) (snCodec env) (snMd5 env) (snSha256 env) (snZfsPath env) (snTmpErr env) j dests False st of
           ((True, err), st) \<Rightarrow> (Returns (map_option Refusal err), j, st)
         | ((False, Some err), st) \<Rightarrow> (Returns (Some (Refusal err)), j, st)
         | ((False, None), st) \<Rightarrow>
             (case checkManifestFits env j of
                Inl err \<Rightarrow> (Returns (Some err), j, st)
              | Inr streamEstimate \<Rightarrow>
                  (case (if Resume j then tryResume (snFs env) (snCodec env) (snMd5 env) (snZfsPath env) (snManifest env) j dests st
                         else (case discardPartialManifests (snFs env) (snMd5 env) j dests st of (err, st) \<Rightarrow> ((False, err), j, st))) of
                     ((True, err), j, st) \<Rightarrow> (Returns (map_option Refusal err), j, st)
                   | ((False, Some err), j, st) \<Rightarrow> (Returns (Some (Refusal err)), j, st)
                   | ((False, None), j, st) \<Rightarrow>
                       (case validateSnapshots env j of
                          Inl err \<Rightarrow> (Returns (Some err), j, st)
                        | Inr j \<Rightarrow>
                            (case refuseMixedChain (snFs env) (snCodec env) (snMd5 env) j False dests st of
                               (Some err, st) \<Rightarrow> (Returns (Some (Refusal err)), j, st)
                             | (None, st) \<Rightarrow> (Sends dests streamEstimate, j, st))))))"

definition Backup_begin ::
    "sendEnv \<Rightarrow> JobInfo \<Rightarrow> sendState \<Rightarrow> lockFiles \<Rightarrow> send_outcome \<times> JobInfo \<times> sendState \<times> lockFiles" where
  "Backup_begin env j st files =
     (case prepareAll env True (Destinations j) of
        Inl err \<Rightarrow> (Returns (Some err), j, st, files)
      | Inr dests \<Rightarrow>
          (case bootLock_TryLock (snLock env) files of
             (Some err, files) \<Rightarrow> (Returns (Some (LockFailed err)), j, st, files)
           | (None, files) \<Rightarrow>
               (case underLock env j dests st of
                  (Returns err, j, st) \<Rightarrow> (Returns err, j, st, snd (bootLock_Unlock (snLock env) files))
                | (Sends ds n, j, st) \<Rightarrow> (Sends ds n, j, st, files))))"

section \<open>What a partial set needs\<close>

lemma hasPrefix_trans: "hasPrefix s t \<Longrightarrow> hasPrefix t u \<Longrightarrow> hasPrefix s u"
  by (auto simp: hasPrefix_iff)

lemma shrinkPrefix_prefix: "hasPrefix name (shrinkPrefix pre name) \<and> hasPrefix pre (shrinkPrefix pre name)"
proof (induction pre name rule: shrinkPrefix.induct)
  case (1 pre name)
  show ?case
  proof (cases "hasPrefix name pre")
    case True
    then show ?thesis by (subst (1 2) shrinkPrefix.simps) (simp add: hasPrefix_iff)
  next
    case False
    then have "pre \<noteq> []" by (auto simp: hasPrefix_iff)
    then have "hasPrefix pre (butlast pre)" by (cases pre rule: rev_cases) auto
    moreover have "shrinkPrefix pre name = shrinkPrefix (butlast pre) name" using False by (subst shrinkPrefix.simps) simp
    ultimately show ?thesis using 1 [OF False] hasPrefix_trans by metis
  qed
qed

lemma shrink_all_prefix:
  "hasPrefix pre (foldl (\<lambda>pre vol. shrinkPrefix pre (ObjectName vol)) pre vols)
    \<and> (\<forall>vol\<in>set vols. hasPrefix (ObjectName vol) (foldl (\<lambda>pre vol. shrinkPrefix pre (ObjectName vol)) pre vols))"
proof (induction vols arbitrary: pre)
  case (Cons vol vols)
  note first = shrinkPrefix_prefix [of "ObjectName vol" pre]
  from Cons [of "shrinkPrefix pre (ObjectName vol)"] first show ?case by (auto intro: hasPrefix_trans)
qed (simp add: hasPrefix_iff)

lemma volumesPrefix_prefix: "vol \<in> set vols \<Longrightarrow> hasPrefix (ObjectName vol) (volumesPrefix vols)"
  using shrink_all_prefix [of "ObjectName (hd vols)" "tl vols"] by (cases vols) (auto simp: volumesPrefix_def)

text \<open>A destination that lists by prefix, as the interface \<^verbatim>\<open>backends.Backend\<close> documents \<^verbatim>\<open>List\<close>.\<close>

definition listsByPrefix :: "destination \<Rightarrow> string list \<Rightarrow> bool" where
  "listsByPrefix d objects \<longleftrightarrow> (\<forall>pre. bList (dBackend d) pre = Inr (filter (\<lambda>name. hasPrefix name pre) objects))"

lemma volumesPresentAt_correct:
  assumes "list_all2 (\<lambda>d objects. \<exists>dest. d = Inr dest \<and> listsByPrefix dest objects) ds os" "length destBackups = length ds"
    and "\<And>vol. vol \<in> set (Volumes partial) \<Longrightarrow> hasPrefix (ObjectName vol) pre"
  shows "volumesPresentAt partial pre (zip destBackups ds) =
    Inr (list_all2 (\<lambda>backups objects. backups \<noteq> [] \<and> sameSets (take 1 backups) [partial] \<or> ObjectName ` set (Volumes partial) \<subseteq> set objects) destBackups os)"
  using assms(1,2)
proof (induction ds os arbitrary: destBackups rule: list_all2_induct)
  case (Cons d ds objects os)
  obtain dest where d: "d = Inr dest" "listsByPrefix dest objects" using Cons.hyps(1) by blast
  obtain backups rest where db: "destBackups = backups # rest" "length rest = length ds" using Cons.prems by (cases destBackups) auto
  have "list_all (\<lambda>vol. ObjectName vol \<in> set (filter (\<lambda>name. hasPrefix name pre) objects)) (Volumes partial)
      \<longleftrightarrow> ObjectName ` set (Volumes partial) \<subseteq> set objects"
    using assms(3) by (auto simp: list_all_iff)
  then show ?case using Cons.IH [OF db(2)] d unfolding db(1) by (simp add: listsByPrefix_def)
qed simp

text \<open>
  When a smart send may complete a set that some destinations lack: when the destinations list by
  prefix, \<^verbatim>\<open>partialVolumesPresent\<close> says so exactly when every destination either has the set as its newest
  or has an object named like each of its volumes, although it lists only by their common prefix.
\<close>

theorem partialVolumesPresent_correct:
  assumes "list_all2 (\<lambda>uri objects. \<exists>d. prepare uri = Inr d \<and> listsByPrefix d objects) (Destinations j) os"
    and "length destBackups = length (Destinations j)" "Volumes partial \<noteq> []"
  shows "partialVolumesPresent prepare j partial destBackups =
    Inr (list_all2 (\<lambda>backups objects. backups \<noteq> [] \<and> sameSets (take 1 backups) [partial] \<or> ObjectName ` set (Volumes partial) \<subseteq> set objects) destBackups os)"
proof -
  have "list_all2 (\<lambda>d objects. \<exists>dest. d = Inr dest \<and> listsByPrefix dest objects) (map prepare (Destinations j)) os"
    using assms(1) by (simp add: list_all2_map1)
  then show ?thesis using assms(2,3) volumesPresentAt_correct [of "map prepare (Destinations j)" os destBackups partial] volumesPrefix_prefix
    by (simp add: partialVolumesPresent_def)
qed

section \<open>The estimate\<close>

lemma volumeCut_nonzero: "volumeCut j \<noteq> 0"
proof
  assume "volumeCut j = 0"
  then have "VolumeSize j * 1048576 = 51200" by (simp add: volumeCut_def)
  then have "take_bit 20 (VolumeSize j * 1048576) = take_bit 20 51200" by simp
  moreover have "VolumeSize j * 1048576 = push_bit 20 (VolumeSize j)" by (simp add: push_bit_eq_mult)
  ultimately show False by (simp add: take_bit_push_bit)
qed

text \<open>
  The estimate of the manifest divides by no zero: with JSON of a volume shorter than the address
  space, \<^verbatim>\<open>checkManifestFits\<close> never panics, whatever \<^verbatim>\<open>--volsize\<close> and the estimate of \<^verbatim>\<open>zfs\<close> are, also where its
  products wrap around.
\<close>

theorem checkManifestFits_no_panic:
  assumes "\<And>v s. snJsonVolume env v = Inr s \<Longrightarrow> length s < 2 ^ 63"
  shows "checkManifestFits env j \<noteq> Inl DivideByZero"
proof
  assume panic: "checkManifestFits env j = Inl DivideByZero"
  then obtain n where n: "snEstimate env = Inr n" by (auto simp: checkManifestFits_def split: sum.splits)
  let ?volumes = "n div volumeCut j + 1"
  obtain base per where cost: "manifestCost env j ?volumes (volumeCut j) = Inr (base, per)"
    and zero: "per = 0 \<or> max ((manifestLimit - min base (manifestLimit)) div per) 2 - 1 = 0"
    using panic n volumeCut_nonzero [of j] by (auto simp: checkManifestFits_def Let_def split: sum.splits if_splits)
  obtain vol where vol: "snJsonVolume env (costVolume j ?volumes (volumeCut j)) = Inr vol" "per = of_nat (length vol) + 1"
    using cost by (auto simp: manifestCost_def split: sum.splits)
  have "per \<noteq> 0"
  proof
    assume "per = 0"
    then have "(of_nat (Suc (length vol)) :: 64 word) = 0" using vol(2) by (simp add: ac_simps)
    then have "2 ^ 64 dvd Suc (length vol)" by (simp only: word_of_nat_eq_0_iff) simp
    then show False using assms [OF vol(1)] by (auto dest!: dvd_imp_le)
  qed
  moreover have "max m 2 - 1 \<noteq> (0 :: 64 word)" for m :: "64 word" by (auto simp: max_def)
  ultimately show False using zero by blast
qed

section \<open>What a send has checked\<close>

lemma names_recorded [simp]:
  "ManifestObjectName (recordSourceMountpoints rows j) = ManifestObjectName j"
  "ManifestObjectName (recordSnapshotGUIDs g j) = ManifestObjectName j"
  "ManifestObjectName (RecordKeyFingerprints j) = ManifestObjectName j"
  "BackupVolumeObjectPrefix (recordSourceMountpoints rows j) = BackupVolumeObjectPrefix j"
  "BackupVolumeObjectPrefix (recordSnapshotGUIDs g j) = BackupVolumeObjectPrefix j"
  "BackupVolumeObjectPrefix (RecordKeyFingerprints j) = BackupVolumeObjectPrefix j"
  by (simp_all add: recordSourceMountpoints_def recordSnapshotGUIDs_def RecordKeyFingerprints_def ManifestObjectName_def
      manifestObjectName_def BackupVolumeObjectPrefix_def volumeNameParts_def Let_def)

lemma fields_recorded [simp]:
  "Volumes (recordSourceMountpoints rows j) = Volumes j" "Destinations (recordSourceMountpoints rows j) = Destinations j"
  "Resume (recordSourceMountpoints rows j) = Resume j" "Volumes (recordSnapshotGUIDs g j) = Volumes j"
  "Destinations (recordSnapshotGUIDs g j) = Destinations j" "Resume (recordSnapshotGUIDs g j) = Resume j"
  "Volumes (RecordKeyFingerprints j) = Volumes j" "Destinations (RecordKeyFingerprints j) = Destinations j"
  "Resume (RecordKeyFingerprints j) = Resume j"
  by (simp_all add: recordSourceMountpoints_def recordSnapshotGUIDs_def RecordKeyFingerprints_def Let_def)

lemma refuseExistingSet_goes_on:
  assumes "refuseExistingSet env c md5 sha256 zfsPath tmpErr j dests dryRun st = ((False, None), st')"
  shows "st' = st \<and> (\<forall>d\<in>set dests. \<not> listsObject (ManifestObjectName j) d)"
proof (cases "havingSet (ManifestObjectName j) dests")
  case (Inr hm)
  obtain have_it missing where hm: "hm = (have_it, missing)" by fastforce
  note run = assms [unfolded refuseExistingSet_def Let_def Inr hm sum.case prod.case]
  have "have_it = []" using run by (auto split: list.splits if_splits prod.splits)
  then show ?thesis using run havingSet_spec [OF Inr [unfolded hm]] by (auto simp: filter_empty_conv)
qed (use assms in \<open>simp add: refuseExistingSet_def\<close>)

lemma mixedChainAt_uploads: "mixedChainAt env c md5 j dryRun ds st = (r, st') \<Longrightarrow> ssUploads st' = ssUploads st"
proof (induction ds arbitrary: st)
  case (Cons d ds)
  obtain q io where b: "getBackupsForTarget env c md5 (dBackend d) j (VolumeName j) dryRun (ssIO st (dUri d)) = (q, io)" by fastforce
  have "ssUploads st' = ssUploads (setIO (dUri d) io st)"
    using Cons.prems Cons.IH [of "setIO (dUri d) io st"] b by (auto simp: Let_def split: sum.splits prod.splits option.splits)
  then show ?case by simp
qed simp

lemma refuseMixedChain_uploads: "refuseMixedChain env c md5 j dryRun ds st = (r, st') \<Longrightarrow> ssUploads st' = ssUploads st"
  by (auto simp: refuseMixedChain_def mixedChainAt_uploads split: if_splits)

lemma prepareAll_uris: "prepareAll env caches uris = Inr ds \<Longrightarrow> map dUri ds = uris"
  by (induction uris arbitrary: ds) (auto split: sum.splits option.splits)

lemma validateSnapshots_ok:
  assumes "validateSnapshots env j = Inr j'"
  obtains pool where "snPool env = Inr pool" "snapshotOnPool (BaseSnapshot j') pool" "\<not> Bookmark (BaseSnapshot j')"
    "Name (IncrementalSnapshot j') \<noteq> [] \<Longrightarrow> onPool (IncrementalSnapshot j') pool" "Volumes j' = Volumes j"
proof -
  have same: "SnapshotInfo_Equal x (s\<lparr>Bookmark := b\<rparr>) = SnapshotInfo_Equal x s" for x s b by (simp add: SnapshotInfo_Equal_def)
  have keep: "snapshotOnPool (s\<lparr>Bookmark := b\<rparr>) pool = snapshotOnPool s pool" "onPool (s\<lparr>Bookmark := b\<rparr>) pool = onPool s pool" for s b pool
    by (simp_all add: snapshotOnPool_def onPool_def same)
  obtain pool where pool: "snPool env = Inr pool"
    using assms by (cases "snPool env") (auto simp: validateSnapshots_def validateSnapShotExists_def)
  show ?thesis
    using assms pool that [OF pool]
    by (auto simp: validateSnapshots_def validateSnapShotExists_def validateSnapShotExistsFromSnaps_spec keep Let_def snapshotOnPool_onPool
        split: if_splits prod.splits)
qed

lemma underLock_sends:
  assumes "underLock env j dests st = (Sends ds n, j', st')"
    and "j1 = recordSourceMountpoints (snMounts env) (recordSnapshotGUIDs (snGuid env) (RecordKeyFingerprints j))"
  obtains st1 j2 st2 where
    "refuseExistingSet (snFs env) (snCodec env) (snMd5 env) (snSha256 env) (snZfsPath env) (snTmpErr env) j1 dests False st = ((False, None), st1)"
    "(if Resume j1 then tryResume (snFs env) (snCodec env) (snMd5 env) (snZfsPath env) (snManifest env) j1 dests st1
      else (case discardPartialManifests (snFs env) (snMd5 env) j1 dests st1 of (err, st) \<Rightarrow> ((False, err), j1, st))) = ((False, None), j2, st2)"
    "checkManifestFits env j1 = Inr n" "validateSnapshots env j2 = Inr j'"
    "refuseMixedChain (snFs env) (snCodec env) (snMd5 env) j' False dests st2 = (None, st')" "ds = dests"
proof -
  let ?refuse = "refuseExistingSet (snFs env) (snCodec env) (snMd5 env) (snSha256 env) (snZfsPath env) (snTmpErr env) j1 dests False st"
  note run = assms(1) [unfolded underLock_def Let_def, folded assms(2)]
  obtain st1 where first: "?refuse = ((False, None), st1)" using run by (auto split: prod.splits bool.splits option.splits)
  obtain m where fits: "checkManifestFits env j1 = Inr m" using run first by (auto split: sum.splits)
  let ?resume = "(if Resume j1 then tryResume (snFs env) (snCodec env) (snMd5 env) (snZfsPath env) (snManifest env) j1 dests st1
      else (case discardPartialManifests (snFs env) (snMd5 env) j1 dests st1 of (err, st) \<Rightarrow> ((False, err), j1, st)))"
  obtain fin err j2 st2 where r: "?resume = ((fin, err), j2, st2)" by (metis surj_pair)
  note run = run [unfolded first fits prod.case bool.case option.case sum.case r]
  have ok: "\<not> fin" "err = None" using run by (auto split: bool.splits option.splits)
  then obtain j3 where valid: "validateSnapshots env j2 = Inr j3" using run by (auto split: sum.splits)
  then have "refuseMixedChain (snFs env) (snCodec env) (snMd5 env) j3 False dests st2 = (None, st')" "j3 = j'" "ds = dests" "m = n"
    using run ok by (auto split: prod.splits option.splits)
  with that [OF first, of j2 st2] fits r ok valid show thesis by simp
qed

text \<open>The volumes that a send starts with.\<close>

lemma resume_volumes:
  assumes run: "tryResume fs c md5 zfsPath mio j dests st = ((False, None), j', st')" and "dests \<noteq> []"
  shows "ssUploads st' = ssUploads st \<and> (Volumes j' = Volumes j \<or>
    map VolumeNumber (Volumes j') = map int [1..<length (Volumes j') + 1]
      \<and> (\<forall>v\<in>set (Volumes j'). \<forall>d\<in>set dests. listedAt (BackupVolumeObjectPrefix j) d v))"
  using run
proof (cases rule: tryResume_cases)
  case over
  then show ?thesis using discardPartialManifests_ok [OF over(3)] by simp
next
  case (kept original vols)
  let ?kept = "cachedAtEveryDestination c md5 j vols dests st"
  have "cachedVolumes c md5 j st (hd dests) = sortVolumes (Volumes original)" by (simp add: cachedVolumes_def kept(2))
  note k = resume_kept [OF kept(6) refl assms(2) this]
  obtain contents where save: "saveManifest fs c md5 mio (j\<lparr>Volumes := ?kept, StartTime := StartTime original\<rparr>) st = (Inr contents, j', st')"
    using kept(8) by blast
  note s = saveManifest_ok [OF save]
  have "Volumes j' = ?kept" using s(1) sortVolumes_sorted [OF k(1)] by simp
  then show ?thesis using k copyToCaches_ok [OF s(4)] by simp
qed simp

text \<open>
  C9. What a send has checked before its first byte. When \<^verbatim>\<open>Backup\<close> goes on to send, it holds the lock of the
  dataset; no destination lists the manifest of the set; nothing was uploaded; the base snapshot, and
  the source of an incremental, are on the pool, the base not as a bookmark; the manifest is expected
  to fit; and any volumes it takes over from an interrupted attempt are numbered from 1 and listed at
  every destination.
\<close>

theorem Backup_begin_sends:
  assumes "Backup_begin env j st files = (Sends dests n, j', st', files')" "Destinations j \<noteq> []"
  shows "map dUri dests = Destinations j \<and> lkFile files' = Some (pidLine (lePid (snLock env)))
    \<and> (\<forall>d\<in>set dests. \<not> listsObject (ManifestObjectName j) d) \<and> ssUploads st' = ssUploads st
    \<and> (\<exists>pool. snPool env = Inr pool \<and> snapshotOnPool (BaseSnapshot j') pool \<and> \<not> Bookmark (BaseSnapshot j')
        \<and> (Name (IncrementalSnapshot j') = [] \<or> onPool (IncrementalSnapshot j') pool))
    \<and> (Volumes j' = Volumes j \<or> Resume j \<and> map VolumeNumber (Volumes j') = map int [1..<length (Volumes j') + 1]
        \<and> (\<forall>v\<in>set (Volumes j'). \<forall>d\<in>set dests. listedAt (BackupVolumeObjectPrefix j) d v))"
proof -
  obtain ds fs where ds: "prepareAll env True (Destinations j) = Inr ds" and lock: "bootLock_TryLock (snLock env) files = (None, fs)"
    and under: "underLock env j ds st = (Sends dests n, j', st')" and files: "files' = fs"
    using assms(1) by (auto simp: Backup_begin_def split: sum.splits prod.splits option.splits send_outcome.splits)
  define j1 where "j1 = recordSourceMountpoints (snMounts env) (recordSnapshotGUIDs (snGuid env) (RecordKeyFingerprints j))"
  obtain st1 j2 st2 where steps:
    "refuseExistingSet (snFs env) (snCodec env) (snMd5 env) (snSha256 env) (snZfsPath env) (snTmpErr env) j1 ds False st = ((False, None), st1)"
    "(if Resume j1 then tryResume (snFs env) (snCodec env) (snMd5 env) (snZfsPath env) (snManifest env) j1 ds st1
      else (case discardPartialManifests (snFs env) (snMd5 env) j1 ds st1 of (err, st) \<Rightarrow> ((False, err), j1, st))) = ((False, None), j2, st2)"
    "validateSnapshots env j2 = Inr j'"
    "refuseMixedChain (snFs env) (snCodec env) (snMd5 env) j' False ds st2 = (None, st')" "dests = ds"
    by (rule underLock_sends [OF under j1_def])
  have uris: "map dUri ds = Destinations j" by (rule prepareAll_uris [OF ds])
  then have ne: "ds \<noteq> []" using assms(2) by auto
  have job: "ManifestObjectName j1 = ManifestObjectName j" "BackupVolumeObjectPrefix j1 = BackupVolumeObjectPrefix j"
    "Volumes j1 = Volumes j" "Resume j1 = Resume j" by (simp_all add: j1_def)
  have first: "st1 = st" "\<forall>d\<in>set ds. \<not> listsObject (ManifestObjectName j) d"
    using refuseExistingSet_goes_on [OF steps(1)] job by auto
  have vols: "ssUploads st2 = ssUploads st \<and> (Volumes j2 = Volumes j \<or> Resume j \<and> map VolumeNumber (Volumes j2) = map int [1..<length (Volumes j2) + 1]
      \<and> (\<forall>v\<in>set (Volumes j2). \<forall>d\<in>set ds. listedAt (BackupVolumeObjectPrefix j) d v))"
  proof (cases "Resume j1")
    case True
    then have "tryResume (snFs env) (snCodec env) (snMd5 env) (snZfsPath env) (snManifest env) j1 ds st1 = ((False, None), j2, st2)" using steps(2) by simp
    from resume_volumes [OF this ne] show ?thesis unfolding job first(1) using True job(4) by blast
  next
    case False
    then have "discardPartialManifests (snFs env) (snMd5 env) j1 ds st = (None, st2)" "j2 = j1"
      using steps(2) first(1) by (auto split: prod.splits)
    then show ?thesis using discardPartialManifests_ok job by blast
  qed
  obtain pool where pool: "snPool env = Inr pool" "snapshotOnPool (BaseSnapshot j') pool" "\<not> Bookmark (BaseSnapshot j')"
    "Name (IncrementalSnapshot j') \<noteq> [] \<Longrightarrow> onPool (IncrementalSnapshot j') pool" "Volumes j' = Volumes j2"
    using validateSnapshots_ok [OF steps(3)] by blast
  have "lkFile files' = Some (pidLine (lePid (snLock env)))"
    unfolding files bootLock_taken [OF lock] by (simp add: recordBoot_def split: option.splits)
  then show ?thesis using uris first(2) vols pool refuseMixedChain_uploads [OF steps(4)] unfolding steps(5) by auto
qed

text \<open>
  A send that stops early leaves no lock behind. When \<^verbatim>\<open>Backup\<close> returns before it sends, and it is not the
  lock that failed, either it never touched the lock or the lock is free again, as long as the lock
  file can be read and removed.
\<close>

theorem Backup_begin_unlocks:
  assumes "Backup_begin env j st files = (Returns err, j', st', files')"
    and "0 < lePid (snLock env)" "inInt64 (lePid (snLock env))" "leRunning (snLock env) (lePid (snLock env))"
    and "leReadErr (snLock env) = None" "leRemoveErr (snLock env) = None"
  shows "files' = files \<or> lkFile files' = None \<or> (\<exists>e. err = Some (LockFailed e))"
proof (cases "\<exists>fs. bootLock_TryLock (snLock env) files = (None, fs)")
  case False
  then show ?thesis using assms(1) by (auto simp: Backup_begin_def split: sum.splits prod.splits option.splits)
next
  case True
  then obtain fs where lock: "bootLock_TryLock (snLock env) files = (None, fs)" by blast
  have own: "lkFile fs = Some (pidLine (lePid (snLock env)))"
    unfolding bootLock_taken [OF lock] by (simp add: recordBoot_def split: option.splits)
  have "lkFile (snd (bootLock_Unlock (snLock env) fs)) = None"
    using own assms(2-) GetOwner_pidLine [of _ "lePid (snLock env)" "snLock env"]
    by (auto simp: bootLock_Unlock_def lockfile_Unlock_def split: option.splits)
  then show ?thesis using assms(1) lock by (auto simp: Backup_begin_def split: sum.splits prod.splits send_outcome.splits)
qed

lemma refuseExistingSet_dryRun:
  "refuseExistingSet env c md5 sha256 zfsPath tmpErr j dests True st = (r, st') \<Longrightarrow> st' = st"
  by (auto simp: refuseExistingSet_def Let_def split: sum.splits prod.splits list.splits if_splits)

lemma dryRunRefusals_uploads: "dryRunRefusals env j st = (r, j', st') \<Longrightarrow> ssUploads st' = ssUploads st"
  by (auto simp: dryRunRefusals_def Let_def dest!: refuseExistingSet_dryRun refuseMixedChain_uploads
      split: sum.splits prod.splits bool.splits option.splits)

lemma dryRunRefusals_passes:
  assumes "dryRunRefusals env j st = ((False, None), j', st')"
  shows "(\<exists>n. checkManifestFits env j' = Inr n) \<and> BaseSnapshot j' = (BaseSnapshot j)\<lparr>GUID := GUID (BaseSnapshot j')\<rparr>
    \<and> (\<exists>dests. prepareAll env False (Destinations j') = Inr dests \<and> (\<forall>d\<in>set dests. \<not> listsObject (ManifestObjectName j') d))"
proof -
  let ?j = "recordSnapshotGUIDs (snGuid env) j"
  obtain dests where dests: "prepareAll env False (Destinations j) = Inr dests" using assms by (auto simp: dryRunRefusals_def split: sum.splits)
  note run = assms [unfolded dryRunRefusals_def dests sum.case Let_def]
  obtain st1 where first: "refuseExistingSet (snFs env) (snCodec env) (snMd5 env) (snSha256 env) (snZfsPath env) (snTmpErr env) ?j dests True st = ((False, None), st1)"
    using run by (auto split: prod.splits bool.splits option.splits)
  have "\<exists>n. checkManifestFits env ?j = Inr n" "j' = ?j" using run unfolding first by (auto split: sum.splits prod.splits)
  moreover have "BaseSnapshot ?j = (BaseSnapshot j)\<lparr>GUID := GUID (BaseSnapshot ?j)\<rparr>"
    by (simp add: recordSnapshotGUIDs_def Let_def)
  ultimately show ?thesis using refuseExistingSet_goes_on [OF first] dests by auto
qed

lemma snapshotOnPool_guid: "s' = s\<lparr>GUID := g\<rparr> \<Longrightarrow> snapshotOnPool s' pool = snapshotOnPool s pool"
  by (simp add: snapshotOnPool_def SnapshotInfo_Equal_def)

text \<open>
  A dry run uploads nothing, and what it says it would send passes the same checks: the snapshots are on
  the pool, no destination lists the manifest of the set, and its manifest is expected to fit.
\<close>

theorem reportDryRun_checks:
  assumes "reportDryRun env j st = ((err, job), st')"
  shows "ssUploads st' = ssUploads st \<and> (\<forall>j'. job = Some j' \<longrightarrow> err = None
    \<and> (\<exists>pool. snPool env = Inr pool \<and> snapshotOnPool (BaseSnapshot j') pool)
    \<and> (\<exists>n. checkManifestFits env j' = Inr n)
    \<and> (\<exists>dests. prepareAll env False (Destinations j') = Inr dests \<and> (\<forall>d\<in>set dests. \<not> listsObject (ManifestObjectName j') d)))"
proof (cases "validateSnapshots env j")
  case (Inr j1)
  obtain pool where pool: "snPool env = Inr pool" "snapshotOnPool (BaseSnapshot j1) pool" using validateSnapshots_ok [OF Inr] by blast
  obtain fin rerr j2 where run: "dryRunRefusals env j1 st = ((fin, rerr), j2, st')"
    and job: "job = (if rerr = None \<and> \<not> fin then Some j2 else None)" "err = rerr"
    using assms Inr by (auto simp: reportDryRun_def split: prod.splits option.splits bool.splits)
  have "ssUploads st' = ssUploads st" by (rule dryRunRefusals_uploads [OF run])
  moreover have "(\<exists>n. checkManifestFits env j2 = Inr n) \<and> BaseSnapshot j2 = (BaseSnapshot j1)\<lparr>GUID := GUID (BaseSnapshot j2)\<rparr>
    \<and> (\<exists>dests. prepareAll env False (Destinations j2) = Inr dests \<and> (\<forall>d\<in>set dests. \<not> listsObject (ManifestObjectName j2) d))"
    if "rerr = None" "\<not> fin"
    using dryRunRefusals_passes [of env j1 st j2 st'] run that by simp
  ultimately show ?thesis using pool job by (auto simp: snapshotOnPool_guid split: if_splits)
qed (use assms in \<open>simp add: reportDryRun_def\<close>)

section \<open>A concrete send\<close>

text \<open>Two destinations that hold volumes of an interrupted attempt, a pool with the one snapshot, and a free lock.\<close>

definition exSendEnv :: sendEnv where
  "exSendEnv = \<lparr>snFs = exFs, snCodec = exResumeCodec, snMd5 = exMd5, snSha256 = (\<lambda>s. s), snZfsPath = ''zfs'', snTmpErr = None,
     snManifest = exManifestIO,
     snBackend = (\<lambda>uri. Inr (exVolumesAt uri (if uri = ''f://1'' then [''v1'', ''v2''] else [''v1'']))),
     snCacheErr = (\<lambda>uri. None), snLock = exLockEnv 1 ''y'' {1}, snGuid = (\<lambda>s. Inr ''7''), snMounts = Inr [],
     snPool = Inr [zeroSnapshot\<lparr>Name := ''a''\<rparr>], snEstimate = Inr 100, snJsonJob = (\<lambda>j. Inr ''j''), snJsonVolume = (\<lambda>v. Inr ''v''), snNow = 0\<rparr>"

definition exBegun :: "send_outcome \<times> JobInfo \<times> sendState \<times> lockFiles" where
  "exBegun = Backup_begin exSendEnv exResumeJob exPartialCache exStale"

lemma ex_begun:
  "(case fst exBegun of Sends ds n \<Rightarrow> n = 100 | Returns err \<Rightarrow> False)" "Volumes (fst (snd exBegun)) = [exVolume 1]"
  by code_simp+

lemma Backup_begin_sends_witness: "ssUploads (fst (snd (snd exBegun))) = []"
proof -
  obtain ds where ds: "fst exBegun = Sends ds 100" using ex_begun(1) by (auto split: send_outcome.splits)
  have run: "Backup_begin exSendEnv exResumeJob exPartialCache exStale
      = (Sends ds 100, fst (snd exBegun), fst (snd (snd exBegun)), snd (snd (snd exBegun)))"
    using ds unfolding exBegun_def by (metis prod.collapse)
  have "Destinations exResumeJob \<noteq> []" by (simp add: exResumeJob_def)
  from Backup_begin_sends [OF run this] show ?thesis by (simp add: exPartialCache_def)
qed

definition exRefused :: "send_outcome \<times> JobInfo \<times> sendState \<times> lockFiles" where
  "exRefused = Backup_begin (exSendEnv\<lparr>snPool := Inr []\<rparr>) exResumeJob exPartialCache exStale"

lemma ex_begin_refused: "(case fst exRefused of Returns (Some (NoBaseSnapshot a)) \<Rightarrow> a = ''a'' | _ \<Rightarrow> False)"
  by code_simp

lemma Backup_begin_unlocks_witness: "lkFile (snd (snd (snd exRefused))) = None \<or> snd (snd (snd exRefused)) = exStale"
proof -
  have err: "fst exRefused = Returns (Some (NoBaseSnapshot ''a''))"
    using ex_begin_refused by (auto split: send_outcome.splits option.splits backup_error.splits)
  have run: "Backup_begin (exSendEnv\<lparr>snPool := Inr []\<rparr>) exResumeJob exPartialCache exStale
      = (Returns (Some (NoBaseSnapshot ''a'')), fst (snd exRefused), fst (snd (snd exRefused)), snd (snd (snd exRefused)))"
    using err unfolding exRefused_def by (metis prod.collapse)
  show ?thesis using Backup_begin_unlocks [OF run] by (auto simp: exSendEnv_def exLockEnv_def inInt64_def minInt64_def maxInt64_def)
qed

definition exDryRun :: "(backup_error option \<times> JobInfo option) \<times> sendState" where
  "exDryRun = reportDryRun exSendEnv exResumeJob exPartialCache"

lemma ex_dry_run: "snd (fst exDryRun) \<noteq> None" by code_simp

lemma reportDryRun_checks_witness: "ssUploads (snd exDryRun) = [] \<and> fst (fst exDryRun) = None"
proof -
  have run: "reportDryRun exSendEnv exResumeJob exPartialCache = ((fst (fst exDryRun), snd (fst exDryRun)), snd exDryRun)"
    unfolding exDryRun_def by simp
  show ?thesis using reportDryRun_checks [OF run] ex_dry_run by (auto simp: exPartialCache_def)
qed

lemma partialVolumesPresent_correct_witness:
  "partialVolumesPresent (\<lambda>uri. Inr (exVolumesAt uri [''v1'']\<lparr>dBackend := (exBackend [])\<lparr>bList := (\<lambda>p. Inr (filter (\<lambda>n. hasPrefix n p) [''v1'']))\<rparr>\<rparr>))
     exResumeJob exPartial [[], []] = Inr False"
  using partialVolumesPresent_correct [of "\<lambda>uri. Inr (exVolumesAt uri [''v1'']\<lparr>dBackend := (exBackend [])\<lparr>bList := (\<lambda>p. Inr (filter (\<lambda>n. hasPrefix n p) [''v1'']))\<rparr>\<rparr>)"
    exResumeJob "[[''v1''], [''v1'']]" "[[], []]" exPartial]
  by (simp add: exResumeJob_def exPartial_def exVolume_def listsByPrefix_def)

lemma checkManifestFits_no_panic_witness: "checkManifestFits exSendEnv exResumeJob \<noteq> Inl DivideByZero"
  using checkManifestFits_no_panic [of exSendEnv] by (simp add: exSendEnv_def)

end
