(* ===== verification/Volumes.thy ===== *)
theory Volumes
  imports SendStream Readers
begin

text \<open>
  The volumes (\<^verbatim>\<open>files/volumeinfo.go\<close>): a volume is written through a compressor, an OpenPGP writer, a
  byte counter, checksums and a buffer into a temporary file or a pipe, closed once per side, and read
  back through the OpenPGP reader and the decompressor. Gzip, external programs, OpenPGP and the
  operating system are parameters. Creation and closing times are left out.
\<close>

unbundle bit_operations_syntax

section \<open>A volume\<close>

text \<open>
  A compressor or the OpenPGP writer: what it has written below once it was given some bytes, and what
  it has written after it is closed.
\<close>

record encoder =
  encSoFar :: "string \<Rightarrow> string"
  encWhole :: "string \<Rightarrow> string"

text \<open>
  What \<^verbatim>\<open>openpgp.ReadMessage\<close> returns: the error after the body is the one of reading it; the result of
  the signature is known once the body was read to its end. A key is its fingerprint.
\<close>

record pgpMessage =
  mdIsEncrypted :: bool
  mdIsSigned :: bool
  mdSignatureError :: "string option"
  mdSignedBy :: "string option"
  mdBody :: source

text \<open>An external program: its name, whether it reads all of its input, and the error it exits with.\<close>

record command =
  cmdPath :: string
  cmdInEof :: bool
  cmdExit :: "string option"

text \<open>
  The fields of \<^verbatim>\<open>VolumeInfo\<close>. \<open>vStored\<close> are the bytes in the file, or that went through the pipe; \<open>vPipeEnd\<close>
  is how the writer ended the pipe; \<open>vWhole\<close> says whether the message below the reader \<open>vR\<close> was read to
  its end when the reader is at its own.
\<close>

record volume =
  vInfo :: VolumeInfo
  vSHA1Sum :: string
  vFilename :: string
  vOnDisk :: bool
  vStored :: string
  vBufw :: "string option"
  vBufErr :: "string option"
  vCounter :: "64 word option"
  vHashed :: "string option"
  vPgpw :: "(encoder \<times> string) option"
  vCw :: "(encoder \<times> string) option"
  vRw :: bool
  vCmd :: "command option"
  vCmdWaited :: bool
  vCmdErr :: "read_error option"
  vFw :: bool
  vPw :: bool
  vPr :: bool
  vPipeEnd :: "string option"
  vR :: "source option"
  vWhole :: bool
  vPgpr :: "pgpMessage option"
  vSigners :: "string list"
  vUsingPipe :: bool
  vExtracted :: bool
  vIsClosed :: bool
  vIsOpened :: bool
  vCloseErr :: "string option"

definition zeroVolume :: volume where
  "zeroVolume = \<lparr>vInfo = \<lparr>ObjectName = [], VolumeNumber = 0, SHA256Sum = [], MD5Sum = [], CRC32CSum32 = 0, VolSize = 0, VolStreamBytes = 0,
       StreamSHA256 = [], IsManifest = False, IsFinalManifest = False\<rparr>,
     vSHA1Sum = [], vFilename = [], vOnDisk = False, vStored = [], vBufw = None, vBufErr = None, vCounter = None, vHashed = None, vPgpw = None, vCw = None,
     vRw = False, vCmd = None, vCmdWaited = False, vCmdErr = None, vFw = False, vPw = False, vPr = False, vPipeEnd = None, vR = None, vWhole = True,
     vPgpr = None, vSigners = [], vUsingPipe = False, vExtracted = False, vIsClosed = False, vIsOpened = False, vCloseErr = None\<rparr>"

text \<open>
  What is outside: the encoders, or the error of starting them; the name of a temporary file; how many
  bytes the file or the reader of the pipe takes, the error of the write that exceeds them, and how many
  of them are still in the file after it is closed; and the errors of closing each layer.
\<close>

record volumeEnv =
  veGzip :: "int \<Rightarrow> encoder"
  veCommand :: "string \<Rightarrow> int \<Rightarrow> string + encoder \<times> string option"
  vePgpWriter :: "string option \<Rightarrow> string option \<Rightarrow> string + encoder"
  veTemp :: "string + string"
  veRoom :: nat
  veFullErr :: string
  veKept :: nat
  veCwErr :: "string option"
  veRwErr :: "string option"
  vePgpErr :: "string option"
  veFwErr :: "string option"
  veStatErr :: "string option"
  veRemoveErr :: "string option"
  vePwErr :: "string option"
  vePrErr :: "string option"
  veSha256 :: "string \<Rightarrow> string"
  veMd5 :: "string \<Rightarrow> string"
  veSha1 :: "string \<Rightarrow> string"
  veCrc32c :: "string \<Rightarrow> 32 word"

section \<open>Writing\<close>

definition rawWrite :: "volumeEnv \<Rightarrow> string \<Rightarrow> volume \<Rightarrow> (nat \<times> string option) \<times> volume" where
  "rawWrite env p v =
     (let n = min (length p) (veRoom env - length (vStored v))
      in ((n, if n < length p then Some (veFullErr env) else None), v\<lparr>vStored := vStored v @ take n p\<rparr>))"

text \<open>The buffered writer of \<^verbatim>\<open>bufio\<close>, whose first error stays.\<close>

definition bufWhenEmpty :: "volumeEnv \<Rightarrow> string \<Rightarrow> volume \<Rightarrow> (nat \<times> string option) \<times> volume" where
  "bufWhenEmpty env p v =
     (if length p \<le> BufferSize then ((length p, None), v\<lparr>vBufw := Some p\<rparr>)
      else case rawWrite env p v of ((n, err), v) \<Rightarrow> ((n, err), v\<lparr>vBufw := Some [], vBufErr := err\<rparr>))"

definition bufFlush :: "volumeEnv \<Rightarrow> string \<Rightarrow> volume \<Rightarrow> string option \<times> volume" where
  "bufFlush env buf v =
     (case vBufErr v of
        Some e \<Rightarrow> (Some e, v)
      | None \<Rightarrow>
          if buf = [] then (None, v)
          else case rawWrite env buf v of ((n, err), v) \<Rightarrow> (err, v\<lparr>vBufw := Some (drop n buf), vBufErr := err\<rparr>))"

definition bufWrite :: "volumeEnv \<Rightarrow> string \<Rightarrow> string \<Rightarrow> volume \<Rightarrow> (nat \<times> string option) \<times> volume" where
  "bufWrite env p buf v =
     (let free = BufferSize - length buf
      in case vBufErr v of
           Some e \<Rightarrow> ((0, Some e), v)
         | None \<Rightarrow>
             if length p \<le> free then ((length p, None), v\<lparr>vBufw := Some (buf @ p)\<rparr>)
             else if buf = [] then bufWhenEmpty env p v
             else (case bufFlush env (buf @ take free p) (v\<lparr>vBufw := Some (buf @ take free p)\<rparr>) of
                     (Some e, v) \<Rightarrow> ((free, Some e), v)
                   | (None, v) \<Rightarrow> (case bufWhenEmpty env (drop free p) v of ((n, err), v) \<Rightarrow> ((free + n, err), v))))"

text \<open>
  The counter, then the buffer, then the checksums, which see what the buffer took. A write to a closed
  volume is one to a nil writer.
\<close>

definition nilWriter :: string where "nilWriter = ''nil pointer dereference''"

definition sinkWrite :: "volumeEnv \<Rightarrow> string \<Rightarrow> volume \<Rightarrow> string option \<times> volume" where
  "sinkWrite env p v =
     (case vBufw v of
        None \<Rightarrow> (Some nilWriter, v)
      | Some buf \<Rightarrow>
          (case bufWrite env p buf v of
             ((n, err), v) \<Rightarrow>
               (let v = v\<lparr>vCounter := map_option (\<lambda>c. c + of_nat n) (vCounter v)\<rparr>
                in (err, if err = None then v\<lparr>vHashed := map_option (\<lambda>h. h @ p) (vHashed v)\<rparr> else v))))"

definition pgpWrite :: "volumeEnv \<Rightarrow> string \<Rightarrow> volume \<Rightarrow> string option \<times> volume" where
  "pgpWrite env p v =
     (case vPgpw v of
        None \<Rightarrow> sinkWrite env p v
      | Some (enc, got) \<Rightarrow>
          sinkWrite env (drop (length (encSoFar enc got)) (encSoFar enc (got @ p))) (v\<lparr>vPgpw := Some (enc, got @ p)\<rparr>))"

definition Volume_Write :: "volumeEnv \<Rightarrow> string \<Rightarrow> volume \<Rightarrow> string option \<times> volume" where
  "Volume_Write env p v =
     (case vCw v of
        None \<Rightarrow> pgpWrite env p v
      | Some (enc, got) \<Rightarrow>
          pgpWrite env (drop (length (encSoFar enc got)) (encSoFar enc (got @ p))) (v\<lparr>vCw := Some (enc, got @ p)\<rparr>))"

section \<open>Creating\<close>

definition CreateSimpleVolume :: "volumeEnv \<Rightarrow> bool \<Rightarrow> string + volume" where
  "CreateSimpleVolume env pipe =
     (let v = zeroVolume\<lparr>vBufw := Some [], vCounter := Some 0, vHashed := Some []\<rparr>
      in if pipe then Inr (v\<lparr>vPr := True, vPw := True, vIsOpened := True, vUsingPipe := True\<rparr>)
         else case veTemp env of
                Inl e \<Rightarrow> Inl e
              | Inr name \<Rightarrow> Inr (v\<lparr>vFw := True, vFilename := name, vOnDisk := True\<rparr>))"

definition volumeCompressor :: "JobInfo \<Rightarrow> bool \<Rightarrow> string" where
  "volumeCompressor j isManifest = (if isManifest then InternalCompressor else Compressor j)"

text \<open>The OpenPGP writer writes its first packets when it is created.\<close>

definition startPgp :: "volumeEnv \<Rightarrow> JobInfo \<Rightarrow> volume \<Rightarrow> string + volume" where
  "startPgp env j v =
     (if EncryptKey j = None \<and> SignKey j = None then Inr v
      else case vePgpWriter env (EncryptKey j) (SignKey j) of
             Inl e \<Rightarrow> Inl e
           | Inr enc \<Rightarrow>
               (case sinkWrite env (encSoFar enc []) (v\<lparr>vPgpw := Some (enc, [])\<rparr>) of
                  (Some e, v) \<Rightarrow> Inl e
                | (None, v) \<Rightarrow> Inr v))"

definition startCompressor :: "volumeEnv \<Rightarrow> JobInfo \<Rightarrow> bool \<Rightarrow> volume \<Rightarrow> string + volume" where
  "startCompressor env j isManifest v =
     (let c = volumeCompressor j isManifest
      in if c = InternalCompressor
         then (let enc = veGzip env (CompressionLevel j)
               in Inr (snd (pgpWrite env (encSoFar enc []) (v\<lparr>vCw := Some (enc, [])\<rparr>))))
         else if c = [] \<or> c = ZfsCompressor then Inr v
         else case veCommand env c (CompressionLevel j) of
                Inl e \<Rightarrow> Inl e
              | Inr (enc, exit) \<Rightarrow>
                  Inr (snd (pgpWrite env (encSoFar enc [])
                    (v\<lparr>vCw := Some (enc, []), vCmd := Some \<lparr>cmdPath = c, cmdInEof = True, cmdExit = exit\<rparr>\<rparr>))))"

definition prepareVolume :: "volumeEnv \<Rightarrow> JobInfo \<Rightarrow> bool \<Rightarrow> bool \<Rightarrow> string + volume" where
  "prepareVolume env j pipe isManifest =
     (case CreateSimpleVolume env pipe of
        Inl e \<Rightarrow> Inl e
      | Inr v \<Rightarrow> (case startPgp env j v of Inl e \<Rightarrow> Inl e | Inr v \<Rightarrow> startCompressor env j isManifest v))"

definition CreateManifestVolume :: "volumeEnv \<Rightarrow> JobInfo \<Rightarrow> string + volume" where
  "CreateManifestVolume env j =
     (case prepareVolume env j False True of
        Inl e \<Rightarrow> Inl e
      | Inr v \<Rightarrow> Inr (v\<lparr>vInfo := (vInfo v)\<lparr>ObjectName := ManifestObjectName j, IsManifest := True\<rparr>\<rparr>))"

definition CreateBackupVolume :: "volumeEnv \<Rightarrow> JobInfo \<Rightarrow> int \<Rightarrow> string + volume" where
  "CreateBackupVolume env j volnum =
     (case prepareVolume env j (MaxFileBuffer j = 0) False of
        Inl e \<Rightarrow> Inl e
      | Inr v \<Rightarrow> Inr (v\<lparr>vInfo := (vInfo v)\<lparr>VolumeNumber := volnum, ObjectName := BackupVolumeObjectName j volnum\<rparr>\<rparr>))"

section \<open>Closing\<close>

definition keepFirst :: "string option \<Rightarrow> string option \<Rightarrow> string option" where
  "keepFirst err e = (case err of None \<Rightarrow> e | Some _ \<Rightarrow> err)"

text \<open>
  The layers in turn, each with the first error so far. A compressor and the OpenPGP writer write their
  last bytes when they are closed; an external one has written them when it was waited for.
\<close>

definition readerOwned :: "volume \<Rightarrow> bool" where
  "readerOwned v \<longleftrightarrow> vPw v \<and> vExtracted v"

definition closeCompressor :: "volumeEnv \<Rightarrow> volume \<Rightarrow> string option \<times> volume" where
  "closeCompressor env v =
     (case vCw v of
        None \<Rightarrow> (None, v)
      | Some (enc, got) \<Rightarrow>
          (case pgpWrite env (drop (length (encSoFar enc got)) (encWhole enc got)) (v\<lparr>vCw := None\<rparr>) of
             (err, v) \<Rightarrow> (keepFirst err (veCwErr env), v)))"

definition errText :: "read_error \<Rightarrow> string" where
  "errText e = (case e of Unreadable s \<Rightarrow> s | _ \<Rightarrow> [])"

definition closeDecompressor :: "volumeEnv \<Rightarrow> string option \<times> volume \<Rightarrow> string option \<times> volume" where
  "closeDecompressor env r =
     (case r of (err, v) \<Rightarrow>
        if readerOwned v then (err, v)
        else let err = (if vRw v then keepFirst err (veRwErr env) else err)
             in case vCmd v of
                  None \<Rightarrow> (err, v\<lparr>vRw := False\<rparr>)
                | Some cmd \<Rightarrow>
                    (keepFirst err (if vCmdWaited v then map_option errText (vCmdErr v) else cmdExit cmd),
                     v\<lparr>vRw := False, vCmd := None\<rparr>))"

definition closePgp :: "volumeEnv \<Rightarrow> string option \<times> volume \<Rightarrow> string option \<times> volume" where
  "closePgp env r =
     (case r of (err, v) \<Rightarrow>
        (case vPgpw v of
           None \<Rightarrow> (err, v)
         | Some (enc, got) \<Rightarrow>
             (case sinkWrite env (drop (length (encSoFar enc got)) (encWhole enc got)) (v\<lparr>vPgpw := None\<rparr>) of
                (e, v) \<Rightarrow> (keepFirst err (keepFirst e (vePgpErr env)), v))))"

definition closeBuffer :: "volumeEnv \<Rightarrow> string option \<times> volume \<Rightarrow> string option \<times> volume" where
  "closeBuffer env r =
     (case r of (err, v) \<Rightarrow>
        (case vBufw v of
           None \<Rightarrow> (err, v)
         | Some buf \<Rightarrow>
             if err = None \<or> \<not> vPw v
             then (case bufFlush env buf v of (e, v) \<Rightarrow> (keepFirst err e, v\<lparr>vBufw := None\<rparr>))
             else (err, v\<lparr>vBufw := None\<rparr>)))"

definition sizeMismatch :: string where "sizeMismatch = ''the volume file is not as long as what was written to it''"

definition closeFile :: "volumeEnv \<Rightarrow> string option \<times> volume \<Rightarrow> string option \<times> volume" where
  "closeFile env r =
     (case r of (err, v) \<Rightarrow>
        if \<not> vFw v then (err, v)
        else let err = keepFirst err (veFwErr env);
                 v = v\<lparr>vFw := False, vStored := (if vCounter v = None then vStored v else take (veKept env) (vStored v))\<rparr>
             in case vCounter v of
                  None \<Rightarrow> (err, v)
                | Some written \<Rightarrow>
                    if err \<noteq> None then (err, v)
                    else (case veStatErr env of
                            Some e \<Rightarrow> (Some e, v)
                          | None \<Rightarrow> (if of_nat (length (vStored v)) \<noteq> written then Some sizeMismatch else None, v)))"

definition closePipe :: "volumeEnv \<Rightarrow> string option \<times> volume \<Rightarrow> string option \<times> volume" where
  "closePipe env r =
     (case r of (err, v) \<Rightarrow>
        if vPw v
        then (case err of
                Some e \<Rightarrow> (err, v\<lparr>vPw := False, vPipeEnd := Some e\<rparr>)
              | None \<Rightarrow> (vePwErr env, v\<lparr>vPw := False, vIsOpened := True\<rparr>))
        else if vPr v then (keepFirst err (vePrErr env), v\<lparr>vPr := False\<rparr>)
        else (err, v))"

definition recordMetrics :: "volumeEnv \<Rightarrow> volume \<Rightarrow> volume" where
  "recordMetrics env v =
     (let v = (case vCounter v of None \<Rightarrow> v | Some n \<Rightarrow> v\<lparr>vInfo := (vInfo v)\<lparr>VolSize := n\<rparr>, vCounter := None\<rparr>);
          v = (case vHashed v of
                 None \<Rightarrow> v
               | Some h \<Rightarrow> v\<lparr>vInfo := (vInfo v)\<lparr>SHA256Sum := veSha256 env h, CRC32CSum32 := veCrc32c env h, MD5Sum := veMd5 env h\<rparr>,
                   vSHA1Sum := veSha1 env h, vHashed := None\<rparr>)
      in v\<lparr>vR := (if vPr v then vR v else None)\<rparr>)"

definition Volume_Close :: "volumeEnv \<Rightarrow> volume \<Rightarrow> string option \<times> volume" where
  "Volume_Close env v =
     (if vIsClosed v then (vCloseErr v, v)
      else case closePipe env (closeFile env (closeBuffer env (closePgp env (closeDecompressor env
                  (closeCompressor env (v\<lparr>vIsOpened := False\<rparr>)))))) of
             (Some e, v) \<Rightarrow> (Some e, v\<lparr>vIsClosed := True, vCloseErr := Some e, vCounter := None, vHashed := None, vR := None\<rparr>)
           | (None, v) \<Rightarrow> (None, recordMetrics env (v\<lparr>vIsClosed := \<not> vIsOpened v\<rparr>)))"

definition DeleteVolume :: "volumeEnv \<Rightarrow> volume \<Rightarrow> string option \<times> volume" where
  "DeleteVolume env v =
     (if vUsingPipe v then (None, v)
      else case veRemoveErr env of Some e \<Rightarrow> (Some e, v) | None \<Rightarrow> (None, v\<lparr>vOnDisk := False\<rparr>))"

section \<open>Copying a file into a volume\<close>

text \<open>\<^verbatim>\<open>io.Copy\<close>: the chunks of the source are written until one fails.\<close>

fun copyInto :: "volumeEnv \<Rightarrow> source \<Rightarrow> volume \<Rightarrow> string option \<times> volume" where
  "copyInto env ([], e) v = (e, v)"
| "copyInto env (c # cs, e) v =
     (case Volume_Write env c v of (Some err, v) \<Rightarrow> (Some err, v) | (None, v) \<Rightarrow> copyInto env (cs, e) v)"

definition LoadVolume :: "volumeEnv \<Rightarrow> string + source \<Rightarrow> string \<Rightarrow> bool \<Rightarrow> (string + volume) \<times> volume option" where
  "LoadVolume env opened objectName isManifest =
     (case opened of
        Inl e \<Rightarrow> (Inl e, None)
      | Inr src \<Rightarrow>
          (case CreateSimpleVolume env False of
             Inl e \<Rightarrow> (Inl e, None)
           | Inr v \<Rightarrow>
               (case copyInto env src v of
                  (Some e, v) \<Rightarrow> (Inl e, Some (snd (DeleteVolume env (snd (Volume_Close env v)))))
                | (None, v) \<Rightarrow>
                    (case Volume_Close env v of
                       (Some e, v) \<Rightarrow> (Inl e, Some (snd (DeleteVolume env v)))
                     | (None, v) \<Rightarrow>
                         let v = v\<lparr>vInfo := (vInfo v)\<lparr>ObjectName := objectName, IsManifest := isManifest\<rparr>\<rparr>
                         in (Inr v, Some v)))))"

section \<open>Reading\<close>

text \<open>
  The other direction: the error of opening the file, the keys (the message in the bytes, or why there
  is none), gzip and the external programs. A decompressor gives what can be read from it and whether
  it reads its own input to the end by then.
\<close>

datatype pgp_error = NeedsPassphrase | KeyIncorrect | NoMessage string

record extractEnv =
  xeOpenErr :: "read_error option"
  xeReadMessage :: "source \<Rightarrow> pgp_error + pgpMessage"
  xeGunzip :: "source \<Rightarrow> string + source \<times> bool"
  xeCommand :: "string \<Rightarrow> source \<Rightarrow> string + source \<times> command"

definition knownDecompressors :: "string list" where
  "knownDecompressors = [''gzip'', ''pigz'', ''bzip2'', ''pbzip2'', ''lbzip2'', ''xz'', ''pxz'', ''lzma'', ''zstd'', ''pzstd'', ''lz4'', ''lzop'']"

definition CheckDecompressor :: "string \<Rightarrow> string \<Rightarrow> read_error option" where
  "CheckDecompressor compressor trusted =
     (if compressor = [] \<or> compressor = InternalCompressor \<or> compressor = ZfsCompressor
         \<or> compressor \<in> set knownDecompressors \<or> compressor = trusted
      then None else Some (Unreadable compressor))"

text \<open>The first byte of an OpenPGP packet, in the old and the new format.\<close>

definition checkNotPGP :: "source \<Rightarrow> read_error option" where
  "checkNotPGP src =
     (case concat (fst src) of
        [] \<Rightarrow> None
      | c # _ \<Rightarrow>
          (let b = (of_char c :: 8 word)
           in if b AND 0x80 = 0 then None
              else let tag = (if b AND 0x40 \<noteq> 0 then b AND 0x3f else drop_bit 2 (b AND 0x3c))
                   in if tag = 1 \<or> tag = 3 then Some (KeyError True)
                      else if tag = 2 \<or> tag = 4 then Some (KeyError False)
                      else None))"

definition fileSource :: "string \<Rightarrow> string option \<Rightarrow> source" where
  "fileSource s e = (if s = [] then [] else [s], e)"

text \<open>\<^verbatim>\<open>OpenVolume\<close>, for an upload; the rate limit only delays the reads.\<close>

definition OpenVolume :: "string option \<Rightarrow> volume \<Rightarrow> string option \<times> volume" where
  "OpenVolume openErr v =
     (if vIsOpened v then (None, v)
      else case openErr of
             Some e \<Rightarrow> (Some e, v)
           | None \<Rightarrow> (None, v\<lparr>vFw := True, vR := Some (fileSource (vStored v) None), vIsClosed := False, vIsOpened := True\<rparr>))"

text \<open>\<^verbatim>\<open>Extract\<close>: first the file or the pipe, then the message, then the decompressor.\<close>

definition openForExtract :: "extractEnv \<Rightarrow> volume \<Rightarrow> read_error option \<times> volume" where
  "openForExtract env v =
     (if vUsingPipe v then (None, v\<lparr>vExtracted := True, vR := Some (fileSource (vStored v) (vPipeEnd v))\<rparr>)
      else case xeOpenErr env of
             Some e \<Rightarrow> (Some e, v)
           | None \<Rightarrow> (None, v\<lparr>vFw := True, vR := Some (fileSource (vStored v) None), vIsClosed := False, vIsOpened := True\<rparr>))"

definition extractMessage :: "extractEnv \<Rightarrow> JobInfo \<Rightarrow> bool \<Rightarrow> source \<Rightarrow> volume \<Rightarrow> read_error option \<times> volume" where
  "extractMessage env j isManifest src v =
     (if EncryptKey j \<noteq> None \<or> SignKey j \<noteq> None
      then (case xeReadMessage env src of
              Inl NeedsPassphrase \<Rightarrow> (Some (KeyError True), v)
            | Inl KeyIncorrect \<Rightarrow> (Some (KeyError True), v)
            | Inl (NoMessage e) \<Rightarrow> (Some (Unreadable e), v)
            | Inr md \<Rightarrow>
                if SignKey j \<noteq> None \<and> \<not> mdIsSigned md then (Some (KeyError False), v)
                else if EncryptKey j \<noteq> None \<and> \<not> mdIsEncrypted md then (Some (KeyError False), v)
                else (None, v\<lparr>vPgpr := Some md, vSigners := (case SignKey j of None \<Rightarrow> vSigners v | Some k \<Rightarrow> k # TrustedSignKeys j),
                              vR := Some (mdBody md), vWhole := True\<rparr>))
      else if isManifest then (checkNotPGP src, v)
      else (None, v))"

definition extractDecompressor :: "extractEnv \<Rightarrow> JobInfo \<Rightarrow> bool \<Rightarrow> source \<Rightarrow> volume \<Rightarrow> read_error option \<times> volume" where
  "extractDecompressor env j isManifest src v =
     (let c = volumeCompressor j isManifest
      in if c = InternalCompressor
         then (case xeGunzip env src of
                 Inl e \<Rightarrow> (Some (Unreadable e), v)
               | Inr (out, whole) \<Rightarrow> (None, v\<lparr>vRw := True, vR := Some out, vWhole := whole\<rparr>))
         else if c = [] \<or> c = ZfsCompressor then (None, v)
         else case CheckDecompressor c (TrustedCompressor j) of
                Some e \<Rightarrow> (Some e, v)
              | None \<Rightarrow>
                  (case xeCommand env c src of
                     Inl e \<Rightarrow> (Some (Unreadable e), v)
                   | Inr (out, cmd) \<Rightarrow> (None, v\<lparr>vRw := True, vCmd := Some (cmd\<lparr>cmdPath := c\<rparr>), vR := Some out, vWhole := False\<rparr>)))"

definition Extract :: "extractEnv \<Rightarrow> JobInfo \<Rightarrow> bool \<Rightarrow> volume \<Rightarrow> read_error option \<times> volume" where
  "Extract env j isManifest v =
     (case openForExtract env v of
        (Some e, v) \<Rightarrow> (Some e, v)
      | (None, v) \<Rightarrow>
          (case extractMessage env j isManifest (the (vR v)) v of
             (Some e, v) \<Rightarrow> (Some e, v)
           | (None, v) \<Rightarrow> extractDecompressor env j isManifest (the (vR v)) v))"

definition ExtractLocal :: "extractEnv \<Rightarrow> JobInfo \<Rightarrow> string \<Rightarrow> string \<Rightarrow> bool \<Rightarrow> read_error option \<times> volume" where
  "ExtractLocal env j path contents isManifest =
     Extract env j isManifest (zeroVolume\<lparr>vFilename := path, vOnDisk := True, vStored := contents\<rparr>)"

definition WillExtract :: "volume \<Rightarrow> volume" where
  "WillExtract v = v\<lparr>vExtracted := True\<rparr>"

text \<open>The signature, as it stands when the message was or was not read to its end.\<close>

definition signatureError :: "volume \<Rightarrow> read_error option" where
  "signatureError v =
     (case vPgpr v of
        None \<Rightarrow> None
      | Some md \<Rightarrow>
          if \<not> mdIsSigned md then None
          else case (if vWhole v then mdSignatureError md else None) of
                 Some e \<Rightarrow> Some (Unreadable e)
               | None \<Rightarrow>
                   (case mdSignedBy md of
                      None \<Rightarrow> Some (KeyError False)
                    | Some got \<Rightarrow>
                        if vSigners v = [] then None
                        else if list_ex (\<lambda>signer. signer = got) (vSigners v) then None
                        else Some (KeyError False)))"

definition stoppedEarly :: string where "stoppedEarly = ''exited before reading all of the volume''"

definition waitDecompressor :: "command \<Rightarrow> volume \<Rightarrow> read_error option \<times> volume" where
  "waitDecompressor cmd v =
     (if vCmdWaited v then (vCmdErr v, v)
      else let err = (case cmdExit cmd of
                        Some e \<Rightarrow> Some (Unreadable e)
                      | None \<Rightarrow> if \<not> cmdInEof cmd then Some (Unreadable stoppedEarly) else None)
           in (err, v\<lparr>vCmdWaited := True, vCmdErr := err, vWhole := cmdInEof cmd\<rparr>))"

datatype read_status = More | AtEOF | Failed read_error

definition Volume_Read :: "volume \<Rightarrow> (string \<times> read_status) \<times> volume" where
  "Volume_Read v =
     (case vR v of
        None \<Rightarrow> (([], Failed (Unreadable ''nothing to read from'')), v)
      | Some (c # cs, e) \<Rightarrow> ((c, More), v\<lparr>vR := Some (cs, e)\<rparr>)
      | Some ([], Some e) \<Rightarrow> (([], Failed (Unreadable e)), v)
      | Some ([], None) \<Rightarrow>
          (if vPgpr v = None then (([], AtEOF), v)
           else case (case vCmd v of None \<Rightarrow> (None, v) | Some cmd \<Rightarrow> waitDecompressor cmd v) of
                  (Some e, v) \<Rightarrow> (([], Failed e), v)
                | (None, v) \<Rightarrow> (([], case signatureError v of None \<Rightarrow> AtEOF | Some e \<Rightarrow> Failed e), v)))"

definition VerifyEnd :: "volume \<Rightarrow> read_error option \<times> volume" where
  "VerifyEnd v =
     (if vPgpr v = None then (None, v)
      else case vR v of
             Some (cs, Some e) \<Rightarrow> (Some (Unreadable e), v\<lparr>vR := Some ([], Some e)\<rparr>)
           | Some (cs, None) \<Rightarrow> (let v = v\<lparr>vR := Some ([], None)\<rparr> in (signatureError v, v))
           | None \<Rightarrow> (Some (Unreadable nilWriter), v))"

text \<open>Reading a volume to its end, as \<^verbatim>\<open>io.Copy\<close> and \<^verbatim>\<open>readAtMost\<close> do.\<close>

definition chunksLeft :: "volume \<Rightarrow> nat" where
  "chunksLeft v = (case vR v of None \<Rightarrow> 0 | Some (cs, e) \<Rightarrow> length cs)"

lemma Volume_Read_More: "Volume_Read v = ((c, More), v') \<Longrightarrow> chunksLeft v' < chunksLeft v"
  by (auto simp: Volume_Read_def chunksLeft_def split: option.splits list.splits prod.splits if_splits)

function readVolume :: "volume \<Rightarrow> (string \<times> read_error option) \<times> volume" where
  "readVolume v =
     (case Volume_Read v of
        ((c, More), v) \<Rightarrow> (case readVolume v of ((d, e), v) \<Rightarrow> ((c @ d, e), v))
      | ((c, AtEOF), v) \<Rightarrow> ((c, None), v)
      | ((c, Failed e), v) \<Rightarrow> ((c, Some e), v))"
  by pat_completeness auto

termination readVolume
  by (relation "measure chunksLeft") (auto simp: Volume_Read_More [OF sym])

declare readVolume.simps [simp del]

section \<open>Every byte reaches the file and the checksums\<close>

definition lawfulEncoder :: "encoder \<Rightarrow> bool" where
  "lawfulEncoder enc \<longleftrightarrow> (\<forall>s p. hasPrefix (encSoFar enc (s @ p)) (encSoFar enc s)) \<and> (\<forall>s. hasPrefix (encWhole enc s) (encSoFar enc s))"

lemma lawful_step: "lawfulEncoder enc \<Longrightarrow> encSoFar enc s @ drop (length (encSoFar enc s)) (encSoFar enc (s @ p)) = encSoFar enc (s @ p)"
  by (auto simp: lawfulEncoder_def hasPrefix_iff) (metis append_eq_conv_conj)

lemma lawful_end: "lawfulEncoder enc \<Longrightarrow> encSoFar enc s @ drop (length (encSoFar enc s)) (encWhole enc s) = encWhole enc s"
  by (auto simp: lawfulEncoder_def hasPrefix_iff) (metis append_eq_conv_conj)

text \<open>
  As long as no write of the file failed, the bytes below the counter are the ones in the file and the
  buffer, the ones the checksums saw, and the ones the counter counted.
\<close>

definition sinkHolds :: "volume \<Rightarrow> string \<Rightarrow> bool" where
  "sinkHolds v s \<longleftrightarrow> (\<exists>buf. vBufw v = Some buf \<and> length buf \<le> BufferSize \<and> vStored v @ buf = s) \<and> vHashed v = Some s \<and> vCounter v = Some (of_nat (length s))"

text \<open>What a write to the sink does not touch.\<close>

definition frame :: "volume \<Rightarrow> volume" where
  "frame v = v\<lparr>vStored := [], vBufw := None, vBufErr := None, vCounter := None, vHashed := None\<rparr>"

lemma frame_update [simp]:
  "frame (v\<lparr>vStored := x\<rparr>) = frame v" "frame (v\<lparr>vBufw := b\<rparr>) = frame v" "frame (v\<lparr>vBufErr := e\<rparr>) = frame v"
  "frame (v\<lparr>vCounter := c\<rparr>) = frame v" "frame (v\<lparr>vHashed := h\<rparr>) = frame v"
  by (simp_all add: frame_def)

lemma frame_update_above [simp]:
  "frame (v\<lparr>vPgpw := g\<rparr>) = (frame v)\<lparr>vPgpw := g\<rparr>" "frame (v\<lparr>vCw := g\<rparr>) = (frame v)\<lparr>vCw := g\<rparr>"
  by (simp_all add: frame_def)

lemma frame_fields:
  assumes "frame v' = frame v"
  shows "vPgpw v' = vPgpw v" "vCw v' = vCw v" "vCmd v' = vCmd v" "vRw v' = vRw v" "vFw v' = vFw v" "vPw v' = vPw v" "vPr v' = vPr v"
    "vIsClosed v' = vIsClosed v" "vExtracted v' = vExtracted v" "vInfo v' = vInfo v" "vUsingPipe v' = vUsingPipe v" "vCmdWaited v' = vCmdWaited v"
    "vCmdErr v' = vCmdErr v" "vPipeEnd v' = vPipeEnd v" "vFilename v' = vFilename v" "vIsOpened v' = vIsOpened v"
  using assms by (cases v; cases v'; simp add: frame_def)+

definition bufOk :: "volume \<Rightarrow> bool" where
  "bufOk v \<longleftrightarrow> (\<exists>buf. vBufw v = Some buf \<and> length buf \<le> BufferSize)"

lemma rawWrite_spec:
  "rawWrite env p v = ((n, err), v') \<Longrightarrow> n \<le> length p \<and> v' = v\<lparr>vStored := vStored v @ take n p\<rparr> \<and> (err = None \<longleftrightarrow> n = length p)"
  by (auto simp: rawWrite_def Let_def split: if_splits)

lemma bufWhenEmpty_spec:
  assumes "bufWhenEmpty env p v = ((n, err), v')" "vBufErr v = None"
  shows "vBufErr v' = err \<and> vCounter v' = vCounter v \<and> vHashed v' = vHashed v \<and> frame v' = frame v \<and> bufOk v'
    \<and> (err = None \<longrightarrow> n = length p \<and> (\<exists>buf. vBufw v' = Some buf \<and> length buf \<le> BufferSize \<and> vStored v' @ buf = vStored v @ p))"
  using assms by (auto simp: bufWhenEmpty_def bufOk_def split: if_splits prod.splits dest!: rawWrite_spec)

lemma bufFlush_spec:
  assumes "bufFlush env buf v = (err, v')" "vBufErr v = None" "vBufw v = Some buf" "length buf \<le> BufferSize"
  shows "vBufErr v' = err \<and> vCounter v' = vCounter v \<and> vHashed v' = vHashed v \<and> frame v' = frame v \<and> bufOk v'
    \<and> (err = None \<longrightarrow> vBufw v' = Some [] \<and> vStored v' = vStored v @ buf)"
  using assms by (auto simp: bufFlush_def bufOk_def split: if_splits prod.splits dest!: rawWrite_spec)

lemma bufWrite_spec:
  assumes run: "bufWrite env p buf v = ((n, err), v')" and v: "vBufw v = Some buf" "length buf \<le> BufferSize"
  shows "vBufErr v' = err \<and> vCounter v' = vCounter v \<and> vHashed v' = vHashed v \<and> frame v' = frame v \<and> bufOk v'
    \<and> (err = None \<longrightarrow> vBufErr v = None \<and> n = length p
        \<and> (\<exists>b. vBufw v' = Some b \<and> length b \<le> BufferSize \<and> vStored v' @ b = vStored v @ buf @ p))"
proof (cases "vBufErr v")
  case (Some e)
  then show ?thesis using run v by (auto simp: bufWrite_def bufOk_def Let_def)
next
  case None
  let ?free = "BufferSize - length buf" and ?w = "v\<lparr>vBufw := Some (buf @ take (BufferSize - length buf) p)\<rparr>"
  consider "length p \<le> ?free" | "length p > ?free" "buf = []" | "length p > ?free" "buf \<noteq> []" by linarith
  then show ?thesis
  proof cases
    case 1
    then show ?thesis using run v None by (auto simp: bufWrite_def bufOk_def Let_def)
  next
    case 2
    then have "bufWhenEmpty env p v = ((n, err), v')" using run None by (simp add: bufWrite_def Let_def)
    from bufWhenEmpty_spec [OF this None] show ?thesis using 2 None by auto
  next
    case 3
    obtain e1 v1 where fl: "bufFlush env (buf @ take ?free p) ?w = (e1, v1)" by fastforce
    have f: "vBufErr v1 = e1 \<and> vCounter v1 = vCounter v \<and> vHashed v1 = vHashed v \<and> frame v1 = frame v \<and> bufOk v1
      \<and> (e1 = None \<longrightarrow> vBufw v1 = Some [] \<and> vStored v1 = vStored v @ buf @ take ?free p)"
      using bufFlush_spec [OF fl] None v(2) by simp
    show ?thesis
    proof (cases e1)
      case (Some e)
      then have "v' = v1" "err = Some e" using run None 3 fl by (simp_all add: bufWrite_def Let_def)
      then show ?thesis using f Some by simp
    next
      case e1: None
      obtain m e2 v2 where w: "bufWhenEmpty env (drop ?free p) v1 = ((m, e2), v2)" by (metis surj_pair)
      then have r: "v' = v2" "err = e2" "n = ?free + m" using run None 3 fl e1 by (simp_all add: bufWrite_def Let_def)
      note spec = bufWhenEmpty_spec [OF w]
      show ?thesis using spec f e1 r 3 None by auto
    qed
  qed
qed

lemma sinkWrite_spec:
  assumes "sinkWrite env p v = (err, v')" "sinkHolds v s \<or> vBufErr v \<noteq> None" "bufOk v"
  shows "frame v' = frame v \<and> (vBufErr v' = err) \<and> bufOk v' \<and> (err = None \<longrightarrow> vBufErr v = None \<and> sinkHolds v' (s @ p))"
proof -
  obtain buf where buf: "vBufw v = Some buf" "length buf \<le> BufferSize" using assms(3) by (auto simp: bufOk_def)
  obtain n e w where b: "bufWrite env p buf v = ((n, e), w)" by (metis surj_pair)
  note spec = bufWrite_spec [OF b buf]
  then show ?thesis using assms buf b by (auto simp: sinkWrite_def sinkHolds_def bufOk_def Let_def)
qed

text \<open>The same of the OpenPGP writer and of the compressor above it.\<close>

definition pgpHolds :: "volume \<Rightarrow> string \<Rightarrow> bool" where
  "pgpHolds v s \<longleftrightarrow> bufOk v \<and> (vBufErr v = None \<longrightarrow>
     (case vPgpw v of None \<Rightarrow> sinkHolds v s | Some (enc, got) \<Rightarrow> got = s \<and> lawfulEncoder enc \<and> sinkHolds v (encSoFar enc s)))"

definition volumeHolds :: "volume \<Rightarrow> string \<Rightarrow> bool" where
  "volumeHolds v s \<longleftrightarrow> bufOk v \<and> (vBufErr v = None \<longrightarrow>
     (case vCw v of None \<Rightarrow> pgpHolds v s | Some (enc, got) \<Rightarrow> got = s \<and> lawfulEncoder enc \<and> pgpHolds v (encSoFar enc s)))"

definition aboveSink :: "volume \<Rightarrow> volume" where
  "aboveSink v = (frame v)\<lparr>vPgpw := None, vCw := None\<rparr>"

lemma holds_update [simp]:
  "bufOk (v\<lparr>vPgpw := g\<rparr>) = bufOk v" "sinkHolds (v\<lparr>vPgpw := g\<rparr>) s = sinkHolds v s"
  "bufOk (v\<lparr>vCw := g\<rparr>) = bufOk v" "sinkHolds (v\<lparr>vCw := g\<rparr>) s = sinkHolds v s"
  "bufOk (v\<lparr>vCmd := c\<rparr>) = bufOk v" "sinkHolds (v\<lparr>vCmd := c\<rparr>) s = sinkHolds v s"
  "bufOk (v\<lparr>vInfo := i\<rparr>) = bufOk v" "sinkHolds (v\<lparr>vInfo := i\<rparr>) s = sinkHolds v s"
  "bufOk (v\<lparr>vIsOpened := b\<rparr>) = bufOk v" "sinkHolds (v\<lparr>vIsOpened := b\<rparr>) s = sinkHolds v s"
  "bufOk (v\<lparr>vRw := b\<rparr>) = bufOk v" "sinkHolds (v\<lparr>vRw := b\<rparr>) s = sinkHolds v s"
  by (simp_all add: bufOk_def sinkHolds_def)

lemma pgpHolds_update [simp]:
  "pgpHolds (v\<lparr>vCw := g\<rparr>) s = pgpHolds v s"
  "pgpHolds (v\<lparr>vCmd := c\<rparr>) s = pgpHolds v s"
  "pgpHolds (v\<lparr>vInfo := i\<rparr>) s = pgpHolds v s"
  "pgpHolds (v\<lparr>vIsOpened := b\<rparr>) s = pgpHolds v s"
  "pgpHolds (v\<lparr>vRw := b\<rparr>) s = pgpHolds v s"
  by (simp_all add: pgpHolds_def split: option.split)

lemma pgpWrite_spec:
  assumes run: "pgpWrite env p v = (err, v')" and holds: "pgpHolds v s"
  shows "aboveSink v' = aboveSink v \<and> vCw v' = vCw v \<and> map_option fst (vPgpw v') = map_option fst (vPgpw v)
    \<and> vBufErr v' = err \<and> pgpHolds v' (s @ p) \<and> (err = None \<longrightarrow> vBufErr v = None)"
proof (cases "vPgpw v")
  case None
  then have "sinkWrite env p v = (err, v')" using run by (simp add: pgpWrite_def)
  moreover have "sinkHolds v s \<or> vBufErr v \<noteq> None" "bufOk v" using holds None by (auto simp: pgpHolds_def)
  ultimately have "frame v' = frame v \<and> (vBufErr v' = err) \<and> bufOk v' \<and> (err = None \<longrightarrow> vBufErr v = None \<and> sinkHolds v' (s @ p))"
    by (rule sinkWrite_spec)
  then show ?thesis using None frame_fields(1,2) [of v' v] by (auto simp: pgpHolds_def aboveSink_def)
next
  case (Some g)
  obtain enc got where g: "g = (enc, got)" by fastforce
  let ?out = "drop (length (encSoFar enc got)) (encSoFar enc (got @ p))"
  have "sinkWrite env ?out (v\<lparr>vPgpw := Some (enc, got @ p)\<rparr>) = (err, v')" using run Some g by (simp add: pgpWrite_def)
  moreover have "sinkHolds (v\<lparr>vPgpw := Some (enc, got @ p)\<rparr>) (encSoFar enc got) \<or> vBufErr (v\<lparr>vPgpw := Some (enc, got @ p)\<rparr>) \<noteq> None"
    "bufOk (v\<lparr>vPgpw := Some (enc, got @ p)\<rparr>)" using holds Some g by (auto simp: pgpHolds_def)
  ultimately have w: "frame v' = frame (v\<lparr>vPgpw := Some (enc, got @ p)\<rparr>) \<and> (vBufErr v' = err) \<and> bufOk v'
      \<and> (err = None \<longrightarrow> vBufErr v = None \<and> sinkHolds v' (encSoFar enc got @ ?out))"
    using sinkWrite_spec by fastforce
  then have "vPgpw v' = Some (enc, got @ p)" "vCw v' = vCw v" using frame_fields(1,2) [of v' "v\<lparr>vPgpw := Some (enc, got @ p)\<rparr>"] by auto
  then show ?thesis using w holds Some g by (auto simp: pgpHolds_def aboveSink_def lawful_step)
qed

lemma Volume_Write_spec:
  assumes run: "Volume_Write env p v = (err, v')" and holds: "volumeHolds v s"
  shows "aboveSink v' = aboveSink v \<and> map_option fst (vCw v') = map_option fst (vCw v) \<and> map_option fst (vPgpw v') = map_option fst (vPgpw v)
    \<and> vBufErr v' = err \<and> volumeHolds v' (s @ p)"
proof (cases "vCw v")
  case None
  show ?thesis
  proof (cases "vBufErr v = None")
    case True
    then show ?thesis using pgpWrite_spec [of env p v err v' s] run holds None by (auto simp: Volume_Write_def volumeHolds_def pgpHolds_def)
  next
    case False
    then have "pgpHolds v s" using holds by (auto simp: volumeHolds_def pgpHolds_def)
    then show ?thesis using pgpWrite_spec [of env p v err v' s] run False None by (auto simp: Volume_Write_def volumeHolds_def pgpHolds_def)
  qed
next
  case (Some g)
  obtain enc got where g: "g = (enc, got)" by fastforce
  let ?out = "drop (length (encSoFar enc got)) (encSoFar enc (got @ p))" and ?v = "v\<lparr>vCw := Some (enc, got @ p)\<rparr>"
  have w: "pgpWrite env ?out ?v = (err, v')" using run Some g by (simp add: Volume_Write_def)
  have "pgpHolds ?v (encSoFar enc got)" using holds Some g by (auto simp: volumeHolds_def) (auto simp: pgpHolds_def)
  from pgpWrite_spec [OF w this] show ?thesis using holds Some g
    by (auto simp: volumeHolds_def aboveSink_def lawful_step) (auto simp: pgpHolds_def)
qed

section \<open>A closed volume is complete\<close>

text \<open>The encoders of a volume, and what a volume with these bytes should hold.\<close>

definition packCompressor :: "volumeEnv \<Rightarrow> JobInfo \<Rightarrow> bool \<Rightarrow> encoder option" where
  "packCompressor env j isManifest =
     (let c = volumeCompressor j isManifest
      in if c = InternalCompressor then Some (veGzip env (CompressionLevel j))
         else if c = [] \<or> c = ZfsCompressor then None
         else case veCommand env c (CompressionLevel j) of Inl e \<Rightarrow> None | Inr (enc, exit) \<Rightarrow> Some enc)"

definition packPgp :: "volumeEnv \<Rightarrow> JobInfo \<Rightarrow> encoder option" where
  "packPgp env j =
     (if EncryptKey j = None \<and> SignKey j = None then None
      else case vePgpWriter env (EncryptKey j) (SignKey j) of Inl e \<Rightarrow> None | Inr enc \<Rightarrow> Some enc)"

definition wholeOf :: "encoder option \<Rightarrow> string \<Rightarrow> string" where
  "wholeOf enc s = (case enc of None \<Rightarrow> s | Some enc \<Rightarrow> encWhole enc s)"

definition pack :: "volumeEnv \<Rightarrow> JobInfo \<Rightarrow> bool \<Rightarrow> string \<Rightarrow> string" where
  "pack env j isManifest s = wholeOf (packPgp env j) (wholeOf (packCompressor env j isManifest) s)"

text \<open>What every writer promises: bytes that were written below stay written.\<close>

definition lawfulEnv :: "volumeEnv \<Rightarrow> bool" where
  "lawfulEnv env \<longleftrightarrow> (\<forall>level. lawfulEncoder (veGzip env level))
     \<and> (\<forall>c level. case veCommand env c level of Inl e \<Rightarrow> True | Inr (enc, exit) \<Rightarrow> lawfulEncoder enc)
     \<and> (\<forall>encrypt signer. case vePgpWriter env encrypt signer of Inl e \<Rightarrow> True | Inr enc \<Rightarrow> lawfulEncoder enc)"

lemma lawfulEnv_encoders:
  assumes "lawfulEnv env"
  shows "packCompressor env j m = Some enc \<Longrightarrow> lawfulEncoder enc" "packPgp env j = Some enc \<Longrightarrow> lawfulEncoder enc"
proof -
  show "lawfulEncoder enc" if enc: "packCompressor env j m = Some enc"
  proof (cases "volumeCompressor j m = InternalCompressor")
    case True
    then show ?thesis using assms enc by (auto simp: lawfulEnv_def packCompressor_def)
  next
    case False
    then obtain exit where "veCommand env (volumeCompressor j m) (CompressionLevel j) = Inr (enc, exit)"
      using enc by (auto simp: packCompressor_def Let_def split: if_splits sum.splits)
    moreover have "case veCommand env (volumeCompressor j m) (CompressionLevel j) of Inl e \<Rightarrow> True | Inr (enc, exit) \<Rightarrow> lawfulEncoder enc"
      using assms unfolding lawfulEnv_def by blast
    ultimately show ?thesis by simp
  qed
  show "lawfulEncoder enc" if "packPgp env j = Some enc"
    using assms that unfolding lawfulEnv_def packPgp_def by (auto split: if_splits sum.splits)
qed

lemma aboveSink_cmd: "aboveSink (v\<lparr>vCmd := c\<rparr>) = (aboveSink v)\<lparr>vCmd := c\<rparr>"
  by (cases v) (simp add: aboveSink_def frame_def)

lemma aboveSink_fields:
  assumes "aboveSink v' = aboveSink v"
  shows "vFw v' = vFw v" "vPw v' = vPw v" "vPr v' = vPr v" "vIsClosed v' = vIsClosed v" "vInfo v' = vInfo v" "vCmd v' = vCmd v" "vUsingPipe v' = vUsingPipe v"
    "vPipeEnd v' = vPipeEnd v" "vOnDisk v' = vOnDisk v" "vExtracted v' = vExtracted v" "vIsOpened v' = vIsOpened v" "vPgpr v' = vPgpr v"
  using assms by (cases v; cases v'; simp add: aboveSink_def frame_def)+

lemma keepFirst_None [simp]: "keepFirst a b = None \<longleftrightarrow> a = None \<and> b = None"
  by (simp add: keepFirst_def split: option.splits)

lemma startPgp_holds:
  assumes run: "startPgp env j v = Inr v'" and v: "sinkHolds v []" "vBufErr v = None" "bufOk v" "vPgpw v = None" "vCw v = None" and "lawfulEnv env"
  shows "pgpHolds v' [] \<and> map_option fst (vPgpw v') = packPgp env j \<and> vCw v' = None \<and> vBufErr v' = None \<and> aboveSink v' = aboveSink v"
proof (cases "EncryptKey j = None \<and> SignKey j = None")
  case True
  then show ?thesis using assms by (simp add: startPgp_def pgpHolds_def packPgp_def)
next
  case False
  then obtain enc where enc: "vePgpWriter env (EncryptKey j) (SignKey j) = Inr enc" and w: "sinkWrite env (encSoFar enc []) (v\<lparr>vPgpw := Some (enc, [])\<rparr>) = (None, v')"
    using run by (auto simp: startPgp_def split: sum.splits prod.splits option.splits)
  have pack: "packPgp env j = Some enc" using enc False by (auto simp: packPgp_def)
  have "lawfulEncoder enc" by (rule lawfulEnv_encoders(2) [OF assms(7) pack])
  have s: "frame v' = frame (v\<lparr>vPgpw := Some (enc, [])\<rparr>) \<and> vBufErr v' = None \<and> bufOk v' \<and> sinkHolds v' (encSoFar enc [])"
    using sinkWrite_spec [OF w, of "[]"] v by simp
  then have "vPgpw v' = Some (enc, [])" "vCw v' = vCw v" using frame_fields(1,2) [of v' "v\<lparr>vPgpw := Some (enc, [])\<rparr>"] by auto
  then show ?thesis using s v pack \<open>lawfulEncoder enc\<close> by (simp add: pgpHolds_def aboveSink_def)
qed

lemma startEncoder_holds:
  assumes "pgpHolds v []" "vCw v = Some (enc, [])" "lawfulEncoder enc"
  shows "volumeHolds (snd (pgpWrite env (encSoFar enc []) v)) [] \<and> vCw (snd (pgpWrite env (encSoFar enc []) v)) = Some (enc, [])
    \<and> map_option fst (vPgpw (snd (pgpWrite env (encSoFar enc []) v))) = map_option fst (vPgpw v) \<and> aboveSink (snd (pgpWrite env (encSoFar enc []) v)) = aboveSink v"
proof -
  obtain err v' where w: "pgpWrite env (encSoFar enc []) v = (err, v')" by fastforce
  then show ?thesis using pgpWrite_spec [OF w assms(1)] assms(2,3) by (auto simp: volumeHolds_def) (auto simp: pgpHolds_def)
qed

lemma startCompressor_holds:
  assumes run: "startCompressor env j m v = Inr v'" and v: "pgpHolds v []" "vCw v = None" and "lawfulEnv env"
  shows "volumeHolds v' [] \<and> map_option fst (vCw v') = packCompressor env j m \<and> map_option fst (vPgpw v') = map_option fst (vPgpw v)
    \<and> (aboveSink v')\<lparr>vCmd := None\<rparr> = (aboveSink v)\<lparr>vCmd := None\<rparr>"
proof (cases "packCompressor env j m")
  case None
  then have "v' = v" using run by (auto simp: startCompressor_def packCompressor_def Let_def split: if_splits sum.splits)
  then show ?thesis using v None by (auto simp: volumeHolds_def pgpHolds_def)
next
  case (Some enc)
  have lawful: "lawfulEncoder enc" by (rule lawfulEnv_encoders(1) [OF assms(4) Some])
  have upd: "(aboveSink (v\<lparr>vCw := a, vCmd := c\<rparr>))\<lparr>vCmd := None\<rparr> = (aboveSink v)\<lparr>vCmd := None\<rparr>" for a c by (simp add: aboveSink_def frame_def)
  have upd': "(aboveSink (v\<lparr>vCw := a\<rparr>))\<lparr>vCmd := None\<rparr> = (aboveSink v)\<lparr>vCmd := None\<rparr>" for a by (simp add: aboveSink_def frame_def)
  obtain c where "v' = snd (pgpWrite env (encSoFar enc []) (v\<lparr>vCw := Some (enc, [])\<rparr>)) \<or> v' = snd (pgpWrite env (encSoFar enc []) (v\<lparr>vCw := Some (enc, []), vCmd := c\<rparr>))"
    using run Some by (auto simp: startCompressor_def packCompressor_def Let_def split: if_splits sum.splits)
  then show ?thesis
    using startEncoder_holds [of "v\<lparr>vCw := Some (enc, [])\<rparr>" enc env] startEncoder_holds [of "v\<lparr>vCw := Some (enc, []), vCmd := c\<rparr>" enc env] v lawful Some upd upd'
    by auto
qed

lemma prepareVolume_holds:
  assumes run: "prepareVolume env j pipe m = Inr v" and "lawfulEnv env"
  shows "volumeHolds v [] \<and> map_option fst (vCw v) = packCompressor env j m \<and> map_option fst (vPgpw v) = packPgp env j
    \<and> vFw v = (\<not> pipe) \<and> vPw v = pipe \<and> vPr v = pipe \<and> vUsingPipe v = pipe \<and> \<not> vIsClosed v \<and> vPipeEnd v = None
    \<and> vInfo v = vInfo zeroVolume"
proof -
  obtain v0 v1 where s: "CreateSimpleVolume env pipe = Inr v0" "startPgp env j v0 = Inr v1" "startCompressor env j m v1 = Inr v"
    using run by (auto simp: prepareVolume_def split: sum.splits)
  have v0: "sinkHolds v0 []" "vBufErr v0 = None" "bufOk v0" "vPgpw v0 = None" "vCw v0 = None"
    "vFw v0 = (\<not> pipe) \<and> vPw v0 = pipe \<and> vPr v0 = pipe \<and> vUsingPipe v0 = pipe \<and> \<not> vIsClosed v0 \<and> vPipeEnd v0 = None
      \<and> vInfo v0 = vInfo zeroVolume"
    using s(1) by (auto simp: CreateSimpleVolume_def zeroVolume_def sinkHolds_def bufOk_def Let_def split: if_splits sum.splits)
  note p = startPgp_holds [OF s(2) v0(1-5) assms(2)]
  note c = startCompressor_holds [OF s(3) _ _ assms(2)]
  have "aboveSink (v\<lparr>vCmd := None\<rparr>) = aboveSink (v0\<lparr>vCmd := None\<rparr>)" using p c by (simp add: aboveSink_cmd)
  from aboveSink_fields [OF this] show ?thesis using p c v0(6) by simp
qed

text \<open>Closing, layer by layer, when nothing fails.\<close>

lemma closeCompressor_ok:
  assumes run: "closeCompressor env v = (None, v')" and holds: "volumeHolds v s"
  shows "vBufErr v' = None \<longrightarrow> pgpHolds v' (wholeOf (map_option fst (vCw v)) s)" "vCw v' = None"
    "map_option fst (vPgpw v') = map_option fst (vPgpw v)" "aboveSink v' = aboveSink v" "bufOk v'"
proof -
  have "(vBufErr v' = None \<longrightarrow> pgpHolds v' (wholeOf (map_option fst (vCw v)) s)) \<and> vCw v' = None
    \<and> map_option fst (vPgpw v') = map_option fst (vPgpw v) \<and> aboveSink v' = aboveSink v \<and> bufOk v'"
  proof (cases "vCw v")
    case None
    then have "v' = v" using run by (simp add: closeCompressor_def)
    then show ?thesis using holds None by (auto simp: volumeHolds_def wholeOf_def)
  next
    case (Some g)
    obtain enc got where g: "g = (enc, got)" by fastforce
    let ?out = "drop (length (encSoFar enc got)) (encWhole enc got)"
    have w: "pgpWrite env ?out (v\<lparr>vCw := None\<rparr>) = (None, v')" using run Some g by (auto simp: closeCompressor_def split: prod.splits)
    have "pgpHolds (v\<lparr>vCw := None\<rparr>) (encSoFar enc got)" using holds Some g by (auto simp: volumeHolds_def) (auto simp: pgpHolds_def)
    note p = pgpWrite_spec [OF w this]
    then have "got = s \<and> lawfulEncoder enc" using holds Some g by (auto simp: volumeHolds_def)
    then show ?thesis using p Some g by (auto simp: wholeOf_def aboveSink_def lawful_end pgpHolds_def)
  qed
  then show "vBufErr v' = None \<longrightarrow> pgpHolds v' (wholeOf (map_option fst (vCw v)) s)" "vCw v' = None"
    "map_option fst (vPgpw v') = map_option fst (vPgpw v)" "aboveSink v' = aboveSink v" "bufOk v'" by blast+
qed

lemma closePgp_ok:
  assumes run: "closePgp env (err, v) = (None, v')" and holds: "vBufErr v = None \<longrightarrow> pgpHolds v s" "bufOk v"
  shows "err = None \<and> (vBufErr v' = None \<longrightarrow> sinkHolds v' (wholeOf (map_option fst (vPgpw v)) s)) \<and> bufOk v'
    \<and> vFw v' = vFw v \<and> vPw v' = vPw v \<and> vUsingPipe v' = vUsingPipe v \<and> vPipeEnd v' = vPipeEnd v \<and> vInfo v' = vInfo v"
proof (cases "vPgpw v")
  case None
  then show ?thesis using run holds by (auto simp: closePgp_def wholeOf_def pgpHolds_def)
next
  case (Some g)
  obtain enc got where g: "g = (enc, got)" by fastforce
  let ?out = "drop (length (encSoFar enc got)) (encWhole enc got)"
  have w: "sinkWrite env ?out (v\<lparr>vPgpw := None\<rparr>) = (None, v')" and err: "err = None"
    using run Some g by (auto simp: closePgp_def split: prod.splits)
  have "sinkHolds (v\<lparr>vPgpw := None\<rparr>) (encSoFar enc got) \<or> vBufErr (v\<lparr>vPgpw := None\<rparr>) \<noteq> None" "bufOk (v\<lparr>vPgpw := None\<rparr>)"
    using holds Some g by (auto simp: pgpHolds_def)
  note s = sinkWrite_spec [OF w this]
  then have "got = s \<and> lawfulEncoder enc" using holds(1) Some g by (auto simp: pgpHolds_def)
  then show ?thesis using s Some g err frame_fields [of v' "v\<lparr>vPgpw := None\<rparr>"] by (auto simp: wholeOf_def lawful_end)
qed

lemma closeBuffer_ok:
  assumes run: "closeBuffer env (err, v) = (None, v')" and holds: "vBufErr v = None \<longrightarrow> sinkHolds v s" "bufOk v"
  shows "err = None \<and> vStored v' = s \<and> vHashed v' = Some s \<and> vCounter v' = Some (of_nat (length s))
    \<and> vFw v' = vFw v \<and> vPw v' = vPw v \<and> vUsingPipe v' = vUsingPipe v \<and> vPipeEnd v' = vPipeEnd v \<and> vInfo v' = vInfo v"
proof -
  obtain buf where buf: "vBufw v = Some buf" "length buf \<le> BufferSize" using holds(2) by (auto simp: bufOk_def)
  obtain e w where f: "bufFlush env buf v = (e, w)" by fastforce
  have e: "e = None" "err = None" "v' = w\<lparr>vBufw := None\<rparr>" using run buf f by (auto simp: closeBuffer_def split: if_splits)
  then have ok: "vBufErr v = None" using f by (auto simp: bufFlush_def split: option.splits)
  note spec = bufFlush_spec [OF f ok buf]
  show ?thesis using spec e holds(1) ok buf frame_fields [of w v] by (auto simp: sinkHolds_def)
qed

lemma closeFile_ok:
  assumes "closeFile env (err, v) = (None, v')" "vStored v = s" "vHashed v = Some s" "vCounter v = Some (of_nat (length s))" "length s < 2 ^ 64"
  shows "err = None \<and> vStored v' = s \<and> vHashed v' = Some s \<and> vCounter v' = Some (of_nat (length s))
    \<and> vPw v' = vPw v \<and> vUsingPipe v' = vUsingPipe v \<and> vPipeEnd v' = vPipeEnd v \<and> vInfo v' = vInfo v"
proof (cases "vFw v")
  case True
  let ?t = "take (veKept env) s"
  have same: "err = None" "(of_nat (length ?t) :: 64 word) = of_nat (length s)" "v' = v\<lparr>vFw := False, vStored := ?t\<rparr>"
    using assms True by (auto simp: closeFile_def Let_def split: if_splits option.splits)
  have "length ?t < 2 ^ 64" using assms(5) by simp
  then have "length ?t = length s" using arg_cong [OF same(2), of unat] assms(5) by (simp add: unat_of_nat)
  then have "?t = s" by (metis length_take min.absorb_iff2 min.commute take_all_iff)
  then show ?thesis using same assms by simp
qed (use assms in \<open>simp add: closeFile_def\<close>)

text \<open>The writes of a volume in turn. What they report is not used here: \<^verbatim>\<open>Close\<close> reports what they did not.\<close>

definition writeAll :: "volumeEnv \<Rightarrow> string list \<Rightarrow> volume \<Rightarrow> volume" where
  "writeAll env ps v = foldl (\<lambda>v p. snd (Volume_Write env p v)) v ps"

lemma writeAll_holds:
  "volumeHolds v s \<Longrightarrow> volumeHolds (writeAll env ps v) (s @ concat ps) \<and> aboveSink (writeAll env ps v) = aboveSink v
    \<and> map_option fst (vCw (writeAll env ps v)) = map_option fst (vCw v) \<and> map_option fst (vPgpw (writeAll env ps v)) = map_option fst (vPgpw v)"
proof (induction ps arbitrary: v s)
  case (Cons p ps)
  obtain err v' where w: "Volume_Write env p v = (err, v')" by fastforce
  note step = Volume_Write_spec [OF w Cons.prems]
  then show ?case using Cons.IH [of v' "s @ p"] w by (simp add: writeAll_def)
qed (simp add: writeAll_def)

lemma close_first:
  "closeDecompressor env (err, v) = (None, v') \<Longrightarrow> err = None" "closePgp env (err, v) = (None, v') \<Longrightarrow> err = None"
  "closeBuffer env (err, v) = (None, v') \<Longrightarrow> err = None" "closeFile env (err, v) = (None, v') \<Longrightarrow> err = None"
  "closePipe env (err, v) = (None, v') \<Longrightarrow> err = None"
  by (auto simp: closeDecompressor_def closePgp_def closeBuffer_def closeFile_def closePipe_def Let_def split: if_splits option.splits prod.splits)

lemma closeDecompressor_cases:
  "snd (closeDecompressor env (err, v)) = v \<or> snd (closeDecompressor env (err, v)) = v\<lparr>vRw := False\<rparr>
    \<or> snd (closeDecompressor env (err, v)) = v\<lparr>vRw := False, vCmd := None\<rparr>"
  by (cases "readerOwned v"; cases "vCmd v") (simp_all add: closeDecompressor_def Let_def)

lemma Volume_Close_ok:
  assumes run: "Volume_Close env v = (None, v')" and holds: "volumeHolds v s" "\<not> vIsClosed v"
    and whole: "sealed = wholeOf (map_option fst (vPgpw v)) (wholeOf (map_option fst (vCw v)) s)" "length sealed < 2 ^ 64"
  shows "vStored v' = sealed \<and> vUsingPipe v' = vUsingPipe v \<and> (vPw v \<longrightarrow> vPipeEnd v' = vPipeEnd v)
    \<and> vInfo v' = (vInfo v)\<lparr>VolSize := of_nat (length sealed), SHA256Sum := veSha256 env sealed, CRC32CSum32 := veCrc32c env sealed, MD5Sum := veMd5 env sealed\<rparr>"
proof -
  let ?v = "v\<lparr>vIsOpened := False\<rparr>"
  obtain e1 v1 where c1: "closeCompressor env ?v = (e1, v1)" by fastforce
  obtain e2 v2 where c2: "closeDecompressor env (e1, v1) = (e2, v2)" by fastforce
  obtain e3 v3 where c3: "closePgp env (e2, v2) = (e3, v3)" by fastforce
  obtain e4 v4 where c4: "closeBuffer env (e3, v3) = (e4, v4)" by fastforce
  obtain e5 v5 where c5: "closeFile env (e4, v4) = (e5, v5)" by fastforce
  obtain e6 v6 where c6': "closePipe env (e5, v5) = (e6, v6)" by fastforce
  note run' = run [unfolded Volume_Close_def c1 c2 c3 c4 c5 c6' prod.case]
  have e6: "e6 = None" using run' holds(2) by (cases e6) simp_all
  have v': "v' = recordMetrics env (v6\<lparr>vIsClosed := \<not> vIsOpened v6\<rparr>)" using run' holds(2) e6 by simp
  note c6 = c6' [unfolded e6]
  have e5: "e5 = None" using close_first(5) c6 by blast
  have e4: "e4 = None" using close_first(4) c5 [unfolded e5] by blast
  have e3: "e3 = None" using close_first(3) c4 [unfolded e4] by blast
  have e2: "e2 = None" using close_first(2) c3 [unfolded e3] by blast
  have e1: "e1 = None" using close_first(1) c2 [unfolded e2] by blast
  have "volumeHolds ?v s" using holds(1) by (auto simp: volumeHolds_def split: option.splits)
  note s1 = closeCompressor_ok [OF c1 [unfolded e1] this]
  have "(vBufErr v2 = None \<longrightarrow> pgpHolds v2 (wholeOf (map_option fst (vCw v)) s)) \<and> bufOk v2 \<and> vPgpw v2 = vPgpw v1
      \<and> vInfo v2 = vInfo v1 \<and> vUsingPipe v2 = vUsingPipe v1 \<and> vPw v2 = vPw v1 \<and> vPipeEnd v2 = vPipeEnd v1"
    using closeDecompressor_cases [of env e1 v1] s1(1,5) unfolding c2 snd_conv by (elim disjE) simp_all
  then have v2: "vBufErr v2 = None \<longrightarrow> pgpHolds v2 (wholeOf (map_option fst (vCw v)) s)" "bufOk v2" "vPgpw v2 = vPgpw v1"
      "vInfo v2 = vInfo v1" "vUsingPipe v2 = vUsingPipe v1" "vPw v2 = vPw v1" "vPipeEnd v2 = vPipeEnd v1" by simp_all
  note s3 = closePgp_ok [OF c3 [unfolded e3] v2(1,2)]
  have seal: "wholeOf (map_option fst (vPgpw v2)) (wholeOf (map_option fst (vCw v)) s) = sealed" using v2(3) s1(3) whole(1) by simp
  have "vBufErr v3 = None \<longrightarrow> sinkHolds v3 sealed" "bufOk v3" using s3 seal by auto
  note s4 = closeBuffer_ok [OF c4 [unfolded e4] this]
  note s5 = closeFile_ok [OF c5 [unfolded e5] _ _ _ whole(2)]
  have same: "vInfo v2 = vInfo v" "vUsingPipe v2 = vUsingPipe v" "vPw v2 = vPw v" "vPipeEnd v2 = vPipeEnd v"
    using v2(4-7) aboveSink_fields(2,5,7,8) [OF s1(4)] by simp_all
  have s6: "vStored v6 = vStored v5 \<and> vHashed v6 = vHashed v5 \<and> vCounter v6 = vCounter v5 \<and> vInfo v6 = vInfo v5 \<and> vUsingPipe v6 = vUsingPipe v5
      \<and> (vPw v5 \<longrightarrow> vPipeEnd v6 = vPipeEnd v5)"
    using c6 by (auto simp: closePipe_def split: if_splits option.splits)
  have v6: "vStored v6 = sealed" "vHashed v6 = Some sealed" "vCounter v6 = Some (of_nat (length sealed))" "vInfo v6 = vInfo v"
    "vUsingPipe v6 = vUsingPipe v" "vPw v \<longrightarrow> vPipeEnd v6 = vPipeEnd v"
    using s3 s4 s5 s6 same by simp_all
  show ?thesis using v6 unfolding v' by (simp add: recordMetrics_def Let_def)
qed

lemma closed_contents:
  assumes "prepareVolume env j pipe isManifest = Inr v" "lawfulEnv env"
    and "Volume_Close env (writeAll env ps v) = (None, v')" "length (pack env j isManifest (concat ps)) < 2 ^ 64"
  shows "vStored v' = pack env j isManifest (concat ps) \<and> VolSize (vInfo v') = of_nat (length (vStored v'))
    \<and> SHA256Sum (vInfo v') = veSha256 env (vStored v') \<and> MD5Sum (vInfo v') = veMd5 env (vStored v') \<and> CRC32CSum32 (vInfo v') = veCrc32c env (vStored v')"
proof -
  note p = prepareVolume_holds [OF assms(1,2)]
  let ?w = "writeAll env ps v"
  have w: "volumeHolds ?w (concat ps)" "\<not> vIsClosed ?w"
    "pack env j isManifest (concat ps) = wholeOf (map_option fst (vPgpw ?w)) (wholeOf (map_option fst (vCw ?w)) (concat ps))"
    using writeAll_holds [of v "[]" env ps] p aboveSink_fields(4) [of ?w v] by (simp_all add: pack_def)
  show ?thesis using Volume_Close_ok [OF assms(3) w assms(4)] by simp
qed

text \<open>
  A volume whose \<^verbatim>\<open>Close\<close> returns no error is complete: whatever its writes reported, and whether it is a
  file or a pipe, every byte given to it went through the compressor and the OpenPGP writer into it,
  and the recorded size and checksums are those of its contents. A file that a full disk cut short is
  not closed without an error.
\<close>

theorem closed_volume_complete:
  assumes "prepareVolume env j pipe isManifest = Inr v" "lawfulEnv env"
    and "Volume_Close env (writeAll env ps v) = (None, v')" "length (pack env j isManifest (concat ps)) < 2 ^ 64"
  shows "vStored v' = pack env j isManifest (concat ps) \<and> VolSize (vInfo v') = of_nat (length (vStored v'))
    \<and> SHA256Sum (vInfo v') = veSha256 env (vStored v') \<and> MD5Sum (vInfo v') = veMd5 env (vStored v') \<and> CRC32CSum32 (vInfo v') = veCrc32c env (vStored v')"
  using assms by (rule closed_contents)

text \<open>What closing leaves alone also when a layer fails.\<close>

lemma rawWrite_frame: "frame (snd (rawWrite env p v)) = frame v"
  by (simp add: rawWrite_def Let_def)

lemma bufWhenEmpty_frame: "frame (snd (bufWhenEmpty env p v)) = frame v"
  by (simp add: bufWhenEmpty_def case_prod_beta rawWrite_frame)

lemma bufFlush_frame: "frame (snd (bufFlush env buf v)) = frame v"
  by (simp add: bufFlush_def case_prod_beta rawWrite_frame split: option.split)

lemma bufWrite_frame: "frame (snd (bufWrite env p buf v)) = frame v"
  by (simp add: bufWrite_def case_prod_beta bufWhenEmpty_frame bufFlush_frame Let_def split: option.split)

lemma writes_frame: "frame (snd (sinkWrite env p v)) = frame v"
  by (simp add: sinkWrite_def case_prod_beta bufWrite_frame Let_def split: option.split)

lemma pgpWrite_keeps: "vInfo (snd (pgpWrite env p v)) = vInfo v \<and> vPw (snd (pgpWrite env p v)) = vPw v"
  using frame_fields(6,10) [OF writes_frame] by (simp add: pgpWrite_def split: option.splits prod.splits)

lemma close_keeps:
  "vInfo (snd (closeCompressor env v)) = vInfo v \<and> vPw (snd (closeCompressor env v)) = vPw v"
  "vInfo (snd (closeDecompressor env r)) = vInfo (snd r) \<and> vPw (snd (closeDecompressor env r)) = vPw (snd r)"
  "vInfo (snd (closePgp env r)) = vInfo (snd r) \<and> vPw (snd (closePgp env r)) = vPw (snd r)"
  "vInfo (snd (closeBuffer env r)) = vInfo (snd r) \<and> vPw (snd (closeBuffer env r)) = vPw (snd r)"
  "vInfo (snd (closeFile env r)) = vInfo (snd r) \<and> vPw (snd (closeFile env r)) = vPw (snd r)"
  "vInfo (snd (closePipe env r)) = vInfo (snd r)"
proof -
  show "vInfo (snd (closeCompressor env v)) = vInfo v \<and> vPw (snd (closeCompressor env v)) = vPw v"
    using pgpWrite_keeps by (simp add: closeCompressor_def case_prod_beta split: option.splits)
  show "vInfo (snd (closeDecompressor env r)) = vInfo (snd r) \<and> vPw (snd (closeDecompressor env r)) = vPw (snd r)"
    using closeDecompressor_cases [of env "fst r" "snd r"] by (auto simp del: snd_conv simp: prod.collapse)
  show "vInfo (snd (closePgp env r)) = vInfo (snd r) \<and> vPw (snd (closePgp env r)) = vPw (snd r)"
    using frame_fields(6,10) [OF writes_frame] by (simp add: closePgp_def case_prod_beta split: option.splits)
  show "vInfo (snd (closeBuffer env r)) = vInfo (snd r) \<and> vPw (snd (closeBuffer env r)) = vPw (snd r)"
    by (simp add: closeBuffer_def bufFlush_def rawWrite_def Let_def case_prod_beta split: option.splits)
  show "vInfo (snd (closeFile env r)) = vInfo (snd r) \<and> vPw (snd (closeFile env r)) = vPw (snd r)"
    by (simp add: closeFile_def Let_def case_prod_beta split: option.splits)
  show "vInfo (snd (closePipe env r)) = vInfo (snd r)"
    by (simp add: closePipe_def case_prod_beta split: option.splits)
qed

text \<open>
  \<^verbatim>\<open>Close\<close> keeps the first error: after one that failed the volume records no size or checksum that it did
  not have before, every later \<^verbatim>\<open>Close\<close> returns the same error and changes nothing, and the reader of a
  pipe sees the failure instead of the end of the volume.
\<close>

theorem failed_close:
  assumes "Volume_Close env v = (Some e, v')" "\<not> vIsClosed v"
  shows "vInfo v' = vInfo v \<and> Volume_Close env' v' = (Some e, v') \<and> (vPw v \<longrightarrow> vPipeEnd v' = Some e \<or> vePwErr env = Some e)"
proof -
  define r where "r = closeFile env (closeBuffer env (closePgp env (closeDecompressor env (closeCompressor env (v\<lparr>vIsOpened := False\<rparr>)))))"
  obtain e6 v6 where c6: "closePipe env r = (e6, v6)" by fastforce
  note run = assms(1) [unfolded Volume_Close_def, folded r_def, unfolded c6 prod.case]
  have v': "e6 = Some e" "v' = v6\<lparr>vIsClosed := True, vCloseErr := Some e, vCounter := None, vHashed := None, vR := None\<rparr>"
    using run assms(2) by (cases e6; simp)+
  have r: "vInfo (snd r) = vInfo v \<and> vPw (snd r) = vPw v" unfolding r_def by (simp add: close_keeps)
  have "vInfo v6 = vInfo v" using close_keeps(6) [of env r] c6 r by simp
  moreover have "vPw v \<longrightarrow> vPipeEnd v6 = Some e \<or> vePwErr env = Some e"
    using c6 r v'(1) by (auto simp: closePipe_def case_prod_beta split: option.splits if_splits)
  ultimately show ?thesis unfolding v'(2) by (simp add: Volume_Close_def)
qed

end
