(* ===== verification/VolumeProperties.thy ===== *)
theory VolumeProperties
  imports Volumes CacheProperties
begin

text \<open>
  What a volume that is read back gives: the bytes that were written, from a signer that was asked for,
  through a decompressor that was asked for; and manifests, which are volumes, read the same way.
\<close>

section \<open>Reading to the end\<close>

lemma readVolume_chunks:
  "readVolume (v\<lparr>vR := Some (cs, e)\<rparr>) = (case readVolume (v\<lparr>vR := Some ([], e)\<rparr>) of ((d, err), w) \<Rightarrow> ((concat cs @ d, err), w))"
proof (induction cs)
  case (Cons c cs)
  have "Volume_Read (v\<lparr>vR := Some (c # cs, e)\<rparr>) = ((c, More), v\<lparr>vR := Some (cs, e)\<rparr>)" by (simp add: Volume_Read_def)
  then show ?case by (subst readVolume.simps) (simp add: Cons case_prod_beta)
qed (simp add: case_prod_beta)

lemma readVolume_end:
  "readVolume (v\<lparr>vR := Some ([], e)\<rparr>) =
     (case Volume_Read (v\<lparr>vR := Some ([], e)\<rparr>) of ((c, st), w) \<Rightarrow> ((c, case st of Failed err \<Rightarrow> Some err | _ \<Rightarrow> None), w))"
  by (subst readVolume.simps)
    (auto simp: Volume_Read_def split: prod.splits read_status.splits option.splits if_splits)

text \<open>A volume that was read to its end without an error had a verified signature.\<close>

definition signatureState :: "pgpMessage \<Rightarrow> string list \<Rightarrow> bool \<Rightarrow> read_error option" where
  "signatureState md signers whole =
     (if \<not> mdIsSigned md then None
      else case (if whole then mdSignatureError md else None) of
             Some e \<Rightarrow> Some (Unreadable e)
           | None \<Rightarrow>
               (case mdSignedBy md of
                  None \<Rightarrow> Some (KeyError False)
                | Some got \<Rightarrow> if signers = [] \<or> got \<in> set signers then None else Some (KeyError False)))"

lemma signatureError_md: "vPgpr v = Some md \<Longrightarrow> signatureError v = signatureState md (vSigners v) (vWhole v)"
  unfolding signatureError_def signatureState_def by (simp add: list_ex_iff split: option.split)

lemma Volume_Read_failed:
  "Volume_Read (v\<lparr>vR := Some ([], Some err)\<rparr>) = (([], Failed (Unreadable err)), v\<lparr>vR := Some ([], Some err)\<rparr>)"
  by (simp add: Volume_Read_def)

lemma Volume_Read_plain: "vPgpr v = None \<Longrightarrow> Volume_Read (v\<lparr>vR := Some ([], None)\<rparr>) = (([], AtEOF), v\<lparr>vR := Some ([], None)\<rparr>)"
  by (simp add: Volume_Read_def)

definition statusOf :: "read_error option \<Rightarrow> read_status" where
  "statusOf err = (case err of None \<Rightarrow> AtEOF | Some e \<Rightarrow> Failed e)"

lemma Volume_Read_signed:
  assumes "vPgpr v = Some md" "vCmd v = None"
  shows "fst (Volume_Read (v\<lparr>vR := Some ([], None)\<rparr>)) = ([], statusOf (signatureState md (vSigners v) (vWhole v)))"
  using assms by (simp add: Volume_Read_def signatureError_md statusOf_def)

lemma Volume_Read_command:
  assumes "vPgpr v = Some md" "vCmd v = Some cmd" "\<not> vCmdWaited v"
  shows "fst (Volume_Read (v\<lparr>vR := Some ([], None)\<rparr>)) =
     ([], case cmdExit cmd of
        Some e \<Rightarrow> Failed (Unreadable e)
      | None \<Rightarrow> if cmdInEof cmd then statusOf (signatureState md (vSigners v) True) else Failed (Unreadable stoppedEarly))"
proof (cases "cmdExit cmd")
  case None
  then show ?thesis using assms by (cases "cmdInEof cmd") (simp_all add: Volume_Read_def waitDecompressor_def signatureError_md statusOf_def Let_def)
qed (use assms in \<open>simp add: Volume_Read_def waitDecompressor_def Let_def\<close>)

lemma read_end_ok:
  assumes "readVolume v = ((d, None), w)" "vR v = Some (cs, e)"
  obtains st where "st \<noteq> More" "\<forall>err. st \<noteq> Failed err" "fst (Volume_Read (v\<lparr>vR := Some ([], e)\<rparr>)) = (drop (length (concat cs)) d, st)" "hasPrefix d (concat cs)"
proof -
  have run: "readVolume (v\<lparr>vR := Some (cs, e)\<rparr>) = ((d, None), w)" using assms by (cases v) simp
  obtain c st x where r: "Volume_Read (v\<lparr>vR := Some ([], e)\<rparr>) = ((c, st), x)" by (metis surj_pair)
  have "d = concat cs @ c" "(case st of Failed err \<Rightarrow> Some err | _ \<Rightarrow> None) = None"
    using run [unfolded readVolume_chunks [of cs e v] readVolume_end r] by simp_all
  moreover have "st \<noteq> More" using Volume_Read_More [of "v\<lparr>vR := Some ([], e)\<rparr>" c x] r by (auto simp: chunksLeft_def)
  ultimately show thesis using that [of st] r by (cases st) auto
qed

text \<open>A volume that was read to its end without an error had a verified signature.\<close>

lemma read_verified:
  assumes "readVolume v = ((d, None), w)" "vR v = Some (cs, e)" "vPgpr v = Some md" "\<not> vCmdWaited v"
  shows "e = None \<and> d = concat cs \<and> signatureState md (vSigners v) (vWhole v \<or> vCmd v \<noteq> None) = None"
proof -
  obtain st where r: "st \<noteq> More" "\<forall>err. st \<noteq> Failed err" "fst (Volume_Read (v\<lparr>vR := Some ([], e)\<rparr>)) = (drop (length (concat cs)) d, st)" "hasPrefix d (concat cs)"
    by (rule read_end_ok [OF assms(1,2)])
  have e: "e = None" using r(2,3) by (cases e) (auto simp: Volume_Read_failed)
  note r3 = r(3) [unfolded e]
  have "drop (length (concat cs)) d = [] \<and> signatureState md (vSigners v) (vWhole v \<or> vCmd v \<noteq> None) = None"
  proof (cases "vCmd v")
    case None
    then show ?thesis using r(2) r3 Volume_Read_signed [OF assms(3) None] by (auto simp: statusOf_def split: option.splits)
  next
    case (Some cmd)
    then show ?thesis using r(2) r3 Volume_Read_command [OF assms(3) Some assms(4)]
      by (cases "cmdExit cmd"; cases "cmdInEof cmd") (auto simp: statusOf_def split: option.splits)
  qed
  then show ?thesis using r(4) e by (auto simp: hasPrefix_iff)
qed

section \<open>Who wrote a volume, and what reads it\<close>

text \<open>The message and the decompressor of an extracted volume.\<close>

lemma Extract_ok:
  assumes "Extract env j m v = (None, v')"
  obtains v1 v2 where "openForExtract env v = (None, v1)" "extractMessage env j m (the (vR v1)) v1 = (None, v2)"
    "extractDecompressor env j m (the (vR v2)) v2 = (None, v')"
  using assms by (auto simp: Extract_def split: prod.splits option.splits)

lemma openForExtract_ok:
  "openForExtract env v = (None, v1) \<Longrightarrow> vR v1 = Some (fileSource (vStored v) (if vUsingPipe v then vPipeEnd v else None)) \<and> vPgpr v1 = vPgpr v
    \<and> vCmd v1 = vCmd v \<and> vCmdWaited v1 = vCmdWaited v \<and> vSigners v1 = vSigners v \<and> vWhole v1 = vWhole v"
  by (auto simp: openForExtract_def split: if_splits option.splits)

lemma extractMessage_keys:
  assumes "extractMessage env j m src v = (None, v')" "EncryptKey j \<noteq> None \<or> SignKey j \<noteq> None"
  obtains md where "xeReadMessage env src = Inr md" "SignKey j \<noteq> None \<longrightarrow> mdIsSigned md" "EncryptKey j \<noteq> None \<longrightarrow> mdIsEncrypted md"
    "v' = v\<lparr>vPgpr := Some md, vSigners := (case SignKey j of None \<Rightarrow> vSigners v | Some k \<Rightarrow> k # TrustedSignKeys j), vR := Some (mdBody md), vWhole := True\<rparr>"
  using assms by (auto simp: extractMessage_def split: sum.splits pgp_error.splits if_splits)

lemma extractDecompressor_ok:
  assumes "extractDecompressor env j m src v = (None, v')" "vCmd v = None"
  shows "vPgpr v' = vPgpr v \<and> vSigners v' = vSigners v \<and> vCmdWaited v' = vCmdWaited v \<and> (vR v \<noteq> None \<longrightarrow> vR v' \<noteq> None)
    \<and> (\<forall>cmd. vCmd v' = Some cmd \<longrightarrow> cmdPath cmd = volumeCompressor j m \<and> CheckDecompressor (cmdPath cmd) (TrustedCompressor j) = None
         \<and> cmdPath cmd \<noteq> [] \<and> cmdPath cmd \<noteq> InternalCompressor \<and> cmdPath cmd \<noteq> ZfsCompressor)
    \<and> (vCmd v' = None \<longrightarrow> vWhole v' = vWhole v \<or> (\<exists>out. vR v' = Some out \<and> xeGunzip env src = Inr (out, vWhole v')))"
  using assms by (auto simp: extractDecompressor_def Let_def split: if_splits sum.splits option.splits prod.splits)

text \<open>Gzip reads its input to the end before it ends without an error: another member may follow.\<close>

definition gzipReadsToEnd :: "extractEnv \<Rightarrow> bool" where
  "gzipReadsToEnd env \<longleftrightarrow> (\<forall>src out whole. xeGunzip env src = Inr (out, whole) \<and> snd out = None \<longrightarrow> whole)"

lemma Extract_no_command:
  "openForExtract env v = (e, v1) \<Longrightarrow> vCmd v1 = vCmd v"
  "extractMessage env j m src v = (e, v1) \<Longrightarrow> vCmd v1 = vCmd v"
  by (auto simp: openForExtract_def extractMessage_def split: sum.splits pgp_error.splits if_splits option.splits)

text \<open>
  C37. A restore runs no program that a forged manifest could choose freely: the external decompressor that
  \<^verbatim>\<open>Extract\<close> starts is one of the known ones or the one that was passed with \<^verbatim>\<open>--compressor\<close>, and reading a
  manifest starts none.
\<close>

theorem Extract_trusted_command:
  assumes "Extract env j isManifest v = (err, v')" "vCmd v = None" "vCmd v' = Some cmd"
  shows "(cmdPath cmd \<in> set knownDecompressors \<or> cmdPath cmd = TrustedCompressor j) \<and> cmdPath cmd = Compressor j \<and> \<not> isManifest"
proof -
  obtain v1 v2 where x: "openForExtract env v = (None, v1)" "extractMessage env j isManifest (the (vR v1)) v1 = (None, v2)"
      "extractDecompressor env j isManifest (the (vR v2)) v2 = (err, v')"
    using assms by (auto simp: Extract_def dest!: Extract_no_command split: prod.splits option.splits)
  have "vCmd v2 = None" using Extract_no_command(1) [OF x(1)] Extract_no_command(2) [OF x(2)] assms(2) by simp
  then have ok: "err = None" using x(3) assms(3) by (auto simp: extractDecompressor_def Let_def split: if_splits sum.splits option.splits prod.splits)
  show ?thesis using extractDecompressor_ok [OF x(3) [unfolded ok] \<open>vCmd v2 = None\<close>] assms(3)
    by (auto simp: CheckDecompressor_def volumeCompressor_def split: if_splits)
qed

text \<open>
  A volume that was read to its end without an error was written by a key that was asked for: with
  \<^verbatim>\<open>--signFrom\<close> the object is a signed message whose signature verifies, made by that key or by one of
  \<^verbatim>\<open>--trustSigner\<close>, and with \<^verbatim>\<open>--encryptTo\<close> it is encrypted, whichever decompressor reads it. With gzip, as
  long as it reads its input to the end.
\<close>

lemma authentic:
  assumes "Extract env j isManifest v = (None, v')" "readVolume v' = ((data, None), w)" "vCmd v = None" "\<not> vCmdWaited v"
    and "EncryptKey j \<noteq> None \<or> SignKey j \<noteq> None"
    and "gzipReadsToEnd env"
  shows "\<exists>md. xeReadMessage env (fileSource (vStored v) (if vUsingPipe v then vPipeEnd v else None)) = Inr md
    \<and> (EncryptKey j \<noteq> None \<longrightarrow> mdIsEncrypted md)
    \<and> (\<forall>k. SignKey j = Some k \<longrightarrow> mdIsSigned md \<and> mdSignatureError md = None \<and> (\<exists>f\<in>set (k # TrustedSignKeys j). mdSignedBy md = Some f))"
proof -
  obtain v1 v2 where x: "openForExtract env v = (None, v1)" "extractMessage env j isManifest (the (vR v1)) v1 = (None, v2)"
      "extractDecompressor env j isManifest (the (vR v2)) v2 = (None, v')"
    by (rule Extract_ok [OF assms(1)])
  note o = openForExtract_ok [OF x(1)]
  obtain md where md: "xeReadMessage env (the (vR v1)) = Inr md" "SignKey j \<noteq> None \<longrightarrow> mdIsSigned md" "EncryptKey j \<noteq> None \<longrightarrow> mdIsEncrypted md"
    and v2: "v2 = v1\<lparr>vPgpr := Some md, vSigners := (case SignKey j of None \<Rightarrow> vSigners v1 | Some k \<Rightarrow> k # TrustedSignKeys j), vR := Some (mdBody md), vWhole := True\<rparr>"
    by (rule extractMessage_keys [OF x(2) assms(5)])
  have "vCmd v2 = None" using v2 o assms(3) by simp
  note d = extractDecompressor_ok [OF x(3) this]
  have pg: "vPgpr v' = Some md" "vSigners v' = (case SignKey j of None \<Rightarrow> vSigners v1 | Some k \<Rightarrow> k # TrustedSignKeys j)" "\<not> vCmdWaited v'"
    using d v2 o assms(4) by simp_all
  obtain cs e where r: "vR v' = Some (cs, e)" using d v2 by (cases "vR v'") auto
  note rd = read_verified [OF assms(2) r pg(1,3)]
  have "vWhole v'" if none: "vCmd v' = None"
  proof -
    have "vWhole v' = vWhole v2 \<or> (\<exists>out. vR v' = Some out \<and> xeGunzip env (the (vR v2)) = Inr (out, vWhole v'))" using d none by blast
    moreover have "vWhole v2" by (simp add: v2)
    moreover have "snd (cs, e) = None" using rd by simp
    ultimately show ?thesis using assms(6) r unfolding gzipReadsToEnd_def by (metis option.inject)
  qed
  then have "(vWhole v' \<or> vCmd v' \<noteq> None) = True" by blast
  then have sig: "signatureState md (vSigners v') True = None" using rd by simp
  have "mdIsSigned md \<and> mdSignatureError md = None \<and> (\<exists>f\<in>set (k # TrustedSignKeys j). mdSignedBy md = Some f)" if "SignKey j = Some k" for k
    using sig md(2) pg(2) that by (simp add: signatureState_def split: option.splits if_splits)
  moreover have "xeReadMessage env (fileSource (vStored v) (if vUsingPipe v then vPipeEnd v else None)) = Inr md"
    using md(1) o by simp
  ultimately show ?thesis using md(3) by blast
qed

section \<open>Reading back what was written\<close>

text \<open>
  What the readers promise of what the writers wrote, in whatever pieces it comes: gzip, whose output
  starts with the byte 1f, the external programs and OpenPGP.
\<close>

definition gives :: "source \<Rightarrow> string \<Rightarrow> bool" where
  "gives src s \<longleftrightarrow> concat (fst src) = s \<and> snd src = None"

definition gzipReadsBack :: "volumeEnv \<Rightarrow> extractEnv \<Rightarrow> bool" where
  "gzipReadsBack env x \<longleftrightarrow> (\<forall>level s. (\<exists>t. encWhole (veGzip env level) s = CHR 0x1F # t)
     \<and> (\<forall>src. gives src (encWhole (veGzip env level) s) \<longrightarrow> (\<exists>out. xeGunzip x src = Inr (out, True) \<and> gives out s)))"

definition commandReadsBack :: "volumeEnv \<Rightarrow> extractEnv \<Rightarrow> bool" where
  "commandReadsBack env x \<longleftrightarrow> (\<forall>c level enc exit s src. veCommand env c level = Inr (enc, exit) \<and> gives src (encWhole enc s)
     \<longrightarrow> (\<exists>out cmd. xeCommand x c src = Inr (out, cmd) \<and> gives out s \<and> cmdInEof cmd \<and> cmdExit cmd = None))"

definition pgpReadsBack :: "volumeEnv \<Rightarrow> extractEnv \<Rightarrow> bool" where
  "pgpReadsBack env x \<longleftrightarrow> (\<forall>encrypt signer enc s src. vePgpWriter env encrypt signer = Inr enc \<and> gives src (encWhole enc s)
     \<longrightarrow> (\<exists>md. xeReadMessage x src = Inr md \<and> gives (mdBody md) s \<and> mdIsEncrypted md = (encrypt \<noteq> None)
           \<and> mdIsSigned md = (signer \<noteq> None) \<and> mdSignatureError md = None \<and> mdSignedBy md = signer))"

definition verified :: "volume \<Rightarrow> bool" where
  "verified v \<longleftrightarrow> (case vPgpr v of None \<Rightarrow> True | Some md \<Rightarrow> signatureState md (vSigners v) True = None)"

lemma verified_update [simp]:
  "verified (v\<lparr>vRw := b\<rparr>) = verified v" "verified (v\<lparr>vR := r\<rparr>) = verified v" "verified (v\<lparr>vWhole := b\<rparr>) = verified v"
  "verified (v\<lparr>vCmd := c\<rparr>) = verified v"
  by (simp_all add: verified_def split: option.split)

lemma read_returns:
  assumes "vR v = Some src" "gives src s" "verified v" "\<not> vCmdWaited v"
    and "case vCmd v of None \<Rightarrow> vWhole v | Some cmd \<Rightarrow> cmdInEof cmd \<and> cmdExit cmd = None"
  shows "fst (readVolume v) = (s, None)"
proof -
  obtain cs where src: "src = (cs, None)" "concat cs = s" using assms(2) by (cases src) (auto simp: gives_def)
  have "readVolume v = readVolume (v\<lparr>vR := Some (cs, None)\<rparr>)" using assms(1) src by (cases v) simp
  moreover have "fst (Volume_Read (v\<lparr>vR := Some ([], None)\<rparr>)) = ([], AtEOF)"
  proof (cases "vPgpr v")
    case (Some md)
    then have "signatureState md (vSigners v) True = None" using assms(3) by (simp add: verified_def)
    then show ?thesis using Some Volume_Read_signed [OF Some] Volume_Read_command [OF Some] assms(4,5)
      by (cases "vCmd v") (simp_all add: statusOf_def)
  qed (simp add: Volume_Read_plain)
  ultimately show ?thesis using readVolume_chunks [of cs None v] readVolume_end [of None v] src(2) by (simp add: case_prod_beta)
qed

lemma checkNotPGP_gzip: "gives src (CHR 0x1F # t) \<Longrightarrow> checkNotPGP src = None"
  by (simp add: gives_def checkNotPGP_def)

lemma extractMessage_back:
  assumes "pgpReadsBack env x" "gives src (wholeOf (packPgp env j) t)" "vR v = Some src" "vPgpr v = None" "vWhole v"
    and "EncryptKey j = None \<and> SignKey j = None \<or> packPgp env j \<noteq> None" "m \<longrightarrow> (\<exists>u. t = CHR 0x1F # u)"
  obtains v' where "extractMessage x j m src v = (None, v')" "gives (the (vR v')) t" "vR v' \<noteq> None" "verified v'" "vCmd v' = vCmd v"
    "vCmdWaited v' = vCmdWaited v" "vWhole v'"
proof (cases "EncryptKey j = None \<and> SignKey j = None")
  case True
  then have "gives src t" using assms(2) by (simp add: packPgp_def wholeOf_def)
  then have "extractMessage x j m src v = (None, v)" using True assms(7) checkNotPGP_gzip [of src] by (auto simp: extractMessage_def simp del: split_paired_All)
  then show thesis using that [of v] assms(3-5) \<open>gives src t\<close> by (simp add: verified_def)
next
  case False
  then obtain enc where enc: "vePgpWriter env (EncryptKey j) (SignKey j) = Inr enc" "packPgp env j = Some enc"
    using assms(6) by (cases "vePgpWriter env (EncryptKey j) (SignKey j)") (auto simp: packPgp_def)
  then obtain md where md: "xeReadMessage x src = Inr md" "gives (mdBody md) t" "mdIsEncrypted md = (EncryptKey j \<noteq> None)"
      "mdIsSigned md = (SignKey j \<noteq> None)" "mdSignatureError md = None" "mdSignedBy md = SignKey j"
    using assms(1,2) unfolding pgpReadsBack_def wholeOf_def by fastforce
  let ?v = "v\<lparr>vPgpr := Some md, vSigners := (case SignKey j of None \<Rightarrow> vSigners v | Some k \<Rightarrow> k # TrustedSignKeys j), vR := Some (mdBody md), vWhole := True\<rparr>"
  have "extractMessage x j m src v = (None, ?v)" using False md by (cases "EncryptKey j"; cases "SignKey j") (simp_all add: extractMessage_def)
  moreover have "verified ?v" using md by (auto simp: verified_def signatureState_def split: option.split)
  ultimately show thesis using that [of ?v] md(2) by simp
qed

lemma extractDecompressor_back:
  assumes "gzipReadsBack env x" "commandReadsBack env x" "gives src (wholeOf (packCompressor env j m) s)" "vR v = Some src" "verified v" "vCmd v = None" "vWhole v"
    and "volumeCompressor j m \<in> {InternalCompressor, [], ZfsCompressor} \<or> packCompressor env j m \<noteq> None"
    and "CheckDecompressor (Compressor j) (TrustedCompressor j) = None"
  obtains v' out where "extractDecompressor x j m src v = (None, v')" "vR v' = Some out" "gives out s" "verified v'" "vCmdWaited v' = vCmdWaited v"
    "case vCmd v' of None \<Rightarrow> vWhole v' | Some cmd \<Rightarrow> cmdInEof cmd \<and> cmdExit cmd = None"
proof -
  let ?c = "volumeCompressor j m"
  consider "?c = InternalCompressor" | "?c \<noteq> InternalCompressor" "?c = [] \<or> ?c = ZfsCompressor"
    | "?c \<noteq> InternalCompressor" "?c \<noteq> []" "?c \<noteq> ZfsCompressor" by blast
  then show thesis
  proof cases
    case 1
    then have "gives src (encWhole (veGzip env (CompressionLevel j)) s)" using assms(3) by (simp add: packCompressor_def wholeOf_def)
    then obtain out where "xeGunzip x src = Inr (out, True)" "gives out s" using assms(1) unfolding gzipReadsBack_def by blast
    then show thesis using that [of "v\<lparr>vRw := True, vR := Some out, vWhole := True\<rparr>" out] 1 assms(5,6)
      by (simp add: extractDecompressor_def)
  next
    case 2
    then have "gives src s" using assms(3) by (auto simp: packCompressor_def wholeOf_def Let_def)
    moreover have "extractDecompressor x j m src v = (None, v)" using 2 by (simp add: extractDecompressor_def Let_def)
    ultimately show thesis using that [of v src] assms(4-7) by simp
  next
    case 3
    then obtain enc exit where enc: "veCommand env ?c (CompressionLevel j) = Inr (enc, exit)" "packCompressor env j m = Some enc"
      using assms(8) by (cases "veCommand env ?c (CompressionLevel j)") (auto simp: packCompressor_def)
    then have "gives src (encWhole enc s)" using assms(3) by (simp add: wholeOf_def)
    then obtain out cmd where out: "xeCommand x ?c src = Inr (out, cmd)" "gives out s" "cmdInEof cmd" "cmdExit cmd = None"
      using assms(2) enc(1) unfolding commandReadsBack_def by blast
    have "CheckDecompressor ?c (TrustedCompressor j) = None" using assms(9) 3 by (auto simp: volumeCompressor_def split: if_splits)
    then show thesis using that [of "v\<lparr>vRw := True, vCmd := Some (cmd\<lparr>cmdPath := ?c\<rparr>), vR := Some out, vWhole := False\<rparr>" out] 3 out assms(5)
      by (simp add: extractDecompressor_def)
  qed
qed

lemma prepareVolume_encoders:
  assumes "prepareVolume env j pipe m = Inr v"
  shows "EncryptKey j = None \<and> SignKey j = None \<or> packPgp env j \<noteq> None"
    "volumeCompressor j m \<in> {InternalCompressor, [], ZfsCompressor} \<or> packCompressor env j m \<noteq> None"
proof -
  obtain v0 v1 where s: "startPgp env j v0 = Inr v1" "startCompressor env j m v1 = Inr v"
    using assms by (auto simp: prepareVolume_def split: sum.splits)
  show "EncryptKey j = None \<and> SignKey j = None \<or> packPgp env j \<noteq> None"
    using s(1) by (auto simp: startPgp_def packPgp_def split: sum.splits)
  show "volumeCompressor j m \<in> {InternalCompressor, [], ZfsCompressor} \<or> packCompressor env j m \<noteq> None"
    using s(2) by (auto simp: startCompressor_def packCompressor_def Let_def split: sum.splits if_splits)
qed

lemma extract_packed:
  assumes codecs: "gzipReadsBack env x" "commandReadsBack env x" "pgpReadsBack env x" and opn: "xeOpenErr x = None"
    and enc: "EncryptKey j = None \<and> SignKey j = None \<or> packPgp env j \<noteq> None"
      "volumeCompressor j m \<in> {InternalCompressor, [], ZfsCompressor} \<or> packCompressor env j m \<noteq> None"
    and trust: "CheckDecompressor (Compressor j) (TrustedCompressor j) = None"
  obtains r where "ExtractLocal x j path (pack env j m s) m = (None, r)" "fst (readVolume r) = (s, None)"
proof -
  let ?t = "wholeOf (packCompressor env j m) s" and ?src = "fileSource (pack env j m s) None"
  let ?v = "zeroVolume\<lparr>vFilename := path, vOnDisk := True, vStored := pack env j m s, vFw := True, vR := Some ?src, vIsClosed := False, vIsOpened := True\<rparr>"
  have o: "openForExtract x (zeroVolume\<lparr>vFilename := path, vOnDisk := True, vStored := pack env j m s\<rparr>) = (None, ?v)"
    using opn by (simp add: openForExtract_def zeroVolume_def)
  have v: "vPgpr ?v = None" "vWhole ?v" "vCmd ?v = None" "\<not> vCmdWaited ?v" by (simp_all add: zeroVolume_def)
  have vr: "vR ?v = Some ?src" by simp
  have src: "gives ?src (wholeOf (packPgp env j) ?t)" by (simp add: gives_def fileSource_def pack_def)
  have gz: "m \<longrightarrow> (\<exists>u. ?t = CHR 0x1F # u)" using codecs(1) by (auto simp: gzipReadsBack_def packCompressor_def volumeCompressor_def wholeOf_def)
  obtain v2 where msg: "extractMessage x j m ?src ?v = (None, v2)" "gives (the (vR v2)) ?t" "vR v2 \<noteq> None" "verified v2" "vCmd v2 = vCmd ?v"
      "vCmdWaited v2 = vCmdWaited ?v" "vWhole v2"
    by (rule extractMessage_back [OF codecs(3) src vr v(1,2) enc(1) gz])
  have "vR v2 = Some (the (vR v2))" "vCmd v2 = None" using msg(3,5) v(3) by simp_all
  note dec = extractDecompressor_back [OF codecs(1,2) msg(2) this(1) msg(4) this(2) msg(7) enc(2) trust]
  obtain v3 out where fin: "extractDecompressor x j m (the (vR v2)) v2 = (None, v3)" "vR v3 = Some out" "gives out s" "verified v3"
      "vCmdWaited v3 = vCmdWaited v2" "case vCmd v3 of None \<Rightarrow> vWhole v3 | Some cmd \<Rightarrow> cmdInEof cmd \<and> cmdExit cmd = None"
    by (rule dec)
  have "\<not> vCmdWaited v3" using fin(5) msg(6) v(4) by simp
  from read_returns [OF fin(2-4) this fin(6)] have "fst (readVolume v3) = (s, None)" .
  moreover have "ExtractLocal x j path (pack env j m s) m = (None, v3)"
    unfolding ExtractLocal_def Extract_def o prod.case option.case using msg(1) fin(1) by simp
  ultimately show thesis by (rule that [rotated])
qed

text \<open>
  C11. A volume reads back: the bytes written to a volume that was closed without an error are the bytes that
  extracting its contents gives, to the end and without an error, with every compressor that the
  restore accepts and any keys, as long as gzip, the external program and OpenPGP read what they wrote.
\<close>

theorem volume_roundtrip:
  assumes "prepareVolume env j pipe isManifest = Inr v" "lawfulEnv env" "Volume_Close env (writeAll env ps v) = (None, v')"
    and "length (pack env j isManifest (concat ps)) < 2 ^ 64" "gzipReadsBack env x" "commandReadsBack env x" "pgpReadsBack env x" "xeOpenErr x = None"
    and "CheckDecompressor (Compressor j) (TrustedCompressor j) = None"
  shows "\<exists>r. ExtractLocal x j path (vStored v') isManifest = (None, r) \<and> fst (readVolume r) = (concat ps, None)"
proof -
  have "vStored v' = pack env j isManifest (concat ps)" using closed_contents [OF assms(1-4)] by blast
  then show ?thesis
    using extract_packed [OF assms(5-8) prepareVolume_encoders [OF assms(1)] assms(9), of path "concat ps"] by metis
qed

section \<open>Manifests\<close>

text \<open>Reading a manifest, with \<^verbatim>\<open>ExtractLocal\<close> and \<^verbatim>\<open>Read\<close> as they are.\<close>

definition volumeCodec :: "extractEnv \<Rightarrow> JobInfo \<Rightarrow> string \<Rightarrow> Codec \<Rightarrow> Codec" where
  "volumeCodec x j path c = c\<lparr>cExtract := (\<lambda>contents.
     case ExtractLocal x j path contents True of (Some e, v) \<Rightarrow> Inl e | (None, v) \<Rightarrow> Inr (fst (readVolume v)))\<rparr>"

text \<open>
  C7. No manifest that a forger wrote is decoded: with \<^verbatim>\<open>--signFrom\<close>, a manifest that \<^verbatim>\<open>ReadManifest\<close> returns was in
  a message that the key or a trusted signer signed, and with \<^verbatim>\<open>--encryptTo\<close> in an encrypted one.
\<close>

theorem manifest_authentic:
  assumes "readManifest (volumeCodec x j path c) contents = Inr m" "EncryptKey j \<noteq> None \<or> SignKey j \<noteq> None"
    and "gzipReadsToEnd x"
  shows "\<exists>md. xeReadMessage x (fileSource contents None) = Inr md \<and> (EncryptKey j \<noteq> None \<longrightarrow> mdIsEncrypted md)
    \<and> (\<forall>k. SignKey j = Some k \<longrightarrow> mdIsSigned md \<and> mdSignatureError md = None \<and> (\<exists>f\<in>set (k # TrustedSignKeys j). mdSignedBy md = Some f))"
proof -
  obtain bytes where "cExtract (volumeCodec x j path c) contents = Inr (bytes, None)" using readManifest_spec [OF assms(1)] by blast
  then obtain v w where v: "ExtractLocal x j path contents True = (None, v)" "readVolume v = ((bytes, None), w)"
    by (auto simp: volumeCodec_def split: prod.splits option.splits) (metis prod.collapse)
  show ?thesis using authentic [OF v(1) [unfolded ExtractLocal_def] v(2) _ _ assms(2,3)] by (simp add: zeroVolume_def)
qed

text \<open>What an upload reads of a closed volume is what is in its file.\<close>

lemma OpenVolume_reads:
  assumes "OpenVolume None v = (None, v')" "\<not> vIsOpened v" "vPgpr v = None" "vCmd v = None" "vWhole v" "\<not> vCmdWaited v"
  shows "fst (readVolume v') = (vStored v, None)"
proof -
  let ?w = "v\<lparr>vFw := True, vR := Some (fileSource (vStored v) None), vIsClosed := False, vIsOpened := True\<rparr>"
  have "v' = ?w" using assms(1,2) by (simp add: OpenVolume_def)
  moreover have "fst (readVolume ?w) = (vStored v, None)"
    by (rule read_returns [of _ "fileSource (vStored v) None"]) (use assms in \<open>simp_all add: gives_def fileSource_def verified_def\<close>)
  ultimately show ?thesis by simp
qed

section \<open>The volumes of the splitter\<close>

text \<open>
  The splitter of \<open>SendStream\<close> with the contents that volumes have: what it hands on is what \<^verbatim>\<open>CreateBackupVolume\<close>,
  the writes and \<^verbatim>\<open>Close\<close> make of the bytes.
\<close>

definition volumeSplit :: "volumeEnv \<Rightarrow> JobInfo \<Rightarrow> splitEnv \<Rightarrow> splitEnv" where
  "volumeSplit env j se = se\<lparr>seSha256 := veSha256 env, seMd5 := veMd5 env, seCrc32c := veCrc32c env, seContents := (\<lambda>n. pack env j False)\<rparr>"

lemma volumeHolds_info [simp]: "volumeHolds (v\<lparr>vInfo := i\<rparr>) s = volumeHolds v s"
  by (simp add: volumeHolds_def split: option.split)

text \<open>
  C38. The splitter's record of a volume is true of the volume: the number, name, size and checksums that
  \<^verbatim>\<open>sendStream\<close> puts into the manifest for some bytes of the stream are the ones of the file or pipe that
  these bytes were written to, once it was closed without an error.
\<close>

theorem finishedVolume_true:
  assumes "CreateBackupVolume env j n = Inr v" "lawfulEnv env" "Volume_Close env (writeAll env ps v) = (None, v')"
    and "length (pack env j False (concat ps)) < 2 ^ 64"
  shows "finishedVolume (volumeSplit env j se) j sofar lastTotal n (concat ps)
    = (vInfo v')\<lparr>VolStreamBytes := of_nat (length sofar) - lastTotal, StreamSHA256 := veSha256 env sofar\<rparr>
    \<and> vStored v' = pack env j False (concat ps)"
proof -
  obtain v0 where v0: "prepareVolume env j (MaxFileBuffer j = 0) False = Inr v0"
    and v: "v = v0\<lparr>vInfo := (vInfo v0)\<lparr>VolumeNumber := n, ObjectName := BackupVolumeObjectName j n\<rparr>\<rparr>"
    using assms(1) by (auto simp: CreateBackupVolume_def split: sum.splits)
  note p = prepareVolume_holds [OF v0 assms(2)]
  let ?w = "writeAll env ps v"
  have holds: "volumeHolds v []" "vIsClosed v = False" "vPgpw v = vPgpw v0" "vCw v = vCw v0" using p v by simp_all
  have w: "volumeHolds ?w (concat ps)" "\<not> vIsClosed ?w" "vInfo ?w = vInfo v"
    "pack env j False (concat ps) = wholeOf (map_option fst (vPgpw ?w)) (wholeOf (map_option fst (vCw ?w)) (concat ps))"
    using writeAll_holds [OF holds(1), of env ps] holds p aboveSink_fields(4,5) [of ?w v] by (simp_all add: pack_def)
  have "vInfo v = (vInfo zeroVolume)\<lparr>VolumeNumber := n, ObjectName := BackupVolumeObjectName j n\<rparr>" using v p by simp
  then show ?thesis using Volume_Close_ok [OF assms(3) w(1,2,4) assms(4)] w(3)
    by (simp add: finishedVolume_def volumeSplit_def zeroVolume_def Let_def)
qed

section \<open>Copies\<close>

lemma copyInto_ok: "copyInto env (cs, e) v = (None, v') \<Longrightarrow> e = None \<and> v' = writeAll env cs v"
proof (induction cs arbitrary: v)
  case (Cons c cs)
  obtain err w where w: "Volume_Write env c v = (err, w)" by fastforce
  then have "err = None" "copyInto env (cs, e) w = (None, v')" using Cons.prems by (simp_all split: option.splits)
  then show ?case using Cons.IH [of w] w by (simp add: writeAll_def)
qed (simp add: writeAll_def)

lemma simple_holds:
  assumes "CreateSimpleVolume env False = Inr v"
  shows "volumeHolds v []" "\<not> vIsClosed v" "vPgpw v = None" "vCw v = None" "\<not> vUsingPipe v"
  using assms by (auto simp: CreateSimpleVolume_def zeroVolume_def volumeHolds_def pgpHolds_def sinkHolds_def bufOk_def split: sum.splits)

text \<open>
  A cached manifest that is uploaded again is unchanged: a volume that \<^verbatim>\<open>LoadVolume\<close> returns holds exactly the
  bytes of the file, which was read to its end, with their size and checksums and the object's name.
\<close>

theorem LoadVolume_copies:
  assumes "LoadVolume env (Inr src) name isManifest = (Inr v, made)" "length (concat (fst src)) < 2 ^ 64"
  shows "vStored v = concat (fst src) \<and> snd src = None \<and> ObjectName (vInfo v) = name \<and> IsManifest (vInfo v) = isManifest
    \<and> VolSize (vInfo v) = of_nat (length (vStored v)) \<and> SHA256Sum (vInfo v) = veSha256 env (vStored v) \<and> MD5Sum (vInfo v) = veMd5 env (vStored v)"
proof -
  obtain cs e where src: "src = (cs, e)" by fastforce
  obtain v0 where v0: "CreateSimpleVolume env False = Inr v0" using assms(1) by (auto simp: LoadVolume_def split: sum.splits)
  obtain err v1 where copy: "copyInto env (cs, e) v0 = (err, v1)" by fastforce
  obtain err2 v2 where cl: "Volume_Close env v1 = (err2, v2)" by fastforce
  note run = assms(1) [unfolded LoadVolume_def src sum.case v0 copy cl prod.case]
  have ok: "err = None" "err2 = None" "v = v2\<lparr>vInfo := (vInfo v2)\<lparr>ObjectName := name, IsManifest := isManifest\<rparr>\<rparr>"
    using run cl by (auto simp: Let_def split: option.splits)
  note c = copyInto_ok [OF copy [unfolded ok(1)]]
  note w = writeAll_holds [OF simple_holds(1) [OF v0], of env cs] simple_holds [OF v0]
  have "concat cs = wholeOf (map_option fst (vPgpw v1)) (wholeOf (map_option fst (vCw v1)) (concat cs))" "volumeHolds v1 (concat cs)" "\<not> vIsClosed v1"
    using w c aboveSink_fields(4) [of v1 v0] by (simp_all add: wholeOf_def)
  from Volume_Close_ok [OF cl [unfolded ok(2)] this(2,3,1)] show ?thesis using assms(2) ok(3) c src by simp
qed

section \<open>A decompressor that fails\<close>

lemma Volume_Close_command:
  assumes "vCmd v = Some cmd" "\<not> vCmdWaited v" "cmdExit cmd = Some e" "\<not> vPw v" "\<not> vIsClosed v" "vCw v = None"
  shows "fst (Volume_Close env v) \<noteq> None"
proof
  let ?v = "v\<lparr>vIsOpened := False\<rparr>"
  assume none: "fst (Volume_Close env v) = None"
  obtain e2 v2 where c2: "closeDecompressor env (closeCompressor env ?v) = (e2, v2)" by fastforce
  obtain e3 v3 where c3: "closePgp env (e2, v2) = (e3, v3)" by fastforce
  obtain e4 v4 where c4: "closeBuffer env (e3, v3) = (e4, v4)" by fastforce
  obtain e5 v5 where c5: "closeFile env (e4, v4) = (e5, v5)" by fastforce
  obtain e6 v6 where c6: "closePipe env (e5, v5) = (e6, v6)" by fastforce
  have "e6 = None" using none assms(5) unfolding Volume_Close_def c2 c3 c4 c5 c6 prod.case by (cases e6) simp_all
  then have "e2 = None" using close_first c3 c4 c5 c6 by metis
  then show False using c2 assms by (simp add: closeDecompressor_def closeCompressor_def readerOwned_def Let_def)
qed

text \<open>
  Without keys, reading a volume through an external decompressor that exits with an error ends like a
  complete volume; only \<^verbatim>\<open>Close\<close> reports the error.
\<close>

theorem unsigned_decompressor_failure:
  assumes "vPgpr v = None" "vR v = Some (cs, None)" "vCmd v = Some cmd" "cmdExit cmd = Some e" "\<not> vCmdWaited v" "\<not> vPw v" "\<not> vIsClosed v" "vCw v = None"
  shows "fst (readVolume v) = (concat cs, None) \<and> fst (Volume_Close env (snd (readVolume v))) \<noteq> None"
proof -
  let ?w = "v\<lparr>vR := Some ([], None)\<rparr>"
  have "readVolume v = readVolume (v\<lparr>vR := Some (cs, None)\<rparr>)" using assms(2) by (cases v) simp
  then have "readVolume v = ((concat cs, None), ?w)"
    using readVolume_chunks [of cs None v] readVolume_end [of None v] Volume_Read_plain [OF assms(1)] by simp
  moreover have "fst (Volume_Close env ?w) \<noteq> None" by (rule Volume_Close_command [of _ cmd e]) (use assms in simp_all)
  ultimately show ?thesis by simp
qed

section \<open>A concrete volume\<close>

text \<open>A gzip that only adds its first byte, a message that is a letter, the keys and the body, and a disk with room.\<close>

definition exGzip :: encoder where
  "exGzip = \<lparr>encSoFar = (\<lambda>s. []), encWhole = (\<lambda>s. CHR 0x1F # s)\<rparr>"

definition exPgp :: encoder where
  "exPgp = \<lparr>encSoFar = (\<lambda>s. ''P'' @ s), encWhole = (\<lambda>s. ''P'' @ s)\<rparr>"

definition exVolumeEnv :: volumeEnv where
  "exVolumeEnv = \<lparr>veGzip = (\<lambda>level. exGzip), veCommand = (\<lambda>c level. Inl ''not found''),
     vePgpWriter = (\<lambda>encrypt signer. if encrypt = Some ''E'' \<and> signer = Some ''S'' then Inr exPgp else Inl ''no key''),
     veTemp = Inr ''tmp'', veRoom = 100, veFullErr = ''full'', veKept = 100, veCwErr = None, veRwErr = None, vePgpErr = None, veFwErr = None,
     veStatErr = None, veRemoveErr = None, vePwErr = None, vePrErr = None, veSha256 = rev, veMd5 = rev, veSha1 = rev, veCrc32c = (\<lambda>s. 0)\<rparr>"

definition exExtractEnv :: extractEnv where
  "exExtractEnv = \<lparr>xeOpenErr = None,
     xeReadMessage = (\<lambda>src. case concat (fst src) of
         [] \<Rightarrow> Inl (NoMessage ''EOF'')
       | c # s \<Rightarrow> if c = CHR ''P'' then Inr \<lparr>mdIsEncrypted = True, mdIsSigned = True, mdSignatureError = None, mdSignedBy = Some ''S'', mdBody = ([s], snd src)\<rparr>
                   else Inl KeyIncorrect),
     xeGunzip = (\<lambda>src. case concat (fst src) of [] \<Rightarrow> Inl ''EOF'' | c # s \<Rightarrow> if c = CHR 0x1F then Inr (([s], snd src), True) else Inl ''invalid header''),
     xeCommand = (\<lambda>c src. Inr (([], None), \<lparr>cmdPath = c, cmdInEof = True, cmdExit = Some ''corrupt''\<rparr>))\<rparr>"

definition exKeyJob :: JobInfo where
  "exKeyJob = exSendJob\<lparr>Compressor := InternalCompressor, EncryptKey := Some ''E'', SignKey := Some ''S''\<rparr>"

definition exPrepared :: volume where
  "exPrepared = (case CreateBackupVolume exVolumeEnv exKeyJob 1 of Inr v \<Rightarrow> v | Inl e \<Rightarrow> zeroVolume)"

definition exClosed :: "string option \<times> volume" where
  "exClosed = Volume_Close exVolumeEnv (writeAll exVolumeEnv [''ab'', ''c''] exPrepared)"

lemma ex_lawful: "lawfulEnv exVolumeEnv"
  by (simp add: lawfulEnv_def lawfulEncoder_def exVolumeEnv_def exGzip_def exPgp_def hasPrefix_def)

lemma ex_reads_back: "gzipReadsBack exVolumeEnv exExtractEnv" "commandReadsBack exVolumeEnv exExtractEnv" "pgpReadsBack exVolumeEnv exExtractEnv"
  by (auto simp: gzipReadsBack_def commandReadsBack_def pgpReadsBack_def exVolumeEnv_def exExtractEnv_def exGzip_def exPgp_def gives_def split: if_splits)

lemmas ex_volume_defs = exVolumeEnv_def exGzip_def exPgp_def exKeyJob_def exSendJob_def exKept_def zeroJobInfo_def zeroManifest_def zeroVolume_def Manifest.extend_def

lemma ex_sink: "vBufErr v = None \<Longrightarrow> vBufw v = Some buf \<Longrightarrow> length buf + length p \<le> 100 \<Longrightarrow> sinkWrite env p v =
    (None, v\<lparr>vBufw := Some (buf @ p), vCounter := map_option (\<lambda>c. c + of_nat (length p)) (vCounter v), vHashed := map_option (\<lambda>h. h @ p) (vHashed v)\<rparr>)"
proof -
  assume v: "vBufErr v = None" "vBufw v = Some buf" "length buf + length p \<le> 100"
  then have "length p \<le> BufferSize - length buf" by (simp add: BufferSize_def)
  then show ?thesis using v by (simp add: sinkWrite_def bufWrite_def Let_def)
qed

lemmas ex_close_defs = Volume_Write_def pgpWrite_def ex_sink Volume_Close_def closeCompressor_def closeDecompressor_def closePgp_def closeBuffer_def
  bufFlush_def rawWrite_def closeFile_def closePipe_def recordMetrics_def readerOwned_def keepFirst_def ex_volume_defs Let_def

lemma ex_prepared: "CreateBackupVolume exVolumeEnv exKeyJob 1 = Inr exPrepared"
  "exPrepared = zeroVolume\<lparr>vInfo := (vInfo zeroVolume)\<lparr>VolumeNumber := 1, ObjectName := BackupVolumeObjectName exKeyJob 1\<rparr>, vFilename := ''tmp'', vOnDisk := True,
     vBufw := Some ''P'', vCounter := Some 1, vHashed := Some ''P'', vPgpw := Some (exPgp, []), vCw := Some (exGzip, []), vFw := True\<rparr>"
  by (simp_all add: exPrepared_def CreateBackupVolume_def prepareVolume_def CreateSimpleVolume_def startPgp_def startCompressor_def
      volumeCompressor_def pgpWrite_def ex_sink ex_volume_defs Let_def)

lemma ex_closed: "fst exClosed = None" "vStored (snd exClosed) = [CHR ''P'', CHR 0x1F, CHR ''a'', CHR ''b'', CHR ''c'']"
  by (simp_all add: exClosed_def ex_prepared(2) writeAll_def ex_close_defs)

lemma ex_close_run: "Volume_Close exVolumeEnv (writeAll exVolumeEnv [''ab'', ''c''] exPrepared) = (None, snd exClosed)"
  using ex_closed(1) unfolding exClosed_def by (metis prod.collapse)

lemma ex_pack: "length (pack exVolumeEnv exKeyJob False (concat [''ab'', ''c''])) < 2 ^ 64"
  by (simp add: pack_def packPgp_def packCompressor_def volumeCompressor_def wholeOf_def ex_volume_defs)

lemma finishedVolume_true_witness:
  "VolSize (finishedVolume (volumeSplit exVolumeEnv exKeyJob exSplit) exKeyJob ''abc'' 0 1 (concat [''ab'', ''c''])) = VolSize (vInfo (snd exClosed))"
  using finishedVolume_true [OF ex_prepared(1) ex_lawful ex_close_run ex_pack] by simp

definition exRaw :: volume where
  "exRaw = (case prepareVolume exVolumeEnv exKeyJob False False of Inr v \<Rightarrow> v | Inl e \<Rightarrow> zeroVolume)"

lemma ex_raw: "prepareVolume exVolumeEnv exKeyJob False False = Inr exRaw"
  "exRaw = zeroVolume\<lparr>vFilename := ''tmp'', vOnDisk := True,
     vBufw := Some ''P'', vCounter := Some 1, vHashed := Some ''P'', vPgpw := Some (exPgp, []), vCw := Some (exGzip, []), vFw := True\<rparr>"
  by (simp_all add: exRaw_def prepareVolume_def CreateSimpleVolume_def startPgp_def startCompressor_def
      volumeCompressor_def pgpWrite_def ex_sink ex_volume_defs Let_def)

definition exRawClosed :: "string option \<times> volume" where
  "exRawClosed = Volume_Close exVolumeEnv (writeAll exVolumeEnv [''ab'', ''c''] exRaw)"

lemma ex_raw_closed: "Volume_Close exVolumeEnv (writeAll exVolumeEnv [''ab'', ''c''] exRaw) = (None, snd exRawClosed)"
  by (simp add: exRawClosed_def ex_raw(2) writeAll_def ex_close_defs)

lemma closed_volume_complete_witness: "vStored (snd exRawClosed) = [CHR ''P'', CHR 0x1F, CHR ''a'', CHR ''b'', CHR ''c'']"
  using closed_volume_complete [OF ex_raw(1) ex_lawful ex_raw_closed ex_pack]
  by (simp add: pack_def packPgp_def packCompressor_def volumeCompressor_def wholeOf_def ex_volume_defs)

lemma volume_roundtrip_witness:
  "\<exists>r. ExtractLocal exExtractEnv exKeyJob ''f'' (vStored (snd exRawClosed)) False = (None, r) \<and> fst (readVolume r) = (''abc'', None)"
proof -
  have "xeOpenErr exExtractEnv = None" "CheckDecompressor (Compressor exKeyJob) (TrustedCompressor exKeyJob) = None"
    by (simp_all add: exExtractEnv_def CheckDecompressor_def exKeyJob_def)
  from volume_roundtrip [OF ex_raw(1) ex_lawful ex_raw_closed ex_pack ex_reads_back this] show ?thesis by simp
qed

definition exForged :: volume where
  "exForged = zeroVolume\<lparr>vStored := [CHR ''P'', CHR 0x1F, CHR ''a'']\<rparr>"

lemma ex_gunzip: "gzipReadsToEnd exExtractEnv"
  by (auto simp: gzipReadsToEnd_def exExtractEnv_def split: list.splits if_splits)

lemma manifest_authentic_witness:
  "readManifest (volumeCodec exExtractEnv exKeyJob ''f'' exCodec) (vStored exForged) = Inr exManifest
   \<and> (\<exists>md. xeReadMessage exExtractEnv (fileSource (vStored exForged) None) = Inr md \<and> mdIsEncrypted md)"
proof -
  have run: "readManifest (volumeCodec exExtractEnv exKeyJob ''f'' exCodec) (vStored exForged) = Inr exManifest" by code_simp
  have "EncryptKey exKeyJob \<noteq> None \<or> SignKey exKeyJob \<noteq> None" by (simp add: exKeyJob_def)
  from manifest_authentic [OF run this ex_gunzip] run show ?thesis by (auto simp: exKeyJob_def)
qed

definition exXz :: volume where
  "exXz = snd (Extract exExtractEnv (exSendJob\<lparr>Compressor := ''xz''\<rparr>) False (zeroVolume\<lparr>vStored := ''x''\<rparr>))"

lemma ex_xz: "fst (Extract exExtractEnv (exSendJob\<lparr>Compressor := ''xz''\<rparr>) False (zeroVolume\<lparr>vStored := ''x''\<rparr>)) = None"
  "vCmd exXz = Some \<lparr>cmdPath = ''xz'', cmdInEof = True, cmdExit = Some ''corrupt''\<rparr>" "vR exXz = Some ([], None)" "vPgpr exXz = None"
  "\<not> vCmdWaited exXz" "\<not> vPw exXz" "\<not> vIsClosed exXz" "vCw exXz = None"
  by code_simp+

lemma Extract_trusted_command_witness: "''xz'' \<in> set knownDecompressors \<or> ''xz'' = TrustedCompressor exSendJob"
proof -
  have "Extract exExtractEnv (exSendJob\<lparr>Compressor := ''xz''\<rparr>) False (zeroVolume\<lparr>vStored := ''x''\<rparr>) = (None, exXz)"
    using ex_xz(1) unfolding exXz_def by (metis prod.collapse)
  from Extract_trusted_command [OF this _ ex_xz(2)] show ?thesis by (simp add: zeroVolume_def)
qed

lemma unsigned_decompressor_failure_witness: "fst (readVolume exXz) = ([], None) \<and> fst (Volume_Close exVolumeEnv (snd (readVolume exXz))) \<noteq> None"
  using unsigned_decompressor_failure [OF ex_xz(4,3,2) _ ex_xz(5-8), of "''corrupt''" exVolumeEnv] by simp

definition exLoaded :: "(string + volume) \<times> volume option" where
  "exLoaded = LoadVolume exVolumeEnv (Inr ([''ab'', ''c''], None)) ''m'' True"

lemma ex_loaded: "\<exists>v. fst exLoaded = Inr v"
  by (simp add: exLoaded_def LoadVolume_def CreateSimpleVolume_def ex_close_defs)

lemma LoadVolume_copies_witness: "\<exists>v. fst exLoaded = Inr v \<and> vStored v = ''abc''"
proof -
  obtain v where v: "fst exLoaded = Inr v" using ex_loaded by blast
  then have "LoadVolume exVolumeEnv (Inr ([''ab'', ''c''], None)) ''m'' True = (Inr v, snd exLoaded)" unfolding exLoaded_def by (metis prod.collapse)
  from LoadVolume_copies [OF this] show ?thesis using v by simp
qed

definition exFailed :: "string option \<times> volume" where
  "exFailed = Volume_Close (exVolumeEnv\<lparr>veRoom := 1\<rparr>) (writeAll exVolumeEnv [''ab'', ''c''] exRaw)"

lemma ex_failed: "fst exFailed = Some ''full''"
  by (simp add: exFailed_def ex_raw(2) writeAll_def ex_close_defs)

lemma failed_close_witness: "vInfo (snd exFailed) = vInfo zeroVolume"
proof -
  let ?w = "writeAll exVolumeEnv [''ab'', ''c''] exRaw"
  have run: "Volume_Close (exVolumeEnv\<lparr>veRoom := 1\<rparr>) ?w = (Some ''full'', snd exFailed)" using ex_failed unfolding exFailed_def by (metis prod.collapse)
  have "vInfo ?w = vInfo zeroVolume" "\<not> vIsClosed ?w"
    by (simp_all add: ex_raw(2) writeAll_def Volume_Write_def pgpWrite_def ex_sink ex_volume_defs)
  then show ?thesis using failed_close [OF run] by simp
qed

end
