(* ===== verification/Fixtures.thy ===== *)
theory Fixtures
  imports Checks Zfs
begin

text \<open>
  Scenario files (\<^verbatim>\<open>backup/plan_fixtures.go\<close>): the backups of a destination as text, the settings of a
  simulation, and the creation times that snapshots known only by name take from the manifests. Go's
  parsers of durations and times, the zone database and the flag library are parameters.
\<close>

section \<open>Creation times from the manifests\<close>

definition newestTime :: "Scenario \<Rightarrow> time" where
  "newestTime s = foldl max zeroTime
     (map CreationTime (Snapshots s)
      @ concat (map (\<lambda>m. [CreationTime (BaseSnapshot m), CreationTime (IncrementalSnapshot m)]) (concat (DestBackups s))))"

definition adoptWindow :: duration where "adoptWindow = 10 * minute"

definition recordTime :: "(string \<Rightarrow> time list) \<Rightarrow> SnapshotInfo \<Rightarrow> string \<Rightarrow> time list" where
  "recordTime recorded snap =
     (if Name snap \<noteq> [] \<and> CreationTime snap \<notin> set (recorded (Name snap))
      then recorded(Name snap := recorded (Name snap) @ [CreationTime snap]) else recorded)"

definition namedSnapshots :: "Manifest list list \<Rightarrow> SnapshotInfo list" where
  "namedSnapshots dests = concat (map (\<lambda>m. [BaseSnapshot m, IncrementalSnapshot m]) (concat dests))"

definition recordedTimes :: "Manifest list list \<Rightarrow> string \<Rightarrow> time list" where
  "recordedTimes dests = foldl recordTime (\<lambda>name. []) (namedSnapshots dests)"

definition adoptOne :: "(string \<Rightarrow> time list) \<Rightarrow> string list \<Rightarrow> SnapshotInfo \<Rightarrow> SnapshotInfo \<times> adoption_warning option \<times> bool" where
  "adoptOne recorded nameDated snap =
     (case recorded (Name snap) of
        [] \<Rightarrow> (snap, None, False)
      | t # others \<Rightarrow>
          if Name snap \<notin> set nameDated then (snap, None, False)
          else if others \<noteq> [] then (snap, Some (DestinationsDisagree (Name snap) (sort (t # others))), False)
          else let lag = time_sub t (CreationTime snap)
               in if lag < 0 \<or> lag > adoptWindow then (snap, Some (NotWithinWindow (Name snap) t (CreationTime snap)), False)
                  else if t \<noteq> CreationTime snap then (snap\<lparr>CreationTime := t\<rparr>, None, True)
                  else (snap, None, False))"

definition AdoptCreationTimes :: "Scenario \<Rightarrow> nat \<times> Scenario" where
  "AdoptCreationTimes s =
     (let s = s\<lparr>AdoptionWarnings := []\<rparr>
      in if NameDated s = [] then (0, s)
         else let results = map (adoptOne (recordedTimes (DestBackups s)) (NameDated s)) (Snapshots s);
                  adopted = length (filter (\<lambda>(_, _, a). a) results);
                  s = s\<lparr>Snapshots := map fst results, AdoptionWarnings := List.map_filter (\<lambda>(_, w, _). w) results\<rparr>
              in (adopted, if adopted > 0 then s\<lparr>Snapshots := newestFirstSort (Snapshots s)\<rparr> else s))"

section \<open>Backups as text\<close>

datatype fixture_error =
    WantNameEpoch string
  | InvalidEpoch string string
  | NoTimeFor string
  | InLine nat fixture_error
  | FileTooLong
  | BadListing list_error
  | WantKeyValue string
  | InvalidSetting string string
  | UnknownSetting string
  | UnknownCheck string
  | BadPolicy policy_error
  | DelayNeedsPolicy
  | WantRange
  | RangeEndsEarly
  | WantTime string
  | NeedsUntil
  | UntilBeforeFrom
  | FileFailed string
  | BothSnapshotFiles
  | BadFlags string
  | UnexpectedArgument string
  | SmartOptions smart_option_error

definition resolveSnapshot :: "environment \<Rightarrow> Scenario \<Rightarrow> string list \<Rightarrow> fixture_error + SnapshotInfo" where
  "resolveSnapshot env s fs =
     (let name = fs ! 0; bm = containsStr name ''#'';
          snap = zeroSnapshot\<lparr>Bookmark := bm, Name := afterFirst (if bm then CHR ''#'' else CHR ''@'') name\<rparr>
      in if fs = [] \<or> length fs > 2 then Inl (WantNameEpoch (joinWith fs '' ''))
         else if length fs = 2
         then (case parseInt64 (fs ! 1) of
                 None \<Rightarrow> Inl (InvalidEpoch (fs ! 1) name)
               | Some n \<Rightarrow> Inr (snap\<lparr>CreationTime := epoch n\<rparr>))
         else case List.find (\<lambda>x. Name x = Name snap) (Snapshots s) of
                Some x \<Rightarrow> Inr (snap\<lparr>CreationTime := CreationTime x\<rparr>)
              | None \<Rightarrow>
                  (case SnapshotNameTime (Scenario_location env s) (Name snap) of
                     Some t \<Rightarrow> Inr (snap\<lparr>CreationTime := t\<rparr>)
                   | None \<Rightarrow> Inl (NoTimeFor name)))"

definition parseManifest :: "environment \<Rightarrow> Scenario \<Rightarrow> string \<Rightarrow> fixture_error + Manifest" where
  "parseManifest env s line =
     (let fs = Prelude.fields line;
          isRaw = (length fs > 1 \<and> last fs = ''raw'');
          fs = (if isRaw then butlast fs else fs);
          m = zeroManifest\<lparr>VolumeName := Volume s, Raw := isRaw\<rparr>;
          before = takeWhile (\<lambda>f. f \<noteq> ''to'') fs
      in if length before < length fs
         then (case resolveSnapshot env s before of
                 Inl err \<Rightarrow> Inl err
               | Inr source \<Rightarrow>
                   (case resolveSnapshot env s (drop (length before + 1) fs) of
                      Inl err \<Rightarrow> Inl err
                    | Inr base \<Rightarrow> Inr (m\<lparr>IncrementalSnapshot := source, BaseSnapshot := base\<rparr>)))
         else case resolveSnapshot env s fs of
                Inl err \<Rightarrow> Inl err
              | Inr base \<Rightarrow> Inr (m\<lparr>BaseSnapshot := base\<rparr>))"

fun readManifestLines :: "environment \<Rightarrow> Scenario \<Rightarrow> nat \<Rightarrow> string list \<Rightarrow> Manifest list list \<Rightarrow> fixture_error + Manifest list list" where
  "readManifestLines env s lineNo [] dests = Inr dests"
| "readManifestLines env s lineNo (l # ls) dests =
     (let line = StripComment l
      in if line = [] then readManifestLines env s (lineNo + 1) ls dests
         else if line = ''---'' then readManifestLines env s (lineNo + 1) ls (dests @ [[]])
         else case parseManifest env s line of
                Inl err \<Rightarrow> Inl (InLine lineNo err)
              | Inr m \<Rightarrow> readManifestLines env s (lineNo + 1) ls (butlast dests @ [last dests @ [m]]))"

definition ReadManifests :: "environment \<Rightarrow> Scenario \<Rightarrow> string \<Rightarrow> fixture_error + Scenario" where
  "ReadManifests env s text =
     (let (ls, tooLong) = scanLines text
      in case readManifestLines env s 1 ls [[]] of
           Inl err \<Rightarrow> Inl err
         | Inr dests \<Rightarrow> if tooLong then Inl FileTooLong else Inr (s\<lparr>DestBackups := map sortBackupsNewestFirst dests\<rparr>))"

definition ReadSnapshots :: "(string \<Rightarrow> string + (string \<times> string \<times> string) list) \<Rightarrow> environment \<Rightarrow> Scenario \<Rightarrow> string \<Rightarrow> fixture_error + Scenario" where
  "ReadSnapshots json env s text =
     (case ParseListing json (Scenario_location env s) text of
        Inl err \<Rightarrow> Inl (BadListing err)
      | Inr l \<Rightarrow> Inr (s\<lparr>Snapshots := newestFirstSort (lSnapshots l), CaptureDataset := lDataset l, NameDated := lNameDated l\<rparr>))"

section \<open>The settings of a simulation\<close>

text \<open>\<^verbatim>\<open>time.ParseDuration\<close>, \<^verbatim>\<open>time.Parse\<close> for the three layouts, and \<^verbatim>\<open>time.LoadLocation\<close>.\<close>

record timeParsers =
  tpDuration :: "string \<Rightarrow> duration option"
  tpRFC3339 :: "string \<Rightarrow> time option"
  tpDateTime :: "string \<Rightarrow> civil option"
  tpDate :: "string \<Rightarrow> civil option"
  tpLocation :: "string \<Rightarrow> location option"

definition inZone :: "location \<Rightarrow> civil \<Rightarrow> time" where
  "inZone loc c = wallClock loc (Year c) (Month c) (Day c) (Hour c) (Minute c) (Second c) (Nanosecond c)"

definition parseTimeDetail :: "timeParsers \<Rightarrow> environment \<Rightarrow> Scenario \<Rightarrow> string \<Rightarrow> fixture_error + time \<times> bool" where
  "parseTimeDetail tp env s value =
     (let loc = Scenario_location env s
      in if value = [] then Inr (zeroTime, False)
         else case tpRFC3339 tp value of
                Some t \<Rightarrow> Inr (t, False)
              | None \<Rightarrow>
                  (case tpDateTime tp value of
                     Some c \<Rightarrow> Inr (inZone loc c, False)
                   | None \<Rightarrow>
                       (case tpDate tp value of
                          Some c \<Rightarrow> Inr (inZone loc c, True)
                        | None \<Rightarrow> Inl (WantTime value))))"

definition parseTime :: "timeParsers \<Rightarrow> environment \<Rightarrow> Scenario \<Rightarrow> string \<Rightarrow> fixture_error + time" where
  "parseTime tp env s value = (case parseTimeDetail tp env s value of Inl err \<Rightarrow> Inl err | Inr (t, _) \<Rightarrow> Inr t)"

definition parseSkip :: "timeParsers \<Rightarrow> environment \<Rightarrow> Scenario \<Rightarrow> string \<Rightarrow> fixture_error + TimeRange" where
  "parseSkip tp env s value =
     (case cutStr value ''..'' of
        None \<Rightarrow> Inl WantRange
      | Some (first, final) \<Rightarrow>
          if trimSpace first = [] \<or> trimSpace final = [] then Inl WantRange
          else (case parseTimeDetail tp env s (trimSpace first) of
                  Inl err \<Rightarrow> Inl err
                | Inr (a, _) \<Rightarrow>
                    (case parseTimeDetail tp env s (trimSpace final) of
                       Inl err \<Rightarrow> Inl err
                     | Inr (b, dateOnly) \<Rightarrow>
                         if b < a then Inl RangeEndsEarly
                         else let loc = Scenario_location env s; c = inLocation loc b
                              in Inr \<lparr>RangeFrom = a,
                                      RangeUntil = (if dateOnly then wallClock loc (Year c) (Month c) (Day c + 1) 0 0 0 0 else b + 1)\<rparr>)))"

text \<open>The values that are read only once the whole text was, and the key whose list goes on.\<close>

record specState =
  spScenario :: Scenario
  spPolicy :: "string list"
  spFrom :: string
  spUntil :: string
  spSkips :: "string list"
  spDelay :: duration
  spListKey :: string

definition specSetting :: "timeParsers \<Rightarrow> string \<Rightarrow> string \<Rightarrow> string \<Rightarrow> specState \<Rightarrow> fixture_error + specState" where
  "specSetting tp item key value st =
     (let st = st\<lparr>spListKey := key\<rparr>; s = spScenario st
      in if key = ''policy'' then Inr (st\<lparr>spPolicy := spPolicy st @ [value]\<rparr>)
         else if key = ''snapshot-delay''
         then (case tpDuration tp value of
                 Some d \<Rightarrow> if d < 0 then Inl (InvalidSetting key value) else Inr (st\<lparr>spDelay := d\<rparr>)
               | None \<Rightarrow> Inl (InvalidSetting key value))
         else if key = ''checks'' then Inr (st\<lparr>spScenario := s\<lparr>Checks := Checks s @ [value]\<rparr>\<rparr>)
         else if key = ''from'' then Inr (st\<lparr>spFrom := value\<rparr>)
         else if key = ''until'' then Inr (st\<lparr>spUntil := value\<rparr>)
         else if key = ''every''
         then (case tpDuration tp value of
                 Some d \<Rightarrow> if d \<le> 0 then Inl (InvalidSetting key value) else Inr (st\<lparr>spScenario := s\<lparr>Every := d\<rparr>\<rparr>)
               | None \<Rightarrow> Inl (InvalidSetting key value))
         else if key = ''skip'' then Inr (st\<lparr>spSkips := spSkips st @ [value]\<rparr>)
         else if key = ''volume'' then Inr (st\<lparr>spScenario := s\<lparr>Volume := value\<rparr>\<rparr>)
         else if key = ''location''
         then (case tpLocation tp value of
                 Some loc \<Rightarrow> Inr (st\<lparr>spScenario := s\<lparr>Location := Some loc\<rparr>\<rparr>)
               | None \<Rightarrow> Inl (InvalidSetting key value))
         else if periodLength key = 0 then Inl (UnknownSetting key)
         else Inr (st\<lparr>spPolicy := spPolicy st @ [item]\<rparr>))"

fun specItems :: "timeParsers \<Rightarrow> string list \<Rightarrow> specState \<Rightarrow> fixture_error + specState" where
  "specItems tp [] st = Inr st"
| "specItems tp (i # is) st =
     (let item = trimSpace i
      in if item = [] then specItems tp is st
         else case cutStr item ''='' of
                None \<Rightarrow>
                  if spListKey st \<noteq> ''checks'' then Inl (WantKeyValue item)
                  else specItems tp is (st\<lparr>spScenario := (spScenario st)\<lparr>Checks := Checks (spScenario st) @ [item]\<rparr>\<rparr>)
              | Some (key, value) \<Rightarrow>
                  (case specSetting tp item (trimSpace key) (trimSpace value) st of
                     Inl err \<Rightarrow> Inl err
                   | Inr st \<Rightarrow> specItems tp is st))"

fun parseSkips :: "timeParsers \<Rightarrow> environment \<Rightarrow> Scenario \<Rightarrow> string list \<Rightarrow> fixture_error + TimeRange list" where
  "parseSkips tp env s [] = Inr []"
| "parseSkips tp env s (v # vs) =
     (case parseSkip tp env s v of
        Inl err \<Rightarrow> Inl (InvalidSetting ''skip'' v)
      | Inr r \<Rightarrow> (case parseSkips tp env s vs of Inl err \<Rightarrow> Inl err | Inr rs \<Rightarrow> Inr (r # rs)))"

definition specSchedule :: "specState \<Rightarrow> fixture_error + Scenario" where
  "specSchedule st =
     (let s = spScenario st
      in if spPolicy st \<noteq> []
         then (case ParseSchedule (joinWith (spPolicy st) '','') of
                 Inl err \<Rightarrow> Inl (BadPolicy err)
               | Inr schedule \<Rightarrow> Inr (s\<lparr>ScenarioSchedule := Some (schedule\<lparr>Delay := spDelay st\<rparr>)\<rparr>))
         else if spDelay st \<noteq> 0 then Inl DelayNeedsPolicy
         else Inr s)"

definition specTimes :: "timeParsers \<Rightarrow> environment \<Rightarrow> specState \<Rightarrow> Scenario \<Rightarrow> fixture_error + Scenario" where
  "specTimes tp env st s =
     (case parseTime tp env s (spFrom st) of
        Inl err \<Rightarrow> Inl (InvalidSetting ''from'' (spFrom st))
      | Inr a \<Rightarrow>
          (case parseTime tp env s (spUntil st) of
             Inl err \<Rightarrow> Inl (InvalidSetting ''until'' (spUntil st))
           | Inr b \<Rightarrow>
               (case parseSkips tp env s (spSkips st) of
                  Inl err \<Rightarrow> Inl err
                | Inr rs \<Rightarrow> Inr (s\<lparr>From := a, Until := b, Skips := Skips s @ rs\<rparr>))))"

definition ParseScheduleSpec :: "timeParsers \<Rightarrow> environment \<Rightarrow> string \<Rightarrow> Scenario \<Rightarrow> fixture_error + Scenario" where
  "ParseScheduleSpec tp env spec s =
     (let items = concat (map (\<lambda>line. splitOn (StripComment line) '','') (splitOn spec [CHR 0x0A]));
          start = \<lparr>spScenario = s, spPolicy = [], spFrom = [], spUntil = [], spSkips = [], spDelay = 0, spListKey = []\<rparr>
      in case specItems tp items start of
           Inl err \<Rightarrow> Inl err
         | Inr st \<Rightarrow>
             (case List.find (\<lambda>c. \<not> knownCheck c) (Checks (spScenario st)) of
                Some c \<Rightarrow> Inl (UnknownCheck c)
              | None \<Rightarrow>
                  (case specSchedule st of
                     Inl err \<Rightarrow> Inl err
                   | Inr s \<Rightarrow>
                       (case specTimes tp env st s of
                          Inl err \<Rightarrow> Inl err
                        | Inr s \<Rightarrow>
                            if (ScenarioSchedule s \<noteq> None \<or> From s \<noteq> zeroTime \<or> Every s \<noteq> 0 \<or> Skips s \<noteq> []) \<and> Until s = zeroTime then Inl NeedsUntil
                            else if From s \<noteq> zeroTime \<and> Until s < From s then Inl UntilBeforeFrom
                            else Inr (s\<lparr>ScenarioSchedule := map_option (\<lambda>sch. sch\<lparr>ScheduleLocation := Some (Scenario_location env s)\<rparr>) (ScenarioSchedule s)\<rparr>)))))"

section \<open>A scenario directory\<close>

definition defaultScenarioVolume :: string where "defaultScenarioVolume = ''tank/data''"

datatype scenarioFile = NoFile | OpenFails string | Contents string

text \<open>The flag library gives the job and the arguments that are no flags, or an error.\<close>

definition ParseSmartFlags :: "(string list \<Rightarrow> string + JobInfo \<times> string list) \<Rightarrow> string \<Rightarrow> fixture_error + JobInfo" where
  "ParseSmartFlags pflag text =
     (let (ls, tooLong) = scanLines text;
          args = concat (map (\<lambda>l. Prelude.fields (StripComment l)) ls)
      in if tooLong then Inl FileTooLong
         else case pflag args of
                Inl e \<Rightarrow> Inl (BadFlags e)
              | Inr (j, rest) \<Rightarrow>
                  (case rest of
                     a # _ \<Rightarrow> Inl (UnexpectedArgument a)
                   | [] \<Rightarrow> (case ValidateSmartOptions j of Some e \<Rightarrow> Inl (SmartOptions e) | None \<Rightarrow> Inr j)))"

definition scenarioSnapshotsFile :: "(string \<Rightarrow> scenarioFile) \<Rightarrow> fixture_error + string" where
  "scenarioSnapshotsFile dir =
     (if dir ''snapshots.json'' = NoFile then Inr ''snapshots.txt''
      else if dir ''snapshots.txt'' \<noteq> NoFile then Inl BothSnapshotFiles
      else Inr ''snapshots.json'')"

definition readScenarioFile ::
    "(string \<Rightarrow> scenarioFile) \<Rightarrow> string \<Rightarrow> bool \<Rightarrow> (string \<Rightarrow> fixture_error + Scenario) \<Rightarrow> Scenario \<Rightarrow> fixture_error + Scenario" where
  "readScenarioFile dir path required reader s =
     (case dir path of
        NoFile \<Rightarrow> if required then Inl (FileFailed path) else Inr s
      | OpenFails e \<Rightarrow> Inl (FileFailed e)
      | Contents text \<Rightarrow> reader text)"

definition LoadScenario ::
    "timeParsers \<Rightarrow> (string list \<Rightarrow> string + JobInfo \<times> string list) \<Rightarrow> (string \<Rightarrow> string + (string \<times> string \<times> string) list) \<Rightarrow> environment
      \<Rightarrow> (string \<Rightarrow> scenarioFile) \<Rightarrow> Scenario \<Rightarrow> fixture_error + Scenario" where
  "LoadScenario tp pflag json env dir zeroScenario =
     (case (case dir ''schedule'' of
              NoFile \<Rightarrow> Inr (zeroScenario\<lparr>Volume := defaultScenarioVolume\<rparr>)
            | OpenFails e \<Rightarrow> Inl (FileFailed e)
            | Contents spec \<Rightarrow> ParseScheduleSpec tp env spec (zeroScenario\<lparr>Volume := defaultScenarioVolume\<rparr>)) of
        Inl err \<Rightarrow> Inl err
      | Inr s \<Rightarrow>
          (case readScenarioFile dir ''flags'' True
                  (\<lambda>text. case ParseSmartFlags pflag text of Inl err \<Rightarrow> Inl err | Inr j \<Rightarrow> Inr (s\<lparr>ScenarioJob := j\<rparr>)) s of
             Inl err \<Rightarrow> Inl err
           | Inr s \<Rightarrow>
               (case scenarioSnapshotsFile dir of
                  Inl err \<Rightarrow> Inl err
                | Inr path \<Rightarrow>
                    (case readScenarioFile dir path True (ReadSnapshots json env s) s of
                       Inl err \<Rightarrow> Inl err
                     | Inr s \<Rightarrow>
                         (let s = s\<lparr>DestBackups := [[]]\<rparr>
                          in case readScenarioFile dir ''manifests.txt'' False (ReadManifests env s) s of
                               Inl err \<Rightarrow> Inl err
                             | Inr s \<Rightarrow> Inr (s\<lparr>ScenarioNow := newestTime s\<rparr>))))))"

section \<open>What is adopted\<close>

text \<open>The times at which the manifests say that a snapshot of a name was created.\<close>

definition timesNamed :: "Manifest list list \<Rightarrow> string \<Rightarrow> time set" where
  "timesNamed dests name = {CreationTime x | x. x \<in> set (namedSnapshots dests) \<and> Name x = name \<and> name \<noteq> []}"

lemma recordedTimes_fold:
  assumes "\<And>n. distinct (r n)"
  shows "distinct (foldl recordTime r xs n)
    \<and> set (foldl recordTime r xs n) = set (r n) \<union> {CreationTime x | x. x \<in> set xs \<and> Name x = n \<and> n \<noteq> []}"
  using assms
proof (induction xs arbitrary: r)
  case (Cons x xs)
  have d: "distinct (recordTime r x m)" for m using Cons.prems by (simp add: recordTime_def)
  have "set (recordTime r x n) = set (r n) \<union> {CreationTime y | y. y = x \<and> Name y = n \<and> n \<noteq> []}" by (auto simp: recordTime_def)
  then show ?case using Cons.IH [of "recordTime r x", OF d] by auto
qed simp

lemma recordedTimes_spec: "distinct (recordedTimes dests n)" "set (recordedTimes dests n) = timesNamed dests n"
  using recordedTimes_fold [of "\<lambda>n. []" "namedSnapshots dests" n] by (simp_all add: recordedTimes_def timesNamed_def)

definition adopted :: "Scenario \<Rightarrow> SnapshotInfo \<Rightarrow> SnapshotInfo \<Rightarrow> bool" where
  "adopted s old new \<longleftrightarrow> new = old\<lparr>CreationTime := CreationTime new\<rparr>
     \<and> (\<forall>t. Name old \<in> set (NameDated s) \<and> timesNamed (DestBackups s) (Name old) = {t}
           \<and> 0 \<le> time_sub t (CreationTime old) \<and> time_sub t (CreationTime old) \<le> adoptWindow \<longrightarrow> CreationTime new = t)
     \<and> (CreationTime new \<noteq> CreationTime old \<longrightarrow> Name old \<in> set (NameDated s) \<and> timesNamed (DestBackups s) (Name old) = {CreationTime new}
           \<and> 0 \<le> time_sub (CreationTime new) (CreationTime old) \<and> time_sub (CreationTime new) (CreationTime old) \<le> adoptWindow)"

lemma adoptOne_single:
  assumes "recorded (Name snap) = [t]"
  shows "fst (adoptOne recorded names snap) =
      (if Name snap \<in> set names \<and> 0 \<le> time_sub t (CreationTime snap) \<and> time_sub t (CreationTime snap) \<le> adoptWindow then snap\<lparr>CreationTime := t\<rparr> else snap)"
    "snd (snd (adoptOne recorded names snap)) \<longleftrightarrow> Name snap \<in> set names \<and> 0 \<le> time_sub t (CreationTime snap) \<and> time_sub t (CreationTime snap) \<le> adoptWindow
      \<and> t \<noteq> CreationTime snap"
  using assms by (auto simp: adoptOne_def Let_def)

lemma adoptOne_other:
  assumes "\<forall>t. recorded (Name snap) \<noteq> [t]"
  shows "fst (adoptOne recorded names snap) = snap" "\<not> snd (snd (adoptOne recorded names snap))"
  using assms by (auto simp: adoptOne_def neq_Nil_conv split: list.split)

lemma recorded_single: "recordedTimes dests n = [t] \<longleftrightarrow> timesNamed dests n = {t}"
proof
  assume "timesNamed dests n = {t}"
  then have "set (recordedTimes dests n) = {t}" using recordedTimes_spec(2) by simp
  then show "recordedTimes dests n = [t]" using recordedTimes_spec(1) [of dests n]
    by (metis distinct.simps(2) distinct_singleton empty_iff insert_iff list.exhaust list.set(1,2) list.set_intros(1))
qed (simp flip: recordedTimes_spec(2))

lemma retimed_same: "s\<lparr>CreationTime := t\<rparr> = (s :: SnapshotInfo) \<longleftrightarrow> t = CreationTime s"
  by (cases s) auto

lemma adoptOne_adopted:
  "adopted s snap (fst (adoptOne (recordedTimes (DestBackups s)) (NameDated s) snap))"
  "snd (snd (adoptOne (recordedTimes (DestBackups s)) (NameDated s) snap)) \<longleftrightarrow>
     fst (adoptOne (recordedTimes (DestBackups s)) (NameDated s) snap) \<noteq> snap"
proof -
  let ?r = "recordedTimes (DestBackups s)"
  have "adopted s snap (fst (adoptOne ?r (NameDated s) snap))
    \<and> (snd (snd (adoptOne ?r (NameDated s) snap)) \<longleftrightarrow> fst (adoptOne ?r (NameDated s) snap) \<noteq> snap)"
  proof (cases "\<exists>t. ?r (Name snap) = [t]")
    case True
    then obtain t where t: "?r (Name snap) = [t]" by blast
    then have one: "timesNamed (DestBackups s) (Name snap) = {t}" by (simp add: recorded_single)
    show ?thesis unfolding adoptOne_single [of ?r, OF t] adopted_def one by (simp add: retimed_same) blast
  next
    case False
    then have "timesNamed (DestBackups s) (Name snap) \<noteq> {t}" for t by (simp flip: recorded_single)
    then show ?thesis using adoptOne_other [of ?r snap "NameDated s"] False by (simp add: adopted_def)
  qed
  then show "adopted s snap (fst (adoptOne ?r (NameDated s) snap))"
    "snd (snd (adoptOne ?r (NameDated s) snap)) \<longleftrightarrow> fst (adoptOne ?r (NameDated s) snap) \<noteq> snap" by blast+
qed

text \<open>
  Creation times are adopted only when they can be right: \<^verbatim>\<open>AdoptCreationTimes\<close> gives a snapshot dated by its
  name the creation time that the manifests record for that name exactly when they all record the same
  one and it is at most ten minutes after the time in the name; no other snapshot changes, the count is
  the number of changed ones, and the pool stays newest first.
\<close>

theorem AdoptCreationTimes_sound:
  assumes "AdoptCreationTimes s = (n, s')"
  shows "\<exists>snaps. mset (Snapshots s') = mset snaps \<and> list_all2 (adopted s) (Snapshots s) snaps
    \<and> n = length (filter (\<lambda>(old, new). new \<noteq> old) (zip (Snapshots s) snaps)) \<and> (newestFirst (Snapshots s) \<longrightarrow> newestFirst (Snapshots s'))"
proof (cases "NameDated s = []")
  case True
  then have "n = 0" "s' = s\<lparr>AdoptionWarnings := []\<rparr>" using assms by (auto simp: AdoptCreationTimes_def)
  moreover have "list_all2 (adopted s) (Snapshots s) (Snapshots s)" using True by (simp add: adopted_def list_all2_same)
  moreover have "filter (\<lambda>(old, new). new \<noteq> old) (zip xs xs) = []" for xs :: "SnapshotInfo list" by (induction xs) auto
  ultimately show ?thesis by (intro exI [of _ "Snapshots s"]) simp
next
  case False
  let ?one = "adoptOne (recordedTimes (DestBackups s)) (NameDated s)"
  let ?snaps = "map (\<lambda>x. fst (?one x)) (Snapshots s)"
  have n: "n = length (filter (\<lambda>x. snd (snd (?one x))) (Snapshots s))"
    using assms False by (simp add: AdoptCreationTimes_def Let_def filter_map comp_def case_prod_beta)
  have s': "Snapshots s' = (if n > 0 then newestFirstSort ?snaps else ?snaps)"
    using assms False by (auto simp: AdoptCreationTimes_def Let_def comp_def filter_map)
  have "list_all2 (adopted s) (Snapshots s) ?snaps" by (simp add: list_all2_map2 list_all2_same adoptOne_adopted(1))
  moreover have "n = length (filter (\<lambda>(old, new). new \<noteq> old) (zip (Snapshots s) ?snaps))"
    unfolding n adoptOne_adopted(2) by (simp add: zip_map2 zip_same_conv_map filter_map comp_def case_prod_beta)
  moreover have "newestFirst (Snapshots s) \<longrightarrow> newestFirst (Snapshots s')"
  proof (cases "n = 0")
    case True
    then have "\<forall>x\<in>set (Snapshots s). fst (?one x) = x" unfolding n adoptOne_adopted(2) by (simp add: filter_empty_conv)
    then have "?snaps = Snapshots s" by (simp add: map_idI)
    then show ?thesis using s' True by simp
  next
    case False
    then show ?thesis using s' newestFirstSort_order by simp
  qed
  ultimately show ?thesis using s' by (intro exI [of _ ?snaps]) (simp add: newestFirstSort_def)
qed

section \<open>What the settings guarantee\<close>

definition specSane :: "specState \<Rightarrow> bool" where
  "specSane st \<longleftrightarrow> 0 \<le> spDelay st \<and> 0 \<le> Every (spScenario st) \<and> ScenarioSchedule (spScenario st) = None"

lemma specSetting_sane: "specSetting tp item key value st = Inr st' \<Longrightarrow> specSane st \<Longrightarrow> specSane st'"
  by (auto simp: specSetting_def specSane_def Let_def split: if_splits option.splits)

lemma specItems_sane: "specItems tp is st = Inr st' \<Longrightarrow> specSane st \<Longrightarrow> specSane st'"
proof (induction "is" arbitrary: st)
  case (Cons i "is")
  then show ?case by (auto simp: Let_def specSane_def dest: specSetting_sane split: if_splits option.splits sum.splits prod.splits)
qed simp

lemma specSchedule_ok:
  assumes "specSchedule st = Inr s" "specSane st"
  shows "Every s = Every (spScenario st)" "Checks s = Checks (spScenario st)" "Skips s = Skips (spScenario st)"
    "\<forall>sch. ScenarioSchedule s = Some sch \<longrightarrow> Periods sch \<noteq> [] \<and> 0 \<le> Delay sch"
  using assms
  by (auto simp: specSchedule_def specSane_def ParseSchedule_def zeroSchedule_def Let_def split: if_splits sum.splits)

lemma specTimes_ok:
  "specTimes tp env st s = Inr s' \<Longrightarrow> Every s' = Every s \<and> Checks s' = Checks s \<and> ScenarioSchedule s' = ScenarioSchedule s"
  by (auto simp: specTimes_def split: sum.splits)

text \<open>
  Settings that are accepted make sense: when anything about runs over time is set there is an end, which is
  not before the start; the time between runs and the delay of the snapshots are not negative, the policy
  keeps at least one period, and every check is a known one.
\<close>

theorem ParseScheduleSpec_sane:
  assumes "ParseScheduleSpec tp env spec s = Inr s'" "0 \<le> Every s" "ScenarioSchedule s = None"
  shows "(ScenarioSchedule s' \<noteq> None \<or> From s' \<noteq> zeroTime \<or> Every s' \<noteq> 0 \<or> Skips s' \<noteq> [] \<longrightarrow> Until s' \<noteq> zeroTime)
    \<and> (From s' \<noteq> zeroTime \<longrightarrow> From s' \<le> Until s') \<and> 0 \<le> Every s' \<and> list_all knownCheck (Checks s')
    \<and> (\<forall>sch. ScenarioSchedule s' = Some sch \<longrightarrow> Periods sch \<noteq> [] \<and> 0 \<le> Delay sch \<and> ScheduleLocation sch = Some (Scenario_location env s'))"
proof -
  let ?start = "\<lparr>spScenario = s, spPolicy = [], spFrom = [], spUntil = [], spSkips = [], spDelay = 0, spListKey = []\<rparr>"
  obtain st s1 s2 where items: "specItems tp (concat (map (\<lambda>line. splitOn (StripComment line) '','') (splitOn spec [CHR 0x0A]))) ?start = Inr st"
    and known: "List.find (\<lambda>c. \<not> knownCheck c) (Checks (spScenario st)) = None" and s1: "specSchedule st = Inr s1" and s2: "specTimes tp env st s1 = Inr s2"
    and run: "\<not> ((ScenarioSchedule s2 \<noteq> None \<or> From s2 \<noteq> zeroTime \<or> Every s2 \<noteq> 0 \<or> Skips s2 \<noteq> []) \<and> Until s2 = zeroTime)"
      "\<not> (From s2 \<noteq> zeroTime \<and> Until s2 < From s2)"
    and s': "s' = s2\<lparr>ScenarioSchedule := map_option (\<lambda>sch. sch\<lparr>ScheduleLocation := Some (Scenario_location env s2)\<rparr>) (ScenarioSchedule s2)\<rparr>"
    using assms(1) unfolding ParseScheduleSpec_def Let_def by (auto split: sum.splits option.splits if_splits)
  have "specSane st" using specItems_sane [OF items] assms(2,3) by (simp add: specSane_def)
  note sch = specSchedule_ok [OF s1 this] specTimes_ok [OF s2]
  have every: "0 \<le> Every s2" using sch \<open>specSane st\<close> by (simp add: specSane_def)
  have checks: "list_all knownCheck (Checks s2)" using known sch by (simp add: find_None_iff list_all_iff)
  have loc: "Scenario_location env s' = Scenario_location env s2" by (simp add: s' Scenario_location_def)
  have "\<forall>x. ScenarioSchedule s' = Some x \<longrightarrow> Periods x \<noteq> [] \<and> 0 \<le> Delay x \<and> ScheduleLocation x = Some (Scenario_location env s')"
    using sch(4,5) unfolding loc by (auto simp: s')
  then show ?thesis using run every checks by (auto simp: s')
qed

section \<open>Backups are read back\<close>

text \<open>A backup as a line: \<^verbatim>\<open><source> <epoch> to <base> <epoch> raw\<close>.\<close>

definition snapshotWords :: "SnapshotInfo \<Rightarrow> string list" where
  "snapshotWords x = [Name x, formatInt (unix (CreationTime x))]"

definition manifestWords :: "Manifest \<Rightarrow> string list" where
  "manifestWords m = (if Name (IncrementalSnapshot m) = [] then [] else snapshotWords (IncrementalSnapshot m) @ [''to''])
     @ snapshotWords (BaseSnapshot m) @ (if Raw m then [''raw''] else [])"

definition printable :: "SnapshotInfo \<Rightarrow> bool" where
  "printable x \<longleftrightarrow> Name x \<noteq> [] \<and> list_all (\<lambda>c. \<not> isSpace c \<and> c \<noteq> CHR ''#'' \<and> c \<noteq> CHR ''@'') (Name x) \<and> Name x \<noteq> ''to''
     \<and> \<not> Bookmark x \<and> GUID x = [] \<and> epoch (unix (CreationTime x)) = CreationTime x \<and> inInt64 (unix (CreationTime x))"

definition printableManifest :: "Scenario \<Rightarrow> Manifest \<Rightarrow> bool" where
  "printableManifest s m \<longleftrightarrow> printable (BaseSnapshot m) \<and> (IncrementalSnapshot m = zeroSnapshot \<or> printable (IncrementalSnapshot m))
     \<and> zeroManifest\<lparr>VolumeName := Volume s, Raw := Raw m, IncrementalSnapshot := IncrementalSnapshot m, BaseSnapshot := BaseSnapshot m\<rparr> = m"

definition isWord :: "string \<Rightarrow> bool" where
  "isWord w \<longleftrightarrow> w \<noteq> [] \<and> list_all (\<lambda>c. \<not> isSpace c) w"

lemma word_fields:
  assumes "list_all isWord ws"
  shows "Prelude.fields (joinWith ws '' '') = ws"
  using assms unfolding Prelude.fields_def
proof (induction ws "'' ''" rule: joinWith.induct)
  case (2 p)
  then show ?case using fieldsFrom_word [of p "[]" "[]"] by (simp add: isWord_def)
next
  case (3 p q ps)
  then show ?case using fieldsFrom_word [of p "[]" "'' '' @ joinWith (q # ps) '' ''"] by (simp add: isWord_def isSpace_def)
qed simp

lemma formatInt_word [simp]: "isWord (formatInt i)"
  by (simp add: isWord_def formatInt_no_space formatInt_nonempty)

lemma formatInt_not: "\<not> isDigit c \<Longrightarrow> c \<noteq> CHR ''-'' \<Longrightarrow> c \<in> set w \<Longrightarrow> formatInt i \<noteq> w"
  using notin_formatInt by blast

lemma snapshot_eta: "\<not> Bookmark x \<Longrightarrow> GUID x = [] \<Longrightarrow> \<lparr>CreationTime = CreationTime x, Name = Name x, Bookmark = False, GUID = []\<rparr> = x"
  by (cases x) simp

lemma indexOf_char: "c \<notin> set s \<Longrightarrow> indexOf s [c] = None"
  by (auto simp: indexOf_None)

lemma resolve_printed:
  assumes "printable x" shows "resolveSnapshot env s (snapshotWords x) = Inr x"
proof -
  have x: "CHR ''#'' \<notin> set (Name x)" "CHR ''@'' \<notin> set (Name x)" "\<not> Bookmark x" "GUID x = []" "epoch (unix (CreationTime x)) = CreationTime x"
      "inInt64 (unix (CreationTime x))"
    using assms unfolding printable_def list_all_iff by blast+
  have n: "\<not> containsStr (Name x) ''#''" "afterFirst (CHR ''@'') (Name x) = Name x"
    using indexOf_char [OF x(1)] indexOf_char [OF x(2)] by (simp_all add: containsStr_def afterFirst_def)
  show ?thesis
    by (simp add: resolveSnapshot_def snapshotWords_def n parseInt64_formatInt [OF x(6)] x(5) zeroSnapshot_def snapshot_eta [OF x(3,4)])
qed

lemma isWord_marks [simp]: "isWord ''to''" "isWord ''raw''"
  by (simp_all add: isWord_def isSpace_def)

lemma snapshotWords_words: "printable x \<Longrightarrow> list_all isWord (snapshotWords x)"
  by (simp add: printable_def snapshotWords_def isWord_def list_all_iff formatInt_no_space [unfolded list_all_iff] formatInt_nonempty)

lemma printableManifest_cases:
  assumes "printableManifest s m"
  obtains "printable (BaseSnapshot m)" "Name (IncrementalSnapshot m) = []" "IncrementalSnapshot m = zeroSnapshot"
  | "printable (BaseSnapshot m)" "printable (IncrementalSnapshot m)" "Name (IncrementalSnapshot m) \<noteq> []"
  using assms unfolding printableManifest_def by (metis printable_def SnapshotInfo.select_convs(2) zeroSnapshot_def)

lemma manifestWords_words: "printableManifest s m \<Longrightarrow> list_all isWord (manifestWords m)"
  by (erule printableManifest_cases) (simp_all add: manifestWords_def snapshotWords_words)

lemma parse_printed:
  assumes "printableManifest s m"
  shows "parseManifest env s (joinWith (manifestWords m) '' '') = Inr m"
proof -
  let ?base = "BaseSnapshot m" and ?source = "IncrementalSnapshot m"
  let ?core = "(if Name ?source = [] then [] else snapshotWords ?source @ [''to'']) @ snapshotWords ?base"
  have words: "Prelude.fields (joinWith (manifestWords m) '' '') = ?core @ (if Raw m then [''raw''] else [])"
    using word_fields [OF manifestWords_words [OF assms]] by (simp add: manifestWords_def)
  have num: "formatInt i \<noteq> ''raw''" "formatInt i \<noteq> ''to''" for i using formatInt_not [of "CHR ''r''"] formatInt_not [of "CHR ''o''"] by (auto simp: isDigit_def)
  have raw: "(length (?core @ (if Raw m then [''raw''] else [])) > 1 \<and> last (?core @ (if Raw m then [''raw''] else [])) = ''raw'') = Raw m"
    using num by (simp add: snapshotWords_def)
  have core: "(if Raw m then butlast (?core @ (if Raw m then [''raw''] else [])) else ?core @ (if Raw m then [''raw''] else [])) = ?core" by (simp add: butlast_append)
  have m: "zeroManifest\<lparr>VolumeName := Volume s, Raw := Raw m, IncrementalSnapshot := ?source, BaseSnapshot := ?base\<rparr> = m"
    using assms by (simp add: printableManifest_def)
  show ?thesis using assms
  proof (cases rule: printableManifest_cases)
    case 1
    then have c: "?core = snapshotWords ?base" and tw: "takeWhile (\<lambda>f. f \<noteq> ''to'') (snapshotWords ?base) = snapshotWords ?base"
      using num by (simp_all add: snapshotWords_def printable_def)
    have "zeroManifest\<lparr>VolumeName := Volume s, Raw := Raw m, BaseSnapshot := ?base\<rparr> = m" using m 1(3) by (simp add: zeroManifest_def)
    then show ?thesis unfolding parseManifest_def Let_def words raw core unfolding c tw using resolve_printed [OF 1(1)] by simp
  next
    case 2
    then have c: "takeWhile (\<lambda>f. f \<noteq> ''to'') ?core = snapshotWords ?source" "length (snapshotWords ?source) < length ?core"
        "drop (length (snapshotWords ?source) + 1) ?core = snapshotWords ?base"
      using num by (simp_all add: snapshotWords_def printable_def)
    show ?thesis unfolding parseManifest_def Let_def words raw core unfolding c(1,3) using c(2) resolve_printed [OF 2(1)] resolve_printed [OF 2(2)] m by simp
  qed
qed

text \<open>The lines of several destinations, with a line of dashes before each but the first.\<close>

definition manifestLine :: "Manifest \<Rightarrow> string" where "manifestLine m = joinWith (manifestWords m) '' ''"

definition destLines :: "Manifest list list \<Rightarrow> string list" where
  "destLines dests = tl (concat (map (\<lambda>d. ''---'' # map manifestLine d) dests))"

lemma joined_chars: "c \<in> set (joinWith ws sep) \<Longrightarrow> c \<in> set sep \<or> (\<exists>w\<in>set ws. c \<in> set w)"
  by (induction ws sep rule: joinWith.induct) auto

lemma commentAt_id: "CHR ''#'' \<notin> set s \<Longrightarrow> commentAt prev s = s"
  by (induction s arbitrary: prev) auto

lemma joined_ends:
  "ws \<noteq> [] \<Longrightarrow> list_all isWord ws \<Longrightarrow> joinWith ws '' '' \<noteq> [] \<and> \<not> isSpace (hd (joinWith ws '' '')) \<and> \<not> isSpace (last (joinWith ws '' ''))"
  by (induction ws "'' ''" rule: joinWith.induct) (auto simp: isWord_def list_all_iff hd_append)

lemma manifestLine_plain:
  assumes "printableManifest s m"
  shows "StripComment (manifestLine m) = manifestLine m" "manifestLine m \<noteq> []" "manifestLine m \<noteq> ''---''"
    "CHR 0x0A \<notin> set (manifestLine m)" "dropCR (manifestLine m) = manifestLine m"
proof -
  let ?ws = "manifestWords m"
  have ws: "list_all isWord ?ws" "?ws \<noteq> []" using manifestWords_words [OF assms] by (simp_all add: manifestWords_def snapshotWords_def)
  note ends = joined_ends [OF ws(2,1)]
  have hash: "\<forall>w\<in>set ?ws. CHR ''#'' \<notin> set w"
    using assms notin_formatInt [of "CHR ''#''"]
    by (cases rule: printableManifest_cases) (auto simp: printable_def manifestWords_def snapshotWords_def list_all_iff isDigit_def)
  then have "CHR ''#'' \<notin> set (manifestLine m)" using joined_chars unfolding manifestLine_def by fastforce
  then show "StripComment (manifestLine m) = manifestLine m"
    using ends trimSpace_id unfolding StripComment_def manifestLine_def by (simp add: commentAt_id)
  show "manifestLine m \<noteq> []" using ends by (simp add: manifestLine_def)
  have "Prelude.fields (manifestLine m) = ?ws" using word_fields [OF ws(1)] by (simp add: manifestLine_def)
  moreover have "Prelude.fields ''---'' = [''---'']" by code_simp
  moreover have "length ?ws > 1" by (simp add: manifestWords_def snapshotWords_def)
  ultimately show "manifestLine m \<noteq> ''---''" by (metis One_nat_def length_Cons less_irrefl list.size(3))
  have "c \<notin> set (manifestLine m)" if "isSpace c" "c \<noteq> CHR '' ''" for c
    using joined_chars [of c ?ws "'' ''"] ws(1) that by (auto simp: manifestLine_def isWord_def list_all_iff)
  then show "CHR 0x0A \<notin> set (manifestLine m)" by (simp add: isSpace_def)
  show "dropCR (manifestLine m) = manifestLine m" using ends by (auto simp: dropCR_def manifestLine_def isSpace_def)
qed

lemma readManifestLines_dest:
  "list_all (printableManifest s) ms \<Longrightarrow>
    readManifestLines env s n (map manifestLine ms @ rest) (ds @ [d]) = readManifestLines env s (n + length ms) rest (ds @ [d @ ms])"
proof (induction ms arbitrary: n d)
  case (Cons m ms)
  then have m: "printableManifest s m" by simp
  note line = manifestLine_plain [OF m]
  have "parseManifest env s (manifestLine m) = Inr m" using parse_printed [OF m] by (simp add: manifestLine_def)
  then show ?case using Cons line by (simp add: Let_def)
qed simp

lemma readManifestLines_dests:
  "list_all (list_all (printableManifest s)) ds \<Longrightarrow>
    readManifestLines env s n (concat (map (\<lambda>d. ''---'' # map manifestLine d) ds)) (acc @ [x]) = Inr ((acc @ [x]) @ ds)"
proof (induction ds arbitrary: n acc x)
  case (Cons d ds)
  have "StripComment ''---'' = ''---''" by code_simp
  then have "readManifestLines env s n (concat (map (\<lambda>d. ''---'' # map manifestLine d) (d # ds))) (acc @ [x])
      = readManifestLines env s (n + 1) (map manifestLine d @ concat (map (\<lambda>d. ''---'' # map manifestLine d) ds)) ((acc @ [x]) @ [[]])"
    by (simp add: Let_def)
  also have "\<dots> = Inr (((acc @ [x]) @ [d]) @ ds)"
    using readManifestLines_dest [of s d env "n + 1" _ "acc @ [x]" "[]"] Cons.IH [of "n + 1 + length d" "acc @ [x]" d] Cons.prems by simp
  finally show ?case by simp
qed simp

text \<open>
  The backups of a scenario are read back: for any destinations whose backups have names without blanks,
  at-signs and number signs and whole seconds, the text with one line for each backup and a line of
  dashes between destinations gives exactly these backups, each destination newest first.
\<close>

theorem ReadManifests_roundtrip:
  assumes "dests \<noteq> []" "\<forall>d\<in>set dests. \<forall>m\<in>set d. printableManifest s m \<and> length (manifestLine m) < maxScanToken"
  shows "ReadManifests env s (concat (map (\<lambda>l. l @ [CHR 0x0A]) (destLines dests))) = Inr (s\<lparr>DestBackups := map sortBackupsNewestFirst dests\<rparr>)"
proof -
  obtain d ds where dests: "dests = d # ds" using assms(1) by (cases dests) auto
  let ?rest = "concat (map (\<lambda>d. ''---'' # map manifestLine d) ds)" and ?ls = "destLines dests"
  have ls: "?ls = map manifestLine d @ ?rest" by (simp add: destLines_def dests)
  have dash: "CHR 0x0A \<notin> set ''---''" "dropCR ''---'' = ''---''" "length ''---'' < maxScanToken" "''---'' \<noteq> []"
    by (simp_all add: dropCR_def maxScanToken_def)
  have plain: "CHR 0x0A \<notin> set l \<and> dropCR l = l \<and> length l < maxScanToken \<and> l \<noteq> []" if l: "l \<in> set ?ls" for l
  proof -
    consider "l = ''---''" | e m where "e \<in> set dests" "m \<in> set e" "l = manifestLine m" using l [unfolded ls] dests by (auto split: if_splits)
    then show ?thesis
    proof cases
      case 2
      then have m: "printableManifest s m" "length (manifestLine m) < maxScanToken" using assms(2) by blast+
      then show ?thesis using manifestLine_plain [OF m(1)] unfolding 2(3) by simp
    qed (use dash in blast)
  qed
  have raw: "rawLines (concat (map (\<lambda>l. l @ [CHR 0x0A]) ?ls)) = ?ls" using splitOn_lines [of ?ls] plain by (simp add: rawLines_def)
  have "map dropCR ?ls = ?ls" "takeWhile (\<lambda>l. length l < maxScanToken) ?ls = ?ls" "list_all (\<lambda>l. length l < maxScanToken) ?ls"
    using plain by (simp_all add: map_idI takeWhile_eq_all_conv list_all_iff)
  then have scan: "scanLines (concat (map (\<lambda>l. l @ [CHR 0x0A]) ?ls)) = (?ls, False)" by (simp only: scanLines_def Let_def raw simp_thms)
  have ok: "list_all (printableManifest s) d" "list_all (list_all (printableManifest s)) ds" using assms(2) by (simp_all add: dests list_all_iff)
  have "readManifestLines env s 1 ?ls ([] @ [[]]) = readManifestLines env s (1 + length d) ?rest ([] @ [[] @ d])"
    unfolding ls by (rule readManifestLines_dest [OF ok(1)])
  then have "readManifestLines env s 1 ?ls [[]] = Inr dests" using readManifestLines_dests [OF ok(2), of env "1 + length d" "[]" d] by (simp add: dests)
  then show ?thesis by (simp add: ReadManifests_def scan)
qed

section \<open>A concrete scenario\<close>

definition exFixture :: Scenario where
  "exFixture = \<lparr>Volume = ''t'', ScenarioJob = zeroJobInfo, Snapshots = [exSnapshot ''a'' 1], DestBackups = [[exFull ((exSnapshot ''a'' 1)\<lparr>CreationTime := day + 3 * second\<rparr>)]],
     CaptureDataset = [], NameDated = [''a''], AdoptionWarnings = [], Completable = False, Location = None, ScenarioSchedule = None, From = zeroTime,
     Until = zeroTime, Every = 0, Skips = [], Checks = [], ScenarioNow = zeroTime\<rparr>"

definition exAdopted :: "nat \<times> Scenario" where "exAdopted = AdoptCreationTimes exFixture"

lemma ex_adopted: "fst exAdopted = 1" by code_simp

lemma AdoptCreationTimes_sound_witness: "\<exists>new. Snapshots (snd exAdopted) = [new] \<and> adopted exFixture (exSnapshot ''a'' 1) new"
proof -
  have "AdoptCreationTimes exFixture = (1, snd exAdopted)" using ex_adopted unfolding exAdopted_def by (metis prod.collapse)
  from AdoptCreationTimes_sound [OF this] obtain snaps
    where "mset (Snapshots (snd exAdopted)) = mset snaps" "list_all2 (adopted exFixture) (Snapshots exFixture) snaps" by blast
  then show ?thesis by (auto simp: exFixture_def list_all2_Cons1)
qed

definition exParsers :: timeParsers where
  "exParsers = \<lparr>tpDuration = (\<lambda>s. if s = ''24h'' then Some day else None),
     tpRFC3339 = (\<lambda>s. if s = ''2026-01-02T00:00:00Z'' then Some (30 * day) else None), tpDateTime = (\<lambda>s. None), tpDate = (\<lambda>s. None), tpLocation = (\<lambda>s. None)\<rparr>"

definition exZone :: environment where "exZone = \<lparr>HostZone = utcLoc, WallClock = 0\<rparr>"

definition exSpec :: "fixture_error + Scenario" where
  "exSpec = ParseScheduleSpec exParsers exZone ''daily=3, every=24h, until=2026-01-02T00:00:00Z'' exFixture"

lemma ex_spec: "(case exSpec of Inr s \<Rightarrow> Every s = day \<and> ScenarioSchedule s \<noteq> None | Inl e \<Rightarrow> False)" by code_simp

lemma ParseScheduleSpec_sane_witness: "\<exists>s. exSpec = Inr s \<and> Until s \<noteq> zeroTime"
proof -
  obtain s where s: "exSpec = Inr s" "ScenarioSchedule s \<noteq> None" using ex_spec by (auto split: sum.splits)
  have "0 \<le> Every exFixture" "ScenarioSchedule exFixture = None" by (simp_all add: exFixture_def)
  from ParseScheduleSpec_sane [OF s(1) [unfolded exSpec_def] this] show ?thesis using s by blast
qed

definition exEarly :: SnapshotInfo where "exEarly = (exSnapshot ''a'' 1)\<lparr>CreationTime := 7 * second\<rparr>"

lemma ReadManifests_roundtrip_witness:
  "ReadManifests exZone exFixture (concat (map (\<lambda>l. l @ [CHR 0x0A]) (destLines [[exFull exEarly]]))) = Inr (exFixture\<lparr>DestBackups := [[exFull exEarly]]\<rparr>)"
proof -
  have line: "manifestLine (exFull exEarly) = ''a 7''" by code_simp
  have "length (manifestLine (exFull exEarly)) < maxScanToken" unfolding line by (simp add: maxScanToken_def)
  moreover have p: "printable exEarly"
    by (simp add: printable_def exEarly_def exSnapshot_def isSpace_def epoch_def unix_def day_def hour_def minute_def second_def inInt64_def minInt64_def maxInt64_def)
  have "printableManifest exFixture (exFull exEarly)" using p by (simp add: printableManifest_def exFull_def exFixture_def zeroManifest_def)
  ultimately have "\<forall>d\<in>set [[exFull exEarly]]. \<forall>m\<in>set d. printableManifest exFixture m \<and> length (manifestLine m) < maxScanToken" by simp
  note r = ReadManifests_roundtrip [OF _ this, of exZone]
  have "map sortBackupsNewestFirst [[exFull exEarly]] = [[exFull exEarly]]" by (simp add: sortBackupsNewestFirst_def)
  then show ?thesis using r by (metis list.distinct(1))
qed

end
