(* ===== verification/Backends.thy ===== *)
theory Backends
  imports ObjectNames Cache
begin

text \<open>
  Destinations (\<^verbatim>\<open>backends/backends.go\<close>, \<^verbatim>\<open>backends/file_backend.go\<close>, \<^verbatim>\<open>backends/delete_backend.go\<close>): the scheme of a
  URI, the spellings of a destination and the key prefixes an older version used, what a log line may show
  of a URI, and the two backends that need no network. The parser of URIs of the Go library and the
  errors of the file system are parameters.
\<close>

section \<open>URIs\<close>

datatype backend_kind = DeleteBackend | GoogleCloudStorageBackend | AWSS3Backend | FileBackend | AzureBackend | B2Backend | SSHBackend

datatype backend_error = ErrInvalidURI | ErrInvalidPrefix | BucketWithUser string | LegacyLayout string string string | BackendFailed string | NotSupported string

definition backendSchemes :: "(string \<times> backend_kind) list" where
  "backendSchemes = [(''delete'', DeleteBackend), (''gs'', GoogleCloudStorageBackend), (''s3'', AWSS3Backend), (''file'', FileBackend),
     (''azure'', AzureBackend), (''b2'', B2Backend), (''ssh'', SSHBackend)]"

definition GetBackendForURI :: "string \<Rightarrow> backend_error + backend_kind" where
  "GetBackendForURI uri =
     (let parts = splitOn uri ''://''
      in if length parts < 2 then Inl ErrInvalidURI
         else case map_of backendSchemes (hd parts) of None \<Rightarrow> Inl ErrInvalidPrefix | Some k \<Rightarrow> Inr k)"

definition objectStoreSchemes :: "string list" where
  "objectStoreSchemes = [''s3'', ''gs'', ''azure'', ''b2'']"

definition trimSlashes :: "string \<Rightarrow> string" where
  "trimSlashes s = rev (dropWhile (\<lambda>c. c = CHR ''/'') (rev (dropWhile (\<lambda>c. c = CHR ''/'') s)))"

definition objectPrefix :: "string \<Rightarrow> string" where
  "objectPrefix uriPath = (let pre = trimSlashes uriPath in if pre \<noteq> [] then pre @ ''/'' else pre)"

text \<open>\<^verbatim>\<open>strings.Cut(s, "/")\<close>: all of \<open>s\<close> and nothing when there is no slash.\<close>

definition cutSlash :: "string \<Rightarrow> string \<times> string" where
  "cutSlash s = (case cutStr s ''/'' of None \<Rightarrow> (s, []) | Some r \<Rightarrow> r)"

definition parseObjectURI :: "string \<Rightarrow> string \<Rightarrow> backend_error + string \<times> string \<times> string" where
  "parseObjectURI uri scheme =
     (let clean = trimPrefix uri (scheme @ ''://'')
      in if clean = uri then Inl ErrInvalidURI
         else let (bucket, path) = cutSlash clean
              in if list_ex (\<lambda>c. c = CHR '':'' \<or> c = CHR ''@'') bucket then Inl (BucketWithUser scheme)
                 else Inr (bucket, trimSlashes path, objectPrefix path))"

definition stripPrefix :: "string \<Rightarrow> string \<Rightarrow> string option" where
  "stripPrefix pre key = (if \<not> hasPrefix key pre then None else Some (drop (length pre) key))"

definition relativeKey :: "string \<Rightarrow> string \<Rightarrow> string option" where
  "relativeKey pre key = stripPrefix pre key"

definition addLegacy :: "string \<Rightarrow> string \<Rightarrow> string list \<Rightarrow> string list" where
  "addLegacy pre old legacy = (if old = [] \<or> old = pre \<or> old \<in> set legacy then legacy else legacy @ [old])"

definition legacyPrefixes :: "string \<Rightarrow> string \<Rightarrow> string \<Rightarrow> string list" where
  "legacyPrefixes uri typedURI scheme =
     (case parseObjectURI uri scheme of
        Inl err \<Rightarrow> []
      | Inr (_, rawPrefix, pre) \<Rightarrow>
          (let legacy = addLegacy pre rawPrefix []; rest = trimPrefix typedURI (scheme @ ''://'')
           in if rest \<noteq> typedURI then addLegacy pre (snd (cutSlash rest)) legacy else legacy))"

text \<open>\<open>firstKey\<close> is the first key of the bucket with a prefix, or no key, or an error.\<close>

fun findLegacyVolume :: "(string \<Rightarrow> string + string) \<Rightarrow> (string \<times> string \<times> string) list \<Rightarrow> string + string" where
  "findLegacyVolume firstKey [] = Inr []"
| "findLegacyVolume firstKey ((old, dataset, sep) # probes) =
     (if sep = [] then findLegacyVolume firstKey probes
      else case firstKey (old @ dataset @ sep) of
             Inl e \<Rightarrow> Inl e
           | Inr key \<Rightarrow>
               if key = [] then findLegacyVolume firstKey probes
               else if ParseBackupVolumeObjectName (drop (length old) key) sep \<noteq> None then Inr key
               else findLegacyVolume firstKey probes)"

definition legacyProbes :: "string list \<Rightarrow> string list \<Rightarrow> string list \<Rightarrow> (string \<times> string \<times> string) list" where
  "legacyProbes legacy datasets separators = concat (map (\<lambda>old. concat (map (\<lambda>d. map (\<lambda>sep. (old, d, sep)) separators) datasets)) legacy)"

fun checkLegacyLayout :: "string \<Rightarrow> string list \<Rightarrow> string \<Rightarrow> (string \<Rightarrow> string + string) \<Rightarrow> backend_error option" where
  "checkLegacyLayout manifestPrefix [] pre firstKey = None"
| "checkLegacyLayout manifestPrefix (old # legacy) pre firstKey =
     (if manifestPrefix = [] then None
      else case firstKey (old @ manifestPrefix) of
             Inl e \<Rightarrow> Some (BackendFailed e)
           | Inr key \<Rightarrow> if key = [] then checkLegacyLayout manifestPrefix legacy pre firstKey else Some (LegacyLayout key old pre))"

definition CanonicalURI :: "string \<Rightarrow> string" where
  "CanonicalURI uri =
     (case cutStr uri ''://'' of
        None \<Rightarrow> uri
      | Some (scheme, rest) \<Rightarrow>
          if scheme \<notin> set objectStoreSchemes then uri
          else let (bucket, path) = cutSlash rest; pre = objectPrefix path
               in if pre \<noteq> [] then scheme @ ''://'' @ bucket @ ''/'' @ pre else scheme @ ''://'' @ bucket)"

definition LegacySpellings :: "string \<Rightarrow> string \<Rightarrow> string list" where
  "LegacySpellings canonical typed =
     (let spellings =
            (case cutStr canonical ''://'' of
               None \<Rightarrow> []
             | Some (scheme, rest) \<Rightarrow>
                 if scheme \<notin> set objectStoreSchemes then []
                 else if hasSuffix rest ''/'' then [trimSuffix canonical ''/''] else [canonical @ ''/''])
      in if typed \<noteq> [] \<and> typed \<noteq> canonical \<and> (spellings = [] \<or> hd spellings \<noteq> typed) then spellings @ [typed] else spellings)"

text \<open>
  \<^verbatim>\<open>url.Parse\<close>: \<open>None\<close> is an error, \<open>Some None\<close> a URI without a user, \<open>Some (Some r)\<close> one with a user, and \<open>r\<close> is what
  \<^verbatim>\<open>Redacted\<close> makes of it.
\<close>

definition afterLast :: "char \<Rightarrow> string \<Rightarrow> string" where
  "afterLast c s = (case lastIndexOf s [c] of None \<Rightarrow> s | Some i \<Rightarrow> drop (i + 1) s)"

definition RedactURI :: "(string \<Rightarrow> string option option) \<Rightarrow> string \<Rightarrow> string" where
  "RedactURI urlParse uri =
     (case cutStr uri ''://'' of
        None \<Rightarrow> afterLast (CHR ''@'') uri
      | Some (scheme, rest) \<Rightarrow>
          if CHR ''@'' \<notin> set rest then uri
          else let authority = takeWhile (\<lambda>c. c \<notin> set ''/?#'') rest; fallback = scheme @ ''://'' @ afterLast (CHR ''@'') rest
               in case urlParse uri of
                    Some None \<Rightarrow> if CHR '':'' \<notin> set authority \<and> CHR ''@'' \<notin> set authority then uri else fallback
                  | Some (Some redacted) \<Rightarrow> if length (filter (\<lambda>c. c = CHR ''@'') rest) = 1 then redacted else fallback
                  | None \<Rightarrow> fallback)"

section \<open>A directory as a destination\<close>

text \<open>
  An absolute path is the list of its parts, as \<^verbatim>\<open>filepath.Join\<close> cleans it. Of the file system only the files
  are kept; the errors that may come are parameters, among them those for a directory in the place of a
  file.
\<close>

type_synonym path = "string list"

definition cleanStep :: "path \<Rightarrow> string \<Rightarrow> path" where
  "cleanStep acc c = (if c = [] \<or> c = ''.'' then acc else if c = ''..'' then butlast acc else acc @ [c])"

definition filepath_Join :: "path \<Rightarrow> string \<Rightarrow> path" where
  "filepath_Join dir name = foldl cleanStep dir (splitOn name ''/'')"

definition pathString :: "path \<Rightarrow> string" where
  "pathString p = ''/'' @ joinWith p ''/''"

record fileEnv =
  feStat :: "path \<Rightarrow> string + bool"
  feAbs :: "string \<Rightarrow> string + path"
  feMkdirErr :: "path \<Rightarrow> string option"
  feCreateErr :: "path \<Rightarrow> string option"
  feWriteErr :: "path \<Rightarrow> string option"
  feCopied :: nat
  feCloseErr :: "path \<Rightarrow> string option"
  feRemoveErr :: "path \<Rightarrow> string option"
  feWalkErr :: "string option"

definition notExist :: string where "notExist = ''no such file or directory''"

definition FileBackend_Init :: "fileEnv \<Rightarrow> string \<Rightarrow> backend_error + path" where
  "FileBackend_Init env uri =
     (let clean = trimPrefix uri ''file://''
      in if clean = uri then Inl ErrInvalidURI
         else case feAbs env clean of
                Inl e \<Rightarrow> Inl (BackendFailed e)
              | Inr path \<Rightarrow>
                  (case feStat env path of
                     Inl e \<Rightarrow> Inl (BackendFailed e)
                   | Inr isDir \<Rightarrow> if \<not> isDir then Inl ErrInvalidURI else Inr path))"

type_synonym fileStore = "(path \<times> string) list"

text \<open>The file is created empty before the volume is copied into it, and removed when the copy fails.\<close>

definition FileBackend_Upload :: "fileEnv \<Rightarrow> path \<Rightarrow> string \<Rightarrow> source \<Rightarrow> fileStore \<Rightarrow> string option \<times> fileStore" where
  "FileBackend_Upload env dir name vol fs =
     (let path = filepath_Join dir name
      in case feMkdirErr env (butlast path) of
           Some e \<Rightarrow> (Some e, fs)
         | None \<Rightarrow>
             (case feCreateErr env path of
                Some e \<Rightarrow> (Some e, fs)
              | None \<Rightarrow>
                  (case (case feWriteErr env path of Some e \<Rightarrow> Some e | None \<Rightarrow> snd vol) of
                     Some e \<Rightarrow> (Some e, if feRemoveErr env path = None then AList.delete path fs else AList.update path (take (feCopied env) (concat (fst vol))) fs)
                   | None \<Rightarrow> (feCloseErr env path, AList.update path (concat (fst vol)) fs))))"

definition FileBackend_Delete :: "fileEnv \<Rightarrow> path \<Rightarrow> string \<Rightarrow> fileStore \<Rightarrow> string option \<times> fileStore" where
  "FileBackend_Delete env dir name fs =
     (let path = filepath_Join dir name
      in case feRemoveErr env path of
           Some e \<Rightarrow> (Some e, fs)
         | None \<Rightarrow> if map_of fs path = None then (Some notExist, fs) else (None, AList.delete path fs))"

definition FileBackend_Size :: "path \<Rightarrow> string \<Rightarrow> fileStore \<Rightarrow> string + 64 word" where
  "FileBackend_Size dir name fs =
     (case map_of fs (filepath_Join dir name) of None \<Rightarrow> Inl notExist | Some data \<Rightarrow> Inr (of_nat (length data)))"

definition FileBackend_Download :: "path \<Rightarrow> string \<Rightarrow> fileStore \<Rightarrow> string + source" where
  "FileBackend_Download dir name fs =
     (case map_of fs (filepath_Join dir name) of None \<Rightarrow> Inl notExist | Some data \<Rightarrow> Inr ([data], None))"

definition below :: "path \<Rightarrow> path \<Rightarrow> bool" where
  "below dir p \<longleftrightarrow> take (length dir) p = dir \<and> length dir < length p"

text \<open>\<^verbatim>\<open>filepath.Walk\<close> visits the files in the order of their parts.\<close>

definition FileBackend_List :: "fileEnv \<Rightarrow> path \<Rightarrow> string \<Rightarrow> fileStore \<Rightarrow> string + string list" where
  "FileBackend_List env dir pre fs =
     (case feWalkErr env of
        Some e \<Rightarrow> Inl e
      | None \<Rightarrow>
          Inr (filter (\<lambda>name. hasPrefix name pre)
                (map (\<lambda>p. trimPrefix (pathString p) (pathString dir @ ''/''))
                   (sort (remdups (filter (below dir) (map fst fs)))))))"

definition FileBackend_PreDownload :: "string list \<Rightarrow> string option" where
  "FileBackend_PreDownload objects = None"

section \<open>The backend that deletes\<close>

text \<open>It deletes the local file of a volume that it is given, and has nothing to list or to download.\<close>

definition DeleteBackend_List :: "string \<Rightarrow> backend_error + string list" where
  "DeleteBackend_List pre = Inl (NotSupported ''List'')"

definition DeleteBackend_Download :: "string \<Rightarrow> backend_error + source" where
  "DeleteBackend_Download name = Inl (NotSupported ''Get'')"

definition DeleteBackend_PreDownload :: "string list \<Rightarrow> backend_error option" where
  "DeleteBackend_PreDownload objects = Some (NotSupported ''PreDownload'')"

definition DeleteBackend_Delete :: "string \<Rightarrow> backend_error option" where
  "DeleteBackend_Delete name = Some (NotSupported ''Delete'')"

section \<open>Spellings of a destination\<close>

lemma cutStr_append:
  assumes "list_all G p" "\<not> list_all G sep"
  shows "cutStr (p @ sep @ r) sep = Some (p, r)"
  using indexOf_first_sep [OF assms, of r] by (simp add: cutStr_def)

lemma cutSlash_at:
  assumes "CHR ''/'' \<notin> set b"
  shows "cutSlash (b @ ''/'' @ p) = (b, p)"
proof -
  have "list_all (\<lambda>c. c \<noteq> CHR ''/'') b" using assms by (auto simp: list_all_iff)
  from cutStr_append [OF this, of "''/''" p] show ?thesis by (simp add: cutSlash_def)
qed

lemma cutSlash_none:
  assumes "CHR ''/'' \<notin> set b"
  shows "cutSlash b = (b, [])"
proof -
  have "indexOf b ''/'' = None" using assms by (auto simp: indexOf_None)
  then show ?thesis by (simp add: cutSlash_def cutStr_def)
qed

lemma cutSlash_bucket: "CHR ''/'' \<notin> set (fst (cutSlash s))"
proof (cases "CHR ''/'' \<in> set s")
  case True
  then obtain a b where s: "s = a @ CHR ''/'' # b" "CHR ''/'' \<notin> set a" by (metis split_list_first)
  then show ?thesis using cutSlash_at [of a b] by simp
next
  case False
  then show ?thesis by (simp add: cutSlash_none)
qed

lemma trimSlashes_ends:
  assumes "trimSlashes s \<noteq> []"
  shows "hd (trimSlashes s) \<noteq> CHR ''/''" and "last (trimSlashes s) \<noteq> CHR ''/''"
proof -
  let ?slash = "\<lambda>c. c = CHR ''/''"
  let ?d = "dropWhile ?slash s"
  have last: "last (trimSlashes s) \<noteq> CHR ''/''"
    using assms hd_dropWhile [of ?slash "rev ?d"] by (simp add: trimSlashes_def last_rev)
  obtain z where z: "?d = trimSlashes s @ z"
    using takeWhile_dropWhile_id [of ?slash "rev ?d"] unfolding trimSlashes_def by (metis rev_append rev_rev_ident)
  then have "?d \<noteq> []" and "hd ?d = hd (trimSlashes s)" using assms by auto
  then show "hd (trimSlashes s) \<noteq> CHR ''/''" using hd_dropWhile [of ?slash s] by simp
  show "last (trimSlashes s) \<noteq> CHR ''/''" by (rule last)
qed

lemma trimSlashes_trimmed:
  assumes "s \<noteq> []" "hd s \<noteq> CHR ''/''" "last s \<noteq> CHR ''/''"
  shows "trimSlashes (s @ ''/'') = s"
proof -
  let ?slash = "\<lambda>c. c = CHR ''/''"
  have start: "dropWhile ?slash (s @ ''/'') = s @ ''/''" using assms(1,2) by (cases s) simp_all
  obtain t c where s: "s = t @ [c]" using assms(1) by (metis rev_exhaust)
  then have "dropWhile ?slash (rev (s @ ''/'')) = rev s" using assms(3) by simp
  with start show ?thesis by (simp add: trimSlashes_def)
qed

lemma trimSlashes_objectPrefix: "trimSlashes (objectPrefix p) = trimSlashes p"
proof (cases "trimSlashes p = []")
  case True
  have "trimSlashes [] = []" by (simp add: trimSlashes_def)
  with True show ?thesis unfolding objectPrefix_def Let_def by simp
next
  case False
  have "objectPrefix p = trimSlashes p @ ''/''" using False unfolding objectPrefix_def Let_def by (rule if_P)
  then show ?thesis using trimSlashes_trimmed [OF False trimSlashes_ends [OF False]] by (rule ssubst)
qed

lemma objectPrefix_idem: "objectPrefix (objectPrefix p) = objectPrefix p"
  by (simp add: objectPrefix_def [of "objectPrefix p"] trimSlashes_objectPrefix) (simp add: objectPrefix_def)

definition canonicalRest :: "string \<Rightarrow> string" where
  "canonicalRest rest =
     fst (cutSlash rest) @ (if objectPrefix (snd (cutSlash rest)) = [] then [] else ''/'' @ objectPrefix (snd (cutSlash rest)))"

lemma CanonicalURI_scheme:
  assumes "scheme \<in> set objectStoreSchemes"
  shows "CanonicalURI (scheme @ ''://'' @ rest) = scheme @ ''://'' @ canonicalRest rest"
proof -
  have "list_all (\<lambda>c. c \<noteq> CHR '':'') scheme" using assms by (auto simp: objectStoreSchemes_def)
  then have "cutStr (scheme @ ''://'' @ rest) ''://'' = Some (scheme, rest)" by (rule cutStr_append) simp
  with assms show ?thesis by (simp add: CanonicalURI_def canonicalRest_def Let_def case_prod_unfold)
qed

lemma canonical_rest: "cutSlash (canonicalRest rest) = (fst (cutSlash rest), objectPrefix (snd (cutSlash rest)))"
  using cutSlash_at [OF cutSlash_bucket] cutSlash_none [OF cutSlash_bucket] by (simp add: canonicalRest_def)

lemma canonicalRest_idem: "canonicalRest (canonicalRest rest) = canonicalRest rest"
  unfolding canonicalRest_def [of "canonicalRest rest"] canonical_rest fst_conv snd_conv objectPrefix_idem
  by (simp add: canonicalRest_def)

lemma parseObjectURI_scheme:
  "parseObjectURI (scheme @ ''://'' @ rest) scheme =
     (if list_ex (\<lambda>c. c = CHR '':'' \<or> c = CHR ''@'') (fst (cutSlash rest)) then Inl (BucketWithUser scheme)
      else Inr (fst (cutSlash rest), trimSlashes (snd (cutSlash rest)), objectPrefix (snd (cutSlash rest))))"
proof -
  have "trimPrefix (scheme @ ''://'' @ rest) (scheme @ ''://'') = rest"
    using trimPrefix_append [of "scheme @ ''://''" rest] by simp
  moreover have "rest \<noteq> scheme @ ''://'' @ rest" by (metis append.assoc append_self_conv2 append_is_Nil_conv list.distinct(1))
  ultimately show ?thesis by (simp add: parseObjectURI_def Let_def case_prod_unfold)
qed

text \<open>
  C39. The canonical spelling of an object-store URI names the same bucket, the same key prefix and the same
  old raw prefix as the URI it was made of, is its own canonical spelling, and two URIs have the same one
  exactly when they have the same bucket and key prefix: the local cache, keyed by it, is shared by all
  spellings of a destination and by nothing else.
\<close>

theorem CanonicalURI_agrees:
  assumes scheme: "scheme \<in> set objectStoreSchemes"
  shows "CanonicalURI (CanonicalURI (scheme @ ''://'' @ rest)) = CanonicalURI (scheme @ ''://'' @ rest) \<and>
    parseObjectURI (CanonicalURI (scheme @ ''://'' @ rest)) scheme = parseObjectURI (scheme @ ''://'' @ rest) scheme \<and>
    (CanonicalURI (scheme @ ''://'' @ rest) = CanonicalURI (scheme @ ''://'' @ rest') \<longleftrightarrow>
       fst (cutSlash rest) = fst (cutSlash rest') \<and> objectPrefix (snd (cutSlash rest)) = objectPrefix (snd (cutSlash rest')))"
proof (intro conjI)
  show "CanonicalURI (CanonicalURI (scheme @ ''://'' @ rest)) = CanonicalURI (scheme @ ''://'' @ rest)"
    unfolding CanonicalURI_scheme [OF scheme] canonicalRest_idem by (rule refl)
  show "parseObjectURI (CanonicalURI (scheme @ ''://'' @ rest)) scheme = parseObjectURI (scheme @ ''://'' @ rest) scheme"
    unfolding CanonicalURI_scheme [OF scheme] parseObjectURI_scheme canonical_rest fst_conv snd_conv
      objectPrefix_idem trimSlashes_objectPrefix by (rule refl)
  have "canonicalRest rest = canonicalRest rest' \<longleftrightarrow>
      fst (cutSlash rest) = fst (cutSlash rest') \<and> objectPrefix (snd (cutSlash rest)) = objectPrefix (snd (cutSlash rest'))"
    by (metis canonical_rest prod.inject canonicalRest_def)
  then show "CanonicalURI (scheme @ ''://'' @ rest) = CanonicalURI (scheme @ ''://'' @ rest') \<longleftrightarrow>
      fst (cutSlash rest) = fst (cutSlash rest') \<and> objectPrefix (snd (cutSlash rest)) = objectPrefix (snd (cutSlash rest'))"
    unfolding CanonicalURI_scheme [OF scheme] by simp
qed

theorem CanonicalURI_agrees_witness:
  "CanonicalURI ''s3://b//p'' = CanonicalURI ''s3://b/p//'' \<and> CanonicalURI ''s3://b//p'' \<noteq> CanonicalURI ''s3://b/p-other''"
proof -
  have s3: "''s3'' \<in> set objectStoreSchemes" by (simp add: objectStoreSchemes_def)
  have "fst (cutSlash ''b//p'') = fst (cutSlash ''b/p//'')" "objectPrefix (snd (cutSlash ''b//p'')) = objectPrefix (snd (cutSlash ''b/p//''))"
    "objectPrefix (snd (cutSlash ''b//p'')) \<noteq> objectPrefix (snd (cutSlash ''b/p-other''))" by code_simp+
  then show ?thesis
    using CanonicalURI_agrees [OF s3, of "''b//p''" "''b/p//''"] CanonicalURI_agrees [OF s3, of "''b//p''" "''b/p-other''"] by simp
qed

section \<open>What a log line shows\<close>

lemma afterLast_append:
  assumes "c \<notin> set t"
  shows "afterLast c (s @ c # t) = t"
proof -
  have "lastIndexOf (s @ [c] @ t) [c] = Some (length s)"
  proof (rule lastIndexOf_append)
    show "\<nexists>x y. tl ([c] @ t) = x @ [c] @ y" using assms by auto
  qed simp
  then show ?thesis by (simp add: afterLast_def)
qed



section \<open>What a destination keeps\<close>

text \<open>
  What the rest of the program relies on: after an upload without error the object can be downloaded and is
  listed, and whatever the upload of one object does, the others stay.
\<close>

fun uploadAll :: "(string \<Rightarrow> source \<Rightarrow> 's \<Rightarrow> string option \<times> 's) \<Rightarrow> (string \<times> source) list \<Rightarrow> 's \<Rightarrow> string option \<times> 's" where
  "uploadAll up [] s = (None, s)"
| "uploadAll up ((n, v) # jobs) s = (case up n v s of (Some e, t) \<Rightarrow> (Some e, t) | (None, t) \<Rightarrow> uploadAll up jobs t)"

locale object_store =
  fixes valid :: "string \<Rightarrow> bool"
    and upload :: "string \<Rightarrow> source \<Rightarrow> 's \<Rightarrow> string option \<times> 's"
    and download :: "string \<Rightarrow> 's \<Rightarrow> string + source"
    and names :: "string \<Rightarrow> 's \<Rightarrow> string list"
    and remove :: "string \<Rightarrow> 's \<Rightarrow> string option \<times> 's"
    and good :: "'s \<Rightarrow> bool"
  assumes upload_good: "good s \<Longrightarrow> valid n \<Longrightarrow> good (snd (upload n v s))"
    and upload_same: "valid n \<Longrightarrow> upload n v s = (None, s') \<Longrightarrow> snd v = None \<and> download n s' = Inr ([concat (fst v)], None)"
    and upload_other: "valid n \<Longrightarrow> valid m \<Longrightarrow> m \<noteq> n \<Longrightarrow> download m (snd (upload n v s)) = download m s"
    and remove_good: "good s \<Longrightarrow> good (snd (remove n s))"
    and remove_same: "remove n s = (None, s') \<Longrightarrow> \<exists>e. download n s' = Inl e"
    and remove_other: "valid n \<Longrightarrow> valid m \<Longrightarrow> m \<noteq> n \<Longrightarrow> download m (snd (remove n s)) = download m s"
    and names_iff: "good s \<Longrightarrow> valid n \<Longrightarrow> n \<in> set (names pre s) \<longleftrightarrow> hasPrefix n pre \<and> (\<exists>src. download n s = Inr src)"
begin

lemma uploadAll_other:
  assumes "uploadAll upload jobs s = (e, s')" "\<forall>(n, v) \<in> set jobs. valid n" "valid m" "m \<notin> fst ` set jobs"
  shows "download m s' = download m s"
  using assms
proof (induction jobs arbitrary: s)
  case Nil
  then show ?case by simp
next
  case (Cons job jobs)
  obtain n v where job: "job = (n, v)" by (cases job)
  obtain r t where up: "upload n v s = (r, t)" by (cases "upload n v s")
  have "download m t = download m s" using upload_other [of n m v s] Cons.prems job up by simp
  moreover have "download m s' = download m t" using Cons.IH [of t] Cons.prems job up by (cases r) auto
  ultimately show ?case by simp
qed

lemma uploadAll_good:
  "uploadAll upload jobs s = (e, s') \<Longrightarrow> \<forall>(n, v) \<in> set jobs. valid n \<Longrightarrow> good s \<Longrightarrow> good s'"
proof (induction jobs arbitrary: s)
  case Nil
  then show ?case by simp
next
  case (Cons job jobs)
  obtain n v where job: "job = (n, v)" by (cases job)
  obtain r t where up: "upload n v s = (r, t)" by (cases "upload n v s")
  have "good t" using upload_good [of s n v] Cons.prems job up by simp
  then show ?case using Cons.IH [of t] Cons.prems job up by (cases r) auto
qed

lemma uploadAll_stored:
  assumes "uploadAll upload jobs s = (None, s')" "\<forall>(n, v) \<in> set jobs. valid n" "distinct (map fst jobs)" "(n, v) \<in> set jobs"
  shows "snd v = None \<and> download n s' = Inr ([concat (fst v)], None)"
  using assms
proof (induction jobs arbitrary: s)
  case Nil
  then show ?case by simp
next
  case (Cons job jobs)
  obtain m w where job: "job = (m, w)" by (cases job)
  then obtain t where up: "upload m w s = (None, t)" and more: "uploadAll upload jobs t = (None, s')"
    using Cons.prems(1) by (cases "upload m w s") (auto split: option.splits)
  show ?case
  proof (cases "(n, v) = (m, w)")
    case True
    then have "snd v = None \<and> download n t = Inr ([concat (fst v)], None)" using upload_same [OF _ up] Cons.prems job by simp
    moreover have "download n s' = download n t"
      by (rule uploadAll_other [OF more]) (use Cons.prems job True in \<open>auto simp: image_iff\<close>)
    ultimately show ?thesis by simp
  next
    case False
    then show ?thesis using Cons.IH [OF more] Cons.prems job by auto
  qed
qed

lemma uploadAll_names:
  assumes "uploadAll upload jobs s = (None, s')" "\<forall>(n, v) \<in> set jobs. valid n" "distinct (map fst jobs)" "good s" "valid n"
  shows "n \<in> set (names pre s') \<longleftrightarrow> hasPrefix n pre \<and> (n \<in> fst ` set jobs \<or> n \<in> set (names pre s))"
proof (cases "n \<in> fst ` set jobs")
  case True
  then obtain v where "(n, v) \<in> set jobs" by auto
  from uploadAll_stored [OF assms(1-3) this] have "\<exists>src. download n s' = Inr src" by simp
  with True show ?thesis using names_iff [OF uploadAll_good [OF assms(1,2,4)] assms(5)] by simp
next
  case False
  with uploadAll_other [OF assms(1,2,5)] show ?thesis
    using names_iff [OF uploadAll_good [OF assms(1,2,4)] assms(5), of pre] names_iff [OF assms(4,5), of pre] by simp
qed

lemma removed_names:
  assumes "remove n s = (None, s')" "good s" "valid n" "valid m"
  shows "m \<in> set (names pre s') \<longleftrightarrow> m \<in> set (names pre s) \<and> m \<noteq> n"
proof -
  have good: "good s'" using remove_good [OF assms(2), of n] assms(1) by simp
  show ?thesis
    using names_iff [OF good assms(4), of pre] names_iff [OF assms(2,4), of pre] remove_same [OF assms(1)]
      remove_other [OF assms(3,4), of s] assms(1) by (cases "m = n") auto
qed

end

text \<open>The names of objects and of files: no part is empty, a dot or two dots.\<close>

definition cleanPart :: "string \<Rightarrow> bool" where
  "cleanPart c \<longleftrightarrow> c \<noteq> [] \<and> c \<noteq> ''.'' \<and> c \<noteq> ''..'' \<and> CHR ''/'' \<notin> set c"

definition cleanName :: "string \<Rightarrow> bool" where
  "cleanName name \<longleftrightarrow> list_all cleanPart (splitOn name ''/'')"

definition cleanStore :: "fileStore \<Rightarrow> bool" where
  "cleanStore fs \<longleftrightarrow> list_all (\<lambda>(p, data). list_all cleanPart p) fs"

lemma foldl_cleanStep: "list_all cleanPart cs \<Longrightarrow> foldl cleanStep dir cs = dir @ cs"
  by (induction cs arbitrary: dir) (simp_all add: cleanStep_def cleanPart_def)

lemma Join_clean: "cleanName name \<Longrightarrow> filepath_Join dir name = dir @ splitOn name ''/''"
  by (simp add: filepath_Join_def cleanName_def foldl_cleanStep)

lemma Join_inj: "cleanName n \<Longrightarrow> cleanName m \<Longrightarrow> filepath_Join dir n = filepath_Join dir m \<longleftrightarrow> n = m"
  by (metis Join_clean joinWith_splitOn list.distinct(1) same_append_eq)

lemma below_Join: "cleanName n \<Longrightarrow> below dir (filepath_Join dir n)"
  using splitOn_nonempty [of "''/''" n] by (simp add: below_def Join_clean)

lemma joinWith_append: "xs \<noteq> [] \<Longrightarrow> ys \<noteq> [] \<Longrightarrow> joinWith (xs @ ys) sep = joinWith xs sep @ sep @ joinWith ys sep"
  by (induction xs sep rule: joinWith.induct) (simp_all add: joinWith_Cons)

text \<open>The name under which a file below the directory is listed.\<close>

definition relName :: "path \<Rightarrow> path \<Rightarrow> string" where
  "relName dir p = trimPrefix (pathString p) (pathString dir @ ''/'')"

lemma relName_below:
  assumes "dir \<noteq> []" "below dir p"
  shows "relName dir p = joinWith (drop (length dir) p) ''/''"
proof -
  have "drop (length dir) p \<noteq> []" using assms(2) by (simp add: below_def)
  moreover have "p = dir @ drop (length dir) p" using assms(2) by (metis append_take_drop_id below_def)
  ultimately have "pathString p = (pathString dir @ ''/'') @ joinWith (drop (length dir) p) ''/''"
    using joinWith_append [OF assms(1), of "drop (length dir) p" "''/''"] by (metis append.assoc pathString_def)
  then show ?thesis unfolding relName_def by (metis trimPrefix_append)
qed

lemma relName_iff:
  assumes "dir \<noteq> []" "below dir p" "list_all cleanPart p" "cleanName n"
  shows "relName dir p = n \<longleftrightarrow> p = filepath_Join dir n"
proof
  assume "p = filepath_Join dir n"
  then show "relName dir p = n"
    using relName_below [OF assms(1,2)] assms(4) by (simp add: Join_clean joinWith_splitOn)
next
  let ?q = "drop (length dir) p"
  assume "relName dir p = n"
  then have n: "joinWith ?q ''/'' = n" using relName_below [OF assms(1,2)] by simp
  have "list_all cleanPart ?q" using assms(3) by (auto simp: list_all_iff dest: in_set_dropD)
  then have "list_all (list_all (\<lambda>c. c \<noteq> CHR ''/'')) ?q" by (auto simp: list_all_iff cleanPart_def)
  moreover have "?q \<noteq> []" using assms(2) by (simp add: below_def)
  ultimately have "splitOn n ''/'' = ?q" using splitOn_joinWith [of "\<lambda>c. c \<noteq> CHR ''/''" "''/''" ?q] n by simp
  then show "p = filepath_Join dir n" using assms(2,4) by (metis Join_clean append_take_drop_id below_def)
qed

definition fileNames :: "fileEnv \<Rightarrow> path \<Rightarrow> string \<Rightarrow> fileStore \<Rightarrow> string list" where
  "fileNames env dir pre fs = (case FileBackend_List env dir pre fs of Inl e \<Rightarrow> [] | Inr l \<Rightarrow> l)"

lemma List_names:
  "feWalkErr env = None \<Longrightarrow> set (fileNames env dir pre fs) = {n. hasPrefix n pre \<and> (\<exists>p\<in>fst ` set fs. below dir p \<and> relName dir p = n)}"
  by (auto simp: fileNames_def FileBackend_List_def relName_def)

definition fileGood :: "fileEnv \<Rightarrow> path \<Rightarrow> fileStore \<Rightarrow> bool" where
  "fileGood env dir fs \<longleftrightarrow> dir \<noteq> [] \<and> list_all cleanPart dir \<and> feWalkErr env = None \<and> cleanStore fs"

lemma cleanStore_update: "cleanStore fs \<Longrightarrow> list_all cleanPart p \<Longrightarrow> cleanStore (AList.update p d fs)"
  by (induction fs) (auto simp: cleanStore_def)

lemma cleanStore_delete: "cleanStore fs \<Longrightarrow> cleanStore (AList.delete p fs)"
  by (auto simp: cleanStore_def list_all_iff AList.delete_eq)

lemma Upload_store:
  "snd (FileBackend_Upload env dir n v fs) \<in>
     {fs, AList.delete (filepath_Join dir n) fs} \<union> range (\<lambda>d. AList.update (filepath_Join dir n) d fs)"
  unfolding FileBackend_Upload_def Let_def by (auto split: option.split)

lemma Upload_ok:
  assumes "FileBackend_Upload env dir n v fs = (None, fs')"
  shows "snd v = None \<and> fs' = AList.update (filepath_Join dir n) (concat (fst v)) fs"
  using assms unfolding FileBackend_Upload_def by (auto simp: Let_def split: option.splits if_splits)

lemma Delete_store:
  "snd (FileBackend_Delete env dir n fs) \<in> {fs, AList.delete (filepath_Join dir n) fs}"
  by (auto simp: FileBackend_Delete_def Let_def split: option.splits)

lemma Upload_other:
  assumes "cleanName n" "cleanName m" "m \<noteq> n"
  shows "FileBackend_Download dir m (snd (FileBackend_Upload env dir n v fs)) = FileBackend_Download dir m fs"
proof -
  have "filepath_Join dir m \<noteq> filepath_Join dir n" using assms by (simp add: Join_inj)
  then show ?thesis
    using Upload_store [of env dir n v fs] by (auto simp: FileBackend_Download_def update_conv' delete_conv')
qed

lemma Delete_other:
  assumes "cleanName n" "cleanName m" "m \<noteq> n"
  shows "FileBackend_Download dir m (snd (FileBackend_Delete env dir n fs)) = FileBackend_Download dir m fs"
proof -
  have "filepath_Join dir m \<noteq> filepath_Join dir n" using assms by (simp add: Join_inj)
  then show ?thesis using Delete_store [of env dir n fs] by (auto simp: FileBackend_Download_def delete_conv')
qed

lemma Delete_same:
  "FileBackend_Delete env dir n fs = (None, fs') \<Longrightarrow> \<exists>e. FileBackend_Download dir n fs' = Inl e"
  by (auto simp: FileBackend_Delete_def FileBackend_Download_def delete_conv' Let_def split: option.splits if_splits)

lemma names_Download:
  assumes "fileGood env dir fs" "cleanName n"
  shows "n \<in> set (fileNames env dir pre fs) \<longleftrightarrow> hasPrefix n pre \<and> (\<exists>src. FileBackend_Download dir n fs = Inr src)"
proof -
  let ?p = "filepath_Join dir n"
  have "below dir p \<and> relName dir p = n \<longleftrightarrow> p = ?p" if "p \<in> fst ` set fs" for p
  proof -
    have "list_all cleanPart p" using assms(1) that by (auto simp: fileGood_def cleanStore_def list_all_iff)
    moreover have "dir \<noteq> []" using assms(1) by (simp add: fileGood_def)
    ultimately have "below dir p \<Longrightarrow> relName dir p = n \<longleftrightarrow> p = ?p" using assms(2) by (intro relName_iff)
    then show ?thesis using below_Join [OF assms(2), of dir] by blast
  qed
  then have "(\<exists>p\<in>fst ` set fs. below dir p \<and> relName dir p = n) \<longleftrightarrow> (\<exists>p\<in>fst ` set fs. p = ?p)" by (intro bex_cong refl)
  also have "\<dots> \<longleftrightarrow> map_of fs ?p \<noteq> None" by (simp only: map_of_eq_None_iff bex_triv_one_point1 not_not)
  finally have some: "(\<exists>p\<in>fst ` set fs. below dir p \<and> relName dir p = n) \<longleftrightarrow> map_of fs ?p \<noteq> None" .
  have get: "(\<exists>src. FileBackend_Download dir n fs = Inr src) \<longleftrightarrow> map_of fs ?p \<noteq> None"
    by (cases "map_of fs ?p") (simp_all add: FileBackend_Download_def)
  have "feWalkErr env = None" using assms(1) by (simp add: fileGood_def)
  then show ?thesis by (simp only: List_names mem_Collect_eq some get)
qed

lemma Upload_good: "fileGood env dir fs \<Longrightarrow> cleanName n \<Longrightarrow> fileGood env dir (snd (FileBackend_Upload env dir n v fs))"
  using Upload_store [of env dir n v fs]
  by (auto simp: fileGood_def cleanName_def Join_clean intro!: cleanStore_update cleanStore_delete)

interpretation fileBackend: object_store cleanName "FileBackend_Upload env dir" "FileBackend_Download dir" "fileNames env dir"
  "FileBackend_Delete env dir" "fileGood env dir" for env dir
proof (unfold_locales, goal_cases)
  case (2 n v s s')
  then show ?case by (auto dest!: Upload_ok simp: FileBackend_Download_def update_conv')
next
  case (4 s n)
  then show ?case using Delete_store [of env dir n s] by (auto simp: fileGood_def cleanStore_delete)
qed (simp_all add: Upload_good Upload_other Delete_same Delete_other names_Download)


definition workingDir :: fileEnv where
  "workingDir = \<lparr>feStat = (\<lambda>p. Inr True), feAbs = (\<lambda>s. Inr (splitOn s ''/'')), feMkdirErr = (\<lambda>p. None), feCreateErr = (\<lambda>p. None),
     feWriteErr = (\<lambda>p. None), feCopied = 0, feCloseErr = (\<lambda>p. None), feRemoveErr = (\<lambda>p. None), feWalkErr = None\<rparr>"


text \<open>A failed upload leaves no part of the object behind, unless the file cannot be removed; deleting removes it from the listing.\<close>

lemma FileBackend_failed_upload:
  assumes "snd v = Some e" "feRemoveErr env (filepath_Join dir n) = None"
    and "feMkdirErr env (butlast (filepath_Join dir n)) = None" "feCreateErr env (filepath_Join dir n) = None"
  shows "fst (FileBackend_Upload env dir n v fs) \<noteq> None \<and>
    FileBackend_Download dir n (snd (FileBackend_Upload env dir n v fs)) = Inl notExist"
  using assms by (auto simp: FileBackend_Upload_def FileBackend_Download_def Let_def delete_conv' split: option.splits)

lemma FileBackend_deletes:
  assumes "FileBackend_Delete env dir n fs = (None, fs')" "fileGood env dir fs" "cleanName n" "cleanName m"
  shows "m \<in> set (fileNames env dir pre fs') \<longleftrightarrow> m \<in> set (fileNames env dir pre fs) \<and> m \<noteq> n"
  using fileBackend.removed_names [OF assms] .

text \<open>
  The root directory is the exception: its path ends in the slash already, so the names listed keep a slash in front and
  no listing by the prefix of a manifest or a volume finds anything.
\<close>

lemma FileBackend_root_lists_nothing:
  assumes "pre \<noteq> []" "hd pre \<noteq> CHR ''/''" "cleanStore fs"
  shows "fileNames env [] pre fs = []"
proof -
  have "\<not> hasPrefix (relName [] p) pre" if clean: "list_all cleanPart p" "p \<noteq> []" for p
  proof -
    obtain c w where p: "joinWith p ''/'' = c # w" "c \<noteq> CHR ''/''"
    proof (cases p)
      case (Cons a list)
      then obtain c a' where "a = c # a'" "c \<noteq> CHR ''/''" using clean(1) by (cases a) (auto simp: cleanPart_def)
      then show ?thesis using Cons by (cases list) (auto intro: that)
    qed (use clean(2) in simp)
    then have "relName [] p = CHR ''/'' # c # w" by (simp add: relName_def pathString_def trimPrefix_def hasPrefix_iff)
    then show ?thesis using assms(1,2) by (cases pre) (auto simp: hasPrefix_iff)
  qed
  then show ?thesis
    using assms(3)
    by (auto simp: fileNames_def FileBackend_List_def relName_def below_def cleanStore_def list_all_iff filter_empty_conv split: option.splits)
qed

end
