(* ===== verification/Commands.thy ===== *)
theory Commands
  imports Sending Fixtures Backends
begin

text \<open>
  The command line (\<^verbatim>\<open>cmd/*.go\<close>) and the keys it loads (\<^verbatim>\<open>pgp/*.go\<close>): what each command checks before the code
  of the other theories runs, the keys, snapshots and destinations it puts into the job, and the status
  the program exits with. The parser of flags, the terminal and the decryption of a secret key are parameters;
  what is only logged is left out.
\<close>

section \<open>Keys\<close>

text \<open>
  Of an OpenPGP key, the fingerprint stands for the key in a job. \<open>eLocked\<close> says that a secret key still
  needs the passphrase.
\<close>

record keySig =
  sgCreated :: time
  sgKeyLifetime :: "32 word option"
  sgSigLifetime :: "32 word option"

record subkey =
  skFingerprint :: string
  skCreated :: time
  skLocked :: bool
  skSig :: "keySig option"
  skEmbedded :: "keySig option"

record entity =
  eFingerprint :: string
  eCreated :: time
  eEmails :: "string list"
  eLocked :: bool
  eSelfSig :: "keySig option"
  eSubkeys :: "subkey list"

record KeyExpiry =
  kxFingerprint :: string
  kxSubkey :: bool
  kxAt :: time

definition getKeyByEmail :: "entity list \<Rightarrow> string \<Rightarrow> entity option" where
  "getKeyByEmail keyring email = find (\<lambda>e. email \<in> set (eEmails e)) keyring"

definition upperChar :: "char \<Rightarrow> char" where
  "upperChar c = (if CHR ''a'' \<le> c \<and> c \<le> CHR ''z'' then char_of (of_char c - 32 :: nat) else c)"

definition lowerChar :: "char \<Rightarrow> char" where
  "lowerChar c = (if CHR ''A'' \<le> c \<and> c \<le> CHR ''Z'' then char_of (of_char c + 32 :: nat) else c)"

definition GetPublicKeys :: "entity list \<Rightarrow> string \<Rightarrow> entity list" where
  "GetPublicKeys pubRing emailOrFingerprint =
     (let fingerprint = trimPrefix (map upperChar (filter (\<lambda>c. c \<noteq> CHR '' '') emailOrFingerprint)) ''0X''
      in filter (\<lambda>e. eFingerprint e = fingerprint \<or> emailOrFingerprint \<in> set (eEmails e)) pubRing)"

text \<open>A message that no opened secret key decrypts is refused, never asked for.\<close>

datatype prompt_error = SealedWithPassphrase | LockedSecretKey "string list"

definition PromptFunc :: "string list \<Rightarrow> bool \<Rightarrow> prompt_error" where
  "PromptFunc keys symmetric = (if keys = [] \<and> symmetric then SealedWithPassphrase else LockedSecretKey keys)"

definition GetCombinedKeyRing :: "entity list \<Rightarrow> entity list \<Rightarrow> entity list" where
  "GetCombinedKeyRing pubRing secRing = pubRing @ secRing"

text \<open>When a part of a key stops being valid: at the end of its own lifetime or of its self-signature's.\<close>

definition lifetimeEnd :: "time \<Rightarrow> 32 word option \<Rightarrow> time" where
  "lifetimeEnd created life = (case life of None \<Rightarrow> zeroTime | Some secs \<Rightarrow> if secs = 0 then zeroTime else created + uint secs * second)"

definition addExpiry :: "string \<Rightarrow> time \<Rightarrow> bool \<Rightarrow> keySig option \<Rightarrow> KeyExpiry list" where
  "addExpiry fingerprint created isSubkey sig =
     (case sig of
        None \<Rightarrow> []
      | Some sg \<Rightarrow>
          (let keyAt = lifetimeEnd created (sgKeyLifetime sg);
               at = (case sgSigLifetime sg of
                       None \<Rightarrow> keyAt
                     | Some secs \<Rightarrow>
                         if secs = 0 then keyAt
                         else let sigAt = sgCreated sg + uint secs * second in if keyAt = zeroTime \<or> sigAt < keyAt then sigAt else keyAt)
           in if at \<noteq> zeroTime then [\<lparr>kxFingerprint = fingerprint, kxSubkey = isSubkey, kxAt = at\<rparr>] else []))"

definition Expiries :: "entity \<Rightarrow> KeyExpiry list" where
  "Expiries e =
     addExpiry (eFingerprint e) (eCreated e) False (eSelfSig e) @
     concat (map (\<lambda>sk. addExpiry (skFingerprint sk) (skCreated sk) True (skSig sk) @
                       (if skSig sk \<noteq> None then addExpiry (skFingerprint sk) (skCreated sk) True (skEmbedded sk) else []))
               (eSubkeys e))"

section \<open>The keys of a job\<close>

datatype cmd_error =
    ErrInvalidInput
  | PassphrasePanic string
  | BadFlags flag_error
  | BadURI backend_error
  | NoCreationDate string
  | SmartOption backup_error
  | BadTime string
  | NoHome string
  | NoDirectory string
  | ChecksFailed
  | BadInput fixture_error
  | NotRead string
  | NoPool string
  | NoBackups backup_error

text \<open>
  The flags of the root command and what they lead to: the rings that were read, the passphrase of the
  environment or the terminal, and whether it opens a key.
\<close>

record rootFlags =
  rfNumCores :: int
  rfLogLevel :: string
  rfSecretKeyRingPath :: string
  rfPublicKeyRingPath :: string
  rfWorkingDirectory :: string
  rfTrustSigners :: "string list"
  rfAllowKeyExpiry :: bool

record keyEnv =
  kvPubRing :: "entity list"
  kvSecRing :: "entity list"
  kvPassphrase :: string
  kvPrompt :: "string + string"
  kvOpens :: "string \<Rightarrow> string \<Rightarrow> bool"

definition validatePassphrase :: "keyEnv \<Rightarrow> cmd_error + string" where
  "validatePassphrase env =
     (if kvPassphrase env \<noteq> [] then Inr (kvPassphrase env)
      else case kvPrompt env of Inl e \<Rightarrow> Inl (PassphrasePanic e) | Inr p \<Rightarrow> Inr p)"

fun decryptKeys :: "keyEnv \<Rightarrow> (string \<times> bool) list \<Rightarrow> cmd_error option" where
  "decryptKeys env [] = None"
| "decryptKeys env ((fingerprint, locked) # keys) =
     (if \<not> locked then decryptKeys env keys
      else case validatePassphrase env of
             Inl e \<Rightarrow> Some e
           | Inr p \<Rightarrow> if kvOpens env fingerprint p then decryptKeys env keys else Some ErrInvalidInput)"

definition getAndDecryptPrivateKey :: "keyEnv \<Rightarrow> string \<Rightarrow> cmd_error + entity" where
  "getAndDecryptPrivateKey env email =
     (case getKeyByEmail (kvSecRing env) email of
        None \<Rightarrow> Inl ErrInvalidInput
      | Some e \<Rightarrow>
          (case decryptKeys env ((eFingerprint e, eLocked e) # map (\<lambda>sk. (skFingerprint sk, skLocked sk)) (eSubkeys e)) of
             Some err \<Rightarrow> Inl err
           | None \<Rightarrow> Inr e))"

fun trustedKeys :: "entity list \<Rightarrow> string list \<Rightarrow> cmd_error + entity list" where
  "trustedKeys pubRing [] = Inr []"
| "trustedKeys pubRing (signer # signers) =
     (case GetPublicKeys pubRing signer of
        [] \<Rightarrow> Inl ErrInvalidInput
      | keys \<Rightarrow> (case trustedKeys pubRing signers of Inl e \<Rightarrow> Inl e | Inr rest \<Rightarrow> Inr (keys @ rest)))"

definition loadTrustedSigners :: "keyEnv \<Rightarrow> rootFlags \<Rightarrow> JobInfo \<Rightarrow> cmd_error + entity list" where
  "loadTrustedSigners env fl j =
     (if rfTrustSigners fl = [] then Inr []
      else if SignFrom j = [] then Inl ErrInvalidInput
      else if rfPublicKeyRingPath fl = [] then Inl ErrInvalidInput
      else trustedKeys (kvPubRing env) (rfTrustSigners fl))"

text \<open>The dates are listed once each, for the log; only whether there is one decides.\<close>

definition checkKeyExpiry :: "rootFlags \<Rightarrow> entity option \<Rightarrow> entity option \<Rightarrow> entity list \<Rightarrow> cmd_error option" where
  "checkKeyExpiry fl encryptKey signKey trusted =
     (let expiries = concat (map Expiries (List.map_filter id [encryptKey, signKey] @ trusted))
      in if expiries = [] then None else if rfAllowKeyExpiry fl then None else Some ErrInvalidInput)"

definition usingSmartOption :: "JobInfo \<Rightarrow> bool" where
  "usingSmartOption j \<longleftrightarrow> Full j \<or> Incremental j \<or> FullIfOlderThan j \<noteq> - minute"

definition keyOfRing :: "entity option \<Rightarrow> cmd_error + entity" where
  "keyOfRing e = (case e of None \<Rightarrow> Inl ErrInvalidInput | Some e \<Rightarrow> Inr e)"

text \<open>The common end of both loaders: the trusted signers, the check of the dates, and the keys put into the job,
  which has none when the program starts.\<close>

definition installKeys :: "keyEnv \<Rightarrow> rootFlags \<Rightarrow> JobInfo \<Rightarrow> (cmd_error + entity) option \<Rightarrow> (cmd_error + entity) option \<Rightarrow> cmd_error + JobInfo" where
  "installKeys env fl j encryptKey signKey =
     (case encryptKey of
        Some (Inl e) \<Rightarrow> Inl e
      | _ \<Rightarrow>
          (case signKey of
             Some (Inl e) \<Rightarrow> Inl e
           | _ \<Rightarrow>
               (case loadTrustedSigners env fl j of
                  Inl e \<Rightarrow> Inl e
                | Inr trusted \<Rightarrow>
                    (let enc = map_option projr encryptKey; sign = map_option projr signKey
                     in case checkKeyExpiry fl enc sign trusted of
                          Some e \<Rightarrow> Inl e
                        | None \<Rightarrow>
                            Inr (j\<lparr>EncryptKey := map_option eFingerprint enc, SignKey := map_option eFingerprint sign,
                                   TrustedSignKeys := map eFingerprint trusted\<rparr>)))))"

definition loadSendKeys :: "keyEnv \<Rightarrow> rootFlags \<Rightarrow> JobInfo \<Rightarrow> cmd_error + JobInfo" where
  "loadSendKeys env fl j =
     (if EncryptTo j \<noteq> [] \<and>
         (usingSmartOption j \<and> rfSecretKeyRingPath fl = [] \<or> Resume j \<and> rfSecretKeyRingPath fl = [] \<or> rfPublicKeyRingPath fl = [])
      then Inl ErrInvalidInput
      else if SignFrom j \<noteq> [] \<and> rfSecretKeyRingPath fl = [] then Inl ErrInvalidInput
      else installKeys env fl j
             (if EncryptTo j = [] then None
              else Some (if usingSmartOption j \<or> Resume j then getAndDecryptPrivateKey env (EncryptTo j)
                         else keyOfRing (getKeyByEmail (kvPubRing env) (EncryptTo j))))
             (if SignFrom j = [] then None else Some (getAndDecryptPrivateKey env (SignFrom j))))"

definition loadReceiveKeys :: "keyEnv \<Rightarrow> rootFlags \<Rightarrow> JobInfo \<Rightarrow> cmd_error + JobInfo" where
  "loadReceiveKeys env fl j =
     (if EncryptTo j \<noteq> [] \<and> rfSecretKeyRingPath fl = [] then Inl ErrInvalidInput
      else if SignFrom j \<noteq> [] \<and> rfPublicKeyRingPath fl = [] then Inl ErrInvalidInput
      else installKeys env fl j
             (if EncryptTo j = [] then None else Some (getAndDecryptPrivateKey env (EncryptTo j)))
             (if SignFrom j = [] then None else Some (keyOfRing (getKeyByEmail (kvPubRing env) (SignFrom j)))))"

section \<open>The flags of every command\<close>

text \<open>\<^verbatim>\<open>filepath.Clean\<close> and \<^verbatim>\<open>filepath.Join\<close> of two elements.\<close>

definition cleanRelative :: "path \<Rightarrow> string \<Rightarrow> path" where
  "cleanRelative acc c =
     (if c = [] \<or> c = ''.'' then acc
      else if c = ''..'' then (if acc = [] \<or> last acc = ''..'' then acc @ [c] else butlast acc)
      else acc @ [c])"

definition filepath_Clean :: "string \<Rightarrow> string" where
  "filepath_Clean s =
     (if hasPrefix s ''/'' then pathString (foldl cleanStep [] (splitOn s ''/''))
      else let r = joinWith (foldl cleanRelative [] (splitOn s ''/'')) ''/'' in if r = [] then ''.'' else r)"

definition filepath_Join2 :: "string \<Rightarrow> string \<Rightarrow> string" where
  "filepath_Join2 a b = (case filter (\<lambda>s. s \<noteq> []) [a, b] of [] \<Rightarrow> [] | parts \<Rightarrow> filepath_Clean (joinWith parts ''/''))"

text \<open>The host: what \<open>stat\<close> says of a path (\<open>None\<close> an error, else whether it is a directory), and the errors of making one.\<close>

record procEnv =
  pvNumCPU :: int
  pvSecRing :: "string \<Rightarrow> string + entity list"
  pvPubRing :: "string \<Rightarrow> string + entity list"
  pvHome :: "string + string"
  pvStat :: "string \<Rightarrow> bool option"
  pvMkdirErr :: "string \<Rightarrow> string option"
  pvMkdirTemp :: "string \<Rightarrow> string + string"

record globals =
  gNumCores :: int
  gSecRing :: "entity list"
  gPubRing :: "entity list"
  gWorkingDir :: string
  gTempdir :: string
  gUploadRate :: "64 word"

definition ensureDir :: "procEnv \<Rightarrow> string \<Rightarrow> cmd_error option" where
  "ensureDir env path =
     (case pvStat env path of
        Some isDir \<Rightarrow> if isDir then None else Some ErrInvalidInput
      | None \<Rightarrow> map_option NoDirectory (pvMkdirErr env path))"

text \<open>The rate is given in units of 1000 bytes and wraps as the product of the program does; 0 is no limit.\<close>

definition setupGlobalVars :: "procEnv \<Rightarrow> string \<Rightarrow> 64 word \<Rightarrow> globals \<Rightarrow> cmd_error + globals" where
  "setupGlobalVars env workingDirectory maxUploadSpeed g =
     (case (if hasPrefix workingDirectory ''~''
            then (case pvHome env of Inl e \<Rightarrow> Inl (NoHome e) | Inr home \<Rightarrow> Inr (filepath_Join2 home (trimPrefix workingDirectory ''~'')))
            else Inr workingDirectory) of
        Inl e \<Rightarrow> Inl e
      | Inr wd \<Rightarrow>
          (case ensureDir env wd of
             Some e \<Rightarrow> Inl e
           | None \<Rightarrow>
               (case ensureDir env (filepath_Join2 wd ''temp'') of
                  Some e \<Rightarrow> Inl e
                | None \<Rightarrow>
                    (case pvMkdirTemp env (filepath_Join2 wd ''temp'') of
                       Inl e \<Rightarrow> Inl (NoDirectory e)
                     | Inr tempdir \<Rightarrow>
                         (case ensureDir env (filepath_Join2 wd ''cache'') of
                            Some e \<Rightarrow> Inl e
                          | None \<Rightarrow> Inr (g\<lparr>gWorkingDir := wd, gTempdir := tempdir, gUploadRate := maxUploadSpeed * 1000\<rparr>))))))"

definition logLevels :: "string list" where
  "logLevels = [''critical'', ''error'', ''warning'', ''warn'', ''notice'', ''info'', ''debug'']"

definition processFlags :: "procEnv \<Rightarrow> rootFlags \<Rightarrow> 64 word \<Rightarrow> cmd_error + globals" where
  "processFlags env fl maxUploadSpeed =
     (if map lowerChar (rfLogLevel fl) \<notin> set logLevels then Inl ErrInvalidInput
      else if rfNumCores fl \<le> 0 then Inl ErrInvalidInput
      else case (if rfSecretKeyRingPath fl = [] then Inr [] else pvSecRing env (rfSecretKeyRingPath fl)) of
             Inl e \<Rightarrow> Inl ErrInvalidInput
           | Inr secRing \<Rightarrow>
               (case (if rfPublicKeyRingPath fl = [] then Inr [] else pvPubRing env (rfPublicKeyRingPath fl)) of
                  Inl e \<Rightarrow> Inl ErrInvalidInput
                | Inr pubRing \<Rightarrow>
                    setupGlobalVars env (rfWorkingDirectory fl) maxUploadSpeed
                      \<lparr>gNumCores = min (rfNumCores fl) (pvNumCPU env), gSecRing = secRing, gPubRing = pubRing,
                       gWorkingDir = [], gTempdir = [], gUploadRate = 0\<rparr>))"

text \<open>Comma-separated destinations in their canonical spelling, and the spelling given for each (the last one given).\<close>

definition parseDestinations :: "string \<Rightarrow> string list \<times> (string \<rightharpoonup> string)" where
  "parseDestinations arg =
     (let raw = splitOn arg '','' in (map CanonicalURI raw, map_of (rev (map (\<lambda>r. (CanonicalURI r, r)) raw))))"

fun checkDestinations :: "string list \<Rightarrow> backend_error option" where
  "checkDestinations [] = None"
| "checkDestinations (d # ds) = (case GetBackendForURI d of Inl e \<Rightarrow> Some e | Inr k \<Rightarrow> checkDestinations ds)"

section \<open>The flags of send\<close>

text \<open>\<^verbatim>\<open>GetCreationDate\<close>: \<open>prop\<close> is what \<^verbatim>\<open>zfs get\<close> prints for the property of a target.\<close>

definition GetCreationDate :: "(string \<Rightarrow> string + string) \<Rightarrow> string \<Rightarrow> cmd_error + time" where
  "GetCreationDate prop target =
     (case prop target of
        Inl e \<Rightarrow> Inl (NoCreationDate e)
      | Inr raw \<Rightarrow> (case parseInt64 (trimSpace raw) of None \<Rightarrow> Inl (NoCreationDate raw) | Some n \<Rightarrow> Inr (epoch n)))"

text \<open>The dataset in front of \<open>@\<close> or \<open>#\<close> is removed, as both commands do it.\<close>

definition dropDataset :: "string \<Rightarrow> string \<Rightarrow> string" where
  "dropDataset vol name =
     (case cutPrefix name vol of
        None \<Rightarrow> name
      | Some rest \<Rightarrow> if hasPrefix rest ''@'' \<or> hasPrefix rest ''#'' then rest else name)"

definition resolveIncremental :: "(string \<Rightarrow> string + string) \<Rightarrow> string \<Rightarrow> SnapshotInfo \<Rightarrow> cmd_error + SnapshotInfo" where
  "resolveIncremental prop vol snap =
     (let name = dropDataset vol (Name snap);
          (snap, targetName) =
            (if hasPrefix name ''#''
             then (snap\<lparr>Name := trimPrefix name ''#'', Bookmark := True\<rparr>, vol @ ''#'' @ trimPrefix name ''#'')
             else (snap\<lparr>Name := trimPrefix name ''@''\<rparr>, vol @ ''@'' @ trimPrefix name ''@''))
      in case GetCreationDate prop targetName of Inl e \<Rightarrow> Inl e | Inr t \<Rightarrow> Inr (snap\<lparr>CreationTime := t\<rparr>))"

definition explicitSnapshots :: "(string \<Rightarrow> string + string) \<Rightarrow> string \<Rightarrow> string list \<Rightarrow> JobInfo \<Rightarrow> cmd_error + JobInfo" where
  "explicitSnapshots prop arg parts j =
     (if length parts \<noteq> 2 then Inl ErrInvalidInput
      else case GetCreationDate prop arg of
             Inl e \<Rightarrow> Inl e
           | Inr t \<Rightarrow>
               (let j = j\<lparr>BaseSnapshot := zeroSnapshot\<lparr>Name := parts ! 1, CreationTime := t\<rparr>\<rparr>
                in if Name (IncrementalSnapshot j) = [] then Inr j
                   else case resolveIncremental prop (VolumeName j) (IncrementalSnapshot j) of
                          Inl e \<Rightarrow> Inl e
                        | Inr snap \<Rightarrow> Inr (j\<lparr>IncrementalSnapshot := snap\<rparr>)))"

definition sendArguments :: "time \<Rightarrow> string \<Rightarrow> string \<Rightarrow> string \<Rightarrow> JobInfo \<Rightarrow> JobInfo" where
  "sendArguments now fullIncremental arg0 arg1 j =
     (let j = j\<lparr>StartTime := now\<rparr>;
          j = (if fullIncremental \<noteq> []
               then j\<lparr>IncrementalSnapshot := (IncrementalSnapshot j)\<lparr>Name := fullIncremental\<rparr>, IntermediaryIncremental := True\<rparr> else j)
      in j\<lparr>VolumeName := hd (splitOn arg0 ''@''), Destinations := fst (parseDestinations arg1)\<rparr>)"

definition updateJobInfo ::
    "sendEnv \<Rightarrow> (string \<Rightarrow> string + string) \<Rightarrow> string \<Rightarrow> bool \<Rightarrow> string \<Rightarrow> string \<Rightarrow> JobInfo \<Rightarrow> sendState \<Rightarrow> (cmd_error + JobInfo) \<times> sendState" where
  "updateJobInfo env prop fullIncremental sendDryRun arg0 arg1 j st =
     (let j = sendArguments (snNow env) fullIncremental arg0 arg1 j; parts = splitOn arg0 ''@''
      in case ValidateVolumeSize j of
           Some e \<Rightarrow> (Inl (BadFlags e), st)
         | None \<Rightarrow>
             if length (Destinations j) > 1 \<and> MaxFileBuffer j = 0 then (Inl ErrInvalidInput, st)
             else case checkDestinations (Destinations j) of
                    Some e \<Rightarrow> (Inl (BadURI e), st)
                  | None \<Rightarrow>
                      if \<not> usingSmartOption j then (explicitSnapshots prop arg0 parts j, st)
                      else if ValidateSmartOptions j \<noteq> None then (Inl ErrInvalidInput, st)
                      else if length parts \<noteq> 1 then (Inl ErrInvalidInput, st)
                      else case ProcessSmartOptions env j sendDryRun st of
                             (Inl e, st) \<Rightarrow> (Inl (SmartOption e), st)
                           | (Inr j, st) \<Rightarrow> (Inr j, st))"

definition validateSendFlags ::
    "sendEnv \<Rightarrow> keyEnv \<Rightarrow> (string \<Rightarrow> string + string) \<Rightarrow> rootFlags \<Rightarrow> string \<Rightarrow> bool \<Rightarrow> string list \<Rightarrow> JobInfo \<Rightarrow> sendState \<Rightarrow> (cmd_error + JobInfo) \<times> sendState" where
  "validateSendFlags env kenv prop fl fullIncremental sendDryRun args j st =
     (if length args \<noteq> 2 then (Inl ErrInvalidInput, st)
      else case loadSendKeys kenv fl j of
             Inl e \<Rightarrow> (Inl e, st)
           | Inr j \<Rightarrow>
               if Name (IncrementalSnapshot j) \<noteq> [] \<and> fullIncremental \<noteq> [] then (Inl ErrInvalidInput, st)
               else case ValidateSendFlags j of
                      Some e \<Rightarrow> (Inl (BadFlags e), st)
                    | None \<Rightarrow> updateJobInfo env prop fullIncremental sendDryRun (args ! 0) (args ! 1) j st)"

section \<open>The flags of receive, clean, list and plan\<close>

definition validateReceiveFlags :: "keyEnv \<Rightarrow> rootFlags \<Rightarrow> time \<Rightarrow> string list \<Rightarrow> JobInfo \<Rightarrow> cmd_error + JobInfo" where
  "validateReceiveFlags kenv fl now args j =
     (if length args \<noteq> 3 then Inl ErrInvalidInput
      else if MaxFileBuffer j < 0 then Inl ErrInvalidInput
      else if MaxFileBuffer j = 0 \<and> SignFrom j \<noteq> [] then Inl ErrInvalidInput
      else case loadReceiveKeys kenv fl j of
             Inl e \<Rightarrow> Inl e
           | Inr j \<Rightarrow>
               (let j = j\<lparr>StartTime := now\<rparr>; parts = splitOn (args ! 0) ''@''
                in if length parts \<noteq> 2 \<and> \<not> AutoRestoreOpt j then Inl ErrInvalidInput
                   else let j = (if length parts = 2 then j\<lparr>BaseSnapshot := zeroSnapshot\<lparr>Name := parts ! 1\<rparr>\<rparr> else j)
                        in if FullPath j \<and> LastPath j then Inl ErrInvalidInput
                           else let j = j\<lparr>VolumeName := hd parts, Destinations := fst (parseDestinations (args ! 1)), LocalVolume := args ! 2\<rparr>
                                in if AutoRestoreOpt j \<and> Name (IncrementalSnapshot j) \<noteq> [] then Inl ErrInvalidInput
                                   else let j = j\<lparr>Origin := trimPrefix (Origin j) ''origin=''\<rparr>;
                                            j = (if Name (IncrementalSnapshot j) \<noteq> []
                                                 then j\<lparr>IncrementalSnapshot := (IncrementalSnapshot j)
                                                          \<lparr>Name := trimPrefix (dropDataset (VolumeName j) (Name (IncrementalSnapshot j))) ''@''\<rparr>\<rparr>
                                                 else j)
                                        in if checkDestinations (Destinations j) \<noteq> None then Inl ErrInvalidInput else Inr j))"

definition validateCleanFlags :: "keyEnv \<Rightarrow> rootFlags \<Rightarrow> string list \<Rightarrow> JobInfo \<Rightarrow> cmd_error + JobInfo" where
  "validateCleanFlags kenv fl args j =
     (if length args \<noteq> 1 then Inl ErrInvalidInput
      else if CHR '','' \<in> set (args ! 0) then Inl ErrInvalidInput
      else loadReceiveKeys kenv fl j)"

text \<open>\<open>parseLocal\<close> reads a time of the form \<^verbatim>\<open>2006-01-02T15:04:05\<close> in the zone of the host.\<close>

definition parseBound :: "(string \<Rightarrow> string + time) \<Rightarrow> string \<Rightarrow> cmd_error + time" where
  "parseBound parseLocal s = (if s = [] then Inr zeroTime else case parseLocal s of Inl e \<Rightarrow> Inl (BadTime e) | Inr t \<Rightarrow> Inr t)"

definition validateListFlags ::
    "keyEnv \<Rightarrow> rootFlags \<Rightarrow> (string \<Rightarrow> string + time) \<Rightarrow> string \<Rightarrow> string \<Rightarrow> string list \<Rightarrow> JobInfo \<Rightarrow> cmd_error + JobInfo \<times> time \<times> time" where
  "validateListFlags kenv fl parseLocal beforeStr afterStr args j =
     (if length args \<noteq> 1 then Inl ErrInvalidInput
      else if CHR '','' \<in> set (args ! 0) then Inl ErrInvalidInput
      else case loadReceiveKeys kenv fl j of
             Inl e \<Rightarrow> Inl e
           | Inr j \<Rightarrow>
               (case parseBound parseLocal beforeStr of
                  Inl e \<Rightarrow> Inl e
                | Inr before \<Rightarrow>
                    (case parseBound parseLocal afterStr of Inl e \<Rightarrow> Inl e | Inr after \<Rightarrow> Inr (j, before, after))))"

definition validatePlanFlags :: "keyEnv \<Rightarrow> rootFlags \<Rightarrow> string \<Rightarrow> string \<Rightarrow> string list \<Rightarrow> JobInfo \<Rightarrow> cmd_error + JobInfo" where
  "validatePlanFlags kenv fl planSnapshots planManifests args j =
     (if length args < 1 \<or> length args > 2 then Inl ErrInvalidInput
      else if CHR ''@'' \<in> set (args ! 0) then Inl ErrInvalidInput
      else if ValidateSmartOptions j \<noteq> None then Inl ErrInvalidInput
      else if planSnapshots = ''-'' \<and> planManifests = ''-'' then Inl ErrInvalidInput
      else if length args = 2
           then (if planManifests \<noteq> [] then Inl ErrInvalidInput
                 else case checkDestinations (fst (parseDestinations (args ! 1))) of
                        Some e \<Rightarrow> Inl (BadURI e)
                      | None \<Rightarrow> loadSendKeys kenv fl j)
           else Inr j)"

section \<open>The command plan\<close>

text \<open>\<open>readFile\<close> is the text of a file, or of the standard input for \<open>-\<close>; the output is not modelled.\<close>

record planEnv =
  peSend :: sendEnv
  peZone :: environment
  peTimes :: timeParsers
  peJson :: "string \<Rightarrow> string + (string \<times> string \<times> string) list"
  peReadFile :: "string \<Rightarrow> string + string"
  peZero :: Scenario

definition readPlanInput :: "planEnv \<Rightarrow> string \<Rightarrow> (string \<Rightarrow> fixture_error + Scenario) \<Rightarrow> cmd_error + Scenario" where
  "readPlanInput env path rd =
     (case peReadFile env path of
        Inl e \<Rightarrow> Inl (NotRead e)
      | Inr text \<Rightarrow> (case rd text of Inl e \<Rightarrow> Inl (BadInput e) | Inr sc \<Rightarrow> Inr sc))"

fun BackupsAtTargets :: "sendEnv \<Rightarrow> string \<Rightarrow> JobInfo \<Rightarrow> string list \<Rightarrow> sendState \<Rightarrow> (cmd_error + Manifest list list) \<times> sendState" where
  "BackupsAtTargets env vol j [] st = (Inr [], st)"
| "BackupsAtTargets env vol j (uri # uris) st =
     (case snBackend env uri of
        Inl e \<Rightarrow> (Inl (NoBackups (NoBackend e)), st)
      | Inr d \<Rightarrow>
          (case getBackupsForTarget (snFs env) (snCodec env) (snMd5 env) (dBackend d) j vol True (ssIO st uri) of
             (Inl err, io) \<Rightarrow> (Inl (NoBackups (ReadFailed err)), setIO uri io st)
           | (Inr backups, io) \<Rightarrow>
               (case BackupsAtTargets env vol j uris (setIO uri io st) of
                  (Inl err, st) \<Rightarrow> (Inl err, st)
                | (Inr rest, st) \<Rightarrow> (Inr (backups # rest), st))))"

definition planSnapshotsOf :: "planEnv \<Rightarrow> string \<Rightarrow> Scenario \<Rightarrow> cmd_error + Scenario" where
  "planSnapshotsOf env planSnapshots sc =
     (if planSnapshots = []
      then (case snPool (peSend env) of Inl e \<Rightarrow> Inl (NoPool e) | Inr snapshots \<Rightarrow> Inr (sc\<lparr>Snapshots := snapshots\<rparr>))
      else case readPlanInput env planSnapshots (ReadSnapshots (peJson env) (peZone env) sc) of
             Inl e \<Rightarrow> Inl e
           | Inr sc \<Rightarrow> if CaptureDataset sc \<noteq> [] \<and> CaptureDataset sc \<noteq> Volume sc then Inl ErrInvalidInput else Inr sc)"

definition planDestinations :: "planEnv \<Rightarrow> string \<Rightarrow> string list \<Rightarrow> JobInfo \<Rightarrow> Scenario \<Rightarrow> sendState \<Rightarrow> (cmd_error + Scenario) \<times> sendState" where
  "planDestinations env planManifests args j sc st =
     (if planManifests \<noteq> []
      then (case readPlanInput env planManifests (ReadManifests (peZone env) sc) of
              Inl e \<Rightarrow> (Inl e, st)
            | Inr sc \<Rightarrow> (Inr ((snd (AdoptCreationTimes sc))\<lparr>Completable := Resume j\<rparr>), st))
      else if length args = 2
      then (let j = j\<lparr>Destinations := fst (parseDestinations (args ! 1))\<rparr>
            in case BackupsAtTargets (peSend env) (Volume sc) j (Destinations j) st of
                 (Inl e, st) \<Rightarrow> (Inl e, st)
               | (Inr destBackups, st) \<Rightarrow>
                   (let sc = snd (AdoptCreationTimes (sc\<lparr>DestBackups := destBackups\<rparr>))
                    in case PartialSetCompletable (snBackend (peSend env)) j (DestBackups sc) of
                         Inl e \<Rightarrow> (Inl (NoBackups (NoBackend e)), st)
                       | Inr completable \<Rightarrow> (Inr (sc\<lparr>Completable := completable\<rparr>), st)))
      else (Inr (sc\<lparr>DestBackups := [[]], Completable := Resume j\<rparr>), st))"

definition planScenario ::
    "planEnv \<Rightarrow> string \<Rightarrow> string \<Rightarrow> string \<Rightarrow> string list \<Rightarrow> JobInfo \<Rightarrow> sendState \<Rightarrow> (cmd_error + Scenario) \<times> sendState" where
  "planScenario env planSchedule planSnapshots planManifests args j st =
     (let sc = (peZero env)\<lparr>ScenarioJob := j\<rparr>
      in case (if planSchedule = [] then Inr sc else ParseScheduleSpec (peTimes env) (peZone env) planSchedule sc) of
           Inl e \<Rightarrow> (Inl (BadInput e), st)
         | Inr sc \<Rightarrow>
             (case planSnapshotsOf env planSnapshots (sc\<lparr>Volume := args ! 0\<rparr>) of
                Inl e \<Rightarrow> (Inl e, st)
              | Inr sc \<Rightarrow> planDestinations env planManifests args j sc st))"

text \<open>\<open>None\<close> is a simulation that does not end.\<close>

definition runPlan ::
    "planEnv \<Rightarrow> string \<Rightarrow> string \<Rightarrow> string \<Rightarrow> string list \<Rightarrow> JobInfo \<Rightarrow> sendState \<Rightarrow> cmd_error option option \<times> sendState" where
  "runPlan env planSchedule planSnapshots planManifests args j st =
     (case planScenario env planSchedule planSnapshots planManifests args j st of
        (Inl e, st) \<Rightarrow> (Some (Some e), st)
      | (Inr sc, st) \<Rightarrow>
          (case Run (peZone env) sc of
             None \<Rightarrow> (None, st)
           | Some sim \<Rightarrow>
               (Some (if Steps sim = [] then Some ErrInvalidInput
                      else if Simulation_Check sim (Checks sc) \<noteq> [] then Some ChecksFailed else None), st)))"

section \<open>Signals and the exit status\<close>

datatype subcommand = SendCmd | ReceiveCmd | CleanCmd | ListCmd | PlanCmd | VersionCmd

text \<open>\<open>sgExit\<close> is the status of a process that a second signal ended.\<close>

record signals =
  sgFirst :: bool
  sgInterruptedBy :: int
  sgCancelled :: bool
  sgExit :: "int option"

definition SignalContext :: signals where
  "SignalContext = \<lparr>sgFirst = True, sgInterruptedBy = 0, sgCancelled = False, sgExit = None\<rparr>"

definition onSignal :: "int \<Rightarrow> signals \<Rightarrow> signals" where
  "onSignal sig st =
     (if sgExit st \<noteq> None then st
      else if \<not> sgFirst st then st\<lparr>sgExit := Some (128 + sig)\<rparr>
      else st\<lparr>sgFirst := False, sgInterruptedBy := sig, sgCancelled := True\<rparr>)"

definition errNoOp :: "cmd_error \<Rightarrow> bool" where
  "errNoOp e \<longleftrightarrow> e = SmartOption (NotPlanned ErrNoOp)"

definition errInFuture :: "cmd_error \<Rightarrow> bool" where
  "errInFuture e \<longleftrightarrow> (case e of SmartOption (NotPlanned (PlanError (ErrLastBackupInFuture _ _ _ _ _))) \<Rightarrow> True | _ \<Rightarrow> False)"

text \<open>\<open>sig\<close> is the first signal that came, 0 for none.\<close>

definition exitCode :: "int \<Rightarrow> subcommand \<Rightarrow> cmd_error option \<Rightarrow> int" where
  "exitCode sig cmd err =
     (case err of
        None \<Rightarrow> 0
      | Some e \<Rightarrow>
          if errNoOp e \<and> sig = 0 then 0
          else if sig \<noteq> 0 then 128 + sig
          else if e = ChecksFailed \<or> errInFuture e then 2
          else if cmd = PlanCmd then 1
          else 255)"

section \<open>What a job has after its flags passed\<close>

lemma installKeys_ok:
  assumes "installKeys env fl j encryptKey signKey = Inr j'"
  shows "\<exists>enc sign trusted. encryptKey = map_option Inr enc \<and> signKey = map_option Inr sign \<and>
    loadTrustedSigners env fl j = Inr trusted \<and> checkKeyExpiry fl enc sign trusted = None \<and>
    j' = j\<lparr>EncryptKey := map_option eFingerprint enc, SignKey := map_option eFingerprint sign, TrustedSignKeys := map eFingerprint trusted\<rparr>"
proof -
  have enc: "encryptKey = map_option Inr (map_option projr encryptKey)" and sign: "signKey = map_option Inr (map_option projr signKey)"
    using assms by (auto simp: installKeys_def split: option.splits sum.splits)
  show ?thesis
    using assms
    by (intro exI [of _ "map_option projr encryptKey"] exI [of _ "map_option projr signKey"])
      (use enc sign in \<open>auto simp: installKeys_def Let_def split: option.splits sum.splits\<close>)
qed

lemma checkKeyExpiry_ok:
  assumes "checkKeyExpiry fl enc sign trusted = None" "e \<in> set trusted \<or> enc = Some e \<or> sign = Some e"
  shows "rfAllowKeyExpiry fl \<or> Expiries e = []"
  using assms by (auto simp: checkKeyExpiry_def Let_def map_filter_simps split: if_splits option.splits)

lemma getKeyByEmail_Some: "getKeyByEmail ring email = Some e \<Longrightarrow> e \<in> set ring \<and> email \<in> set (eEmails e)"
  by (auto simp: getKeyByEmail_def find_Some_iff)

lemma getAndDecrypt_Inr: "getAndDecryptPrivateKey env email = Inr e \<Longrightarrow> e \<in> set (kvSecRing env) \<and> email \<in> set (eEmails e)"
  by (auto simp: getAndDecryptPrivateKey_def dest!: getKeyByEmail_Some split: option.splits)

lemma keyOfRing_Inr: "keyOfRing (getKeyByEmail ring email) = Inr e \<Longrightarrow> e \<in> set ring \<and> email \<in> set (eEmails e)"
  by (auto simp: keyOfRing_def dest!: getKeyByEmail_Some split: option.splits)

text \<open>The key a job was given for an address: one of a ring that has the address, and that does not expire unless that was allowed.\<close>

definition keyFor :: "rootFlags \<Rightarrow> entity list \<Rightarrow> string \<Rightarrow> string option \<Rightarrow> bool" where
  "keyFor fl ring email key \<longleftrightarrow>
     (if email = [] then key = None
      else list_ex (\<lambda>e. email \<in> set (eEmails e) \<and> key = Some (eFingerprint e) \<and> (rfAllowKeyExpiry fl \<or> Expiries e = [])) ring)"

lemma keyForI:
  assumes "email = [] \<longrightarrow> key = None" "email \<noteq> [] \<longrightarrow> (\<exists>e. key = Some e \<and> e \<in> set ring \<and> email \<in> set (eEmails e) \<and> (rfAllowKeyExpiry fl \<or> Expiries e = []))"
  shows "keyFor fl ring email (map_option eFingerprint key)"
  using assms by (auto simp: keyFor_def list_ex_iff)

lemma loadSendKeys_ok:
  assumes "loadSendKeys env fl j = Inr j'"
  shows "keyFor fl (kvPubRing env @ kvSecRing env) (EncryptTo j) (EncryptKey j') \<and> keyFor fl (kvSecRing env) (SignFrom j) (SignKey j') \<and>
    (\<exists>a b c. j' = j\<lparr>EncryptKey := a, SignKey := b, TrustedSignKeys := c\<rparr>)"
proof -
  let ?enc = "if EncryptTo j = [] then None
      else Some (if usingSmartOption j \<or> Resume j then getAndDecryptPrivateKey env (EncryptTo j)
                 else keyOfRing (getKeyByEmail (kvPubRing env) (EncryptTo j)))"
  let ?sign = "if SignFrom j = [] then None else Some (getAndDecryptPrivateKey env (SignFrom j))"
  have "installKeys env fl j ?enc ?sign = Inr j'" using assms by (auto simp: loadSendKeys_def split: if_splits)
  then obtain enc sign trusted where enc: "?enc = map_option Inr enc" and sign: "?sign = map_option Inr sign"
    and dates: "checkKeyExpiry fl enc sign trusted = None"
    and j': "j' = j\<lparr>EncryptKey := map_option eFingerprint enc, SignKey := map_option eFingerprint sign, TrustedSignKeys := map eFingerprint trusted\<rparr>"
    using installKeys_ok by blast
  have "keyFor fl (kvPubRing env @ kvSecRing env) (EncryptTo j) (map_option eFingerprint enc)"
    using enc checkKeyExpiry_ok [OF dates]
    by (intro keyForI; cases enc) (auto split: if_splits dest: getAndDecrypt_Inr [OF sym] getAndDecrypt_Inr keyOfRing_Inr)
  moreover have "keyFor fl (kvSecRing env) (SignFrom j) (map_option eFingerprint sign)"
    using sign checkKeyExpiry_ok [OF dates]
    by (intro keyForI; cases sign) (auto split: if_splits dest: getAndDecrypt_Inr)
  ultimately show ?thesis using j' by auto
qed

lemma loadReceiveKeys_ok:
  assumes "loadReceiveKeys env fl j = Inr j'"
  shows "keyFor fl (kvSecRing env) (EncryptTo j) (EncryptKey j') \<and> keyFor fl (kvPubRing env) (SignFrom j) (SignKey j') \<and>
    (\<exists>a b c. j' = j\<lparr>EncryptKey := a, SignKey := b, TrustedSignKeys := c\<rparr>)"
proof -
  let ?enc = "if EncryptTo j = [] then None else Some (getAndDecryptPrivateKey env (EncryptTo j))"
  let ?sign = "if SignFrom j = [] then None else Some (keyOfRing (getKeyByEmail (kvPubRing env) (SignFrom j)))"
  have "installKeys env fl j ?enc ?sign = Inr j'" using assms by (simp add: loadReceiveKeys_def split: if_splits)
  then obtain enc sign trusted where enc: "?enc = map_option Inr enc" and sign: "?sign = map_option Inr sign"
    and dates: "checkKeyExpiry fl enc sign trusted = None"
    and j': "j' = j\<lparr>EncryptKey := map_option eFingerprint enc, SignKey := map_option eFingerprint sign, TrustedSignKeys := map eFingerprint trusted\<rparr>"
    using installKeys_ok by blast
  have "keyFor fl (kvSecRing env) (EncryptTo j) (map_option eFingerprint enc)"
    using enc checkKeyExpiry_ok [OF dates] by (intro keyForI; cases enc) (auto split: if_splits dest: getAndDecrypt_Inr)
  moreover have "keyFor fl (kvPubRing env) (SignFrom j) (map_option eFingerprint sign)"
    using sign checkKeyExpiry_ok [OF dates] by (intro keyForI; cases sign) (auto split: if_splits dest: keyOfRing_Inr)
  ultimately show ?thesis using j' by auto
qed

lemma ProcessSmartOptions_options:
  assumes "ProcessSmartOptions env j dryRun st = (Inr j', st')"
  shows "\<exists>b c i. j' = j\<lparr>BaseSnapshot := b, CompletePartial := c, IncrementalSnapshot := i\<rparr>"
proof -
  obtain snapshots destBackups completable where "selectSmartSnapshots (snNow env) j snapshots destBackups completable = Inr j'"
    using assms by (auto simp: ProcessSmartOptions_def split: sum.splits prod.splits)
  moreover obtain p err where "planSmartAt (snNow env) j snapshots destBackups completable = (p, err)" by fastforce
  ultimately have "j' = (let j = j\<lparr>BaseSnapshot := Base p, CompletePartial := (Reason p = reasonCompletePartial)\<rparr>
      in if Action p = PlanIncremental then j\<lparr>IncrementalSnapshot := Source p\<rparr> else j)"
    by (simp add: selectSmartSnapshots_def split: option.splits if_splits)
  then have "j' = j\<lparr>BaseSnapshot := Base p, CompletePartial := (Reason p = reasonCompletePartial),
      IncrementalSnapshot := (if Action p = PlanIncremental then Source p else IncrementalSnapshot j)\<rparr>" by simp
  then show ?thesis by blast
qed

lemma explicitSnapshots_options:
  assumes "explicitSnapshots prop arg parts j = Inr j'"
  shows "length parts = 2 \<and> (\<exists>t i. GetCreationDate prop arg = Inr t \<and>
    j' = j\<lparr>BaseSnapshot := zeroSnapshot\<lparr>Name := parts ! 1, CreationTime := t\<rparr>, IncrementalSnapshot := i\<rparr>)"
proof -
  obtain t where parts: "length parts = 2" and t: "GetCreationDate prop arg = Inr t"
    using assms by (auto simp: explicitSnapshots_def split: if_splits sum.splits)
  let ?b = "zeroSnapshot\<lparr>Name := parts ! 1, CreationTime := t\<rparr>"
  have "j' = j\<lparr>BaseSnapshot := ?b\<rparr> \<or> (\<exists>i. j' = j\<lparr>BaseSnapshot := ?b, IncrementalSnapshot := i\<rparr>)"
    using assms parts t by (auto simp: explicitSnapshots_def Let_def split: if_splits sum.splits)
  then have "\<exists>i. j' = j\<lparr>BaseSnapshot := ?b, IncrementalSnapshot := i\<rparr>"
  proof
    assume "j' = j\<lparr>BaseSnapshot := ?b\<rparr>"
    then have "j' = j\<lparr>BaseSnapshot := ?b, IncrementalSnapshot := IncrementalSnapshot j\<rparr>" by simp
    then show ?thesis by blast
  qed
  with parts t show ?thesis by blast
qed

lemma checkDestinations_None: "checkDestinations ds = None \<longleftrightarrow> (\<forall>d\<in>set ds. \<exists>k. GetBackendForURI d = Inr k)"
  by (induction ds) (auto split: sum.splits)

text \<open>The options a send takes from its arguments, whichever way its snapshots are chosen.\<close>

lemma ValidateVolumeSize_snapshots:
  "ValidateVolumeSize (j\<lparr>BaseSnapshot := b, CompletePartial := c, IncrementalSnapshot := i\<rparr>) = ValidateVolumeSize j"
  by (simp add: ValidateVolumeSize_def Let_def)

lemma sendArguments_simps:
  "usingSmartOption (sendArguments now fi a b j) = usingSmartOption j"
  "ValidateSmartOptions (sendArguments now fi a b j) = ValidateSmartOptions j"
  "Destinations (sendArguments now fi a b j) = fst (parseDestinations b)"
  "VolumeName (sendArguments now fi a b j) = hd (splitOn a ''@'')"
  "MaxFileBuffer (sendArguments now fi a b j) = MaxFileBuffer j"
  "EncryptKey (sendArguments now fi a b j) = EncryptKey j"
  "SignKey (sendArguments now fi a b j) = SignKey j"
  by (simp_all add: sendArguments_def Let_def usingSmartOption_def ValidateSmartOptions_def)

text \<open>The snapshots are chosen by the plan, or are those of the argument, with the time that zfs has for them.\<close>

lemma updateJobInfo_options:
  assumes "updateJobInfo env prop fi dry arg0 arg1 j st = (Inr j', st')"
  defines "k \<equiv> sendArguments (snNow env) fi arg0 arg1 j"
  shows "ValidateVolumeSize k = None \<and> (1 < length (Destinations k) \<longrightarrow> MaxFileBuffer k \<noteq> 0) \<and> checkDestinations (Destinations k) = None \<and>
    (\<exists>b c i. j' = k\<lparr>BaseSnapshot := b, CompletePartial := c, IncrementalSnapshot := i\<rparr> \<and>
      (if usingSmartOption j then ValidateSmartOptions j = None \<and> length (splitOn arg0 ''@'') = 1
       else splitOn arg0 ''@'' = [VolumeName k, Name b] \<and> GetCreationDate prop arg0 = Inr (CreationTime b)))"
proof -
  note run = assms(1) [unfolded updateJobInfo_def Let_def, folded k_def]
  have k: "usingSmartOption k = usingSmartOption j" "ValidateSmartOptions k = ValidateSmartOptions j" "VolumeName k = hd (splitOn arg0 ''@'')"
    by (simp_all add: k_def sendArguments_simps)
  have checks: "ValidateVolumeSize k = None \<and> (1 < length (Destinations k) \<longrightarrow> MaxFileBuffer k \<noteq> 0) \<and> checkDestinations (Destinations k) = None"
    using run by (auto split: option.splits if_splits)
  show ?thesis
  proof (cases "usingSmartOption j")
    case True
    then have "ProcessSmartOptions env k dry st = (Inr j', st')" "ValidateSmartOptions j = None" "length (splitOn arg0 ''@'') = 1"
      using run k checks by (auto split: if_splits prod.splits sum.splits)
    then show ?thesis using checks ProcessSmartOptions_options [of env k dry st j' st'] True by metis
  next
    case False
    then have "explicitSnapshots prop arg0 (splitOn arg0 ''@'') k = Inr j'" using run k checks by (simp split: if_splits)
    from explicitSnapshots_options [OF this] obtain t i
      where two: "length (splitOn arg0 ''@'') = 2" and t: "GetCreationDate prop arg0 = Inr t"
        and j': "j' = k\<lparr>BaseSnapshot := zeroSnapshot\<lparr>Name := splitOn arg0 ''@'' ! 1, CreationTime := t\<rparr>, IncrementalSnapshot := i\<rparr>" by blast
    from two obtain x y where xy: "splitOn arg0 ''@'' = [x, y]" by (auto simp: length_Suc_conv numeral_2_eq_2)
    let ?b = "zeroSnapshot\<lparr>Name := y, CreationTime := t\<rparr>"
    have "j' = k\<lparr>BaseSnapshot := ?b, CompletePartial := CompletePartial k, IncrementalSnapshot := i\<rparr>" using j' xy by simp
    moreover have "splitOn arg0 ''@'' = [VolumeName k, Name ?b]" "GetCreationDate prop arg0 = Inr (CreationTime ?b)" using xy k t by simp_all
    ultimately show ?thesis using checks False by metis
  qed
qed

text \<open>
  C10. A send that is started has what its flags ask for: with \<^verbatim>\<open>--encryptTo\<close> it has the key of a ring with that address, and so with
  \<^verbatim>\<open>--signFrom\<close>, and none of them expires unless that was allowed, so nothing is sent in the clear or unsigned by mistake; every destination
  has a backend; a send to several destinations keeps its volumes in files; the volume size suits the destinations; and the
  snapshot is the one of the argument with the time that zfs has for it, or is left to exactly one of the options that choose it.
\<close>

theorem validateSendFlags_sound:
  assumes "validateSendFlags env kenv prop fl fi dry args j st = (Inr j', st')"
  shows "keyFor fl (kvPubRing kenv @ kvSecRing kenv) (EncryptTo j) (EncryptKey j') \<and> keyFor fl (kvSecRing kenv) (SignFrom j) (SignKey j') \<and>
    Destinations j' = fst (parseDestinations (args ! 1)) \<and> (\<forall>d\<in>set (Destinations j'). \<exists>k. GetBackendForURI d = Inr k) \<and>
    0 \<le> MaxFileBuffer j' \<and> (1 < length (Destinations j') \<longrightarrow> 0 < MaxFileBuffer j') \<and> ValidateVolumeSize j' = None \<and>
    (if usingSmartOption j then ValidateSmartOptions j = None \<and> args ! 0 = VolumeName j'
     else args ! 0 = VolumeName j' @ ''@'' @ Name (BaseSnapshot j') \<and> GetCreationDate prop (args ! 0) = Inr (CreationTime (BaseSnapshot j')))"
proof -
  obtain j1 where keys: "loadSendKeys kenv fl j = Inr j1" and flags: "ValidateSendFlags j1 = None"
    and upd: "updateJobInfo env prop fi dry (args ! 0) (args ! 1) j1 st = (Inr j', st')"
    using assms by (auto simp: validateSendFlags_def split: if_splits sum.splits option.splits)
  let ?k = "sendArguments (snNow env) fi (args ! 0) (args ! 1) j1"
  obtain a b c where j1: "j1 = j\<lparr>EncryptKey := a, SignKey := b, TrustedSignKeys := c\<rparr>" using loadSendKeys_ok [OF keys] by blast
  then have smart: "usingSmartOption j1 = usingSmartOption j" "ValidateSmartOptions j1 = ValidateSmartOptions j"
    by (simp_all add: usingSmartOption_def ValidateSmartOptions_def)
  obtain bs cp i where j': "j' = ?k\<lparr>BaseSnapshot := bs, CompletePartial := cp, IncrementalSnapshot := i\<rparr>"
    and snap: "if usingSmartOption j1 then ValidateSmartOptions j1 = None \<and> length (splitOn (args ! 0) ''@'') = 1
      else splitOn (args ! 0) ''@'' = [VolumeName ?k, Name bs] \<and> GetCreationDate prop (args ! 0) = Inr (CreationTime bs)"
    using updateJobInfo_options [OF upd] by blast
  have checks: "ValidateVolumeSize ?k = None \<and> (1 < length (Destinations ?k) \<longrightarrow> MaxFileBuffer ?k \<noteq> 0) \<and> checkDestinations (Destinations ?k) = None"
    using updateJobInfo_options [OF upd] by blast
  have buffer: "0 \<le> MaxFileBuffer j1" using flags by (simp add: ValidateSendFlags_def split: if_splits)
  have join: "joinWith (splitOn (args ! 0) ''@'') ''@'' = args ! 0" by (simp add: joinWith_splitOn)
  have vol: "VolumeName j' = VolumeName ?k" "BaseSnapshot j' = bs" unfolding j' by simp_all
  have snaps: "if usingSmartOption j then ValidateSmartOptions j = None \<and> args ! 0 = VolumeName j'
     else args ! 0 = VolumeName j' @ ''@'' @ Name (BaseSnapshot j') \<and> GetCreationDate prop (args ! 0) = Inr (CreationTime (BaseSnapshot j'))"
  proof (cases "usingSmartOption j")
    case True
    then obtain v where "splitOn (args ! 0) ''@'' = [v]" "ValidateSmartOptions j = None" using snap smart by (auto simp: length_Suc_conv)
    moreover from this have "VolumeName ?k = v" "args ! 0 = v" using join by (simp_all add: sendArguments_simps)
    ultimately show ?thesis using True vol by simp
  next
    case False
    then have two: "splitOn (args ! 0) ''@'' = [VolumeName ?k, Name bs]" "GetCreationDate prop (args ! 0) = Inr (CreationTime bs)"
      using snap smart by simp_all
    have "args ! 0 = VolumeName ?k @ ''@'' @ Name bs" using join unfolding two(1) by simp
    with False two(2) vol show ?thesis by simp
  qed
  have size: "ValidateVolumeSize j' = None" using checks unfolding j' by (simp add: ValidateVolumeSize_snapshots)
  have "Destinations j' = fst (parseDestinations (args ! 1))" "MaxFileBuffer j' = MaxFileBuffer j1"
    "EncryptKey j' = EncryptKey j1" "SignKey j' = SignKey j1" unfolding j' by (simp_all add: sendArguments_simps)
  with snaps size show ?thesis
    using loadSendKeys_ok [OF keys] checks buffer by (simp add: sendArguments_simps checkDestinations_None less_le)
qed

text \<open>
  C19. A receive that is started has the keys its flags ask for, none of which expires unless that was allowed. With \<^verbatim>\<open>--signFrom\<close> it never
  streams a volume whose signature is not checked yet; without \<^verbatim>\<open>--auto\<close> the snapshot is given, and with it no incremental is.
\<close>

theorem validateReceiveFlags_sound:
  assumes "validateReceiveFlags kenv fl now args j = Inr j'"
  shows "keyFor fl (kvSecRing kenv) (EncryptTo j) (EncryptKey j') \<and> keyFor fl (kvPubRing kenv) (SignFrom j) (SignKey j') \<and>
    (SignKey j' \<noteq> None \<longrightarrow> 0 < MaxFileBuffer j') \<and> 0 \<le> MaxFileBuffer j' \<and> \<not> (FullPath j' \<and> LastPath j') \<and>
    (AutoRestoreOpt j' \<longrightarrow> Name (IncrementalSnapshot j') = []) \<and>
    (\<not> AutoRestoreOpt j' \<longrightarrow> args ! 0 = VolumeName j' @ ''@'' @ Name (BaseSnapshot j')) \<and>
    (\<forall>d\<in>set (Destinations j'). \<exists>k. GetBackendForURI d = Inr k)"
proof -
  obtain j1 where keys: "loadReceiveKeys kenv fl j = Inr j1" and buffer: "0 \<le> MaxFileBuffer j" "SignFrom j \<noteq> [] \<longrightarrow> MaxFileBuffer j \<noteq> 0"
    using assms by (auto simp: validateReceiveFlags_def split: if_splits sum.splits)
  let ?parts = "splitOn (args ! 0) ''@''"
  let ?i = "(IncrementalSnapshot j1)\<lparr>Name := trimPrefix (dropDataset (hd ?parts) (Name (IncrementalSnapshot j1))) ''@''\<rparr>"
  have j': "j' = j1\<lparr>StartTime := now, BaseSnapshot := (if length ?parts = 2 then zeroSnapshot\<lparr>Name := ?parts ! 1\<rparr> else BaseSnapshot j1),
      VolumeName := hd ?parts, Destinations := fst (parseDestinations (args ! 1)), LocalVolume := args ! 2, Origin := trimPrefix (Origin j1) ''origin='',
      IncrementalSnapshot := (if Name (IncrementalSnapshot j1) = [] then IncrementalSnapshot j1 else ?i)\<rparr>"
    using assms keys by (simp add: validateReceiveFlags_def Let_def split: if_splits)
  have given: "length ?parts = 2 \<or> AutoRestoreOpt j1" "\<not> (FullPath j1 \<and> LastPath j1)" "AutoRestoreOpt j1 \<longrightarrow> Name (IncrementalSnapshot j1) = []"
    "checkDestinations (fst (parseDestinations (args ! 1))) = None"
    using assms keys by (auto simp: validateReceiveFlags_def Let_def split: if_splits)
  have same: "MaxFileBuffer j' = MaxFileBuffer j1" "FullPath j' = FullPath j1" "LastPath j' = LastPath j1" "AutoRestoreOpt j' = AutoRestoreOpt j1"
    "EncryptKey j' = EncryptKey j1" "SignKey j' = SignKey j1" "Destinations j' = fst (parseDestinations (args ! 1))" unfolding j' by simp_all
  have "MaxFileBuffer j1 = MaxFileBuffer j" using loadReceiveKeys_ok [OF keys] by auto
  moreover have "SignKey j1 \<noteq> None \<longrightarrow> SignFrom j \<noteq> []" using loadReceiveKeys_ok [OF keys] by (auto simp: keyFor_def)
  moreover have "AutoRestoreOpt j1 \<longrightarrow> Name (IncrementalSnapshot j') = []" using given(3) unfolding j' by simp
  moreover have "\<not> AutoRestoreOpt j1 \<longrightarrow> args ! 0 = VolumeName j' @ ''@'' @ Name (BaseSnapshot j')"
  proof
    assume "\<not> AutoRestoreOpt j1"
    then obtain x y where xy: "?parts = [x, y]" using given(1) by (auto simp: length_Suc_conv numeral_2_eq_2)
    then show "args ! 0 = VolumeName j' @ ''@'' @ Name (BaseSnapshot j')"
      using joinWith_splitOn [of "''@''" "args ! 0"] unfolding j' xy by simp
  qed
  ultimately show ?thesis
    using loadReceiveKeys_ok [OF keys] buffer given(2,4) unfolding same by (auto simp: checkDestinations_None)
qed

section \<open>The spellings of an incremental\<close>

lemma dropDataset_plain:
  assumes "CHR ''@'' \<notin> set name" "CHR ''#'' \<notin> set name"
  shows "dropDataset vol name = name"
  using assms by (auto simp: dropDataset_def cutPrefix_def hasPrefix_iff)

lemma dropDataset_sign:
  assumes "c \<in> {CHR ''@'', CHR ''#''}" "vol \<noteq> []" "c \<notin> set vol"
  shows "dropDataset vol (c # name) = c # name"
  using assms by (cases vol) (auto simp: dropDataset_def cutPrefix_def hasPrefix_def)

lemma dropDataset_full:
  assumes "c \<in> {CHR ''@'', CHR ''#''}"
  shows "dropDataset vol (vol @ c # name) = c # name"
  using assms by (auto simp: dropDataset_def cutPrefix_def hasPrefix_iff)

text \<open>
  The three spellings of the snapshot that an incremental starts from (\<^verbatim>\<open>-i snap\<close>, \<^verbatim>\<open>-i @snap\<close>, \<^verbatim>\<open>-i dataset@snap\<close>) name the same snapshot, and the
  two of a bookmark the same bookmark; a bare name that starts like the dataset keeps all of it. The time is the one that zfs
  has for that snapshot or bookmark of the dataset.
\<close>

theorem resolveIncremental_spellings:
  assumes vol: "vol \<noteq> []" "CHR ''@'' \<notin> set vol" "CHR ''#'' \<notin> set vol"
    and name: "CHR ''@'' \<notin> set name" "CHR ''#'' \<notin> set name"
  shows "(\<forall>spelling \<in> {name, ''@'' @ name, vol @ ''@'' @ name}.
      resolveIncremental prop vol (snap\<lparr>Name := spelling\<rparr>) =
        (case GetCreationDate prop (vol @ ''@'' @ name) of Inl e \<Rightarrow> Inl e | Inr t \<Rightarrow> Inr (snap\<lparr>Name := name, CreationTime := t\<rparr>))) \<and>
    (\<forall>spelling \<in> {''#'' @ name, vol @ ''#'' @ name}.
      resolveIncremental prop vol (snap\<lparr>Name := spelling\<rparr>) =
        (case GetCreationDate prop (vol @ ''#'' @ name) of
           Inl e \<Rightarrow> Inl e | Inr t \<Rightarrow> Inr (snap\<lparr>Name := name, Bookmark := True, CreationTime := t\<rparr>)))"
proof -
  have plain: "\<not> hasPrefix name ''#''" "trimPrefix name ''@'' = name" using name by (auto simp: hasPrefix_iff trimPrefix_def)
  have signs: "trimPrefix (CHR ''@'' # name) ''@'' = name" "trimPrefix (CHR ''#'' # name) ''#'' = name"
    "hasPrefix (CHR ''#'' # name) ''#''" "\<not> hasPrefix (CHR ''@'' # name) ''#''"
    using trimPrefix_append [of "''@''" name] trimPrefix_append [of "''#''" name] by (simp_all add: hasPrefix_def)
  show ?thesis
    using vol name plain signs
    by (simp add: resolveIncremental_def dropDataset_plain dropDataset_sign dropDataset_full split: sum.splits)
qed

section \<open>The verdict of plan\<close>

text \<open>No error of putting the scenario together stands for a verdict.\<close>

definition inputError :: "cmd_error \<Rightarrow> bool" where
  "inputError e \<longleftrightarrow> (case e of ErrInvalidInput \<Rightarrow> True | BadInput _ \<Rightarrow> True | NotRead _ \<Rightarrow> True | NoPool _ \<Rightarrow> True | NoBackups _ \<Rightarrow> True | _ \<Rightarrow> False)"

lemma readPlanInput_error: "readPlanInput env path rd = Inl e \<Longrightarrow> inputError e"
  by (auto simp: readPlanInput_def inputError_def split: sum.splits)

lemma BackupsAtTargets_error: "BackupsAtTargets env vol j uris st = (Inl e, st') \<Longrightarrow> inputError e"
  by (induction uris arbitrary: st) (auto simp: inputError_def split: sum.splits prod.splits)

lemma planSnapshotsOf_error: "planSnapshotsOf env path sc = Inl e \<Longrightarrow> inputError e"
  using readPlanInput_error by (auto simp: planSnapshotsOf_def inputError_def split: sum.splits if_splits)

lemma planDestinations_error: "planDestinations env path args j sc st = (Inl e, st') \<Longrightarrow> inputError e"
  using readPlanInput_error BackupsAtTargets_error
  by (fastforce simp: planDestinations_def inputError_def Let_def split: sum.splits if_splits prod.splits)

lemma planScenario_error:
  assumes "planScenario env schedule snapshots manifests args j st = (Inl e, st')"
  shows "inputError e"
  using assms planSnapshotsOf_error planDestinations_error
  by (auto simp: planScenario_def Let_def inputError_def split: sum.splits if_splits)

lemma exitCode_inputError: "inputError e \<Longrightarrow> exitCode 0 PlanCmd (Some e) = 1"
  by (auto simp: exitCode_def inputError_def errNoOp_def errInFuture_def split: cmd_error.splits)

text \<open>A simulation with at least one run, and whether its checks passed.\<close>

definition checked :: "planEnv \<Rightarrow> Scenario \<Rightarrow> bool \<Rightarrow> bool" where
  "checked env sc ok \<longleftrightarrow>
     (case Run (peZone env) sc of None \<Rightarrow> False | Some sim \<Rightarrow> Steps sim \<noteq> [] \<and> (Simulation_Check sim (Checks sc) = []) = ok)"


section \<open>Signals\<close>

text \<open>
  The first signal cancels the run, decides the status of a command that then fails, and a second one ends the process at once with the
  status of its own.
\<close>

lemma signals_first_and_second:
  assumes "sig \<noteq> 0" "err \<noteq> None"
  shows "sgCancelled (onSignal sig SignalContext) \<and> sgExit (onSignal sig SignalContext) = None \<and>
    exitCode (sgInterruptedBy (onSignal sig SignalContext)) cmd err = 128 + sig \<and>
    sgExit (fold onSignal (sig2 # sigs) (onSignal sig SignalContext)) = Some (128 + sig2)"
proof -
  have stop: "fold onSignal sigs st = st" if "sgExit st \<noteq> None" for st
    using that by (induction sigs) (simp_all add: onSignal_def)
  have "sgExit (onSignal sig2 (onSignal sig SignalContext)) = Some (128 + sig2)" by (simp add: onSignal_def SignalContext_def)
  then have "sgExit (fold onSignal (sig2 # sigs) (onSignal sig SignalContext)) = Some (128 + sig2)" using stop by simp
  moreover have "exitCode sig cmd err = 128 + sig" using assms by (auto simp: exitCode_def)
  ultimately show ?thesis by (simp add: onSignal_def SignalContext_def)
qed

section \<open>Concrete command lines\<close>

definition exKey :: "string \<Rightarrow> string \<Rightarrow> entity" where
  "exKey fingerprint email = \<lparr>eFingerprint = fingerprint, eCreated = 0, eEmails = [email], eLocked = True, eSelfSig = Some \<lparr>sgCreated = 0, sgKeyLifetime = None, sgSigLifetime = Some 0\<rparr>,
     eSubkeys = [\<lparr>skFingerprint = fingerprint @ ''1'', skCreated = 0, skLocked = False, skSig = None, skEmbedded = None\<rparr>]\<rparr>"

definition exKeyEnv :: keyEnv where
  "exKeyEnv = \<lparr>kvPubRing = [exKey ''B'' ''b@x'', exKey ''A'' ''a@x''], kvSecRing = [exKey ''S'' ''s@x'', exKey ''A'' ''a@x''], kvPassphrase = [],
     kvPrompt = Inr ''pw'', kvOpens = (\<lambda>fingerprint p. p = ''pw'')\<rparr>"

definition exRootFlags :: rootFlags where
  "exRootFlags = \<lparr>rfNumCores = 2, rfLogLevel = ''Notice'', rfSecretKeyRingPath = ''sec'', rfPublicKeyRingPath = ''pub'', rfWorkingDirectory = ''~'',
     rfTrustSigners = [''b@x''], rfAllowKeyExpiry = False\<rparr>"

definition exFlagsJob :: JobInfo where
  "exFlagsJob = zeroJobInfo\<lparr>EncryptTo := ''a@x'', SignFrom := ''s@x'', MaxFileBuffer := 5, MaxParallelUploads := 4, MaxBackoffTime := 1, CompressionLevel := 6,
     Separator := ''|'', UploadChunkSize := 10, VolumeSize := 200, FullIfOlderThan := - minute, IncrementalSnapshot := zeroSnapshot\<lparr>Name := ''t@r''\<rparr>\<rparr>"

definition exZfsGet :: "string \<Rightarrow> string + string" where
  "exZfsGet target = (if target = ''t@s'' then Inr ''9'' else if target = ''t@r'' then Inr ''7'' else Inl ''no such dataset'')"

definition exStarted :: "(cmd_error + JobInfo) \<times> sendState" where
  "exStarted = validateSendFlags exSendEnv exKeyEnv exZfsGet exRootFlags [] False [''t@s'', ''s3://b/p,file:///d''] exFlagsJob exPartialCache"

lemma ex_started: "(case fst exStarted of Inl e \<Rightarrow> False | Inr j \<Rightarrow> Name (IncrementalSnapshot j) = ''r'' \<and> Destinations j = [''s3://b/p/'', ''file:///d''])"
  by code_simp

theorem validateSendFlags_sound_witness:
  "\<exists>j. fst exStarted = Inr j \<and> keyFor exRootFlags (kvSecRing exKeyEnv) ''s@x'' (SignKey j) \<and> ''t@s'' = VolumeName j @ ''@'' @ Name (BaseSnapshot j)"
proof -
  obtain j where j: "fst exStarted = Inr j" using ex_started by (cases "fst exStarted") simp_all
  then have run: "validateSendFlags exSendEnv exKeyEnv exZfsGet exRootFlags [] False [''t@s'', ''s3://b/p,file:///d''] exFlagsJob exPartialCache = (Inr j, snd exStarted)"
    unfolding exStarted_def by (metis prod.collapse)
  have "SignFrom exFlagsJob = ''s@x''" "\<not> usingSmartOption exFlagsJob" by (simp_all add: exFlagsJob_def usingSmartOption_def zeroJobInfo_def zeroManifest_def Manifest.defs)
  then show ?thesis using validateSendFlags_sound [OF run] j by simp
qed

definition exReceives :: "cmd_error + JobInfo" where
  "exReceives = validateReceiveFlags exKeyEnv exRootFlags 5 [''t@s'', ''file:///d'', ''r''] (exFlagsJob\<lparr>SignFrom := ''b@x''\<rparr>)"

lemma ex_receives: "(case exReceives of Inl e \<Rightarrow> False | Inr j \<Rightarrow> SignKey j = Some ''B'' \<and> LocalVolume j = ''r'')"
  by code_simp

theorem validateReceiveFlags_sound_witness: "\<exists>j. exReceives = Inr j \<and> SignKey j = Some ''B'' \<and> 0 < MaxFileBuffer j"
proof -
  obtain j where j: "exReceives = Inr j" "SignKey j = Some ''B''" using ex_receives by (auto split: sum.splits)
  from validateReceiveFlags_sound [OF j(1) [unfolded exReceives_def]] j show ?thesis by (intro exI [of _ j]) simp
qed

theorem resolveIncremental_spellings_witness:
  "resolveIncremental exZfsGet ''t'' (zeroSnapshot\<lparr>Name := ''t@r''\<rparr>) = Inr (zeroSnapshot\<lparr>Name := ''r'', CreationTime := epoch 7\<rparr>)"
proof -
  have "GetCreationDate exZfsGet ''t@r'' = Inr (epoch 7)" by code_simp
  then show ?thesis using resolveIncremental_spellings [of "''t''" "''r''" exZfsGet zeroSnapshot] by simp
qed

text \<open>A pool without a snapshot cannot be planned for: the one run simulated has an error, and a check fails.\<close>

definition exPlanEnv :: planEnv where
  "exPlanEnv = \<lparr>peSend = exSendEnv\<lparr>snPool := Inr []\<rparr>, peZone = exZone, peTimes = exParsers, peJson = (\<lambda>s. Inl ''json''), peReadFile = (\<lambda>path. Inr ''a''), peZero = exFixture\<rparr>"

definition exPlanJob :: JobInfo where "exPlanJob = zeroJobInfo\<lparr>Full := True, FullIfOlderThan := - minute\<rparr>"

definition exPlanScenario :: Scenario where
  "exPlanScenario = exFixture\<lparr>ScenarioJob := exPlanJob, Volume := ''t'', Snapshots := [], DestBackups := [[]], Completable := False\<rparr>"

lemma ex_planScenario: "planScenario exPlanEnv [] [] [] [''t''] exPlanJob st = (Inr exPlanScenario, st)"
proof -
  have "Resume exPlanJob = False" by (simp add: exPlanJob_def zeroJobInfo_def Manifest.defs)
  then show ?thesis by (simp add: planScenario_def planSnapshotsOf_def planDestinations_def exPlanEnv_def exPlanScenario_def exSendEnv_def)
qed

lemma Run_once: "isZero (Until s) \<Longrightarrow> \<exists>sim. Run env s = Some sim \<and> Steps sim = [fst (Scenario_run env s zeroTime (rsPool (startState s)) (rsDest (startState s)))]"
  by (simp add: Run_def Let_def split_def)

lemma ex_step_fails: "Err (fst (Scenario_run exZone exPlanScenario zeroTime (rsPool (startState exPlanScenario)) (rsDest (startState exPlanScenario)))) \<noteq> None"
  by code_simp


end
