(* ===== verification/Spec2Isabelle.thy ===== *)
theory Spec2Isabelle
  imports SimulatorProperties CleanProperties NameProperties Receive SendStream PipelineProperties Locks Sending VolumeProperties Commands
begin

text \<open>
  A verification library of zfsbackup-go, a program that sends ZFS snapshots to object stores and
  restores them.

  \<^bold>\<open>The program.\<close> \<^verbatim>\<open>send\<close> decides what to send (\<^verbatim>\<open>backup/plan.go\<close>), runs \<^verbatim>\<open>zfs send\<close>, cuts the stream
  into volumes and uploads them with a manifest that describes the set. \<^verbatim>\<open>list\<close>, \<^verbatim>\<open>clean\<close> and
  \<^verbatim>\<open>receive\<close> work from the manifests: they bring a local cache up to date with the destination
  (\<^verbatim>\<open>backup/sync.go\<close>), read and link the manifests (\<^verbatim>\<open>backup/list.go\<close>), and then delete what no
  manifest lists (\<^verbatim>\<open>backup/clean.go\<close>) or receive a chain of backups (\<^verbatim>\<open>backup/restore.go\<close>). \<^verbatim>\<open>plan\<close>
  simulates months of runs against a snapshot schedule and checks the outcome (\<^verbatim>\<open>backup/plan.go\<close>,
  \<^verbatim>\<open>backup/plan_schedule.go\<close>, \<^verbatim>\<open>backup/plan_checks.go\<close>).

  \<^bold>\<open>Theories\<close>, in the order in which they build on each other:
  \<^item> \<open>Prelude\<close>, \<open>Calendar\<close>: what is used of Go's library: strings, decimal numbers, stable sorting
    (locale \<open>strict_weak\<close>), instants and durations, civil dates in a location.
  \<^item> \<open>JobInfo\<close>, \<open>ObjectNames\<close>, \<open>NameProperties\<close> (\<^verbatim>\<open>files/jobinfo.go\<close>): the records \<open>SnapshotInfo\<close>,
    \<open>VolumeInfo\<close>, \<open>Manifest\<close> and \<open>JobInfo\<close>, the names of objects and their parser (locale
    \<open>object_naming\<close>: what a reader of names may rely on), flag checks, totals of a resumed send.
  \<^item> \<open>Zfs\<close> (\<^verbatim>\<open>zfs/zfs.go\<close>): the arguments of the commands and the parsers of listings.
  \<^item> \<open>Snapshots\<close>, \<open>Chains\<close>: eligible snapshots, snapshots on the pool, backups in order, and chains of
    backups (locale \<open>parent_links\<close>, interpreted on the links of a destination's manifests).
  \<^item> \<open>Planner\<close>, \<open>PlannerProofs\<close>, \<open>PlannerProperties\<close>, \<open>Examples\<close>: \<^verbatim>\<open>planSmart\<close> with every branch, error
    and warning; a panic is an error value, and excluded by a theorem.
  \<^item> \<open>Schedule\<close>, \<open>Simulator\<close>, \<open>Checks\<close>, \<open>SimulatorProperties\<close>: the snapshot policy, the simulated runs
    and the checks on them.
  \<^item> \<open>Readers\<close>, \<open>Cache\<close>, \<open>CacheProperties\<close>: bounded reading of manifests and the cache, over a directory
    and a record of answers of the destination; every request is recorded.
  \<^item> \<open>Clean\<close>, \<open>CleanProperties\<close>: the rounds of reading and locking, the decision, and the deletions as a
    step relation over concurrent workers.
  \<^item> \<open>Listing\<close>, \<open>Restore\<close>, \<open>RestoreProperties\<close>, \<open>Receive\<close>: linked manifests, the chain of
    \<^verbatim>\<open>receive --auto\<close> and its refusals, verified downloads, and the ordering pipeline as a step relation.
  \<^item> \<open>Fixtures\<close> (\<^verbatim>\<open>backup/plan_fixtures.go\<close>): scenario files, and creation times taken from manifests.
  \<^item> \<open>SendStream\<close> (\<^verbatim>\<open>sendStream\<close>): cutting the stream into volumes, and skipping what a resume keeps.
  \<^item> \<open>Resume\<close>: the sets at the destinations, completing a partly uploaded one, and \<^verbatim>\<open>tryResume\<close>.
  \<^item> \<open>Locks\<close>: the lock of a dataset and the file with the boot it was taken in, over restarts of a host.
  \<^item> \<open>Sending\<close>: \<^verbatim>\<open>ProcessSmartOptions\<close>, \<^verbatim>\<open>Backup\<close> from its options to its first byte, and the dry run.
  \<^item> \<open>Pipeline\<close>, \<open>PipelineProofs\<close>, \<open>PipelineProperties\<close>: the goroutines of \<^verbatim>\<open>Backup\<close> with their channels,
    tokens and counters; one action is one step of one goroutine.
  \<^item> \<open>Volumes\<close>, \<open>VolumeProperties\<close> (\<^verbatim>\<open>files/volumeinfo.go\<close>): the layers through which a volume is written,
    \<^verbatim>\<open>Close\<close>, and extracting and reading it; these give the contents of \<open>SendStream\<close> and the codec of \<open>Readers\<close>.
  \<^item> \<open>Backends\<close> (\<^verbatim>\<open>backends/\<close>): URIs and their spellings, and a directory as a destination (locale
    \<open>object_store\<close>: what the rest of the program may rely on of a destination).
  \<^item> \<open>Commands\<close> (\<^verbatim>\<open>cmd/\<close>, \<^verbatim>\<open>pgp/\<close>): what each command checks before it starts, the keys, snapshots and destinations
    of a job, \<^verbatim>\<open>plan\<close> from its flags to its verdict, signals and the exit status.

  \<^bold>\<open>What is shown.\<close> A planned incremental extends a chain that restores at every destination, a planned
  full is needed, nothing newer is missed, and the planner neither panics nor idles. Every backup a
  simulation records restores, and the simulator's own checks find nothing. A send goes on only with the
  lock, which no other process has, to destinations without the set; its volumes are exactly the stream,
  complete and with true checksums; a resume builds only on verified volumes of the same stream; and in
  every interleaving a final manifest is written only after every volume it lists is at every
  destination, and a run in which nothing fails gets there. \<^verbatim>\<open>clean\<close> deletes nothing a
  live set, another job or a running send needs, under every interleaving. A manifest read through
  the cache is the one its name promises, refused ones do not stay, and with keys only a signed one is
  decoded. \<^verbatim>\<open>receive --auto\<close> ends, its
  chain can be received in turn, and \<^verbatim>\<open>--force\<close> alone destroys nothing. Volumes reach \<^verbatim>\<open>zfs receive\<close>
  verified and in order, through a decompressor that was asked for. Names, volumes, schedules, scenarios
  and listings round trip. A command starts only with the keys its flags name and with destinations that
  have a backend; all spellings of a destination share one cache; a directory keeps what is uploaded to it; no
  password of a URI is logged; and the exit status of \<^verbatim>\<open>plan\<close> is its verdict.

  \<^bold>\<open>Conventions.\<close> Go strings are lists of bytes; instants are nanoseconds as unbounded integers, and
  where Go stays within 64 bits the wrap-around or saturation is written out; sizes are 64-bit words.
  Errors are values of datatypes that hold what the message is made from. A loop that could run
  forever is a \<^theory_text>\<open>partial_function\<close> to an option, and that it returns is a theorem. No fuel is used.

  \<^bold>\<open>Parameters.\<close> Code outside the repository is an argument: MD5, SHA256 and the other checksums, gzip,
  external compressors and OpenPGP (\<open>volumeEnv\<close>, \<open>extractEnv\<close>), JSON (\<open>Codec\<close>, \<open>sendEnv\<close>), a destination's answers
  (\<open>Backend\<close>, \<open>destination\<close>), file system errors (\<open>fsEnv\<close>, \<open>volumeIO\<close>, \<open>fileEnv\<close>, \<open>lockEnv\<close>), what \<^verbatim>\<open>zfs\<close> reports of the
  host (\<open>hostView\<close>, \<open>procEnv\<close>), the key rings and the passphrase (\<open>keyEnv\<close>), time zones (\<open>location\<close>), Go's parsers of
  durations, times and URIs. Where a property needs
  more than that they are functions, it is a hypothesis with a name, such as \<open>lawfulEnv\<close> (a writer does
  not take back bytes), \<open>gzipReadsBack\<close>, or that MD5 does not collide on the keys in use.

  \<^bold>\<open>Not modelled.\<close> Volumes in pipes within the upload pipeline (\<^verbatim>\<open>--maxFileBuffer 0\<close>; \<open>Volumes\<close> has their
  layers), \<^verbatim>\<open>Abort\<close>, \<^verbatim>\<open>Seek\<close> and \<^verbatim>\<open>ReadAt\<close> of a volume, the report at the end of a send; the process \<^verbatim>\<open>zfs receive\<close>; the
  clients of the cloud stores and of ssh and the reading of key rings, which are calls of libraries; the texts that
  are printed; the definitions of flags and the log; the double of \<^verbatim>\<open>zfs\<close> for tests.
\<close>

end
